(* ===== verification/Eventus_Prelude.thy ===== *)
theory Eventus_Prelude
  imports Main "HOL-Library.AList"
begin

text \<open>
  The prelude of the development: the rule collections the component theories fill and use, and
  the facts about dictionaries, sorted logs and paging that several components share.

  A Python \<open>dict\<close> that is iterated over is an association list with distinct keys, in insertion
  order: \<open>d[k] = v\<close> is \<open>AList.update k v d\<close> (in place when the key is there, appended
  otherwise), \<open>d.pop(k, None)\<close> is \<open>AList.delete k d\<close>, \<open>d.get(k)\<close> is \<open>map_of d k\<close>. A Python
  \<open>set\<close> that is iterated over is a list without duplicates.
\<close>

named_theorems dict_simps \<open>lookups after updates of dictionaries\<close>
named_theorems store_defs \<open>definitions of the store operations\<close>
named_theorems event_simps \<open>fields of freshly built events\<close>
named_theorems log_facts \<open>order and paging of the event log\<close>

type_synonym ('k, 'v) dict = "('k \<times> 'v) list"

definition dict_ok :: "('k, 'v) dict \<Rightarrow> bool" where
  "dict_ok d \<longleftrightarrow> distinct (map fst d)"

abbreviation dict_keys :: "('k, 'v) dict \<Rightarrow> 'k list" where
  "dict_keys d \<equiv> map fst d"

text \<open>\<open>d.update(other)\<close>: the entries of \<open>other\<close> one after the other.\<close>

fun dict_update :: "('k, 'v) dict \<Rightarrow> ('k, 'v) dict \<Rightarrow> ('k, 'v) dict" where
  "dict_update d [] = d"
| "dict_update d ((k, v) # rest) = dict_update (AList.update k v d) rest"

text \<open>A run of \<open>d.pop(k, None)\<close>.\<close>

fun dict_pops :: "('k, 'v) dict \<Rightarrow> 'k list \<Rightarrow> ('k, 'v) dict" where
  "dict_pops d [] = d"
| "dict_pops d (k # ks) = dict_pops (AList.delete k d) ks"

subsection \<open>Dictionaries\<close>

lemma map_of_dict_set [dict_simps]:
  "map_of (AList.update k v d) k' = (if k' = k then Some v else map_of d k')"
  by (simp add: update_conv')

lemma map_of_dict_pop [dict_simps]:
  "map_of (AList.delete k d) k' = (if k' = k then None else map_of d k')"
  by (simp add: delete_conv')

lemma dict_ok_Nil [simp]: "dict_ok []"
  by (simp add: dict_ok_def)

lemma dict_ok_set [simp, intro]: "dict_ok d \<Longrightarrow> dict_ok (AList.update k v d)"
  by (simp add: dict_ok_def distinct_update)

lemma dict_ok_pop [simp, intro]: "dict_ok d \<Longrightarrow> dict_ok (AList.delete k d)"
  by (simp add: dict_ok_def distinct_delete)

lemma dict_ok_update [simp, intro]: "dict_ok d \<Longrightarrow> dict_ok (dict_update d e)"
  by (induction d e rule: dict_update.induct) auto

lemma dict_ok_pops [simp, intro]: "dict_ok d \<Longrightarrow> dict_ok (dict_pops d ks)"
  by (induction d ks rule: dict_pops.induct) auto

lemma dict_ok_Cons: "dict_ok ((k, v) # d) \<longleftrightarrow> k \<notin> set (dict_keys d) \<and> dict_ok d"
  by (simp add: dict_ok_def)

lemma map_of_dict_update:
  "dict_ok e \<Longrightarrow> map_of (dict_update d e) k = (case map_of e k of None \<Rightarrow> map_of d k | Some v \<Rightarrow> Some v)"
proof (induction d e rule: dict_update.induct)
  case (1 d)
  then show ?case by simp
next
  case (2 d k1 v1 rest)
  then have "k1 \<notin> set (dict_keys rest)" and ok: "dict_ok rest"
    by (simp_all add: dict_ok_Cons)
  then have "map_of rest k1 = None"
    by (simp add: map_of_eq_None_iff)
  with "2.IH" [OF ok] show ?case
    by (auto simp: dict_simps split: option.splits)
qed

lemma map_of_dict_pops:
  "map_of (dict_pops d ks) k = (if k \<in> set ks then None else map_of d k)"
  by (induction d ks rule: dict_pops.induct) (auto simp: dict_simps)

lemma map_of_mem_dict: "dict_ok d \<Longrightarrow> (k, v) \<in> set d \<longleftrightarrow> map_of d k = Some v"
  by (auto simp: dict_ok_def)

lemma dict_keys_set: "set (dict_keys (AList.update k v d)) = insert k (set (dict_keys d))"
  by (auto simp: update_keys image_iff)

lemma dict_keys_pop: "set (dict_keys (AList.delete k d)) = set (dict_keys d) - {k}"
  by (auto simp: delete_keys)

lemma fst_image_set [simp]: "fst ` set (AList.update k v d) = insert k (fst ` set d)"
  by (metis dict_keys_set set_map)

lemma fst_image_pop [simp]: "fst ` set (AList.delete k d) = fst ` set d - {k}"
  by (metis dict_keys_pop set_map)

lemma fst_image_update [simp]: "fst ` set (dict_update d e) = fst ` set d \<union> fst ` set e"
  by (induction d e rule: dict_update.induct) auto

lemma fst_image_pops [simp]: "fst ` set (dict_pops d ks) = fst ` set d - set ks"
  by (induction d ks rule: dict_pops.induct) auto

lemma map_of_map_snd:
  "map_of (map (\<lambda>(k, v). (k, f k v)) d) k = map_option (f k) (map_of d k)"
  by (induction d) auto

lemma dict_ok_map_snd [simp]: "dict_ok (map (\<lambda>(k, v). (k, f k v)) d) = dict_ok d"
  by (simp add: dict_ok_def comp_def case_prod_beta)

subsection \<open>Strictly ascending logs\<close>

text \<open>
  A log is a list whose positions (\<open>seq\<close>) ascend strictly; \<open>read_after\<close> filters on the position
  and takes a page. These facts carry every reader of the log.
\<close>

definition ascending :: "('a \<Rightarrow> int) \<Rightarrow> 'a list \<Rightarrow> bool" where
  "ascending f xs \<longleftrightarrow> sorted_wrt (<) (map f xs)"

definition page_after :: "('a \<Rightarrow> int) \<Rightarrow> 'a list \<Rightarrow> int \<Rightarrow> nat \<Rightarrow> 'a list" where
  "page_after f xs s n = take n (filter (\<lambda>x. s < f x) xs)"

definition last_pos :: "('a \<Rightarrow> int) \<Rightarrow> int \<Rightarrow> 'a list \<Rightarrow> int" where
  "last_pos f s xs = (if xs = [] then s else f (last xs))"

lemma ascending_Nil [simp]: "ascending f []"
  by (simp add: ascending_def)

lemma ascending_Cons [simp]:
  "ascending f (x # xs) \<longleftrightarrow> (\<forall>y\<in>set xs. f x < f y) \<and> ascending f xs"
  by (simp add: ascending_def)

lemma ascending_append:
  "ascending f (xs @ ys) \<longleftrightarrow> ascending f xs \<and> ascending f ys \<and> (\<forall>x\<in>set xs. \<forall>y\<in>set ys. f x < f y)"
  by (auto simp: ascending_def sorted_wrt_append)

lemma ascending_filter [intro]: "ascending f xs \<Longrightarrow> ascending f (filter P xs)"
  by (induction xs) auto

lemma ascending_take [intro]: "ascending f xs \<Longrightarrow> ascending f (take n xs)"
  by (metis append_take_drop_id ascending_append)

lemma ascending_inj: "ascending f xs \<Longrightarrow> x \<in> set xs \<Longrightarrow> y \<in> set xs \<Longrightarrow> f x = f y \<Longrightarrow> x = y"
  by (induction xs) (auto dest: bspec)

lemma page_after_ascending [log_facts]: "ascending f xs \<Longrightarrow> ascending f (page_after f xs s n)"
  by (auto simp: page_after_def)

lemma page_after_above [log_facts]: "x \<in> set (page_after f xs s n) \<Longrightarrow> s < f x \<and> x \<in> set xs"
  by (auto simp: page_after_def dest: in_set_takeD)

lemma last_pos_Nil [simp]: "last_pos f s [] = s"
  by (simp add: last_pos_def)

lemma last_pos_Cons [simp]: "last_pos f s (x # xs) = last_pos f (f x) xs"
  by (simp add: last_pos_def)

lemma last_pos_append: "last_pos f s (xs @ ys) = last_pos f (last_pos f s xs) ys"
  by (induction xs arbitrary: s) simp_all

lemma last_pos_mono: "\<forall>x\<in>set xs. s < f x \<Longrightarrow> s \<le> last_pos f s xs"
  by (cases xs rule: rev_cases) (auto simp: last_pos_def)

lemma last_pos_upper: "ascending f xs \<Longrightarrow> x \<in> set xs \<Longrightarrow> f x \<le> last_pos f s xs"
  by (cases xs rule: rev_cases) (auto simp: last_pos_def ascending_append dest: less_imp_le)

text \<open>
  The paging law: the page after a position, followed by what lies after the page's last
  position, is all that lies after the first position. No event is skipped and none is read
  twice, wherever the pages are cut.
\<close>

lemma ascending_split_after:
  assumes "ascending f xs"
  shows "filter (\<lambda>x. last_pos f s (take n (filter (\<lambda>x. s < f x) xs)) < f x) xs
         = drop n (filter (\<lambda>x. s < f x) xs)"
proof -
  let ?ys = "filter (\<lambda>x. s < f x) xs"
  let ?l = "last_pos f s (take n ?ys)"
  have asc: "ascending f ?ys" using assms by (rule ascending_filter)
  have sl: "s \<le> ?l" by (rule last_pos_mono) (auto dest: in_set_takeD)
  have low: "\<not> ?l < f x" if "x \<in> set (take n ?ys)" for x
    using last_pos_upper [OF ascending_take [OF asc] that, of s] by simp
  have high: "?l < f x" if x: "x \<in> set (drop n ?ys)" for x
  proof (cases "take n ?ys = []")
    case True
    then show ?thesis using x by (auto dest: in_set_dropD)
  next
    case False
    then have "last (take n ?ys) \<in> set (take n ?ys)" by simp
    with asc x have "f (last (take n ?ys)) < f x"
      by (metis append_take_drop_id ascending_append)
    with False show ?thesis by (simp add: last_pos_def)
  qed
  have "filter (\<lambda>x. ?l < f x) xs = filter (\<lambda>x. ?l < f x) ?ys"
    using sl by (simp, intro filter_cong) auto
  also have "\<dots> = filter (\<lambda>x. ?l < f x) (take n ?ys @ drop n ?ys)"
    by simp
  also have "\<dots> = drop n ?ys"
    using low high by (simp only: filter_append) (simp add: filter_False filter_True)
  finally show ?thesis .
qed

lemma page_after_step [log_facts]:
  assumes "ascending f xs"
  shows "page_after f xs s n @ filter (\<lambda>x. last_pos f s (page_after f xs s n) < f x) xs
         = filter (\<lambda>x. s < f x) xs"
  using ascending_split_after [OF assms, of s n] by (simp add: page_after_def)

lemma page_after_empty_iff [log_facts]:
  "0 < n \<Longrightarrow> page_after f xs s n = [] \<longleftrightarrow> (\<forall>x\<in>set xs. f x \<le> s)"
  by (auto simp: page_after_def filter_empty_conv not_less)

lemma page_after_short [log_facts]:
  "length (page_after f xs s n) < n \<Longrightarrow> page_after f xs s n = filter (\<lambda>x. s < f x) xs"
  by (auto simp: page_after_def)

subsection \<open>Sums as results\<close>

lemma sum_case_Inr_iff:
  "(case r of Inl e \<Rightarrow> Inl e | Inr x \<Rightarrow> f x) = Inr y \<longleftrightarrow> (\<exists>x. r = Inr x \<and> f x = Inr y)"
  by (cases r) auto

end
