(* ===== verification/Py_Text.thy ===== *)
theory Py_Text
  imports Eventus_Prelude Complex_Main "HOL-Library.Word"
begin

text \<open>
  The parts of Python's \<open>str\<close>, \<open>int\<close> and \<open>Decimal\<close> the sources use. A \<open>str\<close> is a list of
  characters; a character is a code point below 256, so \<open>encode()\<close> is UTF-8 restricted to one and
  two byte sequences. \<open>int(text)\<close> is \<open>py_int\<close> (None for \<open>ValueError\<close>), an interpolated integer is
  \<open>str_int\<close>. A \<open>Decimal\<close> is a coefficient and an exponent of ten; infinities, NaN and negative
  zero are outside the model.
\<close>

subsection \<open>Characters and encoding\<close>

abbreviation code :: "char \<Rightarrow> nat" where
  "code c \<equiv> of_char c"

definition is_digit :: "char \<Rightarrow> bool" where
  "is_digit c \<longleftrightarrow> 48 \<le> code c \<and> code c \<le> 57"

definition is_ascii :: "string \<Rightarrow> bool" where
  "is_ascii s \<longleftrightarrow> (\<forall>c\<in>set s. code c < 128)"

definition is_space :: "char \<Rightarrow> bool" where
  "is_space c \<longleftrightarrow> (9 \<le> code c \<and> code c \<le> 13) \<or> (28 \<le> code c \<and> code c \<le> 32) \<or> code c = 133 \<or> code c = 160"

definition py_strip :: "string \<Rightarrow> string" where
  "py_strip s = rev (dropWhile is_space (rev (dropWhile is_space s)))"

definition char_lower :: "char \<Rightarrow> char" where
  "char_lower c = (if (65 \<le> code c \<and> code c \<le> 90) \<or> (192 \<le> code c \<and> code c \<le> 222 \<and> code c \<noteq> 215)
                   then char_of (code c + 32) else c)"

definition py_lower :: "string \<Rightarrow> string" where
  "py_lower s = map char_lower s"

definition starts_with :: "string \<Rightarrow> string \<Rightarrow> bool" where
  "starts_with s p \<longleftrightarrow> take (length p) s = p"

definition utf8_char :: "char \<Rightarrow> 8 word list" where
  "utf8_char c = (if code c < 128 then [of_nat (code c)]
                  else [of_nat (192 + code c div 64), of_nat (128 + code c mod 64)])"

definition utf8 :: "string \<Rightarrow> 8 word list" where
  "utf8 s = concat (map utf8_char s)"

lemma starts_with_append [simp]: "starts_with (p @ s) p"
  by (simp add: starts_with_def)

lemma starts_with_iff: "starts_with s p \<longleftrightarrow> (\<exists>t. s = p @ t)"
  by (metis append_eq_conv_conj append_take_drop_id starts_with_def)

subsection \<open>Integers as text\<close>

definition digit_char :: "nat \<Rightarrow> char" where
  "digit_char d = char_of (48 + d)"

definition digit_val :: "char \<Rightarrow> nat" where
  "digit_val c = code c - 48"

fun nat_digits :: "nat \<Rightarrow> string" where
  "nat_digits n = (if n < 10 then [digit_char n] else nat_digits (n div 10) @ [digit_char (n mod 10)])"

declare nat_digits.simps [simp del]

definition str_int :: "int \<Rightarrow> string" where
  "str_int i = (if i < 0 then ''-'' @ nat_digits (nat (- i)) else nat_digits (nat i))"

text \<open>The digits of an integer literal: single underscores may separate digits.\<close>

fun scan_digits :: "nat \<Rightarrow> bool \<Rightarrow> string \<Rightarrow> nat option" where
  "scan_digits acc after_digit [] = (if after_digit then Some acc else None)"
| "scan_digits acc after_digit (c # cs) =
     (if is_digit c then scan_digits (10 * acc + digit_val c) True cs
      else if c = CHR ''_'' \<and> after_digit then scan_digits acc False cs
      else None)"

definition py_int :: "string \<Rightarrow> int option" where
  "py_int raw = (case py_strip raw of
       [] \<Rightarrow> None
     | c # cs \<Rightarrow>
         if c = CHR ''-'' then map_option (\<lambda>n. - int n) (scan_digits 0 False cs)
         else if c = CHR ''+'' then map_option int (scan_digits 0 False cs)
         else map_option int (scan_digits 0 False (c # cs)))"

lemma code_digit_char [simp]: "d < 10 \<Longrightarrow> code (digit_char d) = 48 + d"
  by (simp add: digit_char_def)

lemma is_digit_digit_char [simp]: "d < 10 \<Longrightarrow> is_digit (digit_char d)"
  by (simp add: is_digit_def)

lemma digit_val_digit_char [simp]: "d < 10 \<Longrightarrow> digit_val (digit_char d) = d"
  by (simp add: digit_val_def)

lemma nat_digits_nonempty [simp]: "nat_digits n \<noteq> []"
  by (subst nat_digits.simps) simp

lemma nat_digits_all_digits: "c \<in> set (nat_digits n) \<Longrightarrow> is_digit c"
proof (induction n rule: nat_digits.induct)
  case (1 n)
  then show ?case
    by (subst (asm) (2) nat_digits.simps) (auto split: if_splits)
qed

lemma scan_nat_digits:
  "scan_digits acc b (nat_digits n @ cs)
     = scan_digits (acc * 10 ^ length (nat_digits n) + n) True cs"
proof (induction n arbitrary: acc b cs rule: nat_digits.induct)
  case (1 n)
  show ?case
  proof (cases "n < 10")
    case True
    then show ?thesis
      by (simp add: nat_digits.simps [of n] algebra_simps)
  next
    case False
    then have "scan_digits acc b (nat_digits n @ cs)
        = scan_digits (acc * 10 ^ length (nat_digits (n div 10)) + n div 10) True (digit_char (n mod 10) # cs)"
      using "1.IH" [OF False, of acc b "digit_char (n mod 10) # cs"] by (simp add: nat_digits.simps [of n])
    also have "\<dots> = scan_digits (10 * (acc * 10 ^ length (nat_digits (n div 10)) + n div 10) + n mod 10) True cs"
      by simp
    also have "10 * (acc * 10 ^ length (nat_digits (n div 10)) + n div 10) + n mod 10
        = acc * 10 ^ length (nat_digits n) + n"
      using False by (simp add: nat_digits.simps [of n] algebra_simps)
    finally show ?thesis .
  qed
qed

lemma digit_not_space: "is_digit c \<Longrightarrow> \<not> is_space c"
  by (auto simp: is_digit_def is_space_def)

lemma dropWhile_hd: "xs \<noteq> [] \<Longrightarrow> \<not> P (hd xs) \<Longrightarrow> dropWhile P xs = xs"
  by (cases xs) auto

lemma py_strip_ends: "s \<noteq> [] \<Longrightarrow> \<not> is_space (hd s) \<Longrightarrow> \<not> is_space (last s) \<Longrightarrow> py_strip s = s"
  by (simp add: py_strip_def dropWhile_hd hd_rev)

lemma str_int_strip: "py_strip (str_int i) = str_int i"
proof -
  have d: "\<not> is_space (hd (nat_digits n))" "\<not> is_space (last (nat_digits n))" for n
    by (meson digit_not_space hd_in_set last_in_set nat_digits_all_digits nat_digits_nonempty)+
  have "\<not> is_space (CHR ''-'')" by (simp add: is_space_def)
  with d show ?thesis
    by (intro py_strip_ends) (auto simp: str_int_def)
qed

lemma digit_not_sign: "is_digit c \<Longrightarrow> c \<noteq> CHR ''-'' \<and> c \<noteq> CHR ''+''"
  by (auto simp: is_digit_def)

lemma py_int_str_int [simp]: "py_int (str_int i) = Some i"
proof (cases "i < 0")
  case True
  then show ?thesis
    using scan_nat_digits [of 0 False "nat (- i)" "[]"]
    unfolding py_int_def str_int_strip by (simp add: str_int_def)
next
  case False
  obtain c cs where cs: "nat_digits (nat i) = c # cs"
    using nat_digits_nonempty [of "nat i"] by (cases "nat_digits (nat i)") auto
  then have "c \<noteq> CHR ''-'' \<and> c \<noteq> CHR ''+''"
    using nat_digits_all_digits [of c "nat i"] digit_not_sign by auto
  with False cs show ?thesis
    using scan_nat_digits [of 0 False "nat i" "[]"]
    unfolding py_int_def str_int_strip by (simp add: str_int_def)
qed

lemma str_int_inj: "str_int i = str_int j \<longleftrightarrow> i = j"
  by (metis option.inject py_int_str_int)

lemma str_int_ascii: "is_ascii (str_int i)"
proof -
  have "code c < 128" if "c \<in> set (nat_digits n)" for c n
    using nat_digits_all_digits [OF that] by (simp add: is_digit_def)
  then show ?thesis by (auto simp: is_ascii_def str_int_def)
qed

text \<open>The number a run of digits stands for.\<close>

definition digits_value :: "string \<Rightarrow> nat" where
  "digits_value ds = foldl (\<lambda>acc c. 10 * acc + digit_val c) 0 ds"

lemma digits_value_append: "foldl (\<lambda>acc c. 10 * acc + digit_val c) a (xs @ [c])
    = 10 * foldl (\<lambda>acc c. 10 * acc + digit_val c) a xs + digit_val c"
  by simp

lemma digits_value_nat_digits [simp]: "digits_value (nat_digits n) = n"
proof (induction n rule: nat_digits.induct)
  case (1 n)
  then show ?case
    by (subst nat_digits.simps) (auto simp: digits_value_def)
qed

lemma digits_value_zeros [simp]: "digits_value (replicate k (CHR ''0'') @ s) = digits_value s"
  by (induction k) (simp_all add: digits_value_def digit_val_def)

lemma length_nat_digits: "n < 10 ^ w \<Longrightarrow> 0 < w \<Longrightarrow> length (nat_digits n) \<le> w"
proof (induction n arbitrary: w rule: nat_digits.induct)
  case (1 n)
  show ?case
  proof (cases "n < 10")
    case False
    obtain v where w: "w = Suc v" using 1(3) by (cases w) auto
    then have v: "w = Suc v" "0 < v" using 1(2) False by (cases v; simp)+
    then have "n div 10 < 10 ^ v" using 1(2) by (simp add: less_mult_imp_div_less mult.commute)
    then have "length (nat_digits (n div 10)) \<le> v" using "1.IH" False v by blast
    then show ?thesis using False v by (simp add: nat_digits.simps [of n])
  qed (use 1 in \<open>simp add: nat_digits.simps [of n]\<close>)
qed

subsection \<open>Decimals\<close>

datatype decimal = Decimal (coef: int) (expo: int)

text \<open>Comparison after bringing both to the smaller exponent.\<close>

definition dec_scaled :: "int \<Rightarrow> decimal \<Rightarrow> int" where
  "dec_scaled e d = coef d * 10 ^ nat (expo d - e)"

definition dec_less :: "decimal \<Rightarrow> decimal \<Rightarrow> bool" where
  "dec_less a b = (let e = min (expo a) (expo b) in dec_scaled e a < dec_scaled e b)"

definition dec_eq :: "decimal \<Rightarrow> decimal \<Rightarrow> bool" where
  "dec_eq a b = (let e = min (expo a) (expo b) in dec_scaled e a = dec_scaled e b)"

definition dec_of_int :: "int \<Rightarrow> decimal" where
  "dec_of_int i = Decimal i 0"

text \<open>The value of a decimal, to which the comparison is exact.\<close>

definition dec_val :: "decimal \<Rightarrow> rat" where
  "dec_val d = of_int (coef d) * (if 0 \<le> expo d then 10 ^ nat (expo d) else 1 / 10 ^ nat (- expo d))"

lemma dec_scaled_val:
  assumes "e \<le> expo d"
  shows "dec_val d = of_int (dec_scaled e d) * (if 0 \<le> e then 10 ^ nat e else 1 / 10 ^ nat (- e))"
proof -
  consider "0 \<le> e" | "e < 0" "0 \<le> expo d" | "e < 0" "expo d < 0" by linarith
  then show ?thesis
  proof cases
    case 1
    with assms have "nat (expo d) = nat (expo d - e) + nat e" by simp
    with 1 assms show ?thesis by (simp add: dec_val_def dec_scaled_def power_add)
  next
    case 2
    then have "nat (expo d - e) = nat (expo d) + nat (- e)" by simp
    with 2 show ?thesis by (simp add: dec_val_def dec_scaled_def power_add)
  next
    case 3
    with assms have "nat (- e) = nat (expo d - e) + nat (- expo d)" by simp
    with 3 show ?thesis by (simp add: dec_val_def dec_scaled_def power_add)
  qed
qed

lemma dec_less_val: "dec_less a b \<longleftrightarrow> dec_val a < dec_val b"
proof -
  let ?e = "min (expo a) (expo b)"
  let ?u = "(if 0 \<le> ?e then 10 ^ nat ?e else 1 / 10 ^ nat (- ?e)) :: rat"
  have "0 < ?u" by simp
  moreover have "dec_val a = of_int (dec_scaled ?e a) * ?u" "dec_val b = of_int (dec_scaled ?e b) * ?u"
    by (rule dec_scaled_val, simp)+
  ultimately show ?thesis by (simp only: mult_less_cancel_right_pos of_int_less_iff) (simp add: dec_less_def Let_def)
qed

text \<open>\<open>str(Decimal)\<close>: plain notation for a small exponent, scientific notation otherwise.\<close>

definition dec_str :: "decimal \<Rightarrow> string" where
  "dec_str d =
     (let ds = nat_digits (nat \<bar>coef d\<bar>);
          left = expo d + int (length ds);
          point = (if expo d \<le> 0 \<and> - 6 < left then left else 1);
          body = (if point \<le> 0 then ''0.'' @ replicate (nat (- point)) (CHR ''0'') @ ds
                  else if int (length ds) \<le> point then ds @ replicate (nat (point - int (length ds))) (CHR ''0'')
                  else take (nat point) ds @ ''.'' @ drop (nat point) ds);
          ex = (if left = point then []
                else ''E'' @ (if 0 \<le> left - point then ''+'' else []) @ str_int (left - point))
      in (if coef d < 0 then ''-'' else []) @ body @ ex)"

subsection \<open>Hexadecimal\<close>

definition hex_digit :: "nat \<Rightarrow> char" where
  "hex_digit d = (if d < 10 then char_of (48 + d) else char_of (87 + d))"

definition hex_byte :: "8 word \<Rightarrow> string" where
  "hex_byte b = [hex_digit (unat b div 16), hex_digit (unat b mod 16)]"

definition hex_string :: "8 word list \<Rightarrow> string" where
  "hex_string bs = concat (map hex_byte bs)"

lemma hex_digit_ascii: "d < 16 \<Longrightarrow> code (hex_digit d) < 128"
  by (simp add: hex_digit_def)

lemma hex_string_ascii: "is_ascii (hex_string bs)"
proof -
  have "unat (b :: 8 word) div 16 < 16" for b
  proof -
    have "unat b < 2 ^ LENGTH(8)" by (rule unsigned_less)
    then show ?thesis by simp
  qed
  then show ?thesis by (auto simp: is_ascii_def hex_string_def hex_byte_def hex_digit_ascii)
qed

lemma length_hex_string [simp]: "length (hex_string bs) = 2 * length bs"
  by (induction bs) (simp_all add: hex_string_def hex_byte_def)

end
