(* ===== verification/Py_Datetime.thy ===== *)
theory Py_Datetime
  imports Py_Text
begin

text \<open>
  Python's \<open>datetime\<close> as the sources use it: the broken-down fields with an optional UTC offset in
  seconds (None is a naive datetime), \<open>isoformat\<close>, \<open>datetime.fromtimestamp(n, tz=UTC)\<close> and the
  comparisons. Comparing a naive with an aware datetime is the \<open>TypeError\<close> of Python, here None.
  Dates are the proleptic Gregorian calendar, days counted from 0001-01-01 as day 1, as
  \<open>datetime.toordinal\<close> does.
\<close>

record datetime =
  dt_year :: int
  dt_month :: int
  dt_day :: int
  dt_hour :: int
  dt_minute :: int
  dt_second :: int
  dt_micro :: int
  utc_offset :: "int option"

subsection \<open>The calendar\<close>

definition leap_year :: "int \<Rightarrow> bool" where
  "leap_year y \<longleftrightarrow> y mod 4 = 0 \<and> (y mod 100 \<noteq> 0 \<or> y mod 400 = 0)"

definition days_before_year :: "int \<Rightarrow> int" where
  "days_before_year y = (let p = y - 1 in p * 365 + p div 4 - p div 100 + p div 400)"

definition days_in_month :: "int \<Rightarrow> int \<Rightarrow> int" where
  "days_in_month y m =
     (if m = 2 then (if leap_year y then 29 else 28)
      else if m \<in> {4, 6, 9, 11} then 30 else 31)"

definition days_before_month :: "int \<Rightarrow> int \<Rightarrow> int" where
  "days_before_month y m = sum_list (map (days_in_month y) [1..m - 1])"

definition to_ordinal :: "datetime \<Rightarrow> int" where
  "to_ordinal d = days_before_year (dt_year d) + days_before_month (dt_year d) (dt_month d) + dt_day d"

definition day_seconds :: "datetime \<Rightarrow> int" where
  "day_seconds d = dt_hour d * 3600 + dt_minute d * 60 + dt_second d"

text \<open>Microseconds since the start of day 0, local time and UTC.\<close>

definition local_micros :: "datetime \<Rightarrow> int" where
  "local_micros d = (to_ordinal d * 86400 + day_seconds d) * 1000000 + dt_micro d"

definition instant :: "int \<Rightarrow> datetime \<Rightarrow> int" where
  "instant off d = local_micros d - off * 1000000"

definition dt_le :: "datetime \<Rightarrow> datetime \<Rightarrow> bool option" where
  "dt_le a b =
     (case (utc_offset a, utc_offset b) of
        (None, None) \<Rightarrow> Some (local_micros a \<le> local_micros b)
      | (Some x, Some y) \<Rightarrow> Some (instant x a \<le> instant y b)
      | _ \<Rightarrow> None)"

definition dt_lt :: "datetime \<Rightarrow> datetime \<Rightarrow> bool option" where
  "dt_lt a b =
     (case (utc_offset a, utc_offset b) of
        (None, None) \<Rightarrow> Some (local_micros a < local_micros b)
      | (Some x, Some y) \<Rightarrow> Some (instant x a < instant y b)
      | _ \<Rightarrow> None)"

text \<open>\<open>a - b\<close> in microseconds.\<close>

definition dt_minus :: "datetime \<Rightarrow> datetime \<Rightarrow> int option" where
  "dt_minus a b =
     (case (utc_offset a, utc_offset b) of
        (None, None) \<Rightarrow> Some (local_micros a - local_micros b)
      | (Some x, Some y) \<Rightarrow> Some (instant x a - instant y b)
      | _ \<Rightarrow> None)"

subsection \<open>From a timestamp\<close>

text \<open>Day number to year, month and day: 400, 100, 4 and 1 year cycles.\<close>

fun month_of_day :: "nat \<Rightarrow> int \<Rightarrow> int \<Rightarrow> int \<Rightarrow> int \<times> int" where
  "month_of_day 0 y m n = (m, n + 1)"
| "month_of_day (Suc k) y m n =
     (if n < days_in_month y m then (m, n + 1) else month_of_day k y (m + 1) (n - days_in_month y m))"

definition ord_to_ymd :: "int \<Rightarrow> int \<times> int \<times> int" where
  "ord_to_ymd n =
     (let n0 = n - 1;
          n400 = n0 div 146097; r400 = n0 mod 146097;
          n100 = r400 div 36524; r100 = r400 mod 36524;
          n4 = r100 div 1461; r4 = r100 mod 1461;
          n1 = r4 div 365; r1 = r4 mod 365;
          y = n400 * 400 + n100 * 100 + n4 * 4 + n1 + 1
      in if n1 = 4 \<or> n100 = 4 then (y - 1, 12, 31)
         else (case month_of_day 11 y 1 r1 of (m, d) \<Rightarrow> (y, m, d)))"

definition epoch_ordinal :: int where
  "epoch_ordinal = 719163"

text \<open>None is the error for a timestamp whose year is outside 1 to 9999.\<close>

definition from_timestamp_utc :: "int \<Rightarrow> datetime option" where
  "from_timestamp_utc t =
     (let day = epoch_ordinal + t div 86400; s = t mod 86400;
          (y, m, d) = ord_to_ymd day
      in if 1 \<le> y \<and> y \<le> 9999 then
           Some \<lparr>dt_year = y, dt_month = m, dt_day = d, dt_hour = s div 3600,
                 dt_minute = s mod 3600 div 60, dt_second = s mod 60, dt_micro = 0,
                 utc_offset = Some 0\<rparr>
         else None)"

lemma from_timestamp_utc_aware: "from_timestamp_utc t = Some d \<Longrightarrow> utc_offset d = Some 0"
  by (auto simp: from_timestamp_utc_def Let_def split: prod.splits if_splits)

subsection \<open>As text\<close>

definition pad_left :: "nat \<Rightarrow> int \<Rightarrow> string" where
  "pad_left w i = (let s = str_int i in replicate (w - length s) (CHR ''0'') @ s)"

definition offset_str :: "int option \<Rightarrow> string" where
  "offset_str u = (case u of
       None \<Rightarrow> []
     | Some s \<Rightarrow>
         (let a = \<bar>s\<bar> in
          (if s < 0 then ''-'' else ''+'') @ pad_left 2 (a div 3600) @ '':'' @ pad_left 2 (a mod 3600 div 60)
          @ (if a mod 60 = 0 then [] else '':'' @ pad_left 2 (a mod 60))))"

definition isoformat :: "datetime \<Rightarrow> string" where
  "isoformat d =
     pad_left 4 (dt_year d) @ ''-'' @ pad_left 2 (dt_month d) @ ''-'' @ pad_left 2 (dt_day d) @ ''T''
     @ pad_left 2 (dt_hour d) @ '':'' @ pad_left 2 (dt_minute d) @ '':'' @ pad_left 2 (dt_second d)
     @ (if dt_micro d = 0 then [] else ''.'' @ pad_left 6 (dt_micro d))
     @ offset_str (utc_offset d)"

text \<open>
  \<open>datetime.fromisoformat\<close>: a calendar date, extended or basic, any separator, a time of one to three
  components with an optional fraction, and \<open>Z\<close> or a signed offset. None is its \<open>ValueError\<close>; ISO
  week dates and offsets with a fraction of a second are outside the model and give None too.
\<close>

definition take_num :: "nat \<Rightarrow> string \<Rightarrow> (int \<times> string) option" where
  "take_num w s = (if w \<le> length s \<and> list_all is_digit (take w s)
                   then Some (int (digits_value (take w s)), drop w s) else None)"

definition skip_if :: "char \<Rightarrow> string \<Rightarrow> bool \<times> string" where
  "skip_if c s = (case s of d # r \<Rightarrow> if d = c then (True, r) else (False, s) | [] \<Rightarrow> (False, s))"

definition parse_iso_date :: "string \<Rightarrow> (int \<times> int \<times> int \<times> string) option" where
  "parse_iso_date s =
     Option.bind (take_num 4 s) (\<lambda>(y, r).
       let (sep, r1) = skip_if (CHR ''-'') r in
       Option.bind (take_num 2 r1) (\<lambda>(m, r2).
         let (sep2, r3) = skip_if (CHR ''-'') r2 in
         if sep2 \<noteq> sep then None
         else Option.bind (take_num 2 r3) (\<lambda>(d, r4). Some (y, m, d, r4))))"

definition parse_fraction :: "string \<Rightarrow> int option" where
  "parse_fraction s = (case s of
       [] \<Rightarrow> Some 0
     | c # ds \<Rightarrow>
         if (c = CHR ''.'' \<or> c = CHR '','') \<and> ds \<noteq> [] \<and> list_all is_digit ds
         then Some (int (digits_value (take 6 ds)) * 10 ^ (6 - length (take 6 ds))) else None)"

definition parse_hh_mm_ss_ff :: "string \<Rightarrow> (int \<times> int \<times> int \<times> int) option" where
  "parse_hh_mm_ss_ff s =
     Option.bind (take_num 2 s) (\<lambda>(h, r).
       if r = [] then Some (h, 0, 0, 0)
       else let (sep, r1) = skip_if (CHR '':'') r in
       Option.bind (take_num 2 r1) (\<lambda>(m, r2).
         if r2 = [] then Some (h, m, 0, 0)
         else let (sep2, r3) = skip_if (CHR '':'') r2 in
         if sep \<and> \<not> sep2 then None
         else Option.bind (take_num 2 (if sep then r3 else r2)) (\<lambda>(sec, r4).
           map_option (\<lambda>f. (h, m, sec, f)) (parse_fraction r4))))"

definition split_tz :: "string \<Rightarrow> string \<times> (char \<times> string) option" where
  "split_tz t =
     (case filter (\<lambda>c. c \<in> set t) [CHR ''-'', CHR ''+'', CHR ''Z''] of
        [] \<Rightarrow> (t, None)
      | c # _ \<Rightarrow> (takeWhile (\<lambda>x. x \<noteq> c) t, Some (c, tl (dropWhile (\<lambda>x. x \<noteq> c) t))))"

text \<open>The inner None is a naive time, the outer the \<open>ValueError\<close>.\<close>

definition parse_tz :: "(char \<times> string) option \<Rightarrow> int option option" where
  "parse_tz z = (case z of
       None \<Rightarrow> Some None
     | Some (c, s) \<Rightarrow>
         if c = CHR ''Z'' then (if s = [] then Some (Some 0) else None)
         else if length s \<in> {0, 1, 3} then None
         else Option.bind (parse_hh_mm_ss_ff s) (\<lambda>(h, m, sec, f).
           let off = h * 3600 + m * 60 + sec in
           if f \<noteq> 0 \<or> 86400 \<le> off then None
           else Some (Some (if c = CHR ''-'' then - off else off))))"

definition valid_dt :: "datetime \<Rightarrow> bool" where
  "valid_dt d \<longleftrightarrow> 1 \<le> dt_year d \<and> dt_year d \<le> 9999 \<and> 1 \<le> dt_month d \<and> dt_month d \<le> 12
     \<and> 1 \<le> dt_day d \<and> dt_day d \<le> days_in_month (dt_year d) (dt_month d)
     \<and> 0 \<le> dt_hour d \<and> dt_hour d < 24 \<and> 0 \<le> dt_minute d \<and> dt_minute d < 60
     \<and> 0 \<le> dt_second d \<and> dt_second d < 60 \<and> 0 \<le> dt_micro d \<and> dt_micro d < 1000000
     \<and> (\<forall>u\<in>set_option (utc_offset d). \<bar>u\<bar> < 86400)"

definition checked_dt :: "datetime \<Rightarrow> datetime option" where
  "checked_dt d = (if valid_dt d then Some d else None)"

definition iso_fields :: "string \<Rightarrow> datetime option" where
  "iso_fields s =
     Option.bind (parse_iso_date s) (\<lambda>(y, mo, d, r).
       let (clock, z) = split_tz (drop 1 r) in
       Option.bind (if drop 1 r = [] then Some (0, 0, 0, 0) else parse_hh_mm_ss_ff clock) (\<lambda>(h, m, sec, f).
         Option.bind (if drop 1 r = [] then Some None else parse_tz z) (\<lambda>u.
           Some \<lparr>dt_year = y, dt_month = mo, dt_day = d, dt_hour = h, dt_minute = m,
                 dt_second = sec, dt_micro = f, utc_offset = u\<rparr>)))"

definition from_isoformat :: "string \<Rightarrow> datetime option" where
  "from_isoformat s = Option.bind (iso_fields s) checked_dt"

subsection \<open>Round trip\<close>

lemma pad_left_digits:
  assumes "0 \<le> i" "i < 10 ^ w" "0 < w"
  shows "length (pad_left w i) = w" "list_all is_digit (pad_left w i)" "digits_value (pad_left w i) = nat i"
proof -
  have s: "str_int i = nat_digits (nat i)" using assms(1) by (simp add: str_int_def)
  have "nat i < 10 ^ w" using assms by (simp add: nat_less_iff)
  then have "length (nat_digits (nat i)) \<le> w" using assms(3) by (rule length_nat_digits)
  then show "length (pad_left w i) = w" by (simp add: pad_left_def s Let_def)
  show "list_all is_digit (pad_left w i)"
    using nat_digits_all_digits by (auto simp: pad_left_def s Let_def list_all_iff is_digit_def)
  show "digits_value (pad_left w i) = nat i" by (simp add: pad_left_def s Let_def)
qed

lemma take_num_pad:
  assumes "0 \<le> i" "i < 10 ^ w" "0 < w"
  shows "take_num w (pad_left w i @ r) = Some (i, r)"
  using pad_left_digits [OF assms] assms(1) by (simp add: take_num_def)

lemmas take_num_pad2 = take_num_pad [of _ 2, simplified]
lemmas take_num_pad4 = take_num_pad [of _ 4, simplified]

lemma pad_left_nonempty: "0 < w \<Longrightarrow> pad_left w i \<noteq> []"
proof -
  have "str_int i \<noteq> []" by (simp add: str_int_def)
  then show ?thesis by (simp add: pad_left_def Let_def)
qed

lemma take_num_pad2_end: "0 \<le> i \<Longrightarrow> i < 100 \<Longrightarrow> take_num 2 (pad_left 2 i) = Some (i, [])"
  using take_num_pad2 [of i "[]"] by simp

lemma skip_if_same [simp]: "skip_if c (c # r) = (True, r)"
  by (simp add: skip_if_def)

lemma parse_clock:
  assumes "0 \<le> h" "h < 100" "0 \<le> m" "m < 100" "0 \<le> s" "s < 100"
  shows "parse_hh_mm_ss_ff (pad_left 2 h @ CHR '':'' # pad_left 2 m @ CHR '':'' # pad_left 2 s @ fr)
     = map_option (\<lambda>f. (h, m, s, f)) (parse_fraction fr)"
  using assms by (simp add: parse_hh_mm_ss_ff_def take_num_pad2 Let_def)

lemma parse_clock_minutes:
  assumes "0 \<le> h" "h < 100" "0 \<le> m" "m < 100"
  shows "parse_hh_mm_ss_ff (pad_left 2 h @ CHR '':'' # pad_left 2 m) = Some (h, m, 0, 0)"
  using assms by (simp add: parse_hh_mm_ss_ff_def take_num_pad2 take_num_pad2_end Let_def)

lemma parse_fraction_pad:
  assumes "0 \<le> f" "f < 1000000"
  shows "parse_fraction (if f = 0 then [] else CHR ''.'' # pad_left 6 f) = Some f"
  using pad_left_digits [of f 6] assms pad_left_nonempty [of 6 f] by (simp add: parse_fraction_def)

definition clock_str :: "datetime \<Rightarrow> string" where
  "clock_str d = pad_left 2 (dt_hour d) @ CHR '':'' # pad_left 2 (dt_minute d) @ CHR '':'' # pad_left 2 (dt_second d)
     @ (if dt_micro d = 0 then [] else CHR ''.'' # pad_left 6 (dt_micro d))"

lemma isoformat_clock:
  "isoformat d = pad_left 4 (dt_year d) @ CHR ''-'' # pad_left 2 (dt_month d) @ CHR ''-'' # pad_left 2 (dt_day d)
     @ CHR ''T'' # clock_str d @ offset_str (utc_offset d)"
  by (simp add: isoformat_def clock_str_def)

lemma no_sign_in_clock:
  assumes "valid_dt d" "c \<in> set (clock_str d)" shows "c \<noteq> CHR ''-''" "c \<noteq> CHR ''+''" "c \<noteq> CHR ''Z''"
proof -
  have dig: "0 \<le> i \<Longrightarrow> i < 10 ^ w \<Longrightarrow> 0 < w \<Longrightarrow> x \<in> set (pad_left w i) \<Longrightarrow> is_digit x" for i w x
    using pad_left_digits(2) [of i w] by (auto simp: list_all_iff)
  have "is_digit c \<or> c = CHR '':'' \<or> c = CHR ''.''"
    using assms dig [of "dt_hour d" 2 c] dig [of "dt_minute d" 2 c] dig [of "dt_second d" 2 c] dig [of "dt_micro d" 6 c]
    by (auto simp: valid_dt_def clock_str_def split: if_splits)
  then show "c \<noteq> CHR ''-''" "c \<noteq> CHR ''+''" "c \<noteq> CHR ''Z''" by (auto simp: is_digit_def)
qed

lemma split_tz_naive: "\<forall>c\<in>set t. c \<noteq> CHR ''-'' \<and> c \<noteq> CHR ''+'' \<and> c \<noteq> CHR ''Z'' \<Longrightarrow> split_tz t = (t, None)"
  by (auto simp: split_tz_def)

lemma split_tz_sign:
  assumes "\<forall>c\<in>set t. c \<noteq> CHR ''-'' \<and> c \<noteq> CHR ''+''" and "\<forall>c\<in>set z. c \<noteq> CHR ''-''" and "s = CHR ''-'' \<or> s = CHR ''+''"
  shows "split_tz (t @ s # z) = (t, Some (s, z))"
proof -
  have "takeWhile (\<lambda>x. x \<noteq> s) (t @ s # z) = t" "dropWhile (\<lambda>x. x \<noteq> s) (t @ s # z) = s # z"
    using assms by (auto simp: takeWhile_append dropWhile_append)
  then show ?thesis using assms by (auto simp: split_tz_def)
qed

definition hms_str :: "int \<Rightarrow> int \<Rightarrow> int \<Rightarrow> string" where
  "hms_str h m s = pad_left 2 h @ CHR '':'' # pad_left 2 m @ (if s = 0 then [] else CHR '':'' # pad_left 2 s)"

lemma hms_str_facts:
  assumes "0 \<le> h" "h < 100" "0 \<le> m" "m < 100" "0 \<le> s" "s < 100"
  shows "5 \<le> length (hms_str h m s)" "CHR ''-'' \<notin> set (hms_str h m s)"
    "parse_hh_mm_ss_ff (hms_str h m s) = Some (h, m, s, 0)"
proof -
  have len: "length (pad_left 2 h) = 2" "length (pad_left 2 m) = 2"
    using pad_left_digits(1) [of _ 2] assms by simp_all
  then show "5 \<le> length (hms_str h m s)" by (simp add: hms_str_def)
  have dig: "0 \<le> i \<Longrightarrow> i < 100 \<Longrightarrow> CHR ''-'' \<notin> set (pad_left 2 i)" for i
    using pad_left_digits(2) [of i 2] by (auto simp: list_all_iff is_digit_def)
  show "CHR ''-'' \<notin> set (hms_str h m s)"
    using assms dig by (simp add: hms_str_def)
  show "parse_hh_mm_ss_ff (hms_str h m s) = Some (h, m, s, 0)"
    using parse_clock_minutes [OF assms(1-4)] parse_clock [OF assms, of "[]"]
    by (simp add: hms_str_def parse_fraction_def)
qed

definition offset_digits :: "int \<Rightarrow> string" where
  "offset_digits a = hms_str (a div 3600) (a mod 3600 div 60) (a mod 60)"

lemma offset_bounds:
  assumes "0 \<le> (a::int)" "a < 86400"
  shows "0 \<le> a div 3600" "a div 3600 < 100" "0 \<le> a mod 3600 div 60" "a mod 3600 div 60 < 100"
    "0 \<le> a mod 60" "a mod 60 < 100" "a div 3600 * 3600 + a mod 3600 div 60 * 60 + a mod 60 = a"
proof -
  have "a mod 3600 div 60 < 60" by (simp add: div_less_iff_less_mult)
  then show "a mod 3600 div 60 < 100" by simp
  have "a mod 60 = a mod 3600 mod 60" by (simp add: mod_mod_cancel)
  then show "a div 3600 * 3600 + a mod 3600 div 60 * 60 + a mod 60 = a" by simp
  have "a mod 60 < 60" by simp
  then show "a mod 60 < 100" by linarith
  show "0 \<le> a div 3600" "0 \<le> a mod 3600 div 60" "0 \<le> a mod 60"
    using assms by (simp_all add: pos_imp_zdiv_nonneg_iff)
  show "a div 3600 < 100" using assms by (simp add: div_less_iff_less_mult)
qed

lemma parse_offset:
  assumes "0 \<le> a" "a < 86400" "s = CHR ''-'' \<or> s = CHR ''+''"
  shows "parse_tz (Some (s, offset_digits a)) = Some (Some (if s = CHR ''-'' then - a else a))"
proof -
  note b = offset_bounds [OF assms(1,2)]
  note f = hms_str_facts [OF b(1-6), folded offset_digits_def]
  have "length (offset_digits a) \<notin> {0, 1, 3}" using f(1) by auto
  with f(3) b(7) assms(2,3) show ?thesis by (auto simp: parse_tz_def Let_def simp del: minus_mod_eq_mult_div)
qed

lemma offset_digits_no_sign:
  assumes "0 \<le> a" "a < 86400" shows "CHR ''-'' \<notin> set (offset_digits a)"
  unfolding offset_digits_def by (rule hms_str_facts(2) [OF offset_bounds(1-6) [OF assms]])

lemma offset_str_digits: "offset_str (Some s) = (if s < 0 then CHR ''-'' else CHR ''+'') # offset_digits \<bar>s\<bar>"
  by (simp add: offset_str_def offset_digits_def hms_str_def Let_def)

lemma iso_tail:
  assumes "valid_dt d"
  shows "split_tz (clock_str d @ offset_str (utc_offset d)) = (clock_str d, snd (split_tz (clock_str d @ offset_str (utc_offset d))))"
    and "parse_tz (snd (split_tz (clock_str d @ offset_str (utc_offset d)))) = Some (utc_offset d)"
proof -
  have clean: "\<forall>c\<in>set (clock_str d). c \<noteq> CHR ''-'' \<and> c \<noteq> CHR ''+'' \<and> c \<noteq> CHR ''Z''"
    using no_sign_in_clock [OF assms] by blast
  have "\<exists>z. split_tz (clock_str d @ offset_str (utc_offset d)) = (clock_str d, z) \<and> parse_tz z = Some (utc_offset d)"
  proof (cases "utc_offset d")
    case None
    then show ?thesis using split_tz_naive [OF clean] by (simp add: offset_str_def parse_tz_def)
  next
    case (Some s)
    then have b: "0 \<le> \<bar>s\<bar>" "\<bar>s\<bar> < 86400" using assms by (simp_all add: valid_dt_def)
    let ?c = "if s < 0 then CHR ''-'' else CHR ''+''"
    have c1: "\<forall>c\<in>set (clock_str d). c \<noteq> CHR ''-'' \<and> c \<noteq> CHR ''+''" using clean by blast
    have c2: "\<forall>c\<in>set (offset_digits \<bar>s\<bar>). c \<noteq> CHR ''-''" using offset_digits_no_sign [OF b] by metis
    have c3: "?c = CHR ''-'' \<or> ?c = CHR ''+''" by simp
    have "split_tz (clock_str d @ ?c # offset_digits \<bar>s\<bar>) = (clock_str d, Some (?c, offset_digits \<bar>s\<bar>))"
      by (rule split_tz_sign [OF c1 c2 c3])
    moreover have "parse_tz (Some (?c, offset_digits \<bar>s\<bar>)) = Some (Some s)"
      using parse_offset [OF b, of ?c] by auto
    ultimately show ?thesis using Some by (simp add: offset_str_digits)
  qed
  then show "split_tz (clock_str d @ offset_str (utc_offset d)) = (clock_str d, snd (split_tz (clock_str d @ offset_str (utc_offset d))))"
    "parse_tz (snd (split_tz (clock_str d @ offset_str (utc_offset d)))) = Some (utc_offset d)" by auto
qed

lemma iso_date:
  assumes "valid_dt d"
  shows "parse_iso_date (isoformat d) = Some (dt_year d, dt_month d, dt_day d, CHR ''T'' # clock_str d @ offset_str (utc_offset d))"
proof -
  have "dt_day d < 100" using assms by (auto simp: valid_dt_def days_in_month_def split: if_splits)
  then show ?thesis
    using assms by (simp add: isoformat_clock parse_iso_date_def take_num_pad4 take_num_pad2 valid_dt_def)
qed

lemma from_isoformat_isoformat:
  assumes "valid_dt d" shows "from_isoformat (isoformat d) = Some d"
proof -
  have clock: "parse_hh_mm_ss_ff (clock_str d) = Some (dt_hour d, dt_minute d, dt_second d, dt_micro d)"
    using assms parse_fraction_pad [of "dt_micro d"] by (simp add: clock_str_def parse_clock valid_dt_def)
  have ne: "clock_str d \<noteq> []" using pad_left_nonempty [of 2 "dt_hour d"] by (simp add: clock_str_def)
  obtain z where "split_tz (clock_str d @ offset_str (utc_offset d)) = (clock_str d, z)" "parse_tz z = Some (utc_offset d)"
    using iso_tail [OF assms] by (metis snd_conv)
  then have "iso_fields (isoformat d) = Some d"
    using ne clock by (simp add: iso_fields_def iso_date [OF assms])
  then show ?thesis using assms by (simp add: from_isoformat_def checked_dt_def)
qed

lemma from_isoformat_valid: "from_isoformat s = Some d \<Longrightarrow> valid_dt d"
  by (auto simp: from_isoformat_def bind_eq_Some_conv checked_dt_def split: if_splits)

subsection \<open>The order\<close>

lemma dt_le_refl: "dt_le a a = Some True"
  by (simp add: dt_le_def split: option.splits)

lemma dt_lt_le: "dt_lt a b = map_option Not (dt_le b a)"
  by (auto simp: dt_lt_def dt_le_def split: option.splits)

lemma dt_le_aware:
  "utc_offset a = Some x \<Longrightarrow> utc_offset b = Some y \<Longrightarrow> dt_le a b = Some (instant x a \<le> instant y b)"
  by (simp add: dt_le_def)

lemma dt_le_mixed: "utc_offset a = None \<Longrightarrow> utc_offset b = Some y \<Longrightarrow> dt_le a b = None \<and> dt_le b a = None"
  by (simp add: dt_le_def)

end
