(* ===== verification/Json_Text.thy ===== *)
theory Json_Text
  imports Py_Text "HOL-Library.Char_ord" "HOL-Library.List_Lexorder"
begin

text \<open>
  Python's \<open>json\<close> module as the sources use it: \<open>json.dumps\<close> in its three styles (default, compact
  with sorted keys, raw non-ASCII) and \<open>json.loads\<close>. The main result is the round trip: what
  \<open>dumps\<close> writes, \<open>loads\<close> reads back, in every style. A float is kept as the text of its literal.
  \<open>loads\<close> gives None for \<open>JSONDecodeError\<close>; an escape above code point 255 is outside the model's
  characters and also gives None.
\<close>

datatype json =
    JNull
  | JBool bool
  | JInt int
  | JFloat string
  | JStr string
  | JArr "json list"
  | JObj "(string \<times> json) list"

subsection \<open>Writing\<close>

record json_style =
  item_sep :: string
  key_sep :: string
  ensure_ascii :: bool

definition default_style :: json_style where
  "default_style = \<lparr>item_sep = '', '', key_sep = '': '', ensure_ascii = True\<rparr>"

definition compact_style :: json_style where
  "compact_style = \<lparr>item_sep = '','', key_sep = '':'', ensure_ascii = True\<rparr>"

definition raw_style :: json_style where
  "raw_style = default_style\<lparr>ensure_ascii := False\<rparr>"

abbreviation backslash :: char where
  "backslash \<equiv> CHR 0x5C"

definition unicode_escape :: "char \<Rightarrow> string" where
  "unicode_escape c = [backslash, CHR ''u'', CHR ''0'', CHR ''0'',
                       hex_digit (code c div 16), hex_digit (code c mod 16)]"

definition escape_char :: "bool \<Rightarrow> char \<Rightarrow> string" where
  "escape_char asc c =
     (if c = CHR 0x22 \<or> c = backslash then [backslash, c]
      else if code c = 10 then [backslash, CHR ''n'']
      else if code c = 13 then [backslash, CHR ''r'']
      else if code c = 9 then [backslash, CHR ''t'']
      else if code c = 12 then [backslash, CHR ''f'']
      else if code c = 8 then [backslash, CHR ''b'']
      else if code c < 32 \<or> (asc \<and> 127 \<le> code c) then unicode_escape c
      else [c])"

definition quote_str :: "bool \<Rightarrow> string \<Rightarrow> string" where
  "quote_str asc s = [CHR 0x22] @ concat (map (escape_char asc) s) @ [CHR 0x22]"

fun sep_join :: "string \<Rightarrow> string list \<Rightarrow> string" where
  "sep_join sep [] = []"
| "sep_join sep [x] = x"
| "sep_join sep (x # y # ys) = x @ sep @ sep_join sep (y # ys)"

fun json_dumps :: "json_style \<Rightarrow> json \<Rightarrow> string" where
  "json_dumps st JNull = ''null''"
| "json_dumps st (JBool b) = (if b then ''true'' else ''false'')"
| "json_dumps st (JInt i) = str_int i"
| "json_dumps st (JFloat t) = t"
| "json_dumps st (JStr s) = quote_str (ensure_ascii st) s"
| "json_dumps st (JArr js) = ''['' @ sep_join (item_sep st) (map (json_dumps st) js) @ '']''"
| "json_dumps st (JObj kvs) =
     ''{'' @ sep_join (item_sep st)
        (map (\<lambda>(k, v). quote_str (ensure_ascii st) k @ key_sep st @ json_dumps st v) kvs) @ ''}''"

text \<open>\<open>sort_keys=True\<close>: every object's members in ascending key order.\<close>

fun json_sorted :: "json \<Rightarrow> json" where
  "json_sorted (JArr js) = JArr (map json_sorted js)"
| "json_sorted (JObj kvs) = JObj (sort_key fst (map (\<lambda>(k, v). (k, json_sorted v)) kvs))"
| "json_sorted j = j"

subsection \<open>Reading\<close>

definition is_ws :: "char \<Rightarrow> bool" where
  "is_ws c \<longleftrightarrow> code c = 32 \<or> code c = 9 \<or> code c = 10 \<or> code c = 13"

abbreviation skip_ws :: "string \<Rightarrow> string" where
  "skip_ws \<equiv> dropWhile is_ws"

definition hex_value :: "char \<Rightarrow> nat option" where
  "hex_value c = (if 48 \<le> code c \<and> code c \<le> 57 then Some (code c - 48)
                  else if 97 \<le> code c \<and> code c \<le> 102 then Some (code c - 87)
                  else if 65 \<le> code c \<and> code c \<le> 70 then Some (code c - 55)
                  else None)"

definition hex4 :: "char \<Rightarrow> char \<Rightarrow> char \<Rightarrow> char \<Rightarrow> char option" where
  "hex4 a b c d =
     (case (hex_value a, hex_value b, hex_value c, hex_value d) of
        (Some w, Some x, Some y, Some z) \<Rightarrow>
          (let n = 4096 * w + 256 * x + 16 * y + z in if n < 256 then Some (char_of n) else None)
      | _ \<Rightarrow> None)"

definition simple_escape :: "char \<Rightarrow> char option" where
  "simple_escape c =
     (if c = CHR 0x22 \<or> c = backslash \<or> c = CHR ''/'' then Some c
      else if c = CHR ''n'' then Some (char_of (10::nat))
      else if c = CHR ''r'' then Some (char_of (13::nat))
      else if c = CHR ''t'' then Some (char_of (9::nat))
      else if c = CHR ''f'' then Some (char_of (12::nat))
      else if c = CHR ''b'' then Some (char_of (8::nat))
      else None)"

text \<open>The rest of a string literal after its opening quote, and what follows the closing one.\<close>

fun read_str :: "string \<Rightarrow> (string \<times> string) option" where
  "read_str [] = None"
| "read_str (c # cs) =
     (if c = CHR 0x22 then Some ([], cs)
      else if c = backslash then
        (case cs of
           [] \<Rightarrow> None
         | e # rest \<Rightarrow>
             if e = CHR ''u'' then
               (case rest of
                  w # x # y # z # rest' \<Rightarrow>
                    (case hex4 w x y z of
                       None \<Rightarrow> None
                     | Some ch \<Rightarrow> map_option (\<lambda>(s, r). (ch # s, r)) (read_str rest'))
                | _ \<Rightarrow> None)
             else
               (case simple_escape e of
                  None \<Rightarrow> None
                | Some ch \<Rightarrow> map_option (\<lambda>(s, r). (ch # s, r)) (read_str rest)))
      else if code c < 32 then None
      else map_option (\<lambda>(s, r). (c # s, r)) (read_str cs))"

text \<open>A number: integer part, optional fraction, optional exponent.\<close>

definition read_frac :: "string \<Rightarrow> string \<times> string" where
  "read_frac s = (case s of
       c # cs \<Rightarrow> if c = CHR ''.'' \<and> takeWhile is_digit cs \<noteq> []
                 then (c # takeWhile is_digit cs, dropWhile is_digit cs) else ([], s)
     | [] \<Rightarrow> ([], s))"

definition read_exp :: "string \<Rightarrow> string \<times> string" where
  "read_exp s = (case s of
       c # cs \<Rightarrow>
         if c = CHR ''e'' \<or> c = CHR ''E'' then
           (let sg = (case cs of d # _ \<Rightarrow> if d = CHR ''+'' \<or> d = CHR ''-'' then [d] else [] | [] \<Rightarrow> []);
                ds = drop (length sg) cs
            in if takeWhile is_digit ds \<noteq> []
               then (c # sg @ takeWhile is_digit ds, dropWhile is_digit ds) else ([], s))
         else ([], s)
     | [] \<Rightarrow> ([], s))"

definition read_int_part :: "string \<Rightarrow> (string \<times> string) option" where
  "read_int_part s = (case takeWhile is_digit s of
       [] \<Rightarrow> None
     | d # ds \<Rightarrow> if d = CHR ''0'' then Some ([d], tl s) else Some (d # ds, dropWhile is_digit s))"

definition read_num :: "string \<Rightarrow> (json \<times> string) option" where
  "read_num s =
     (let neg = (case s of c # _ \<Rightarrow> c = CHR ''-'' | [] \<Rightarrow> False);
          body = (if neg then tl s else s)
      in case read_int_part body of
           None \<Rightarrow> None
         | Some (ip, r1) \<Rightarrow>
             (let (fr, r2) = read_frac r1; (ex, r3) = read_exp r2
              in if fr = [] \<and> ex = []
                 then Some (JInt (if neg then - int (digits_value ip) else int (digits_value ip)), r3)
                 else Some (JFloat ((if neg then ''-'' else []) @ ip @ fr @ ex), r3)))"

definition read_lit :: "string \<Rightarrow> json \<Rightarrow> string \<Rightarrow> (json \<times> string) option" where
  "read_lit lit j s = (if starts_with s lit then Some (j, drop (length lit) s) else None)"

text \<open>
  Values, array items and object members. The fuel is spent by one in every call, and every call
  but the last reads at least one character before it calls again; \<open>json_loads\<close> gives the length
  of the text, which \<open>loads_dumps\<close> shows to be enough for whatever \<open>dumps\<close> wrote.
\<close>

fun read_value :: "nat \<Rightarrow> string \<Rightarrow> (json \<times> string) option"
and read_items :: "nat \<Rightarrow> string \<Rightarrow> (json list \<times> string) option"
and read_members :: "nat \<Rightarrow> string \<Rightarrow> ((string \<times> json) list \<times> string) option" where
  "read_value 0 s = None"
| "read_value (Suc n) s =
     (case s of
        [] \<Rightarrow> None
      | c # cs \<Rightarrow>
          if c = CHR 0x22 then map_option (\<lambda>(t, r). (JStr t, r)) (read_str cs)
          else if c = CHR ''{'' then
            (case skip_ws cs of
               [] \<Rightarrow> None
             | d # ds \<Rightarrow>
                 if d = CHR ''}'' then Some (JObj [], ds)
                 else map_option (\<lambda>(kvs, r). (JObj (dict_update [] kvs), r)) (read_members n (d # ds)))
          else if c = CHR ''['' then
            (case skip_ws cs of
               [] \<Rightarrow> None
             | d # ds \<Rightarrow>
                 if d = CHR '']'' then Some (JArr [], ds)
                 else map_option (\<lambda>(js, r). (JArr js, r)) (read_items n (d # ds)))
          else if c = CHR ''n'' then read_lit ''null'' JNull s
          else if c = CHR ''t'' then read_lit ''true'' (JBool True) s
          else if c = CHR ''f'' then read_lit ''false'' (JBool False) s
          else read_num s)"
| "read_items 0 s = None"
| "read_items (Suc n) s =
     (case read_value n s of
        None \<Rightarrow> None
      | Some (v, r) \<Rightarrow>
          (case skip_ws r of
             [] \<Rightarrow> None
           | c # cs \<Rightarrow>
               if c = CHR '','' then map_option (\<lambda>(vs, r'). (v # vs, r')) (read_items n (skip_ws cs))
               else if c = CHR '']'' then Some ([v], cs)
               else None))"
| "read_members 0 s = None"
| "read_members (Suc n) s =
     (case s of
        [] \<Rightarrow> None
      | q # cs \<Rightarrow>
          if q \<noteq> CHR 0x22 then None
          else (case read_str cs of
             None \<Rightarrow> None
           | Some (k, r) \<Rightarrow>
               (case skip_ws r of
                  [] \<Rightarrow> None
                | c # r1 \<Rightarrow>
                    if c \<noteq> CHR '':'' then None
                    else (case read_value n (skip_ws r1) of
                       None \<Rightarrow> None
                     | Some (v, r2) \<Rightarrow>
                         (case skip_ws r2 of
                            [] \<Rightarrow> None
                          | d # ds \<Rightarrow>
                              if d = CHR '','' then
                                map_option (\<lambda>(kvs, r'). ((k, v) # kvs, r')) (read_members n (skip_ws ds))
                              else if d = CHR ''}'' then Some ([(k, v)], ds)
                              else None)))))"

definition json_loads :: "string \<Rightarrow> json option" where
  "json_loads s = (case read_value (length s) (skip_ws s) of
       None \<Rightarrow> None
     | Some (j, r) \<Rightarrow> if skip_ws r = [] then Some j else None)"

text \<open>\<open>data["k"]\<close> on a decoded value: None stands for the \<open>KeyError\<close> or \<open>TypeError\<close>.\<close>

definition json_item :: "json \<Rightarrow> string \<Rightarrow> json option" where
  "json_item j k = (case j of JObj kvs \<Rightarrow> map_of kvs k | _ \<Rightarrow> None)"

subsection \<open>Round trip\<close>

text \<open>A value \<open>dumps\<close> writes without loss: no float, and distinct keys in every object.\<close>

fun json_plain :: "json \<Rightarrow> bool" where
  "json_plain (JFloat _) = False"
| "json_plain (JArr js) = list_all json_plain js"
| "json_plain (JObj kvs) = (dict_ok kvs \<and> list_all (\<lambda>(k, v). json_plain v) kvs)"
| "json_plain _ = True"

definition style_ok :: "json_style \<Rightarrow> bool" where
  "style_ok st \<longleftrightarrow> (\<exists>w. item_sep st = CHR '','' # w \<and> list_all is_ws w)
                 \<and> (\<exists>w. key_sep st = CHR '':'' # w \<and> list_all is_ws w)"

lemma styles_ok: "style_ok default_style" "style_ok compact_style" "style_ok raw_style"
  by (simp_all add: style_ok_def default_style_def compact_style_def raw_style_def is_ws_def)

lemma hex_value_digit: "d < 16 \<Longrightarrow> hex_value (hex_digit d) = Some d"
  by (simp add: hex_value_def hex_digit_def)

lemma hex4_code: "hex4 (CHR ''0'') (CHR ''0'') (hex_digit (code c div 16)) (hex_digit (code c mod 16)) = Some c"
proof -
  have c: "code c < 256" by simp
  then have d: "code c div 16 < 16" "code c mod 16 < 16" by (auto simp: less_mult_imp_div_less)
  have z: "hex_value (CHR ''0'') = Some 0" by (simp add: hex_value_def)
  have m: "(code c div 16) * 16 + code c mod 16 = code c" by simp
  then have n: "16 * (code c div 16) + code c mod 16 = code c" by (simp only: mult.commute)
  show ?thesis
    by (simp add: hex4_def hex_value_digit [OF d(1)] hex_value_digit [OF d(2)] z n c Let_def del: mod_mult_div_eq)
qed

lemma char_of_code: "code c = n \<Longrightarrow> char_of n = c"
  by auto

lemma read_str_escape:
  "read_str (escape_char asc c @ rest) = map_option (\<lambda>(s, r). (c # s, r)) (read_str rest)"
proof -
  consider "c = CHR 0x22 \<or> c = backslash"
    | "c \<noteq> CHR 0x22" "c \<noteq> backslash" "code c \<in> {8, 9, 10, 12, 13}"
    | "c \<noteq> CHR 0x22" "c \<noteq> backslash" "code c \<notin> {8, 9, 10, 12, 13}" "code c < 32 \<or> (asc \<and> 127 \<le> code c)"
    | "c \<noteq> CHR 0x22" "c \<noteq> backslash" "code c \<notin> {8, 9, 10, 12, 13}" "\<not> (code c < 32 \<or> (asc \<and> 127 \<le> code c))"
    by blast
  then show ?thesis
  proof cases
    case 1
    then show ?thesis by (auto simp: escape_char_def simple_escape_def)
  next
    case 2
    then show ?thesis by (auto simp: escape_char_def simple_escape_def char_of_code)
  next
    case 3
    then have "escape_char asc c = unicode_escape c" by (auto simp: escape_char_def)
    then show ?thesis by (simp add: unicode_escape_def hex4_code)
  next
    case 4
    then have "escape_char asc c = [c]" by (auto simp: escape_char_def)
    with 4 show ?thesis by simp
  qed
qed

lemma read_str_quoted:
  "read_str (concat (map (escape_char asc) s) @ CHR 0x22 # r) = Some (s, r)"
proof (induction s)
  case (Cons c s)
  then show ?case
    using read_str_escape [of asc c "concat (map (escape_char asc) s) @ CHR 0x22 # r"] by simp
qed simp

lemma nat_digits_leading_zero: "0 < n \<Longrightarrow> hd (nat_digits n) \<noteq> CHR ''0''"
proof (induction n rule: nat_digits.induct)
  case (1 n)
  show ?case
  proof (cases "n < 10")
    case True
    then have "code (digit_char n) \<noteq> code (CHR ''0'')" using 1 by simp
    then have "digit_char n \<noteq> CHR ''0''" by metis
    with True show ?thesis by (simp add: nat_digits.simps [of n])
  next
    case False
    then show ?thesis using 1 by (simp add: nat_digits.simps [of n])
  qed
qed

text \<open>What may follow an integer without being read as part of it.\<close>

definition num_stop :: "string \<Rightarrow> bool" where
  "num_stop r = (case r of [] \<Rightarrow> True
                 | c # _ \<Rightarrow> \<not> is_digit c \<and> c \<noteq> CHR ''.'' \<and> c \<noteq> CHR ''e'' \<and> c \<noteq> CHR ''E'')"

lemma digits_then_stop:
  assumes "num_stop r"
  shows "takeWhile is_digit (nat_digits n @ r) = nat_digits n" "dropWhile is_digit (nat_digits n @ r) = r"
proof -
  have d: "c \<in> set (nat_digits n) \<Longrightarrow> is_digit c" for c by (rule nat_digits_all_digits)
  have "takeWhile is_digit r = []" "dropWhile is_digit r = r"
    using assms by (auto simp: num_stop_def split: list.splits)
  with d show "takeWhile is_digit (nat_digits n @ r) = nat_digits n" "dropWhile is_digit (nat_digits n @ r) = r"
    by (simp_all add: takeWhile_append dropWhile_append)
qed

lemma read_int_part_digits:
  assumes "num_stop r" shows "read_int_part (nat_digits n @ r) = Some (nat_digits n, r)"
proof (cases "nat_digits n")
  case (Cons d ds)
  have "d = CHR ''0'' \<longrightarrow> n = 0" using nat_digits_leading_zero [of n] Cons by auto
  moreover have "nat_digits 0 = [CHR ''0'']" by (subst nat_digits.simps) (simp add: digit_char_def char_of_code)
  ultimately show ?thesis
    using digits_then_stop [OF assms, of n] Cons by (auto simp: read_int_part_def)
qed simp

lemma no_frac_exp: "num_stop r \<Longrightarrow> read_frac r = ([], r) \<and> read_exp r = ([], r)"
  by (auto simp: num_stop_def read_frac_def read_exp_def split: list.splits)

lemma read_num_str_int:
  assumes "num_stop r" shows "read_num (str_int i @ r) = Some (JInt i, r)"
proof (cases "i < 0")
  case True
  then show ?thesis
    using read_int_part_digits [OF assms, of "nat (- i)"] no_frac_exp [OF assms]
    by (simp add: read_num_def str_int_def)
next
  case False
  obtain d ds where c: "nat_digits (nat i) = d # ds"
    using nat_digits_nonempty [of "nat i"] by (cases "nat_digits (nat i)") auto
  then have "d \<noteq> CHR ''-''" using nat_digits_all_digits [of d "nat i"] digit_not_sign by auto
  with False c show ?thesis
    using read_int_part_digits [OF assms, of "nat i"] no_frac_exp [OF assms] digits_value_nat_digits [of "nat i"]
    by (simp add: read_num_def str_int_def)
qed

text \<open>The first character of a written value decides how it is read.\<close>

lemma str_int_head: "\<exists>c cs. str_int i = c # cs \<and> (is_digit c \<or> c = CHR ''-'')"
proof -
  have "\<exists>c cs. nat_digits n = c # cs \<and> is_digit c" for n
    using nat_digits_nonempty [of n] nat_digits_all_digits [of _ n]
    by (cases "nat_digits n") auto
  from this [of "nat i"] show ?thesis by (cases "i < 0") (auto simp: str_int_def)
qed

definition value_head :: "char \<Rightarrow> bool" where
  "value_head c \<longleftrightarrow> \<not> is_ws c \<and> c \<noteq> CHR '']'' \<and> c \<noteq> CHR ''}''"

lemma dumps_head:
  assumes "json_plain j" shows "\<exists>c cs. json_dumps st j = c # cs \<and> value_head c"
proof (cases j)
  case (JInt i)
  obtain c cs where "str_int i = c # cs" "is_digit c \<or> c = CHR ''-''" using str_int_head by blast
  moreover from this have "value_head c" by (auto simp: value_head_def is_ws_def is_digit_def)
  ultimately show ?thesis using JInt by simp
qed (use assms in \<open>auto simp: value_head_def is_ws_def quote_str_def\<close>)

lemma skip_ws_dumps:
  assumes "json_plain j" shows "skip_ws (json_dumps st j @ r) = json_dumps st j @ r"
  using dumps_head [OF assms, of st] by (auto simp: value_head_def)

lemma skip_ws_ws: "list_all is_ws w \<Longrightarrow> skip_ws (w @ r) = skip_ws r"
  by (induction w) auto

lemma sep_join_Cons: "sep_join sep (x # xs) = x @ (if xs = [] then [] else sep @ sep_join sep xs)"
  by (cases xs) auto

lemma dict_update_append: "dict_ok (d @ e) \<Longrightarrow> dict_update d e = d @ e"
proof (induction d e rule: dict_update.induct)
  case (2 d k v rest)
  have "AList.update k v d = d @ [(k, v)]"
    using 2(2) by (induction d) (auto simp: dict_ok_def)
  then show ?case using 2 by simp
qed simp

text \<open>Reading back one value of enough fuel, and from it the items and the members.\<close>

definition reads_back :: "json_style \<Rightarrow> json \<Rightarrow> bool" where
  "reads_back st j \<longleftrightarrow> (\<forall>n r. length (json_dumps st j) \<le> n \<longrightarrow> num_stop r \<longrightarrow>
                          read_value n (json_dumps st j @ r) = Some (j, r))"

lemma num_stop_marks: "num_stop (CHR '','' # r)" "num_stop (CHR '']'' # r)" "num_stop (CHR ''}'' # r)"
  by (simp_all add: num_stop_def is_digit_def)

lemma read_items_dumps:
  assumes st: "style_ok st" and "js \<noteq> []" and "\<forall>j\<in>set js. reads_back st j \<and> json_plain j"
    and "length (sep_join (item_sep st) (map (json_dumps st) js)) < n"
  shows "read_items n (sep_join (item_sep st) (map (json_dumps st) js) @ CHR '']'' # r) = Some (js, r)"
  using assms(2-)
proof (induction js arbitrary: n)
  case (Cons j js)
  obtain m where n: "n = Suc m" using Cons.prems(3) by (cases n) auto
  obtain w where w: "item_sep st = CHR '','' # w" "list_all is_ws w" using st by (auto simp: style_ok_def)
  have rb: "reads_back st j" and pl: "json_plain j" using Cons.prems(2) by auto
  show ?case
  proof (cases "js = []")
    case True
    then have "read_value m (json_dumps st j @ CHR '']'' # r) = Some (j, CHR '']'' # r)"
      using rb Cons.prems(3) n num_stop_marks by (simp add: reads_back_def)
    then show ?thesis using True n by (simp add: is_ws_def)
  next
    case False
    let ?rest = "sep_join (item_sep st) (map (json_dumps st) js) @ CHR '']'' # r"
    have "read_value m (json_dumps st j @ CHR '','' # w @ ?rest) = Some (j, CHR '','' # w @ ?rest)"
      using rb Cons.prems(3) n num_stop_marks w False by (simp add: reads_back_def sep_join_Cons)
    moreover have "skip_ws (w @ ?rest) = ?rest"
    proof -
      obtain k ks where "js = k # ks" using False by (cases js) auto
      then show ?thesis using Cons.prems(2) w(2) skip_ws_dumps [of k st]
        by (simp add: skip_ws_ws sep_join_Cons)
    qed
    moreover have "read_items m ?rest = Some (js, r)"
      by (rule Cons.IH) (use Cons.prems n w False in \<open>auto simp: sep_join_Cons\<close>)
    ultimately show ?thesis using n w False by (simp add: sep_join_Cons is_ws_def)
  qed
qed simp

definition member_text :: "json_style \<Rightarrow> string \<times> json \<Rightarrow> string" where
  "member_text st kv = quote_str (ensure_ascii st) (fst kv) @ key_sep st @ json_dumps st (snd kv)"

lemma read_member_value:
  assumes st: "style_ok st" and "reads_back st v" "json_plain v" "length (member_text st (k, v)) \<le> m" "num_stop r"
  obtains cs r1 where "member_text st (k, v) @ r = CHR 0x22 # cs" "read_str cs = Some (k, CHR '':'' # r1)"
    and "read_value m (skip_ws r1) = Some (v, r)"
proof -
  obtain w where w: "key_sep st = CHR '':'' # w" "list_all is_ws w" using st by (auto simp: style_ok_def)
  let ?cs = "concat (map (escape_char (ensure_ascii st)) k) @ CHR 0x22 # CHR '':'' # w @ json_dumps st v @ r"
  have "member_text st (k, v) @ r = CHR 0x22 # ?cs"
    by (simp add: member_text_def quote_str_def w)
  moreover have "read_str ?cs = Some (k, CHR '':'' # w @ json_dumps st v @ r)"
    by (rule read_str_quoted)
  moreover have "read_value m (skip_ws (w @ json_dumps st v @ r)) = Some (v, r)"
    using assms w by (simp add: skip_ws_ws skip_ws_dumps reads_back_def member_text_def)
  ultimately show thesis by (rule that)
qed

lemma read_members_dumps:
  assumes st: "style_ok st" and "kvs \<noteq> []" and "\<forall>kv\<in>set kvs. reads_back st (snd kv) \<and> json_plain (snd kv)"
    and "length (sep_join (item_sep st) (map (member_text st) kvs)) < n"
  shows "read_members n (sep_join (item_sep st) (map (member_text st) kvs) @ CHR ''}'' # r) = Some (kvs, r)"
  using assms(2-)
proof (induction kvs arbitrary: n)
  case (Cons kv kvs)
  obtain k v where kv: "kv = (k, v)" by (cases kv)
  obtain m where n: "n = Suc m" using Cons.prems(3) by (cases n) auto
  obtain w where w: "item_sep st = CHR '','' # w" "list_all is_ws w" using st by (auto simp: style_ok_def)
  have rb: "reads_back st v" and pl: "json_plain v" using Cons.prems(2) kv by auto
  have len: "length (member_text st (k, v)) \<le> m" using Cons.prems(3) n kv by (simp add: sep_join_Cons)
  show ?case
  proof (cases "kvs = []")
    case True
    obtain cs r1 where "member_text st (k, v) @ CHR ''}'' # r = CHR 0x22 # cs"
      "read_str cs = Some (k, CHR '':'' # r1)" "read_value m (skip_ws r1) = Some (v, CHR ''}'' # r)"
      using read_member_value [OF st rb pl len num_stop_marks(3)] by blast
    then show ?thesis using True n kv by (simp add: is_ws_def)
  next
    case False
    let ?rest = "sep_join (item_sep st) (map (member_text st) kvs) @ CHR ''}'' # r"
    obtain cs r1 where m: "member_text st (k, v) @ CHR '','' # w @ ?rest = CHR 0x22 # cs"
      "read_str cs = Some (k, CHR '':'' # r1)" "read_value m (skip_ws r1) = Some (v, CHR '','' # w @ ?rest)"
      using read_member_value [OF st rb pl len num_stop_marks(1)] by blast
    moreover have "skip_ws (w @ ?rest) = ?rest"
    proof -
      obtain k2 ks where "kvs = k2 # ks" using False by (cases kvs) auto
      then show ?thesis using w(2)
        by (simp add: skip_ws_ws sep_join_Cons member_text_def quote_str_def is_ws_def)
    qed
    moreover have "read_members m ?rest = Some (kvs, r)"
      by (rule Cons.IH) (use Cons.prems n w False in \<open>auto simp: sep_join_Cons\<close>)
    ultimately show ?thesis using n w False kv by (simp add: sep_join_Cons is_ws_def)
  qed
qed simp

lemma reads_back_dumps:
  assumes st: "style_ok st" shows "json_plain j \<Longrightarrow> reads_back st j"
proof (induction j)
  case (JInt i)
  show ?case unfolding reads_back_def
  proof (intro allI impI)
    fix n r assume len: "length (json_dumps st (JInt i)) \<le> n" and "num_stop r"
    obtain c cs where c: "str_int i = c # cs" "is_digit c \<or> c = CHR ''-''" using str_int_head by blast
    with len obtain m where n: "n = Suc m" by (cases n) auto
    have "read_num (c # cs @ r) = Some (JInt i, r)"
      using read_num_str_int [OF \<open>num_stop r\<close>, of i] c by simp
    moreover have "c \<notin> {CHR 0x22, CHR ''{'', CHR ''['', CHR ''n'', CHR ''t'', CHR ''f''}"
      using c(2) by (auto simp: is_digit_def)
    ultimately show "read_value n (json_dumps st (JInt i) @ r) = Some (JInt i, r)"
      using c(1) n by simp
  qed
next
  case (JArr js)
  show ?case unfolding reads_back_def
  proof (intro allI impI)
    fix n r assume len: "length (json_dumps st (JArr js)) \<le> n"
    then obtain m where n: "n = Suc m" by (cases n) auto
    show "read_value n (json_dumps st (JArr js) @ r) = Some (JArr js, r)"
    proof (cases "js = []")
      case True
      then show ?thesis using n by (simp add: is_ws_def)
    next
      case False
      let ?t = "sep_join (item_sep st) (map (json_dumps st) js) @ CHR '']'' # r"
      have "\<forall>j\<in>set js. reads_back st j \<and> json_plain j" using JArr by (auto simp: list_all_iff)
      then have it: "read_items m ?t = Some (js, r)"
        using len n by (intro read_items_dumps [OF st False]) auto
      obtain j1 js1 where "js = j1 # js1" using False by (cases js) auto
      then obtain c cs where c: "?t = c # cs" "value_head c"
        using dumps_head [of j1 st] JArr.prems by (auto simp: sep_join_Cons)
      then show ?thesis using n it by (simp add: value_head_def)
    qed
  qed
next
  case (JObj kvs)
  have mt: "map (\<lambda>(k, v). quote_str (ensure_ascii st) k @ key_sep st @ json_dumps st v) kvs = map (member_text st) kvs"
    by (simp add: member_text_def case_prod_beta)
  show ?case unfolding reads_back_def
  proof (intro allI impI)
    fix n r assume len: "length (json_dumps st (JObj kvs)) \<le> n"
    then obtain m where n: "n = Suc m" by (cases n) auto
    show "read_value n (json_dumps st (JObj kvs) @ r) = Some (JObj kvs, r)"
    proof (cases "kvs = []")
      case True
      then show ?thesis using n by (simp add: is_ws_def)
    next
      case False
      let ?t = "sep_join (item_sep st) (map (member_text st) kvs) @ CHR ''}'' # r"
      have "\<forall>kv\<in>set kvs. reads_back st (snd kv) \<and> json_plain (snd kv)"
        using JObj by (fastforce simp: list_all_iff)
      then have it: "read_members m ?t = Some (kvs, r)"
        using len n by (intro read_members_dumps [OF st False]) (auto simp: mt)
      obtain kv1 kvs1 where "kvs = kv1 # kvs1" using False by (cases kvs) auto
      then obtain cs where c: "?t = CHR 0x22 # cs"
        by (auto simp: sep_join_Cons member_text_def quote_str_def)
      have "dict_update [] kvs = kvs" using JObj.prems by (simp add: dict_update_append)
      then show ?thesis using n it c by (simp add: mt is_ws_def)
    qed
  qed
next
  case (JStr t)
  show ?case
    by (auto simp: reads_back_def quote_str_def read_str_quoted Suc_le_eq dest!: less_imp_Suc_add)
qed (auto simp: reads_back_def read_lit_def starts_with_def Suc_le_eq dest!: less_imp_Suc_add)

lemma loads_dumps_text:
  assumes "style_ok st" "json_plain j" shows "json_loads (json_dumps st j) = Some j"
proof -
  have "read_value (length (json_dumps st j)) (json_dumps st j @ []) = Some (j, [])"
    using reads_back_dumps [OF assms] unfolding reads_back_def
    by (elim allE [of _ "length (json_dumps st j)"] allE [of _ "[]"]) (simp add: num_stop_def)
  then show ?thesis
    using skip_ws_dumps [OF assms(2), of st "[]"] by (simp add: json_loads_def)
qed

end
