(* ===== verification/Hashing.thy ===== *)
theory Hashing
  imports Py_Text
begin

unbundle bit_operations_syntax

text \<open>
  The digests of the Python standard library that the sources use: \<open>hashlib.sha256\<close>, HMAC-SHA256
  (\<open>hmac.new(key, body, sha256)\<close>), \<open>hmac.compare_digest\<close> and \<open>uuid.uuid5\<close> (SHA-1 over the
  namespace and the name). They are defined on bytes as the standards (FIPS 180-4, RFC 2104,
  RFC 4122) give them, so a digest in the model is the digest the program computes. No proof
  unfolds a compression function, and no claim assumes that a digest is free of collisions unless
  its statement says so.
\<close>

type_synonym byte = "8 word"
type_synonym u32 = "32 word"
type_synonym uuid = "128 word"

subsection \<open>Words and bytes\<close>

definition rotl32 :: "nat \<Rightarrow> u32 \<Rightarrow> u32" where
  "rotl32 n x = push_bit n x OR drop_bit (32 - n) x"

definition rotr32 :: "nat \<Rightarrow> u32 \<Rightarrow> u32" where
  "rotr32 n x = rotl32 (32 - n) x"

fun be_words :: "byte list \<Rightarrow> u32 list" where
  "be_words (a # b # c # d # rest) =
     (push_bit 24 (ucast a) OR push_bit 16 (ucast b) OR push_bit 8 (ucast c) OR ucast d) # be_words rest"
| "be_words _ = []"

definition be_bytes32 :: "u32 \<Rightarrow> byte list" where
  "be_bytes32 w = [ucast (drop_bit 24 w), ucast (drop_bit 16 w), ucast (drop_bit 8 w), ucast w]"

definition be_bytes64 :: "nat \<Rightarrow> byte list" where
  "be_bytes64 n = map (\<lambda>i. of_nat (n div 256 ^ i)) [7, 6, 5, 4, 3, 2, 1, 0]"

text \<open>The padding SHA-1 and SHA-256 share: 0x80, zeros, the length in bits.\<close>

definition md_pad :: "byte list \<Rightarrow> byte list" where
  "md_pad m = m @ [0x80] @ replicate ((119 - length m mod 64) mod 64) 0 @ be_bytes64 (8 * length m)"

fun chunks16 :: "nat \<Rightarrow> u32 list \<Rightarrow> u32 list list" where
  "chunks16 0 ws = []"
| "chunks16 (Suc n) ws = take 16 ws # chunks16 n (drop 16 ws)"

definition blocks :: "byte list \<Rightarrow> u32 list list" where
  "blocks m = (let p = md_pad m in chunks16 (length p div 64) (be_words p))"

subsection \<open>SHA-1\<close>

type_synonym sha1_state = "u32 \<times> u32 \<times> u32 \<times> u32 \<times> u32"

fun sha1_schedule :: "nat \<Rightarrow> u32 list \<Rightarrow> u32 list" where
  "sha1_schedule 0 ws = ws"
| "sha1_schedule (Suc n) ws =
     (let t = length ws in
      sha1_schedule n (ws @ [rotl32 1 (ws ! (t - 3) XOR ws ! (t - 8) XOR ws ! (t - 14) XOR ws ! (t - 16))]))"

definition sha1_f :: "nat \<Rightarrow> u32 \<Rightarrow> u32 \<Rightarrow> u32 \<Rightarrow> u32" where
  "sha1_f t b c d = (if t < 20 then (b AND c) OR (NOT b AND d)
                     else if t < 40 then b XOR c XOR d
                     else if t < 60 then (b AND c) OR (b AND d) OR (c AND d)
                     else b XOR c XOR d)"

definition sha1_k :: "nat \<Rightarrow> u32" where
  "sha1_k t = (if t < 20 then 0x5A827999 else if t < 40 then 0x6ED9EBA1
               else if t < 60 then 0x8F1BBCDC else 0xCA62C1D6)"

fun sha1_rounds :: "nat \<Rightarrow> u32 list \<Rightarrow> sha1_state \<Rightarrow> sha1_state" where
  "sha1_rounds t [] s = s"
| "sha1_rounds t (w # ws) (a, b, c, d, e) =
     sha1_rounds (Suc t) ws (rotl32 5 a + sha1_f t b c d + e + sha1_k t + w, a, rotl32 30 b, c, d)"

fun sha1_block :: "sha1_state \<Rightarrow> u32 list \<Rightarrow> sha1_state" where
  "sha1_block (h0, h1, h2, h3, h4) ws =
     (case sha1_rounds 0 (sha1_schedule 64 ws) (h0, h1, h2, h3, h4) of
        (a, b, c, d, e) \<Rightarrow> (h0 + a, h1 + b, h2 + c, h3 + d, h4 + e))"

definition sha1 :: "byte list \<Rightarrow> byte list" where
  "sha1 m = (case foldl sha1_block (0x67452301, 0xEFCDAB89, 0x98BADCFE, 0x10325476, 0xC3D2E1F0) (blocks m) of
     (a, b, c, d, e) \<Rightarrow> concat (map be_bytes32 [a, b, c, d, e]))"

subsection \<open>SHA-256\<close>

text \<open>
  The constants are the first 32 bits of the fractional parts of the square roots of the first 8
  primes (the initial state) and of the cube roots of the first 64 (the round constants). The
  integer root is found bit by bit.
\<close>

fun root_bits :: "nat \<Rightarrow> nat \<Rightarrow> nat \<Rightarrow> nat \<Rightarrow> nat" where
  "root_bits k n 0 acc = acc"
| "root_bits k n (Suc i) acc = (let x = acc + 2 ^ i in root_bits k n i (if x ^ k \<le> n then x else acc))"

definition small_primes :: "nat list" where
  "small_primes = filter (\<lambda>n. list_all (\<lambda>d. n mod d \<noteq> 0) [2..<n]) [2..<312]"

definition frac_bits :: "nat \<Rightarrow> nat \<Rightarrow> u32" where
  "frac_bits k p = of_nat (root_bits k (p * 2 ^ (32 * k)) 40 0)"

definition sha256_k :: "u32 list" where
  "sha256_k = map (frac_bits 3) small_primes"

definition sha256_init :: "u32 list" where
  "sha256_init = map (frac_bits 2) (take 8 small_primes)"

fun sha256_schedule :: "nat \<Rightarrow> u32 list \<Rightarrow> u32 list" where
  "sha256_schedule 0 ws = ws"
| "sha256_schedule (Suc n) ws =
     (let t = length ws; x = ws ! (t - 15); y = ws ! (t - 2);
          s0 = rotr32 7 x XOR rotr32 18 x XOR drop_bit 3 x;
          s1 = rotr32 17 y XOR rotr32 19 y XOR drop_bit 10 y
      in sha256_schedule n (ws @ [ws ! (t - 16) + s0 + ws ! (t - 7) + s1]))"

type_synonym sha256_state = "u32 \<times> u32 \<times> u32 \<times> u32 \<times> u32 \<times> u32 \<times> u32 \<times> u32"

fun sha256_rounds :: "(u32 \<times> u32) list \<Rightarrow> sha256_state \<Rightarrow> sha256_state" where
  "sha256_rounds [] s = s"
| "sha256_rounds ((k, w) # rest) (a, b, c, d, e, f, g, h) =
     (let s1 = rotr32 6 e XOR rotr32 11 e XOR rotr32 25 e;
          t1 = h + s1 + ((e AND f) XOR (NOT e AND g)) + k + w;
          s0 = rotr32 2 a XOR rotr32 13 a XOR rotr32 22 a;
          t2 = s0 + ((a AND b) XOR (a AND c) XOR (b AND c))
      in sha256_rounds rest (t1 + t2, a, b, c, d + t1, e, f, g))"

fun sha256_block :: "sha256_state \<Rightarrow> u32 list \<Rightarrow> sha256_state" where
  "sha256_block (h0, h1, h2, h3, h4, h5, h6, h7) ws =
     (case sha256_rounds (zip sha256_k (sha256_schedule 48 ws)) (h0, h1, h2, h3, h4, h5, h6, h7) of
        (a, b, c, d, e, f, g, h) \<Rightarrow>
          (h0 + a, h1 + b, h2 + c, h3 + d, h4 + e, h5 + f, h6 + g, h7 + h))"

definition sha256 :: "byte list \<Rightarrow> byte list" where
  "sha256 m =
     (let i = (\<lambda>j. sha256_init ! j) in
      case foldl sha256_block (i 0, i 1, i 2, i 3, i 4, i 5, i 6, i 7) (blocks m) of
        (a, b, c, d, e, f, g, h) \<Rightarrow> concat (map be_bytes32 [a, b, c, d, e, f, g, h]))"

text \<open>\<open>hashlib.sha256(text.encode()).hexdigest()\<close>.\<close>

definition sha256_hex :: "string \<Rightarrow> string" where
  "sha256_hex s = hex_string (sha256 (utf8 s))"

subsection \<open>HMAC and constant-time comparison\<close>

definition hmac_sha256 :: "byte list \<Rightarrow> byte list \<Rightarrow> byte list" where
  "hmac_sha256 key msg =
     (let k0 = (if 64 < length key then sha256 key else key);
          k = k0 @ replicate (64 - length k0) 0
      in sha256 (map (\<lambda>b. b XOR 0x5c) k @ sha256 (map (\<lambda>b. b XOR 0x36) k @ msg)))"

definition hmac_hex :: "string \<Rightarrow> byte list \<Rightarrow> string" where
  "hmac_hex key msg = hex_string (hmac_sha256 (utf8 key) msg)"

text \<open>
  \<open>hmac.compare_digest\<close> on two \<open>str\<close> raises \<open>TypeError\<close> (None here) when either holds a
  character outside ASCII, and is equality otherwise.
\<close>

definition compare_digest_str :: "string \<Rightarrow> string \<Rightarrow> bool option" where
  "compare_digest_str a b = (if is_ascii a \<and> is_ascii b then Some (a = b) else None)"

text \<open>On bytes it is equality.\<close>

definition compare_digest :: "byte list \<Rightarrow> byte list \<Rightarrow> bool" where
  "compare_digest a b \<longleftrightarrow> a = b"

lemma hmac_hex_ascii: "is_ascii (hmac_hex key msg)"
  by (simp add: hmac_hex_def hex_string_ascii)

subsection \<open>UUIDs\<close>

fun bytes_value :: "byte list \<Rightarrow> nat" where
  "bytes_value bs = foldl (\<lambda>acc b. 256 * acc + unat b) 0 bs"

definition uuid_bytes :: "uuid \<Rightarrow> byte list" where
  "uuid_bytes u = map (\<lambda>i. ucast (drop_bit (8 * i) u)) [15, 14, 13, 12, 11, 10, 9, 8, 7, 6, 5, 4, 3, 2, 1, 0]"

text \<open>The variant and version fields \<open>uuid.UUID(bytes=..., version=5)\<close> sets.\<close>

definition uuid_of_hash :: "byte list \<Rightarrow> uuid" where
  "uuid_of_hash h =
     (let x = (of_nat (bytes_value (take 16 h)) :: uuid);
          x1 = (x AND NOT (push_bit 48 0xc000)) OR push_bit 48 0x8000
      in (x1 AND NOT (push_bit 64 0xf000)) OR push_bit 76 5)"

definition uuid5 :: "uuid \<Rightarrow> string \<Rightarrow> uuid" where
  "uuid5 ns name = uuid_of_hash (sha1 (uuid_bytes ns @ utf8 name))"

definition uuid_str :: "uuid \<Rightarrow> string" where
  "uuid_str u =
     (let h = hex_string (uuid_bytes u)
      in take 8 h @ ''-'' @ take 4 (drop 8 h) @ ''-'' @ take 4 (drop 12 h) @ ''-'' @
         take 4 (drop 16 h) @ ''-'' @ drop 20 h)"

end
