(* ===== verification/Errors.thy ===== *)
theory Errors
  imports Py_Text
begin

text \<open>
  The typed errors of \<open>errors.py\<close> and the message each carries, and the type of everything a call
  of the engine can raise: one of its own errors, an error of the upstream client, of the network
  or database, or one of Python's built-in exceptions.
\<close>

datatype engine_error =
    CursorConflict string int int
  | AlreadyRunning int
  | BaselineMissing string
  | SignatureInvalid string
  | DuplicateSource string
  | SourceNotFound string
  | SourceExhausted string int
  | ConsumerNotFound string
  | EmptySourceUnits
  | InvalidAccountsPerTick int
  | NotificationExtraInvalid int

fun engine_error_str :: "engine_error \<Rightarrow> string" where
  "engine_error_str (CursorConflict consumer expected actual) =
     ''cursor '' @ consumer @ '': expected v'' @ str_int expected @ '', found v'' @ str_int actual"
| "engine_error_str (AlreadyRunning lock_key) =
     ''engine already running (advisory lock '' @ str_int lock_key @ '')''"
| "engine_error_str (BaselineMissing category) = category"
| "engine_error_str (SignatureInvalid source) = source"
| "engine_error_str (DuplicateSource name) = ''source already registered: '' @ name"
| "engine_error_str (SourceNotFound name) = ''no such source: '' @ name"
| "engine_error_str (SourceExhausted name attempts) =
     ''source '' @ name @ '' exhausted restart attempts: '' @ str_int attempts"
| "engine_error_str (ConsumerNotFound name) = ''no such consumer: '' @ name"
| "engine_error_str EmptySourceUnits = ''RotatingSource requires at least one poll unit''"
| "engine_error_str (InvalidAccountsPerTick n) = ''accounts_per_tick must be >= 1, got '' @ str_int n"
| "engine_error_str (NotificationExtraInvalid n) = ''notification '' @ str_int n @ '': invalid extra payload''"

text \<open>
  \<open>Upstream\<close> is an error of the third-party client other than the two the sources tell apart,
  \<open>NotFound\<close> and \<open>LolzteamError\<close> being classes of it; the string is the exception's text.
\<close>

datatype exn =
    Engine engine_error
  | UpstreamNotFound
  | UpstreamError string
  | StoreError string
  | TypeError
  | ValueError
  | OverflowError
  | KeyError
  | IndexError
  | RuntimeError string
  | ValidationError

type_synonym 'a result = "exn + 'a"

text \<open>The \<open>?\<close> of the model: go on with the value, or pass the exception up.\<close>

definition bind_result :: "'a result \<Rightarrow> ('a \<Rightarrow> 'b result) \<Rightarrow> 'b result" where
  "bind_result r f = (case r of Inl e \<Rightarrow> Inl e | Inr x \<Rightarrow> f x)"

lemma bind_result_simps [simp]:
  "bind_result (Inl e) f = Inl e"
  "bind_result (Inr x) f = f x"
  by (simp_all add: bind_result_def)

lemma bind_result_Inr_iff: "bind_result r f = Inr y \<longleftrightarrow> (\<exists>x. r = Inr x \<and> f x = Inr y)"
  by (cases r) auto

end
