(* ===== verification/Events.thy ===== *)
theory Events
  imports Py_Datetime Json_Text Hashing Errors
begin

text \<open>
  The domain events of \<open>events/\<close>: the catalog \<open>event_type\<close>, the base envelope with the fields of
  each concrete subclass as its body, the deterministic identifier \<open>make_event_id\<close> and the
  constructors \<open>build\<close>, \<open>with_seq\<close> and \<open>from_operation\<close>. A lot and a payment operation are values
  of the third-party client: the fields the engine reads, and for a lot the JSON of its whole dump.
\<close>

subsection \<open>The catalog of event types\<close>

datatype event_type =
    NEW_LOT | PRICE_DROPPED | LOT_UPDATED | LOT_DISAPPEARED | SNAPSHOT_INITIALIZED
  | INCOME_RECEIVED | EXPENSE_RECORDED | BALANCE_REFILLED | BALANCE_WITHDRAWN | ITEM_PURCHASED
  | ITEM_SOLD | MONEY_TRANSFERRED | MONEY_RECEIVED | INTERNAL_PURCHASE | HOLD_CLAIMED
  | PAYOUT_REQUESTED | AUTO_PAYMENT_TRIGGERED | BALANCE_EXCHANGED | TRANSFER_HELD
  | TRANSFER_CANCELLED | INVOICE_CREATED | INVOICE_PAID | INVOICE_EXPIRED | GUARANTEE_EXPIRING
  | ACCOUNT_INVALID | DISPUTE_OPENED | CLAIM_FILED | LOT_RESERVED | RESERVE_EXPIRED
  | PURCHASE_CONFIRMED | PURCHASE_CANCELLED | DEAL_DETECTED | PRICE_VS_AI_CHANGED
  | INVENTORY_REVALUED | DISCOUNT_REQUESTED | DISCOUNT_APPROVED | DISCOUNT_DECLINED
  | NEW_CONVERSATION | NEW_MESSAGE | RATING_CHANGED | MARKET_NOTIFICATION_RECEIVED
  | FORUM_NOTIFICATION_RECEIVED

definition event_type_values :: "(event_type \<times> string) list" where
  "event_type_values =
     [(NEW_LOT, ''new_lot''), (PRICE_DROPPED, ''price_dropped''), (LOT_UPDATED, ''lot_updated''),
      (LOT_DISAPPEARED, ''lot_disappeared''), (SNAPSHOT_INITIALIZED, ''snapshot_initialized''),
      (INCOME_RECEIVED, ''income_received''), (EXPENSE_RECORDED, ''expense_recorded''),
      (BALANCE_REFILLED, ''balance_refilled''), (BALANCE_WITHDRAWN, ''balance_withdrawn''),
      (ITEM_PURCHASED, ''item_purchased''), (ITEM_SOLD, ''item_sold''),
      (MONEY_TRANSFERRED, ''money_transferred''), (MONEY_RECEIVED, ''money_received''),
      (INTERNAL_PURCHASE, ''internal_purchase''), (HOLD_CLAIMED, ''hold_claimed''),
      (PAYOUT_REQUESTED, ''payout_requested''), (AUTO_PAYMENT_TRIGGERED, ''auto_payment_triggered''),
      (BALANCE_EXCHANGED, ''balance_exchanged''), (TRANSFER_HELD, ''transfer_held''),
      (TRANSFER_CANCELLED, ''transfer_cancelled''), (INVOICE_CREATED, ''invoice_created''),
      (INVOICE_PAID, ''invoice_paid''), (INVOICE_EXPIRED, ''invoice_expired''),
      (GUARANTEE_EXPIRING, ''guarantee_expiring''), (ACCOUNT_INVALID, ''account_invalid''),
      (DISPUTE_OPENED, ''dispute_opened''), (CLAIM_FILED, ''claim_filed''),
      (LOT_RESERVED, ''lot_reserved''), (RESERVE_EXPIRED, ''reserve_expired''),
      (PURCHASE_CONFIRMED, ''purchase_confirmed''), (PURCHASE_CANCELLED, ''purchase_cancelled''),
      (DEAL_DETECTED, ''deal_detected''), (PRICE_VS_AI_CHANGED, ''price_vs_ai_changed''),
      (INVENTORY_REVALUED, ''inventory_revalued''), (DISCOUNT_REQUESTED, ''discount_requested''),
      (DISCOUNT_APPROVED, ''discount_approved''), (DISCOUNT_DECLINED, ''discount_declined''),
      (NEW_CONVERSATION, ''new_conversation''), (NEW_MESSAGE, ''new_message''),
      (RATING_CHANGED, ''rating_changed''),
      (MARKET_NOTIFICATION_RECEIVED, ''market_notification_received''),
      (FORUM_NOTIFICATION_RECEIVED, ''forum_notification_received'')]"

text \<open>\<open>event_type.value\<close>, and \<open>EventType(value)\<close> with None for its \<open>ValueError\<close>.\<close>

definition et_value :: "event_type \<Rightarrow> string" where
  "et_value t = the (map_of event_type_values t)"

definition parse_event_type :: "string \<Rightarrow> event_type option" where
  "parse_event_type s = map_of (map (\<lambda>(t, v). (v, t)) event_type_values) s"

lemma event_type_values_complete: "map_of event_type_values t \<noteq> None"
  by (cases t) (simp_all add: event_type_values_def)

lemma event_type_values_distinct: "distinct (map snd event_type_values)"
  by (simp add: event_type_values_def)

lemma map_of_swap:
  assumes "distinct (map snd xs)" "map_of xs k = Some v"
  shows "map_of (map (\<lambda>(a, b). (b, a)) xs) v = Some k"
proof -
  have "distinct (map fst (map (\<lambda>(a, b). (b, a)) xs))"
    using assms(1) by (simp add: comp_def case_prod_beta)
  moreover have "(v, k) \<in> set (map (\<lambda>(a, b). (b, a)) xs)"
    using map_of_SomeD [OF assms(2)] by force
  ultimately show ?thesis by (rule map_of_is_SomeI)
qed

lemma parse_et_value: "parse_event_type (et_value t) = Some t"
proof -
  obtain v where "map_of event_type_values t = Some v"
    using event_type_values_complete by blast
  then show ?thesis
    using map_of_swap [OF event_type_values_distinct] by (simp add: parse_event_type_def et_value_def)
qed

lemma et_value_inj: "et_value t = et_value u \<longleftrightarrow> t = u"
  by (metis option.inject parse_et_value)

lemma et_value_of_parse:
  assumes "parse_event_type s = Some t" shows "et_value t = s"
proof -
  have "distinct (map fst event_type_values)" by (simp add: event_type_values_def)
  moreover have "(t, s) \<in> set event_type_values"
    using map_of_SomeD [OF assms [unfolded parse_event_type_def]] by auto
  ultimately show ?thesis by (simp add: et_value_def)
qed

subsection \<open>Identifiers\<close>

definition event_ns :: uuid where
  "event_ns = 0x6f9619ff8b86d011b42d00cf4fc964ff"

definition event_key :: "string \<Rightarrow> event_type \<Rightarrow> string \<Rightarrow> int \<Rightarrow> string" where
  "event_key agg t hash epoch = agg @ ''|'' @ et_value t @ ''|'' @ hash @ ''|'' @ str_int epoch"

definition make_event_id :: "string \<Rightarrow> event_type \<Rightarrow> string \<Rightarrow> int \<Rightarrow> uuid" where
  "make_event_id agg t hash epoch = uuid5 event_ns (event_key agg t hash epoch)"

text \<open>
  The key determines what it was made of as long as the aggregate has no separator in it: the type
  has none, and the epoch is a numeral, so the content hash may hold any text.
\<close>

lemma et_value_no_bar: "CHR ''|'' \<notin> set (et_value t)"
proof -
  obtain v where v: "map_of event_type_values t = Some v"
    using event_type_values_complete by blast
  have "list_all (\<lambda>(t, v). CHR ''|'' \<notin> set v) event_type_values"
    by (simp add: event_type_values_def)
  with map_of_SomeD [OF v] show ?thesis
    by (auto simp: et_value_def v list_all_iff)
qed

lemma str_int_no_bar: "CHR ''|'' \<notin> set (str_int i)"
proof -
  have "CHR ''|'' \<notin> set (nat_digits n)" for n
    using nat_digits_all_digits [of "CHR ''|''" n] by (auto simp: is_digit_def)
  then show ?thesis by (simp add: str_int_def)
qed

lemma split_at_sep:
  assumes "a @ s # x = b @ s # y" "s \<notin> set a" "s \<notin> set b"
  shows "a = b \<and> x = y"
  using assms by (auto simp: append_eq_append_conv2 Cons_eq_append_conv append_eq_Cons_conv)

lemma split_at_last_sep:
  assumes "x @ s # a = y @ s # b" "s \<notin> set a" "s \<notin> set b"
  shows "x = y \<and> a = b"
proof -
  have "rev a @ s # rev x = rev b @ s # rev y"
    using arg_cong [OF assms(1), of rev] by simp
  with assms(2,3) have "rev a = rev b \<and> rev x = rev y"
    by (intro split_at_sep) simp_all
  then show ?thesis by simp
qed

lemma event_key_determines:
  assumes "event_key agg t hash epoch = event_key agg' t' hash' epoch'"
    and "CHR ''|'' \<notin> set agg" "CHR ''|'' \<notin> set agg'"
  shows "agg = agg' \<and> t = t' \<and> hash = hash' \<and> epoch = epoch'"
proof -
  have "agg @ CHR ''|'' # (et_value t @ ''|'' @ hash @ ''|'' @ str_int epoch)
      = agg' @ CHR ''|'' # (et_value t' @ ''|'' @ hash' @ ''|'' @ str_int epoch')"
    using assms(1) by (simp add: event_key_def)
  from split_at_sep [OF this assms(2,3)]
  have a: "agg = agg'"
    and r: "et_value t @ CHR ''|'' # (hash @ ''|'' @ str_int epoch)
          = et_value t' @ CHR ''|'' # (hash' @ ''|'' @ str_int epoch')" by simp_all
  from split_at_sep [OF r et_value_no_bar et_value_no_bar]
  have t: "et_value t = et_value t'"
    and h: "hash @ CHR ''|'' # str_int epoch = hash' @ CHR ''|'' # str_int epoch'" by simp_all
  from split_at_last_sep [OF h str_int_no_bar str_int_no_bar] a t show ?thesis
    by (simp add: et_value_inj str_int_inj)
qed

subsection \<open>Bodies and the envelope\<close>

type_synonym category = string
type_synonym item_id = int

record lot =
  lot_item_id :: item_id
  lot_category :: category
  lot_price :: decimal
  lot_hash :: string
  lot_item_state :: string
  lot_guarantee :: string
  lot_dump :: json

datatype disappear_reason = Sold | Delisted | UnknownReason

datatype confidence = NormalConfidence | LowConfidence

definition reason_value :: "disappear_reason \<Rightarrow> string" where
  "reason_value r = (case r of Sold \<Rightarrow> ''sold'' | Delisted \<Rightarrow> ''delisted'' | UnknownReason \<Rightarrow> ''unknown'')"

definition confidence_value :: "confidence \<Rightarrow> string" where
  "confidence_value c = (case c of NormalConfidence \<Rightarrow> ''normal'' | LowConfidence \<Rightarrow> ''low'')"

text \<open>The twelve subclasses of \<open>PaymentOperationEvent\<close>.\<close>

datatype payment_class =
    IncomeReceived | ExpenseRecorded | BalanceRefilled | BalanceWithdrawn | ItemPurchased
  | ItemSold | MoneyTransferred | MoneyReceived | InternalPurchase | HoldClaimed
  | AutoPaymentTriggered | BalanceExchanged

definition payment_event_type :: "payment_class \<Rightarrow> event_type" where
  "payment_event_type c = (case c of
       IncomeReceived \<Rightarrow> INCOME_RECEIVED | ExpenseRecorded \<Rightarrow> EXPENSE_RECORDED
     | BalanceRefilled \<Rightarrow> BALANCE_REFILLED | BalanceWithdrawn \<Rightarrow> BALANCE_WITHDRAWN
     | ItemPurchased \<Rightarrow> ITEM_PURCHASED | ItemSold \<Rightarrow> ITEM_SOLD
     | MoneyTransferred \<Rightarrow> MONEY_TRANSFERRED | MoneyReceived \<Rightarrow> MONEY_RECEIVED
     | InternalPurchase \<Rightarrow> INTERNAL_PURCHASE | HoldClaimed \<Rightarrow> HOLD_CLAIMED
     | AutoPaymentTriggered \<Rightarrow> AUTO_PAYMENT_TRIGGERED | BalanceExchanged \<Rightarrow> BALANCE_EXCHANGED)"

record payment_fields =
  pf_operation_id :: int
  pf_amount :: decimal
  pf_currency :: string
  pf_counterparty_id :: "int option"
  pf_counterparty_username :: string
  pf_fee :: int
  pf_is_hold :: bool
  pf_hold_end :: "datetime option"
  pf_comment :: string

text \<open>
  The concrete class of an event with its own fields. \<open>BaseEvent t\<close> is an instance of the base class
  with \<open>_event_type = t\<close>, the only instances whose override the sources set.
\<close>

datatype event_body =
    BaseEvent event_type
  | NewLotAppeared lot
  | PriceDropped (old_price: decimal) (new_price: decimal) lot
  | LotUpdated lot "string list"
  | LotDisappeared disappear_reason confidence
  | LotReserved item_id "int option"
  | PurchaseConfirmed item_id "int option"
  | GuaranteeExpiring item_id datetime
  | AccountWentInvalid item_id string
  | DisputeOpened int "int option"
  | ClaimFiled int "int option"
  | SnapshotInitialized category int
  | NewConversation int string int string string
  | NewMessage int int int string bool string
  | RatingChanged int int int int
  | MarketNotificationReceived int string datetime
  | ForumNotificationReceived int string datetime
  | PaymentOperationEvent payment_class payment_fields

fun body_type :: "event_body \<Rightarrow> event_type" where
  "body_type (BaseEvent t) = t"
| "body_type (NewLotAppeared _) = NEW_LOT"
| "body_type (PriceDropped _ _ _) = PRICE_DROPPED"
| "body_type (LotUpdated _ _) = LOT_UPDATED"
| "body_type (LotDisappeared _ _) = LOT_DISAPPEARED"
| "body_type (LotReserved _ _) = LOT_RESERVED"
| "body_type (PurchaseConfirmed _ _) = PURCHASE_CONFIRMED"
| "body_type (GuaranteeExpiring _ _) = GUARANTEE_EXPIRING"
| "body_type (AccountWentInvalid _ _) = ACCOUNT_INVALID"
| "body_type (DisputeOpened _ _) = DISPUTE_OPENED"
| "body_type (ClaimFiled _ _) = CLAIM_FILED"
| "body_type (SnapshotInitialized _ _) = SNAPSHOT_INITIALIZED"
| "body_type (NewConversation _ _ _ _ _) = NEW_CONVERSATION"
| "body_type (NewMessage _ _ _ _ _ _) = NEW_MESSAGE"
| "body_type (RatingChanged _ _ _ _) = RATING_CHANGED"
| "body_type (MarketNotificationReceived _ _ _) = MARKET_NOTIFICATION_RECEIVED"
| "body_type (ForumNotificationReceived _ _ _) = FORUM_NOTIFICATION_RECEIVED"
| "body_type (PaymentOperationEvent c _) = payment_event_type c"

record domain_event =
  event_id :: uuid
  aggregate_id :: string
  occurred_at :: datetime
  content_hash :: string
  schema_version :: int
  seq :: int
  payload :: "(string \<times> json) list"
  body :: event_body

text \<open>The property \<open>event_type\<close>, the constructor \<open>build\<close> and \<open>with_seq\<close>.\<close>

definition ev_type :: "domain_event \<Rightarrow> event_type" where
  "ev_type e = body_type (body e)"

definition build :: "event_body \<Rightarrow> string \<Rightarrow> datetime \<Rightarrow> string \<Rightarrow> int \<Rightarrow> (string \<times> json) list \<Rightarrow> domain_event" where
  "build b agg ts hash epoch pl =
     \<lparr>event_id = make_event_id agg (body_type b) hash epoch, aggregate_id = agg, occurred_at = ts,
      content_hash = hash, schema_version = 1, seq = 0, payload = pl, body = b\<rparr>"

definition with_seq :: "int \<Rightarrow> domain_event \<Rightarrow> domain_event" where
  "with_seq n e = e\<lparr>seq := n\<rparr>"

lemma build_simps [simp, event_simps]:
  "event_id (build b agg ts hash epoch pl) = make_event_id agg (body_type b) hash epoch"
  "aggregate_id (build b agg ts hash epoch pl) = agg"
  "occurred_at (build b agg ts hash epoch pl) = ts"
  "content_hash (build b agg ts hash epoch pl) = hash"
  "schema_version (build b agg ts hash epoch pl) = 1"
  "seq (build b agg ts hash epoch pl) = 0"
  "payload (build b agg ts hash epoch pl) = pl"
  "body (build b agg ts hash epoch pl) = b"
  "ev_type (build b agg ts hash epoch pl) = body_type b"
  by (simp_all add: build_def ev_type_def)

lemma with_seq_simps [simp, event_simps]:
  "event_id (with_seq n e) = event_id e"
  "aggregate_id (with_seq n e) = aggregate_id e"
  "occurred_at (with_seq n e) = occurred_at e"
  "content_hash (with_seq n e) = content_hash e"
  "schema_version (with_seq n e) = schema_version e"
  "seq (with_seq n e) = n"
  "payload (with_seq n e) = payload e"
  "body (with_seq n e) = body e"
  "ev_type (with_seq n e) = ev_type e"
  by (simp_all add: with_seq_def ev_type_def)

subsection \<open>Payment operations\<close>

record payment_op =
  po_operation_id :: int
  po_operation_type :: string
  po_amount :: decimal
  po_currency :: string
  po_counterparty_id :: "int option"
  po_counterparty_username :: string
  po_fee :: int
  po_is_hold :: bool
  po_hold_end_date :: int
  po_comment :: string

definition by_operation_type :: "(string \<times> payment_class) list" where
  "by_operation_type =
     [(''income'', IncomeReceived), (''expense'', ExpenseRecorded), (''refill'', BalanceRefilled),
      (''withdraw'', BalanceWithdrawn), (''paid_item'', ItemPurchased), (''sold_item'', ItemSold),
      (''transfer_to'', MoneyTransferred), (''transfer_from'', MoneyReceived),
      (''internal_purchase'', InternalPurchase), (''hold_claimed'', HoldClaimed),
      (''auto_payment'', AutoPaymentTriggered), (''exchange'', BalanceExchanged)]"

definition hold_end :: "payment_op \<Rightarrow> datetime option result" where
  "hold_end op =
     (if po_hold_end_date op = 0 then Inr None
      else case from_timestamp_utc (po_hold_end_date op) of
             None \<Rightarrow> Inl ValueError
           | Some d \<Rightarrow> Inr (Some d))"

definition from_operation :: "payment_op \<Rightarrow> datetime \<Rightarrow> string \<Rightarrow> int \<Rightarrow> domain_event option result" where
  "from_operation op ts hash epoch =
     (case map_of by_operation_type (po_operation_type op) of
        None \<Rightarrow> Inr None
      | Some c \<Rightarrow>
          bind_result (hold_end op) (\<lambda>he.
            let agg = str_int (po_operation_id op);
                fields = \<lparr>pf_operation_id = po_operation_id op, pf_amount = po_amount op,
                          pf_currency = po_currency op, pf_counterparty_id = po_counterparty_id op,
                          pf_counterparty_username = po_counterparty_username op, pf_fee = po_fee op,
                          pf_is_hold = po_is_hold op, pf_hold_end = he, pf_comment = po_comment op\<rparr>
            in Inr (Some \<lparr>event_id = make_event_id agg (payment_event_type c) hash epoch,
                          aggregate_id = agg, occurred_at = ts, content_hash = hash,
                          schema_version = 1, seq = 0, payload = [],
                          body = PaymentOperationEvent c fields\<rparr>)))"

lemma from_operation_build:
  assumes "from_operation op ts hash epoch = Inr (Some e)"
  obtains c f where "map_of by_operation_type (po_operation_type op) = Some c"
    and "e = build (PaymentOperationEvent c f) (str_int (po_operation_id op)) ts hash epoch []"
    and "pf_operation_id f = po_operation_id op" "pf_amount f = po_amount op"
  using assms
  by (auto simp: from_operation_def bind_result_def build_def Let_def split: option.splits sum.splits)

lemma from_operation_None_iff:
  "from_operation op ts hash epoch = Inr None \<longleftrightarrow> map_of by_operation_type (po_operation_type op) = None"
  by (auto simp: from_operation_def bind_result_def Let_def split: option.splits sum.splits)

subsection \<open>Properties\<close>

text \<open>The text an event identifier is hashed from determines the logical event: two calls of
  \<open>make_event_id\<close> with the same key have the same aggregate, type, content hash and poll epoch, whatever
  the hash contains, provided the aggregates contain no separator. The sources build their
  aggregates from numbers and fixed words, which contain none.\<close>

theorem event_key_injective:
  assumes "event_key agg t hash epoch = event_key agg' t' hash' epoch'"
    and "CHR ''|'' \<notin> set agg" "CHR ''|'' \<notin> set agg'"
  shows "agg = agg' \<and> t = t' \<and> hash = hash' \<and> epoch = epoch'"
  by (rule event_key_determines [OF assms])

theorem event_key_injective_witness:
  "event_key ''17'' NEW_LOT ''a|b'' 3 = ''17|new_lot|a|b|3''
     \<and> (''17'' = ''17'' \<and> NEW_LOT = NEW_LOT \<and> ''a|b'' = ''a|b'' \<and> (3 :: int) = 3)"
  using event_key_injective [of "''17''" NEW_LOT "''a|b''" 3 "''17''" NEW_LOT "''a|b''" 3]
  by (simp add: event_key_def et_value_def event_type_values_def str_int_def nat_digits.simps digit_char_def char_of_code)

end
