(* ===== verification/Event_Codec.thy ===== *)
theory Event_Codec
  imports Events
begin

text \<open>
  The JSON codec (\<open>codecs/json.py\<close>): \<open>to_jsonable\<close> on the fields of each event class, the flattened
  payload \<open>encode_event\<close> that the log column and the wire share, \<open>event_envelope\<close>, the signed
  \<open>canonical_bytes\<close> and \<open>decode_event\<close>. A stored event is read back as a base event; the theorems show
  that the wire cannot tell it from the one that was written, and that the signed bytes depend on
  the members of the envelope and not on their order.
\<close>

subsection \<open>Fields as JSON\<close>

definition opt_json :: "('a \<Rightarrow> json) \<Rightarrow> 'a option \<Rightarrow> json" where
  "opt_json f x = (case x of None \<Rightarrow> JNull | Some y \<Rightarrow> f y)"

definition payment_json :: "payment_fields \<Rightarrow> (string \<times> json) list" where
  "payment_json p =
     [(''operation_id'', JInt (pf_operation_id p)), (''amount'', JStr (dec_str (pf_amount p))),
      (''currency'', JStr (pf_currency p)), (''counterparty_id'', opt_json JInt (pf_counterparty_id p)),
      (''counterparty_username'', JStr (pf_counterparty_username p)), (''fee'', JInt (pf_fee p)),
      (''is_hold'', JBool (pf_is_hold p)),
      (''hold_end'', opt_json (\<lambda>d. JStr (isoformat d)) (pf_hold_end p)),
      (''comment'', JStr (pf_comment p))]"

fun body_json :: "event_body \<Rightarrow> (string \<times> json) list" where
  "body_json (BaseEvent t) = []"
| "body_json (NewLotAppeared l) = [(''lot'', lot_dump l)]"
| "body_json (PriceDropped old new l) =
     [(''old_price'', JStr (dec_str old)), (''new_price'', JStr (dec_str new)), (''lot'', lot_dump l)]"
| "body_json (LotUpdated l ch) = [(''lot'', lot_dump l), (''changed'', JArr (map JStr ch))]"
| "body_json (LotDisappeared r c) =
     [(''reason'', JStr (reason_value r)), (''confidence'', JStr (confidence_value c))]"
| "body_json (LotReserved i b) = [(''item_id'', JInt i), (''buyer_id'', opt_json JInt b)]"
| "body_json (PurchaseConfirmed i b) = [(''item_id'', JInt i), (''buyer_id'', opt_json JInt b)]"
| "body_json (GuaranteeExpiring i d) = [(''item_id'', JInt i), (''guarantee_end'', JStr (isoformat d))]"
| "body_json (AccountWentInvalid i r) = [(''item_id'', JInt i), (''reason'', JStr r)]"
| "body_json (DisputeOpened c i) = [(''claim_id'', JInt c), (''item_id'', opt_json JInt i)]"
| "body_json (ClaimFiled c i) = [(''claim_id'', JInt c), (''item_id'', opt_json JInt i)]"
| "body_json (SnapshotInitialized c n) = [(''category'', JStr c), (''lot_count'', JInt n)]"
| "body_json (NewConversation c t u n f) =
     [(''conversation_id'', JInt c), (''conversation_title'', JStr t), (''creator_user_id'', JInt u),
      (''creator_username'', JStr n), (''folder'', JStr f)]"
| "body_json (NewMessage m c u t s f) =
     [(''message_id'', JInt m), (''conversation_id'', JInt c), (''author_user_id'', JInt u),
      (''message_text'', JStr t), (''is_system'', JBool s), (''folder'', JStr f)]"
| "body_json (RatingChanged l d dl dd) =
     [(''user_like_count'', JInt l), (''user_dislike_count'', JInt d), (''delta_likes'', JInt dl),
      (''delta_dislikes'', JInt dd)]"
| "body_json (MarketNotificationReceived n t d) =
     [(''notification_id'', JInt n), (''content_type'', JStr t), (''created_at'', JStr (isoformat d))]"
| "body_json (ForumNotificationReceived n t d) =
     [(''notification_id'', JInt n), (''content_type'', JStr t), (''created_at'', JStr (isoformat d))]"
| "body_json (PaymentOperationEvent c p) = payment_json p"

definition encode_event :: "domain_event \<Rightarrow> (string \<times> json) list" where
  "encode_event e = dict_update (payload e) (body_json (body e))"

definition event_envelope :: "domain_event \<Rightarrow> (string \<times> json) list" where
  "event_envelope e = dict_update (encode_event e)
     [(''event_id'', JStr (uuid_str (event_id e))),
      (''event_type'', JStr (et_value (ev_type e))),
      (''aggregate_id'', JStr (aggregate_id e)),
      (''occurred_at'', JStr (isoformat (occurred_at e))),
      (''seq'', JInt (seq e)),
      (''schema_version'', JInt (schema_version e))]"

definition canonical_text :: "(string \<times> json) list \<Rightarrow> string" where
  "canonical_text data = json_dumps compact_style (json_sorted (JObj data))"

definition canonical_bytes :: "(string \<times> json) list \<Rightarrow> byte list" where
  "canonical_bytes data = utf8 (canonical_text data)"

text \<open>None is the \<open>ValueError\<close> of an unknown event type.\<close>

definition decode_event ::
  "uuid \<Rightarrow> string \<Rightarrow> string \<Rightarrow> datetime \<Rightarrow> string \<Rightarrow> int \<Rightarrow> int \<Rightarrow> (string \<times> json) list \<Rightarrow> domain_event option" where
  "decode_event eid et agg ts hash ver sq pl =
     map_option (\<lambda>t. \<lparr>event_id = eid, aggregate_id = agg, occurred_at = ts, content_hash = hash,
                      schema_version = ver, seq = sq, payload = pl, body = BaseEvent t\<rparr>)
       (parse_event_type et)"

subsection \<open>What a read-back event keeps\<close>

text \<open>The base event with the flattened payload: what \<open>decode_event\<close> makes of a written event.\<close>

definition flatten :: "domain_event \<Rightarrow> domain_event" where
  "flatten e = e\<lparr>payload := encode_event e, body := BaseEvent (ev_type e)\<rparr>"

lemma flatten_simps [simp, event_simps]:
  "event_id (flatten e) = event_id e"
  "aggregate_id (flatten e) = aggregate_id e"
  "occurred_at (flatten e) = occurred_at e"
  "content_hash (flatten e) = content_hash e"
  "schema_version (flatten e) = schema_version e"
  "seq (flatten e) = seq e"
  "payload (flatten e) = encode_event e"
  "ev_type (flatten e) = ev_type e"
  by (simp_all add: flatten_def ev_type_def)

lemma decode_flatten:
  "decode_event (event_id e) (et_value (ev_type e)) (aggregate_id e) (occurred_at e) (content_hash e)
     (schema_version e) n (encode_event e) = Some (flatten (with_seq n e))"
  by (simp add: decode_event_def flatten_def parse_et_value with_seq_def encode_event_def ev_type_def)

lemma encode_flatten [simp]: "encode_event (flatten e) = encode_event e"
  by (simp add: flatten_def encode_event_def)

lemma envelope_flatten [simp]: "event_envelope (flatten e) = event_envelope e"
  by (simp add: event_envelope_def)

lemma flatten_flatten [simp]: "flatten (flatten e) = flatten e"
  by (simp add: flatten_def encode_event_def ev_type_def)

subsection \<open>The envelope\<close>

lemma body_json_ok: "dict_ok (body_json b)"
  by (cases b) (simp_all add: dict_ok_def payment_json_def)

lemma encode_ok: "dict_ok (payload e) \<Longrightarrow> dict_ok (encode_event e)"
  by (simp add: encode_event_def)

lemma envelope_ok: "dict_ok (payload e) \<Longrightarrow> dict_ok (event_envelope e)"
  by (simp add: event_envelope_def encode_ok)

lemma encode_lookup:
  "map_of (encode_event e) k = (case map_of (body_json (body e)) k of None \<Rightarrow> map_of (payload e) k | Some v \<Rightarrow> Some v)"
  by (simp add: encode_event_def map_of_dict_update body_json_ok)

lemma envelope_base_fields:
  "map_of (event_envelope e) ''event_id'' = Some (JStr (uuid_str (event_id e)))"
  "map_of (event_envelope e) ''event_type'' = Some (JStr (et_value (ev_type e)))"
  "map_of (event_envelope e) ''aggregate_id'' = Some (JStr (aggregate_id e))"
  "map_of (event_envelope e) ''occurred_at'' = Some (JStr (isoformat (occurred_at e)))"
  "map_of (event_envelope e) ''seq'' = Some (JInt (seq e))"
  "map_of (event_envelope e) ''schema_version'' = Some (JInt (schema_version e))"
  by (simp_all add: event_envelope_def dict_simps)

definition envelope_keys :: "string list" where
  "envelope_keys = [''event_id'', ''event_type'', ''aggregate_id'', ''occurred_at'', ''seq'', ''schema_version'']"

lemma envelope_lookup_other:
  "k \<notin> set envelope_keys \<Longrightarrow> map_of (event_envelope e) k = map_of (encode_event e) k"
  by (simp add: event_envelope_def envelope_keys_def dict_simps)

lemma body_json_not_envelope_key: "k \<in> set (dict_keys (body_json b)) \<Longrightarrow> k \<notin> set envelope_keys"
  by (cases b) (auto simp: envelope_keys_def payment_json_def)

subsection \<open>Canonical bytes\<close>

lemma sort_key_same_dict:
  fixes xs ys :: "(string \<times> 'b) list"
  assumes "dict_ok xs" "dict_ok ys" "map_of xs = map_of ys"
  shows "sort_key fst xs = sort_key fst ys"
proof (rule map_sorted_distinct_set_unique)
  have eq: "set xs = set ys"
    using assms map_of_mem_dict [OF assms(1)] map_of_mem_dict [OF assms(2)] by auto
  then show "set (sort_key fst xs) = set (sort_key fst ys)" by simp
  show "inj_on fst (set (sort_key fst xs) \<union> set (sort_key fst ys))"
    using assms(1) eq by (simp add: dict_ok_def distinct_map)
  have "distinct (map fst (sort_key fst zs)) = distinct (map fst zs)" for zs :: "(string \<times> 'b) list"
    by (metis distinct_map distinct_sort set_sort)
  then show "distinct (map fst (sort_key fst xs))" "distinct (map fst (sort_key fst ys))"
    using assms(1,2) by (simp_all add: dict_ok_def)
qed simp_all

lemma canonical_text_same_dict:
  assumes "dict_ok xs" "dict_ok ys" "map_of xs = map_of ys"
  shows "canonical_text xs = canonical_text ys"
proof -
  let ?f = "map (\<lambda>(k, v). (k, json_sorted v)) :: (string \<times> json) list \<Rightarrow> _"
  have "map_of (?f xs) = map_of (?f ys)"
    using assms(3) by (simp add: fun_eq_iff map_of_map_snd)
  then have "sort_key fst (?f xs) = sort_key fst (?f ys)"
    using assms by (intro sort_key_same_dict) simp_all
  then show ?thesis by (simp add: canonical_text_def)
qed

text \<open>The receiver parses the sorted envelope back from the bytes it verified.\<close>

lemma sort_key_dict_ok: "dict_ok (sort_key fst kvs) = dict_ok (kvs :: (string \<times> 'b) list)"
  unfolding dict_ok_def by (metis distinct_map distinct_sort set_sort)

lemma json_sorted_plain: "json_plain j \<Longrightarrow> json_plain (json_sorted j)"
proof (induction j)
  case (JObj kvs)
  then show ?case by (fastforce simp: sort_key_dict_ok list_all_iff)
qed (auto simp: list_all_iff)

lemma canonical_parses:
  "json_plain (JObj data) \<Longrightarrow> json_loads (canonical_text data) = Some (json_sorted (JObj data))"
  by (simp only: canonical_text_def loads_dumps_text styles_ok json_sorted_plain)

subsection \<open>Properties\<close>

text \<open>C8: What the log stores of an event and reads back as a base event is the same event to every
  reader of the wire: \<open>decode_event\<close> on the stored columns succeeds, and the result has the same type,
  the same flattened payload and the same envelope, member for member, so the bytes that are signed
  and sent are the same too.\<close>

theorem stored_event_same_wire:
  "\<exists>e'. decode_event (event_id e) (et_value (ev_type e)) (aggregate_id e) (occurred_at e) (content_hash e)
          (schema_version e) n (encode_event e) = Some e'
      \<and> ev_type e' = ev_type e \<and> encode_event e' = encode_event e
      \<and> event_envelope e' = event_envelope (with_seq n e)
      \<and> canonical_bytes (event_envelope e') = canonical_bytes (event_envelope (with_seq n e))"
  by (simp add: decode_flatten) (simp add: encode_event_def)

text \<open>The signed bytes do not depend on the order in which the members of the envelope were built:
  two dictionaries with the same members give the same canonical bytes, and a receiver that parses
  them gets the members in sorted order.\<close>

theorem canonical_bytes_order_free:
  assumes "dict_ok xs" "dict_ok ys" "map_of xs = map_of ys" "json_plain (JObj xs)"
  shows "canonical_bytes xs = canonical_bytes ys \<and> json_loads (canonical_text ys) = Some (json_sorted (JObj xs))"
  using canonical_text_same_dict [OF assms(1-3)] canonical_parses [OF assms(4)]
  by (simp_all add: canonical_bytes_def)

theorem canonical_bytes_order_free_witness:
  "canonical_bytes [(''b'', JInt 1), (''a'', JNull)] = canonical_bytes [(''a'', JNull), (''b'', JInt 1)]"
  using canonical_bytes_order_free [of "[(''b'', JInt 1), (''a'', JNull)]" "[(''a'', JNull), (''b'', JInt 1)]"]
  by (auto simp: dict_ok_def fun_eq_iff)

end
