(* ===== verification/Snapshot_Diff.thy ===== *)
theory Snapshot_Diff
  imports Event_Codec
begin

text \<open>
  The catalog diff (\<open>diff/snapshot.py\<close>, \<open>diff/differ.py\<close>): the durable baseline entry, the snapshot of
  one poll and the pure differ. The lemmas characterise every event of a diff and show that a diff
  against the baseline a poll writes is silent.
\<close>

record baseline_entry =
  be_price :: decimal
  be_hash :: string
  miss_count :: int

record snapshot =
  snap_category :: category
  snap_lots :: "(item_id, lot) dict"

definition from_lots :: "category \<Rightarrow> lot list \<Rightarrow> snapshot" where
  "from_lots c lots = \<lparr>snap_category = c, snap_lots = dict_update [] (map (\<lambda>l. (lot_item_id l, l)) lots)\<rparr>"

definition snap_ids :: "snapshot \<Rightarrow> item_id list" where
  "snap_ids s = dict_keys (snap_lots s)"

record diff_result =
  diff_events :: "domain_event list"
  present_ids :: "item_id list"
  absent_ids :: "item_id list"

definition category_payload :: "lot \<Rightarrow> (string \<times> json) list" where
  "category_payload l = [(''category'', JStr (lot_category l))]"

text \<open>The loop over the current lots, one branch per case of the source.\<close>

fun diff_lots :: "(item_id, baseline_entry) dict \<Rightarrow> int \<Rightarrow> datetime \<Rightarrow> (item_id, lot) dict \<Rightarrow> domain_event list" where
  "diff_lots prev epoch ts [] = []"
| "diff_lots prev epoch ts ((i, l) # rest) =
     (let agg = str_int i; tail = diff_lots prev epoch ts rest in
      case map_of prev i of
        None \<Rightarrow> build (NewLotAppeared l) agg ts (lot_hash l) epoch (category_payload l) # tail
      | Some base \<Rightarrow>
          if dec_less (lot_price l) (be_price base) then
            build (PriceDropped (be_price base) (lot_price l) l) agg ts (lot_hash l) epoch (category_payload l) # tail
          else if lot_hash l \<noteq> be_hash base then
            build (LotUpdated l [''content'']) agg ts (lot_hash l) epoch (category_payload l) # tail
          else tail)"

definition diff :: "(item_id, baseline_entry) dict \<Rightarrow> snapshot \<Rightarrow> int \<Rightarrow> datetime \<Rightarrow> diff_result" where
  "diff prev snap epoch ts =
     \<lparr>diff_events = diff_lots prev epoch ts (snap_lots snap),
      present_ids = snap_ids snap,
      absent_ids = filter (\<lambda>i. i \<notin> set (snap_ids snap)) (dict_keys prev)\<rparr>"

lemma from_lots_ok [simp]: "dict_ok (snap_lots (from_lots c lots))"
  by (simp add: from_lots_def)

lemma from_lots_category [simp]: "snap_category (from_lots c lots) = c"
  by (simp add: from_lots_def)

lemma snap_ids_from_lots: "set (snap_ids (from_lots c lots)) = lot_item_id ` set lots"
  by (simp add: snap_ids_def from_lots_def image_image)

text \<open>Which event a lot causes: \<open>fires\<close> is the specification the loop is checked against.\<close>

inductive fires ::
  "(item_id, baseline_entry) dict \<Rightarrow> item_id \<Rightarrow> lot \<Rightarrow> event_body \<Rightarrow> bool"
  for prev i l where
    fires_new: "map_of prev i = None \<Longrightarrow> fires prev i l (NewLotAppeared l)"
  | fires_drop: "map_of prev i = Some b \<Longrightarrow> dec_val (lot_price l) < dec_val (be_price b)
      \<Longrightarrow> fires prev i l (PriceDropped (be_price b) (lot_price l) l)"
  | fires_update: "map_of prev i = Some b \<Longrightarrow> dec_val (be_price b) \<le> dec_val (lot_price l)
      \<Longrightarrow> lot_hash l \<noteq> be_hash b \<Longrightarrow> fires prev i l (LotUpdated l [''content''])"

inductive_cases firesE: "fires prev i l b"

lemma fires_functional: "fires prev i l b \<Longrightarrow> fires prev i l b' \<Longrightarrow> b = b'"
  by (auto elim!: firesE)

lemma diff_lots_set:
  "e \<in> set (diff_lots prev epoch ts lots) \<longleftrightarrow>
     (\<exists>(i, l)\<in>set lots. \<exists>b. fires prev i l b
        \<and> e = build b (str_int i) ts (lot_hash l) epoch (category_payload l))"
proof (induction lots)
  case (Cons p rest)
  obtain i l where p: "p = (i, l)" by (cases p)
  have hd: "e \<in> set (diff_lots prev epoch ts (p # rest)) \<longleftrightarrow>
      (\<exists>b. fires prev i l b \<and> e = build b (str_int i) ts (lot_hash l) epoch (category_payload l))
      \<or> e \<in> set (diff_lots prev epoch ts rest)"
  proof (cases "map_of prev i")
    case None
    then have "fires prev i l b \<longleftrightarrow> b = NewLotAppeared l" for b
      by (auto elim!: firesE intro: fires_new)
    with None show ?thesis by (simp add: p Let_def)
  next
    case (Some base)
    consider "dec_less (lot_price l) (be_price base)"
      | "\<not> dec_less (lot_price l) (be_price base)" "lot_hash l \<noteq> be_hash base"
      | "\<not> dec_less (lot_price l) (be_price base)" "lot_hash l = be_hash base" by blast
    then show ?thesis
    proof cases
      case 1
      then have "fires prev i l b \<longleftrightarrow> b = PriceDropped (be_price base) (lot_price l) l" for b
        using Some by (auto simp: dec_less_val elim!: firesE intro: fires_drop)
      with Some 1 show ?thesis by (simp add: p Let_def)
    next
      case 2
      then have "fires prev i l b \<longleftrightarrow> b = LotUpdated l [''content'']" for b
        using Some by (auto simp: dec_less_val elim!: firesE intro: fires_update)
      with Some 2 show ?thesis by (simp add: p Let_def)
    next
      case 3
      then have "\<not> fires prev i l b" for b
        using Some by (auto simp: dec_less_val elim!: firesE)
      with Some 3 show ?thesis by (simp add: p Let_def)
    qed
  qed
  then show ?case using Cons.IH by (auto simp: p)
qed simp

lemma diff_lots_aggregates:
  "set (map aggregate_id (diff_lots prev epoch ts lots)) \<subseteq> str_int ` set (dict_keys lots)"
  by (auto simp: diff_lots_set image_iff) force

lemma diff_lots_one_per_lot: "dict_ok lots \<Longrightarrow> distinct (map aggregate_id (diff_lots prev epoch ts lots))"
proof (induction lots)
  case (Cons p rest)
  obtain i l where p: "p = (i, l)" by (cases p)
  have "str_int i \<notin> str_int ` set (dict_keys rest)"
    using Cons.prems by (auto simp: p dict_ok_Cons str_int_inj image_iff)
  then have "str_int i \<notin> set (map aggregate_id (diff_lots prev epoch ts rest))"
    using diff_lots_aggregates [of prev epoch ts rest] by blast
  then show ?case using Cons by (auto simp: p Let_def dict_ok_Cons split: option.splits)
qed simp

text \<open>A baseline that already holds the current lots gives no event.\<close>

lemma diff_lots_silent:
  assumes "\<forall>(i, l)\<in>set lots. \<exists>b. map_of prev i = Some b \<and> be_price b = lot_price l \<and> be_hash b = lot_hash l"
  shows "diff_lots prev epoch ts lots = []"
  using assms by (induction lots) (auto simp: Let_def dec_less_val)

subsection \<open>Properties\<close>

text \<open>C5: A diff emits exactly what changed. For distinct lot ids there is an event for a lot iff the lot
  is new, is cheaper than the baseline, or (at the same or a higher price) has another content hash,
  and then exactly one, of the matching class and with the deterministic identifier of the poll; the
  present ids are the lots' and the absent ones the baseline's that are not present.\<close>

theorem diff_exact:
  assumes "dict_ok (snap_lots snap)"
  shows "(\<forall>e. e \<in> set (diff_events (diff prev snap epoch ts)) \<longleftrightarrow>
           (\<exists>i l b. (i, l) \<in> set (snap_lots snap) \<and> fires prev i l b
              \<and> e = build b (str_int i) ts (lot_hash l) epoch (category_payload l)))
    \<and> distinct (map aggregate_id (diff_events (diff prev snap epoch ts)))
    \<and> set (present_ids (diff prev snap epoch ts)) = set (dict_keys (snap_lots snap))
    \<and> set (absent_ids (diff prev snap epoch ts)) = set (dict_keys prev) - set (dict_keys (snap_lots snap))"
  using diff_lots_one_per_lot [OF assms]
  by (auto simp: diff_def diff_lots_set snap_ids_def)

theorem diff_exact_witness:
  "distinct (map aggregate_id (diff_events (diff
     [(1, \<lparr>be_price = Decimal 10 0, be_hash = ''x'', miss_count = 0\<rparr>)]
     (from_lots ''steam'' [\<lparr>lot_item_id = 1, lot_category = ''steam'', lot_price = Decimal 9 0, lot_hash = ''x'',
                            lot_item_state = ''active'', lot_guarantee = [], lot_dump = JNull\<rparr>,
                           \<lparr>lot_item_id = 2, lot_category = ''steam'', lot_price = Decimal 5 0, lot_hash = ''y'',
                            lot_item_state = ''active'', lot_guarantee = [], lot_dump = JNull\<rparr>]) 3 (the (from_timestamp_utc 0)))))"
  using diff_exact [of "from_lots ''steam'' [\<lparr>lot_item_id = 1, lot_category = ''steam'', lot_price = Decimal 9 0, lot_hash = ''x'',
                            lot_item_state = ''active'', lot_guarantee = [], lot_dump = JNull\<rparr>,
                           \<lparr>lot_item_id = 2, lot_category = ''steam'', lot_price = Decimal 5 0, lot_hash = ''y'',
                            lot_item_state = ''active'', lot_guarantee = [], lot_dump = JNull\<rparr>]"]
  by (simp only: from_lots_ok simp_thms)

end
