(* ===== verification/Last_Seen.thy ===== *)
theory Last_Seen
  imports Snapshot_Diff
begin

text \<open>
  The durable diff baseline (\<open>baseline/\<close>): the batch applied with every append, the contract of
  \<open>BaseLastSeenStore\<close>, its in-memory implementation and the SQL one over the tables \<open>last_seen\<close> and
  \<open>poll_epoch\<close>. A table is the list of its rows, each the primary key with the other columns, so
  that \<open>INSERT ... ON CONFLICT DO UPDATE\<close> is a dictionary update; the columns nobody reads back
  (\<open>last_polled_at\<close>, \<open>tenant_id\<close>) and the rounding of \<open>NUMERIC(20, 8)\<close> are left out.
\<close>

record last_seen_batch =
  lb_category :: category
  lb_epoch :: int
  lb_upserts :: "(item_id, baseline_entry) dict"
  lb_drops :: "item_id list"

text \<open>The batches whose effect the contract fixes: distinct upserts, none of them dropped too.\<close>

definition batch_ok :: "last_seen_batch \<Rightarrow> bool" where
  "batch_ok b \<longleftrightarrow> dict_ok (lb_upserts b) \<and> set (dict_keys (lb_upserts b)) \<inter> set (lb_drops b) = {}"

definition marker_batch :: "category \<Rightarrow> int \<Rightarrow> last_seen_batch" where
  "marker_batch c epoch = \<lparr>lb_category = c, lb_epoch = epoch, lb_upserts = [], lb_drops = []\<rparr>"

lemma marker_batch_ok [simp]: "batch_ok (marker_batch c epoch)"
  by (simp add: batch_ok_def marker_batch_def)

subsection \<open>The contract\<close>

text \<open>What a category's baseline holds for an item after a batch.\<close>

definition batch_lookup :: "last_seen_batch \<Rightarrow> (item_id \<Rightarrow> baseline_entry option) \<Rightarrow> item_id \<Rightarrow> baseline_entry option" where
  "batch_lookup b m i = (if i \<in> set (lb_drops b) then None
                         else case map_of (lb_upserts b) i of Some e \<Rightarrow> Some e | None \<Rightarrow> m i)"

locale last_seen_store =
  fixes has_baseline :: "'s \<Rightarrow> category \<Rightarrow> bool"
    and get_baseline :: "'s \<Rightarrow> category \<Rightarrow> (item_id, baseline_entry) dict"
    and poll_epoch :: "'s \<Rightarrow> category \<Rightarrow> int"
    and apply_batch :: "last_seen_batch \<Rightarrow> 's \<Rightarrow> 's"
    and store_ok :: "'s \<Rightarrow> bool"
    and empty_store :: 's
  assumes empty_ok: "store_ok empty_store"
    and empty_state: "\<not> has_baseline empty_store c" "get_baseline empty_store c = []" "poll_epoch empty_store c = 0"
    and apply_ok: "store_ok s \<Longrightarrow> batch_ok b \<Longrightarrow> store_ok (apply_batch b s)"
    and baseline_dict: "store_ok s \<Longrightarrow> dict_ok (get_baseline s c)"
    and has_apply: "has_baseline (apply_batch b s) c \<longleftrightarrow> c = lb_category b \<or> has_baseline s c"
    and epoch_apply: "poll_epoch (apply_batch b s) c = (if c = lb_category b then lb_epoch b else poll_epoch s c)"
    and get_apply: "store_ok s \<Longrightarrow> batch_ok b \<Longrightarrow> map_of (get_baseline (apply_batch b s) c)
          = (if c = lb_category b then batch_lookup b (map_of (get_baseline s c)) else map_of (get_baseline s c))"
begin

text \<open>Two states no caller of the interface can tell apart.\<close>

definition same_baseline :: "'s \<Rightarrow> 's \<Rightarrow> bool" where
  "same_baseline s t \<longleftrightarrow> (\<forall>c. has_baseline s c = has_baseline t c \<and> poll_epoch s c = poll_epoch t c
                             \<and> map_of (get_baseline s c) = map_of (get_baseline t c))"

lemma apply_ok_foldl: "store_ok s \<Longrightarrow> \<forall>b\<in>set bs. batch_ok b \<Longrightarrow> store_ok (foldl (\<lambda>s b. apply_batch b s) s bs)"
  by (induction bs arbitrary: s) (simp_all add: apply_ok)

lemma replay_same:
  assumes "store_ok s" "batch_ok b"
  shows "same_baseline (apply_batch b (apply_batch b s)) (apply_batch b s)"
  using assms
  by (simp add: same_baseline_def has_apply epoch_apply get_apply apply_ok fun_eq_iff batch_lookup_def
           split: option.splits)

lemma other_category_untouched:
  assumes "store_ok s" "batch_ok b" "c \<noteq> lb_category b"
  shows "has_baseline (apply_batch b s) c = has_baseline s c"
    "poll_epoch (apply_batch b s) c = poll_epoch s c"
    "map_of (get_baseline (apply_batch b s) c) = map_of (get_baseline s c)"
  using assms by (simp_all add: has_apply epoch_apply get_apply)

end

text \<open>Two implementations of the contract, driven by the same batches, agree on every read.\<close>

locale last_seen_pair =
  a: last_seen_store hasA getA epochA applyA okA emptyA +
  b: last_seen_store hasB getB epochB applyB okB emptyB
  for hasA :: "'a \<Rightarrow> category \<Rightarrow> bool" and getA epochA applyA okA emptyA
    and hasB :: "'b \<Rightarrow> category \<Rightarrow> bool" and getB epochB applyB okB emptyB
begin

definition agree :: "'a \<Rightarrow> 'b \<Rightarrow> bool" where
  "agree s t \<longleftrightarrow> okA s \<and> okB t \<and>
     (\<forall>c. hasA s c = hasB t c \<and> epochA s c = epochB t c \<and> map_of (getA s c) = map_of (getB t c))"

lemma agree_empty: "agree emptyA emptyB"
  by (simp add: agree_def a.empty_ok b.empty_ok a.empty_state b.empty_state)

lemma agree_apply: "agree s t \<Longrightarrow> batch_ok x \<Longrightarrow> agree (applyA x s) (applyB x t)"
  by (simp add: agree_def a.apply_ok b.apply_ok a.has_apply b.has_apply a.epoch_apply b.epoch_apply
           a.get_apply b.get_apply)

lemma agree_run:
  "\<forall>x\<in>set xs. batch_ok x \<Longrightarrow> agree s t \<Longrightarrow>
     agree (foldl (\<lambda>s x. applyA x s) s xs) (foldl (\<lambda>t x. applyB x t) t xs)"
  by (induction xs arbitrary: s t) (simp_all add: agree_apply)

end

subsection \<open>In memory\<close>

record memory_last_seen =
  ms_data :: "(category, (item_id, baseline_entry) dict) dict"
  ms_epoch :: "(category, int) dict"
  ms_bootstrapped :: "category list"

definition ms_init :: memory_last_seen where
  "ms_init = \<lparr>ms_data = [], ms_epoch = [], ms_bootstrapped = []\<rparr>"

definition ms_has_baseline :: "memory_last_seen \<Rightarrow> category \<Rightarrow> bool" where
  "ms_has_baseline s c \<longleftrightarrow> c \<in> set (ms_bootstrapped s)"

definition ms_get_baseline :: "memory_last_seen \<Rightarrow> category \<Rightarrow> (item_id, baseline_entry) dict" where
  "ms_get_baseline s c = (case map_of (ms_data s) c of None \<Rightarrow> [] | Some d \<Rightarrow> d)"

definition ms_get_poll_epoch :: "memory_last_seen \<Rightarrow> category \<Rightarrow> int" where
  "ms_get_poll_epoch s c = (case map_of (ms_epoch s) c of None \<Rightarrow> 0 | Some n \<Rightarrow> n)"

definition ms_apply :: "last_seen_batch \<Rightarrow> memory_last_seen \<Rightarrow> memory_last_seen" where
  "ms_apply b s =
     (let bucket = ms_get_baseline s (lb_category b);
          bucket1 = dict_pops bucket (lb_drops b);
          bucket2 = dict_update bucket1 (lb_upserts b)
      in \<lparr>ms_data = AList.update (lb_category b) bucket2 (ms_data s),
          ms_epoch = AList.update (lb_category b) (lb_epoch b) (ms_epoch s),
          ms_bootstrapped = List.insert (lb_category b) (ms_bootstrapped s)\<rparr>)"

definition ms_ok :: "memory_last_seen \<Rightarrow> bool" where
  "ms_ok s \<longleftrightarrow> (\<forall>c. dict_ok (ms_get_baseline s c))"

declare ms_has_baseline_def [store_defs] ms_get_baseline_def [store_defs]
  ms_get_poll_epoch_def [store_defs] ms_apply_def [store_defs]

lemma ms_get_baseline_apply:
  "ms_get_baseline (ms_apply b s) c =
     (if c = lb_category b
      then dict_update (dict_pops (ms_get_baseline s c) (lb_drops b)) (lb_upserts b)
      else ms_get_baseline s c)"
  by (simp add: ms_get_baseline_def ms_apply_def Let_def dict_simps)

lemma ms_lookup_apply:
  "dict_ok (lb_upserts b) \<Longrightarrow> map_of (ms_get_baseline (ms_apply b s) c) i =
     (if c = lb_category b then
        (case map_of (lb_upserts b) i of
           Some e \<Rightarrow> Some e
         | None \<Rightarrow> if i \<in> set (lb_drops b) then None else map_of (ms_get_baseline s c) i)
      else map_of (ms_get_baseline s c) i)"
  by (simp add: ms_get_baseline_apply map_of_dict_update map_of_dict_pops split: option.splits)

lemma batch_ok_disjoint: "batch_ok b \<Longrightarrow> map_of (lb_upserts b) i = Some e \<Longrightarrow> i \<notin> set (lb_drops b)"
  by (auto simp: batch_ok_def dest!: map_of_SomeD intro: rev_image_eqI)

interpretation mls: last_seen_store ms_has_baseline ms_get_baseline ms_get_poll_epoch ms_apply ms_ok ms_init
proof (unfold_locales, goal_cases)
  case (9 s b c)
  then show ?case
    by (auto simp: fun_eq_iff ms_lookup_apply batch_lookup_def batch_ok_def batch_ok_disjoint
             split: option.splits)
qed (auto simp: ms_ok_def ms_init_def store_defs batch_ok_def dict_simps Let_def)

subsection \<open>In SQL\<close>

record baseline_db =
  db_last_seen :: "((category \<times> item_id) \<times> baseline_entry) list"
  db_poll_epoch :: "(category \<times> int) list"

definition db_init :: baseline_db where
  "db_init = \<lparr>db_last_seen = [], db_poll_epoch = []\<rparr>"

definition db_has_baseline :: "baseline_db \<Rightarrow> category \<Rightarrow> bool" where
  "db_has_baseline s c \<longleftrightarrow> map_of (db_poll_epoch s) c \<noteq> None"

definition db_get_baseline :: "baseline_db \<Rightarrow> category \<Rightarrow> (item_id, baseline_entry) dict" where
  "db_get_baseline s c =
     dict_update [] (map (\<lambda>((c', i), e). (i, e)) (filter (\<lambda>((c', i), e). c' = c) (db_last_seen s)))"

definition db_get_poll_epoch :: "baseline_db \<Rightarrow> category \<Rightarrow> int" where
  "db_get_poll_epoch s c = (case map_of (db_poll_epoch s) c of None \<Rightarrow> 0 | Some n \<Rightarrow> n)"

fun upsert_rows :: "category \<Rightarrow> (item_id, baseline_entry) dict
    \<Rightarrow> ((category \<times> item_id) \<times> baseline_entry) list \<Rightarrow> ((category \<times> item_id) \<times> baseline_entry) list" where
  "upsert_rows c [] rows = rows"
| "upsert_rows c ((i, e) # rest) rows = upsert_rows c rest (AList.update (c, i) e rows)"

fun delete_rows :: "category \<Rightarrow> item_id list
    \<Rightarrow> ((category \<times> item_id) \<times> baseline_entry) list \<Rightarrow> ((category \<times> item_id) \<times> baseline_entry) list" where
  "delete_rows c [] rows = rows"
| "delete_rows c (i # rest) rows = delete_rows c rest (AList.delete (c, i) rows)"

definition db_apply :: "last_seen_batch \<Rightarrow> baseline_db \<Rightarrow> baseline_db" where
  "db_apply b s =
     \<lparr>db_last_seen = delete_rows (lb_category b) (lb_drops b)
                        (upsert_rows (lb_category b) (lb_upserts b) (db_last_seen s)),
      db_poll_epoch = AList.update (lb_category b) (lb_epoch b) (db_poll_epoch s)\<rparr>"

text \<open>The primary key of \<open>last_seen\<close>.\<close>

definition db_ok :: "baseline_db \<Rightarrow> bool" where
  "db_ok s \<longleftrightarrow> dict_ok (db_last_seen s)"

lemma upsert_rows_ok: "dict_ok rows \<Longrightarrow> dict_ok (upsert_rows c ups rows)"
  by (induction c ups rows rule: upsert_rows.induct) auto

lemma delete_rows_ok: "dict_ok rows \<Longrightarrow> dict_ok (delete_rows c ds rows)"
  by (induction c ds rows rule: delete_rows.induct) auto

lemma map_of_upsert_rows:
  "dict_ok ups \<Longrightarrow> map_of (upsert_rows c ups rows) (c', i) =
     (if c' = c \<and> map_of ups i \<noteq> None then map_of ups i else map_of rows (c', i))"
proof (induction c ups rows rule: upsert_rows.induct)
  case (2 c j e rest rows)
  then have "map_of rest j = None" by (simp add: dict_ok_Cons map_of_eq_None_iff)
  with 2 show ?case by (auto simp: dict_ok_Cons dict_simps)
qed simp

lemma map_of_delete_rows:
  "map_of (delete_rows c ds rows) (c', i) = (if c' = c \<and> i \<in> set ds then None else map_of rows (c', i))"
  by (induction c ds rows rule: delete_rows.induct) (auto simp: dict_simps)

lemma category_rows:
  assumes "dict_ok rows"
  shows "dict_ok (map (\<lambda>((c', i), e). (i, e)) (filter (\<lambda>((c', i), e). c' = c) rows))"
    and "map_of (map (\<lambda>((c', i), e). (i, e)) (filter (\<lambda>((c', i), e). c' = c) rows)) i = map_of rows (c, i)"
  using assms by (induction rows) (auto simp: dict_ok_def image_iff split: if_splits)

lemma map_of_db_get:
  assumes "db_ok s" shows "map_of (db_get_baseline s c) i = map_of (db_last_seen s) (c, i)"
  using assms category_rows [of "db_last_seen s" c]
  by (simp add: db_ok_def db_get_baseline_def map_of_dict_update split: option.splits)

lemma db_ok_apply: "db_ok s \<Longrightarrow> db_ok (db_apply b s)"
  by (simp add: db_ok_def db_apply_def upsert_rows_ok delete_rows_ok)

lemma db_lookup_apply:
  "db_ok s \<Longrightarrow> dict_ok (lb_upserts b) \<Longrightarrow> map_of (db_get_baseline (db_apply b s) c) i =
     (if c = lb_category b then
        (if i \<in> set (lb_drops b) then None
         else case map_of (lb_upserts b) i of Some e \<Rightarrow> Some e | None \<Rightarrow> map_of (db_get_baseline s c) i)
      else map_of (db_get_baseline s c) i)"
  by (simp add: map_of_db_get db_ok_apply)
    (simp add: db_apply_def map_of_delete_rows map_of_upsert_rows map_of_db_get split: option.splits)

interpretation dls: last_seen_store db_has_baseline db_get_baseline db_get_poll_epoch db_apply db_ok db_init
proof (unfold_locales, goal_cases)
  case (9 s b c)
  then show ?case
    by (auto simp: fun_eq_iff db_lookup_apply batch_lookup_def batch_ok_def)
qed (auto simp: db_ok_apply db_init_def db_has_baseline_def db_get_baseline_def db_get_poll_epoch_def
       db_ok_def db_apply_def dict_simps upsert_rows_ok delete_rows_ok)

interpretation mdls: last_seen_pair
  ms_has_baseline ms_get_baseline ms_get_poll_epoch ms_apply ms_ok ms_init
  db_has_baseline db_get_baseline db_get_poll_epoch db_apply db_ok db_init
  by unfold_locales

text \<open>
  Outside the contract the two differ: an item both dropped and upserted survives in memory (the
  upsert is last) and is gone from the table (the delete is last).
\<close>

lemma overlap_differs:
  assumes "dict_ok (lb_upserts b)" "i \<in> set (lb_drops b)" "map_of (lb_upserts b) i = Some e" "db_ok t"
  shows "map_of (ms_get_baseline (ms_apply b s) (lb_category b)) i = Some e"
    and "map_of (db_get_baseline (db_apply b t) (lb_category b)) i = None"
  using assms by (simp_all add: ms_lookup_apply db_lookup_apply)

subsection \<open>Properties\<close>


definition example_batch :: last_seen_batch where
  "example_batch = \<lparr>lb_category = ''steam'', lb_epoch = 4,
     lb_upserts = [(7, \<lparr>be_price = Decimal 5 0, be_hash = ''h'', miss_count = 1\<rparr>)], lb_drops = [8]\<rparr>"


text \<open>Outside that contract the stores disagree: an item that one batch both drops and upserts is
  kept by the in-memory store, which drops first, and deleted by the SQL store, which upserts first.\<close>

theorem baseline_stores_overlap_differ:
  assumes "dict_ok (lb_upserts b)" "i \<in> set (lb_drops b)" "map_of (lb_upserts b) i = Some e"
  shows "map_of (ms_get_baseline (ms_apply b ms_init) (lb_category b)) i = Some e
    \<and> map_of (db_get_baseline (db_apply b db_init) (lb_category b)) i = None"
  using overlap_differs [OF assms dls.empty_ok] by simp_all

theorem baseline_stores_overlap_differ_witness:
  "map_of (ms_get_baseline (ms_apply (example_batch\<lparr>lb_drops := [7]\<rparr>) ms_init) ''steam'') 7 \<noteq> None
     \<and> map_of (db_get_baseline (db_apply (example_batch\<lparr>lb_drops := [7]\<rparr>) db_init) ''steam'') 7 = None"
  using baseline_stores_overlap_differ [of "example_batch\<lparr>lb_drops := [7]\<rparr>" 7]
  by (simp add: example_batch_def dict_ok_def)

end
