(* ===== verification/Event_Log.thy ===== *)
theory Event_Log
  imports Last_Seen
begin

text \<open>
  The append-only log (\<open>log/\<close>): the contract of \<open>BaseEventLog\<close>, the in-memory log, the SQL log over
  the table \<open>event_log\<close> and the page iterator \<open>batches\<close>. An append of either log is one atomic step:
  the lock admits one appender, and the SQL one is a single transaction.
\<close>

text \<open>Which events of an append are new: first occurrences of an identifier the log does not hold.\<close>

fun fresh_events :: "uuid list \<Rightarrow> domain_event list \<Rightarrow> domain_event list" where
  "fresh_events seen [] = []"
| "fresh_events seen (e # es) =
     (if event_id e \<in> set seen then fresh_events seen es else e # fresh_events (event_id e # seen) es)"

lemma fresh_events_subset: "set (fresh_events seen es) \<subseteq> set es"
  by (induction seen es rule: fresh_events.induct) auto

lemma fresh_events_ids:
  "event_id ` set (fresh_events seen es) = event_id ` set es - set seen"
  by (induction seen es rule: fresh_events.induct) auto

lemma fresh_events_distinct: "distinct (map event_id (fresh_events seen es))"
proof (induction seen es rule: fresh_events.induct)
  case (2 seen e es)
  have "event_id e \<notin> event_id ` set (fresh_events (event_id e # seen) es)"
    by (simp add: fresh_events_ids)
  with 2 show ?case by auto
qed simp

lemma fresh_events_cong: "set seen = set seen' \<Longrightarrow> fresh_events seen es = fresh_events seen' es"
  by (induction seen es arbitrary: seen' rule: fresh_events.induct) auto

lemma fresh_events_none: "event_id ` set es \<subseteq> set seen \<Longrightarrow> fresh_events seen es = []"
  by (induction seen es rule: fresh_events.induct) auto

subsection \<open>Pages\<close>

text \<open>
  \<open>batches(log, after, limit)\<close> over the log's \<open>read_after\<close>: None stands for an iteration that never
  ends, and for a read that fails.
\<close>

partial_function (option) batches ::
  "(int \<Rightarrow> nat \<Rightarrow> domain_event list option) \<Rightarrow> int \<Rightarrow> nat \<Rightarrow> domain_event list list option" where
  "batches read cursor limit =
     Option.bind (read cursor limit) (\<lambda>page.
       if page = [] then Some []
       else Option.bind (batches read (seq (last page)) limit) (\<lambda>rest. Some (page # rest)))"

subsection \<open>The contract\<close>

text \<open>
  \<open>contents\<close> is what a reader can ever see, in order, and \<open>obs\<close> how a reader sees an appended event:
  unchanged in memory, flattened into a base event by the SQL log.
\<close>

locale event_log =
  fixes append_log :: "domain_event list \<Rightarrow> last_seen_batch \<Rightarrow> 's \<Rightarrow> int result \<times> 's"
    and read_after :: "'s \<Rightarrow> int \<Rightarrow> nat \<Rightarrow> domain_event list option"
    and max_seq :: "'s \<Rightarrow> int"
    and contents :: "'s \<Rightarrow> domain_event list"
    and obs :: "domain_event \<Rightarrow> domain_event"
    and log_ok :: "'s \<Rightarrow> bool"
  assumes contents_ascending: "log_ok s \<Longrightarrow> ascending seq (contents s)"
    and contents_positive: "log_ok s \<Longrightarrow> e \<in> set (contents s) \<Longrightarrow> 0 < seq e"
    and contents_distinct: "log_ok s \<Longrightarrow> distinct (map event_id (contents s))"
    and obs_id: "event_id (obs e) = event_id e"
    and read_page: "log_ok s \<Longrightarrow> read_after s q n = Some (page_after seq (contents s) q n)"
    and max_last: "log_ok s \<Longrightarrow> max_seq s = last_pos seq 0 (contents s)"
    and append_keeps_ok: "log_ok s \<Longrightarrow> append_log es b s = (r, s') \<Longrightarrow> log_ok s'"
    and append_done: "log_ok s \<Longrightarrow> append_log es b s = (Inr k, s') \<Longrightarrow>
          k = max_seq s' \<and> (\<exists>new. contents s' = contents s @ new \<and> map (with_seq 0) new
            = map (\<lambda>e. with_seq 0 (obs e)) (fresh_events (map event_id (contents s)) es))"
    and append_failed: "log_ok s \<Longrightarrow> append_log es b s = (Inl x, s') \<Longrightarrow> contents s' = contents s"
begin

lemma batches_cover:
  assumes ok: "log_ok s" and n: "0 < n"
  shows "\<exists>pages. batches (read_after s) q n = Some pages
           \<and> concat pages = filter (\<lambda>e. q < seq e) (contents s) \<and> (\<forall>p\<in>set pages. p \<noteq> [] \<and> length p \<le> n)"
proof (induction "length (filter (\<lambda>e. q < seq e) (contents s))" arbitrary: q rule: less_induct)
  case less
  let ?page = "page_after seq (contents s) q n"
  show ?case
  proof (cases "?page = []")
    case True
    then have "filter (\<lambda>e. q < seq e) (contents s) = []"
      using n by (simp add: page_after_def)
    then show ?thesis
      using True by (subst batches.simps) (simp add: read_page [OF ok])
  next
    case False
    let ?q = "seq (last ?page)"
    have all: "?page @ filter (\<lambda>e. ?q < seq e) (contents s) = filter (\<lambda>e. q < seq e) (contents s)"
      using page_after_step [OF contents_ascending [OF ok], of q n] False by (simp add: last_pos_def)
    then have "length (filter (\<lambda>e. ?q < seq e) (contents s)) < length (filter (\<lambda>e. q < seq e) (contents s))"
      using False by (metis add_cancel_left_left length_append length_0_conv not_add_less2 linorder_neqE_nat less_add_same_cancel2 length_greater_0_conv)
    from less.hyps [OF this] obtain pages where pages: "batches (read_after s) ?q n = Some pages"
      "concat pages = filter (\<lambda>e. ?q < seq e) (contents s)" "\<forall>p\<in>set pages. p \<noteq> [] \<and> length p \<le> n" by blast
    moreover have "length ?page \<le> n" by (simp add: page_after_def)
    ultimately show ?thesis
      using False all by (subst batches.simps) (simp add: read_page [OF ok])
  qed
qed

lemma append_extends:
  assumes "log_ok s" "append_log es b s = (r, s')"
  shows "\<exists>new. contents s' = contents s @ new"
proof (cases r)
  case (Inl x)
  with assms append_failed have "contents s' = contents s" by blast
  then show ?thesis by simp
next
  case (Inr n)
  with append_done assms show ?thesis by blast
qed

lemma appended_ids:
  assumes "log_ok s" "append_log es b s = (Inr n, s')"
  shows "event_id ` set (contents s') = event_id ` set (contents s) \<union> event_id ` set es"
proof -
  obtain new where new: "contents s' = contents s @ new"
    "map (with_seq 0) new = map (\<lambda>e. with_seq 0 (obs e)) (fresh_events (map event_id (contents s)) es)"
    using append_done [OF assms] by blast
  have "event_id ` set new = event_id ` set (map (with_seq 0) new)"
    by (simp add: image_image)
  also have "\<dots> = event_id ` set (fresh_events (map event_id (contents s)) es)"
    by (simp only: new(2)) (simp add: image_image obs_id)
  finally show ?thesis by (auto simp: new(1) fresh_events_ids)
qed

text \<open>A replayed append leaves the log as it is: the identifiers are all known.\<close>

lemma append_known:
  assumes "log_ok s" "append_log es b s = (Inr n, s')" "event_id ` set es \<subseteq> event_id ` set (contents s)"
  shows "contents s' = contents s"
proof -
  have "fresh_events (map event_id (contents s)) es = []"
    using assms(3) by (intro fresh_events_none) simp
  then show ?thesis using append_done [OF assms(1,2)] by auto
qed

lemma replay_append:
  assumes "log_ok s" "append_log es b s = (Inr n, s')" "append_log es b' s' = (Inr m, s'')"
  shows "contents s'' = contents s'" "m = n"
proof -
  have ok: "log_ok s'" using append_keeps_ok assms(1,2) by blast
  then have ok2: "log_ok s''" using append_keeps_ok assms(3) by blast
  show eq: "contents s'' = contents s'"
    using append_known [OF ok assms(3)] appended_ids [OF assms(1,2)] by blast
  show "m = n"
    using append_done [OF ok assms(3)] append_done [OF assms(1,2)] max_last [OF ok] max_last [OF ok2] eq by simp
qed

text \<open>Events a reader has passed stay passed: later appends only add later positions.\<close>

lemma appended_later:
  assumes "log_ok s" "append_log es b s = (r, s')" "contents s' = contents s @ new" "e \<in> set new"
  shows "max_seq s < seq e"
proof -
  have "log_ok s'" using append_keeps_ok assms by blast
  then have asc: "ascending seq (contents s @ new)" and pos: "0 < seq e"
    using contents_ascending [of s'] contents_positive [of s' e] assms by auto
  show ?thesis
    using asc pos assms(4)
    by (cases "contents s" rule: rev_cases) (auto simp: max_last [OF assms(1)] last_pos_def ascending_append)
qed

lemma caught_up_page:
  assumes "log_ok s" "append_log es b s = (r, s')" "contents s' = contents s @ new"
  shows "read_after s' (max_seq s) n = Some (take n new)"
proof -
  have ok: "log_ok s'" using append_keeps_ok assms by blast
  have "\<not> max_seq s < seq e" if "e \<in> set (contents s)" for e
    using last_pos_upper [OF contents_ascending [OF assms(1)] that, of 0] max_last [OF assms(1)] by simp
  then have "filter (\<lambda>e. max_seq s < seq e) (contents s @ new) = new"
    using appended_later [OF assms] by (simp add: filter_False filter_True)
  then show ?thesis by (simp add: read_page [OF ok] page_after_def assms(3))
qed

end

subsection \<open>In memory\<close>

record memory_log =
  ml_last_seen :: memory_last_seen
  ml_events :: "domain_event list"
  ml_seen_ids :: "uuid list"

definition ml_init :: memory_log where
  "ml_init = \<lparr>ml_last_seen = ms_init, ml_events = [], ml_seen_ids = []\<rparr>"

fun ml_add :: "domain_event list \<Rightarrow> memory_log \<Rightarrow> memory_log" where
  "ml_add [] s = s"
| "ml_add (e # es) s =
     (if event_id e \<in> set (ml_seen_ids s) then ml_add es s
      else ml_add es (s\<lparr>ml_events := ml_events s @ [with_seq (int (length (ml_events s)) + 1) e],
                       ml_seen_ids := event_id e # ml_seen_ids s\<rparr>))"

definition ml_append :: "domain_event list \<Rightarrow> last_seen_batch \<Rightarrow> memory_log \<Rightarrow> int result \<times> memory_log" where
  "ml_append es b s =
     (let s1 = ml_add es s;
          s2 = s1\<lparr>ml_last_seen := ms_apply b (ml_last_seen s1)\<rparr>
      in (Inr (int (length (ml_events s2))), s2))"

definition ml_read_after :: "memory_log \<Rightarrow> int \<Rightarrow> nat \<Rightarrow> domain_event list" where
  "ml_read_after s q n = take n (filter (\<lambda>e. q < seq e) (ml_events s))"

definition ml_max_seq :: "memory_log \<Rightarrow> int" where
  "ml_max_seq s = int (length (ml_events s))"

definition ml_ok :: "memory_log \<Rightarrow> bool" where
  "ml_ok s \<longleftrightarrow> map seq (ml_events s) = map int [1..<Suc (length (ml_events s))]
             \<and> distinct (map event_id (ml_events s))
             \<and> set (ml_seen_ids s) = event_id ` set (ml_events s)
             \<and> ms_ok (ml_last_seen s)"

lemma ml_ok_init: "ml_ok ml_init"
  by (simp add: ml_ok_def ml_init_def mls.empty_ok)

lemma ml_add_last_seen [simp]: "ml_last_seen (ml_add es s) = ml_last_seen s"
  by (induction es s rule: ml_add.induct) auto

lemma ml_add_events:
  "set (ml_seen_ids s) = event_id ` set (ml_events s) \<Longrightarrow>
     \<exists>new. ml_events (ml_add es s) = ml_events s @ new
         \<and> map (with_seq 0) new = map (with_seq 0) (fresh_events (map event_id (ml_events s)) es)"
proof (induction es s rule: ml_add.induct)
  case (2 e es s)
  show ?case
  proof (cases "event_id e \<in> set (ml_seen_ids s)")
    case True
    with 2 show ?thesis by (auto simp: image_iff)
  next
    case False
    let ?e = "with_seq (int (length (ml_events s)) + 1) e"
    let ?s = "s\<lparr>ml_events := ml_events s @ [?e], ml_seen_ids := event_id e # ml_seen_ids s\<rparr>"
    obtain new where new: "ml_events (ml_add es ?s) = (ml_events s @ [?e]) @ new"
      "map (with_seq 0) new = map (with_seq 0) (fresh_events (map event_id (ml_events s @ [?e])) es)"
      using "2.IH"(2) [OF False] "2.prems" by auto
    have "fresh_events (map event_id (ml_events s @ [?e])) es
        = fresh_events (event_id e # map event_id (ml_events s)) es"
      by (rule fresh_events_cong) auto
    then have "ml_events (ml_add (e # es) s) = ml_events s @ (?e # new)
        \<and> map (with_seq 0) (?e # new) = map (with_seq 0) (fresh_events (map event_id (ml_events s)) (e # es))"
      using False new "2.prems" by (simp add: image_iff with_seq_def)
    then show ?thesis by blast
  qed
qed simp

lemma ml_add_ok: "ml_ok s \<Longrightarrow> ml_ok (ml_add es s)"
proof (induction es s rule: ml_add.induct)
  case (2 e es s)
  show ?case
  proof (cases "event_id e \<in> set (ml_seen_ids s)")
    case False
    then have "event_id e \<notin> event_id ` set (ml_events s)" using 2(3) by (simp add: ml_ok_def)
    with 2 False show ?thesis by (simp add: ml_ok_def)
  qed (use 2 in simp)
qed simp

lemma ms_ok_apply: "ms_ok s \<Longrightarrow> ms_ok (ms_apply b s)"
  by (simp add: ms_ok_def ms_get_baseline_apply)

lemma ml_ok_append: "ml_ok s \<Longrightarrow> ml_ok (snd (ml_append es b s))"
  using ml_add_ok [of s es] by (simp add: ml_append_def Let_def ml_ok_def ms_ok_apply)

lemma ml_ok_seq: "ml_ok s \<Longrightarrow> i < length (ml_events s) \<Longrightarrow> seq (ml_events s ! i) = int i + 1"
proof -
  assume ok: "ml_ok s" and i: "i < length (ml_events s)"
  have "map seq (ml_events s) ! i = map int [1..<Suc (length (ml_events s))] ! i"
    using ok by (simp only: ml_ok_def)
  with i show ?thesis by (simp del: upt_Suc)
qed

lemma ml_ok_ascending: "ml_ok s \<Longrightarrow> ascending seq (ml_events s)"
  by (simp add: ml_ok_def ascending_def sorted_wrt_map del: upt_Suc)

lemma ml_ok_last: "ml_ok s \<Longrightarrow> last_pos seq 0 (ml_events s) = int (length (ml_events s))"
  using ml_ok_seq [of s "length (ml_events s) - 1"]
  by (auto simp: last_pos_def last_conv_nth)

interpretation mlog: event_log ml_append "\<lambda>s q n. Some (ml_read_after s q n)" ml_max_seq ml_events "\<lambda>e. e"
  "\<lambda>s. ml_ok s"
proof (unfold_locales, goal_cases)
  case (2 s e)
  then show ?case using ml_ok_seq [of s] by (auto simp: in_set_conv_nth)
next
  case (7 s es b r s')
  then show ?case using ml_ok_append [of s es b] by simp
next
  case (8 s es b k s')
  then show ?case
    using ml_add_events [of s es] by (auto simp: ml_append_def Let_def ml_ok_def ml_max_seq_def)
qed (auto simp: ml_ok_ascending ml_ok_def ml_read_after_def page_after_def ml_max_seq_def ml_ok_last ml_append_def Let_def)

subsection \<open>In SQL\<close>

text \<open>
  A row of \<open>event_log\<close>, and the table with the next value of the sequence behind \<open>seq\<close>. The
  sequence is not transactional: every attempted insert takes a value, whether the row is
  inserted, skipped by \<open>ON CONFLICT DO NOTHING\<close> or rolled back. A value longer than its
  \<open>VARCHAR\<close> column is a database error and rolls the transaction back.
\<close>

record event_row =
  er_seq :: int
  er_event_id :: uuid
  er_event_type :: event_type
  er_schema_version :: int
  er_aggregate_id :: string
  er_occurred_at :: datetime
  er_content_hash :: string
  er_payload :: "(string \<times> json) list"

record event_db =
  el_rows :: "event_row list"
  el_next :: int
  el_baseline :: baseline_db

definition el_init :: event_db where
  "el_init = \<lparr>el_rows = [], el_next = 1, el_baseline = db_init\<rparr>"

definition event_to_row :: "int \<Rightarrow> domain_event \<Rightarrow> event_row" where
  "event_to_row n e =
     \<lparr>er_seq = n, er_event_id = event_id e, er_event_type = ev_type e,
      er_schema_version = schema_version e, er_aggregate_id = aggregate_id e,
      er_occurred_at = occurred_at e, er_content_hash = content_hash e, er_payload = encode_event e\<rparr>"

definition event_fits :: "domain_event \<Rightarrow> bool" where
  "event_fits e \<longleftrightarrow> length (aggregate_id e) \<le> 128 \<and> length (content_hash e) \<le> 128"

definition batch_fits :: "last_seen_batch \<Rightarrow> bool" where
  "batch_fits b \<longleftrightarrow> length (lb_category b) \<le> 64 \<and> (\<forall>(i, e)\<in>set (lb_upserts b). length (be_hash e) \<le> 128)"

fun el_insert :: "domain_event list \<Rightarrow> event_row list \<Rightarrow> int \<Rightarrow> event_row list option \<times> int" where
  "el_insert [] rows n = (Some rows, n)"
| "el_insert (e # es) rows n =
     (if \<not> event_fits e then (None, n + 1)
      else if event_id e \<in> er_event_id ` set rows then el_insert es rows (n + 1)
      else el_insert es (rows @ [event_to_row n e]) (n + 1))"

definition rows_max :: "event_row list \<Rightarrow> int" where
  "rows_max rows = (if rows = [] then 0 else Max (er_seq ` set rows))"

definition el_append :: "domain_event list \<Rightarrow> last_seen_batch \<Rightarrow> event_db \<Rightarrow> int result \<times> event_db" where
  "el_append es b s =
     (case el_insert es (el_rows s) (el_next s) of
        (None, n) \<Rightarrow> (Inl (StoreError ''DataError''), s\<lparr>el_next := n\<rparr>)
      | (Some rows, n) \<Rightarrow>
          if batch_fits b then
            (Inr (rows_max rows), \<lparr>el_rows = rows, el_next = n, el_baseline = db_apply b (el_baseline s)\<rparr>)
          else (Inl (StoreError ''DataError''), s\<lparr>el_next := n\<rparr>))"

definition row_to_event :: "event_row \<Rightarrow> domain_event option" where
  "row_to_event r =
     decode_event (er_event_id r) (et_value (er_event_type r)) (er_aggregate_id r) (er_occurred_at r)
       (er_content_hash r) (er_schema_version r) (er_seq r) (er_payload r)"

definition el_read_after :: "event_db \<Rightarrow> int \<Rightarrow> nat \<Rightarrow> domain_event list option" where
  "el_read_after s q n =
     those (map row_to_event (take n (sort_key er_seq (filter (\<lambda>r. q < er_seq r) (el_rows s)))))"

definition el_max_seq :: "event_db \<Rightarrow> int" where
  "el_max_seq s = rows_max (el_rows s)"

text \<open>The event a row is read back as.\<close>

definition row_event :: "event_row \<Rightarrow> domain_event" where
  "row_event r =
     \<lparr>event_id = er_event_id r, aggregate_id = er_aggregate_id r, occurred_at = er_occurred_at r,
      content_hash = er_content_hash r, schema_version = er_schema_version r, seq = er_seq r,
      payload = er_payload r, body = BaseEvent (er_event_type r)\<rparr>"

definition el_contents :: "event_db \<Rightarrow> domain_event list" where
  "el_contents s = map row_event (el_rows s)"

definition rows_ok :: "event_row list \<Rightarrow> int \<Rightarrow> bool" where
  "rows_ok rows n \<longleftrightarrow> ascending er_seq rows \<and> (\<forall>r\<in>set rows. 1 \<le> er_seq r \<and> er_seq r < n)
                     \<and> distinct (map er_event_id rows)"

definition el_ok :: "event_db \<Rightarrow> bool" where
  "el_ok s \<longleftrightarrow> rows_ok (el_rows s) (el_next s) \<and> 1 \<le> el_next s \<and> db_ok (el_baseline s)"

lemma row_event_simps [simp]:
  "event_id (row_event r) = er_event_id r" "seq (row_event r) = er_seq r"
  by (simp_all add: row_event_def)

lemma row_to_event_Some: "row_to_event r = Some (row_event r)"
  by (simp add: row_to_event_def row_event_def decode_event_def parse_et_value)

lemma row_event_of_event: "row_event (event_to_row n e) = flatten (with_seq n e)"
  by (simp add: row_event_def event_to_row_def flatten_def with_seq_def ev_type_def encode_event_def)

lemma with_seq_flatten: "with_seq m (flatten (with_seq n e)) = with_seq m (flatten e)"
  by (simp add: with_seq_def flatten_def ev_type_def encode_event_def)

lemma those_rows: "those (map row_to_event rs) = Some (map row_event rs)"
  by (induction rs) (simp_all add: row_to_event_Some)

lemma ascending_sort: "ascending f xs \<Longrightarrow> sort_key f xs = xs"
proof (rule sort_key_id_if_sorted)
  show "ascending f xs \<Longrightarrow> sorted (map f xs)"
    unfolding ascending_def by (rule strict_sorted_imp_sorted)
qed

lemma ascending_map: "ascending f (map g xs) = ascending (\<lambda>x. f (g x)) xs"
  by (simp add: ascending_def comp_def)

lemma rows_max_last: "ascending er_seq rows \<Longrightarrow> \<forall>r\<in>set rows. 1 \<le> er_seq r \<Longrightarrow> rows_max rows = last_pos er_seq 0 rows"
proof (cases rows rule: rev_cases)
  case (snoc rs r)
  assume "ascending er_seq rows"
  then have "Max (er_seq ` set rows) = er_seq r"
    by (intro Max_eqI) (auto simp: snoc ascending_append dest: less_imp_le)
  then show ?thesis by (simp add: rows_max_def last_pos_def snoc)
qed (simp add: rows_max_def)

lemma el_insert_ok:
  "el_insert es rows n = (r, m) \<Longrightarrow> rows_ok rows n \<Longrightarrow> 1 \<le> n \<Longrightarrow>
     n \<le> m \<and> (case r of None \<Rightarrow> True | Some rows' \<Rightarrow> rows_ok rows' m)"
proof (induction es rows n rule: el_insert.induct)
  case (2 e es rows n)
  have "rows_ok rows (n + 1)" using "2.prems"(2) by (auto simp: rows_ok_def)
  moreover have "event_id e \<notin> er_event_id ` set rows \<Longrightarrow> rows_ok (rows @ [event_to_row n e]) (n + 1)"
    using "2.prems"(2,3) by (auto simp: rows_ok_def ascending_append event_to_row_def)
  ultimately show ?case using 2 by (fastforce split: if_splits)
qed auto

lemma rows_ok_mono: "rows_ok rows n \<Longrightarrow> n \<le> m \<Longrightarrow> rows_ok rows m"
  by (auto simp: rows_ok_def)

lemma el_insert_new:
  "el_insert es rows n = (Some rows', m) \<Longrightarrow>
     \<exists>new. rows' = rows @ new \<and> map (\<lambda>r. with_seq 0 (row_event r)) new
        = map (\<lambda>e. with_seq 0 (flatten e)) (fresh_events (map er_event_id rows) es)"
proof (induction es rows n rule: el_insert.induct)
  case (2 e es rows n)
  show ?case
  proof (cases "event_id e \<in> er_event_id ` set rows")
    case True
    with 2 show ?thesis by (auto split: if_splits)
  next
    case False
    let ?r = "event_to_row n e"
    have id: "er_event_id ?r = event_id e" by (simp add: event_to_row_def)
    have "event_fits e" and ins: "el_insert es (rows @ [?r]) (n + 1) = (Some rows', m)"
      using "2.prems" False by (simp_all split: if_splits)
    then obtain new where new: "rows' = (rows @ [?r]) @ new"
      "map (\<lambda>r. with_seq 0 (row_event r)) new
        = map (\<lambda>e. with_seq 0 (flatten e)) (fresh_events (map er_event_id (rows @ [?r])) es)"
      using "2.IH"(2) False by blast
    have "fresh_events (map er_event_id (rows @ [?r])) es = fresh_events (event_id e # map er_event_id rows) es"
      by (rule fresh_events_cong) (simp add: id)
    with new False have "rows' = rows @ (?r # new) \<and> map (\<lambda>r. with_seq 0 (row_event r)) (?r # new)
        = map (\<lambda>e. with_seq 0 (flatten e)) (fresh_events (map er_event_id rows) (e # es))"
      by (simp add: row_event_of_event with_seq_flatten)
    then show ?thesis by blast
  qed
qed auto

lemma el_ok_init: "el_ok el_init"
  by (simp add: el_ok_def el_init_def rows_ok_def dls.empty_ok)

lemma el_ok_append: "el_ok s \<Longrightarrow> el_append es b s = (r, s') \<Longrightarrow> el_ok s'"
  using el_insert_ok [of es "el_rows s" "el_next s"] rows_ok_mono [of "el_rows s" "el_next s"]
  by (auto simp: el_ok_def el_append_def db_ok_apply split: prod.splits option.splits if_splits)

interpretation elog: event_log el_append el_read_after el_max_seq el_contents flatten el_ok
proof (unfold_locales, goal_cases)
  case (1 s)
  then show ?case by (simp add: el_ok_def rows_ok_def el_contents_def ascending_map)
next
  case (2 s e)
  then show ?case by (auto simp: el_ok_def rows_ok_def el_contents_def)
next
  case (3 s)
  then show ?case by (simp add: el_ok_def rows_ok_def el_contents_def comp_def)
next
  case (5 s q n)
  then have "ascending er_seq (filter (\<lambda>r. q < er_seq r) (el_rows s))"
    by (simp add: el_ok_def rows_ok_def ascending_filter)
  then show ?case
    by (simp add: el_read_after_def el_contents_def page_after_def ascending_sort those_rows filter_map comp_def take_map)
next
  case (6 s)
  then have "el_max_seq s = last_pos er_seq 0 (el_rows s)"
    by (simp add: el_ok_def rows_ok_def el_max_seq_def rows_max_last)
  then show ?case by (simp add: el_contents_def last_pos_def last_map)
next
  case (7 s es b r s')
  then show ?case by (rule el_ok_append)
next
  case (8 s es b k s')
  then obtain rows n where ins: "el_insert es (el_rows s) (el_next s) = (Some rows, n)"
    and s': "el_rows s' = rows" "k = rows_max rows"
    by (auto simp: el_append_def split: prod.splits option.splits if_splits)
  obtain new where "rows = el_rows s @ new" "map (\<lambda>r. with_seq 0 (row_event r)) new
      = map (\<lambda>e. with_seq 0 (flatten e)) (fresh_events (map er_event_id (el_rows s)) es)"
    using el_insert_new [OF ins] by blast
  then show ?case
    by (auto simp: s' el_max_seq_def el_contents_def comp_def)
next
  case (9 s es b x s')
  then show ?case by (auto simp: el_append_def el_contents_def split: prod.splits option.splits if_splits)
qed simp

subsection \<open>The SQL log against the in-memory log\<close>

text \<open>
  Two logs hold the same history when the SQL one reads back the flattened events of the in-memory
  one in the same order (their positions may differ) and the baselines agree.
\<close>

definition same_history :: "memory_log \<Rightarrow> event_db \<Rightarrow> bool" where
  "same_history s t \<longleftrightarrow> ml_ok s \<and> el_ok t \<and> mdls.agree (ml_last_seen s) (el_baseline t)
     \<and> map (with_seq 0) (el_contents t) = map (\<lambda>e. with_seq 0 (flatten e)) (ml_events s)"

definition append_fits :: "domain_event list \<times> last_seen_batch \<Rightarrow> bool" where
  "append_fits = (\<lambda>(es, b). list_all event_fits es \<and> batch_ok b \<and> batch_fits b)"

fun ml_run :: "(domain_event list \<times> last_seen_batch) list \<Rightarrow> memory_log \<Rightarrow> memory_log" where
  "ml_run [] s = s"
| "ml_run ((es, b) # rest) s = ml_run rest (snd (ml_append es b s))"

fun el_run :: "(domain_event list \<times> last_seen_batch) list \<Rightarrow> event_db \<Rightarrow> event_db" where
  "el_run [] s = s"
| "el_run ((es, b) # rest) s = el_run rest (snd (el_append es b s))"

lemma el_insert_fits: "list_all event_fits es \<Longrightarrow> fst (el_insert es rows n) \<noteq> None"
  by (induction es rows n rule: el_insert.induct) auto

lemma same_history_init: "same_history ml_init el_init"
  using mdls.agree_empty
  by (simp add: same_history_def ml_ok_init el_ok_init) (simp add: ml_init_def el_init_def el_contents_def)

lemma same_history_ids:
  assumes "same_history s t" shows "map event_id (el_contents t) = map event_id (ml_events s)"
proof -
  have "map event_id (map (with_seq 0) (el_contents t)) = map event_id (map (\<lambda>e. with_seq 0 (flatten e)) (ml_events s))"
    using assms by (simp only: same_history_def)
  then show ?thesis by (simp add: comp_def)
qed

lemma map_zero_flatten:
  assumes "map (with_seq 0) xs = map (with_seq 0) ys"
  shows "map (\<lambda>e. with_seq 0 (flatten e)) xs = map (\<lambda>e. with_seq 0 (flatten e)) ys"
proof -
  have m: "map (\<lambda>e. with_seq 0 (flatten e)) zs = map (\<lambda>e. with_seq 0 (flatten e)) (map (with_seq 0) zs)" for zs
    by (simp add: with_seq_flatten)
  show ?thesis using assms m [of xs] m [of ys] by (simp only:)
qed

lemma ml_append_events: "ml_events (snd (ml_append es b s)) = ml_events (ml_add es s)"
  by (simp add: ml_append_def Let_def)

lemma same_history_append:
  assumes st: "same_history s t" and fits: "append_fits (es, b)"
  shows "same_history (snd (ml_append es b s)) (snd (el_append es b t))"
proof -
  note fits = fits [unfolded append_fits_def prod.case]
  let ?fresh = "fresh_events (map event_id (ml_events s)) es"
  have ok: "ml_ok s" "el_ok t" using st by (simp_all add: same_history_def)
  obtain rows n where ins: "el_insert es (el_rows t) (el_next t) = (Some rows, n)"
    using el_insert_fits [of es "el_rows t" "el_next t"] fits by (metis not_None_eq prod.collapse)
  then have app: "el_append es b t = (Inr (rows_max rows), \<lparr>el_rows = rows, el_next = n, el_baseline = db_apply b (el_baseline t)\<rparr>)"
    using fits by (simp add: el_append_def)
  have "map er_event_id (el_rows t) = map event_id (ml_events s)"
    using same_history_ids [OF st] by (simp add: el_contents_def comp_def)
  then obtain new where new: "el_contents (snd (el_append es b t)) = el_contents t @ new"
    "map (with_seq 0) new = map (\<lambda>e. with_seq 0 (flatten e)) ?fresh"
    using elog.append_done [OF ok(2) app] same_history_ids [OF st] app by auto
  obtain new' where new': "ml_events (snd (ml_append es b s)) = ml_events s @ new'"
    "map (with_seq 0) new' = map (with_seq 0) ?fresh"
    using ml_add_events [of s es] ok(1) unfolding ml_append_events ml_ok_def by blast
  have "map (\<lambda>e. with_seq 0 (flatten e)) new' = map (\<lambda>e. with_seq 0 (flatten e)) ?fresh"
    by (rule map_zero_flatten [OF new'(2)])
  moreover have "mdls.agree (ml_last_seen (snd (ml_append es b s))) (el_baseline (snd (el_append es b t)))"
    using mdls.agree_apply fits st by (simp add: app ml_append_def Let_def same_history_def)
  ultimately show ?thesis
    using st new new' ml_ok_append [OF ok(1)] el_ok_append [OF ok(2) app] app
    by (simp add: same_history_def)
qed

lemma same_history_run:
  "list_all append_fits xs \<Longrightarrow> same_history s t \<Longrightarrow> same_history (ml_run xs s) (el_run xs t)"
  by (induction xs arbitrary: s t) (auto simp: same_history_append)

subsection \<open>Properties\<close>

text \<open>C3: Appending to the in-memory log keeps it gapless and idempotent. The log's positions are
  1, 2, 3, ... without a gap, the old events stay in place, the identifiers are those of the old
  events and of the appended ones, each once; and appending the same events again adds nothing.\<close>

theorem memory_append_gapless:
  assumes "ml_ok s" "ml_append es b s = (r, s')" "ml_append es b' s' = (r', s'')"
  shows "r = Inr (int (length (ml_events s')))
    \<and> map seq (ml_events s') = map int [1..<Suc (length (ml_events s'))]
    \<and> (\<exists>new. ml_events s' = ml_events s @ new)
    \<and> event_id ` set (ml_events s') = event_id ` set (ml_events s) \<union> event_id ` set es
    \<and> distinct (map event_id (ml_events s'))
    \<and> ml_events s'' = ml_events s'"
proof -
  have r: "r = Inr (int (length (ml_events s')))" "r' = Inr (int (length (ml_events s'')))"
    using assms by (auto simp: ml_append_def Let_def)
  have ok: "ml_ok s'" using mlog.append_keeps_ok assms by blast
  show ?thesis
    using r ok mlog.append_extends [OF assms(1,2)] mlog.appended_ids [OF assms(1)] assms(2,3)
      mlog.replay_append(1) [OF assms(1)]
    by (auto simp: ml_ok_def simp del: upt_Suc)
qed

definition example_event :: domain_event where
  "example_event =
     \<lparr>event_id = 1, aggregate_id = ''17'', occurred_at = the (from_timestamp_utc 0), content_hash = ''h'',
      schema_version = 1, seq = 0, payload = [], body = RatingChanged 5 1 1 0\<rparr>"

theorem memory_append_gapless_witness:
  "ml_events (snd (ml_append [example_event] (marker_batch ''other'' 1) (snd (ml_append [example_event] (marker_batch ''other'' 1) ml_init))))
     = [with_seq 1 example_event]"
  using memory_append_gapless [of ml_init "[example_event]" "marker_batch ''other'' 1" _ _ "marker_batch ''other'' 1"]
  by (simp add: ml_ok_init ml_append_def Let_def ml_init_def)



text \<open>Streaming the log in pages ends and misses nothing: from any position and for any positive page
  size, \<open>batches\<close> over the SQL log returns finitely many non-empty pages of at most that size, whose
  concatenation is every event after the position, in order.\<close>

theorem batches_complete:
  assumes "el_ok s" "0 < n"
  shows "\<exists>pages. batches (el_read_after s) q n = Some pages
           \<and> concat pages = filter (\<lambda>e. q < seq e) (el_contents s)
           \<and> list_all (\<lambda>p. p \<noteq> [] \<and> length p \<le> n) pages"
  using elog.batches_cover [OF assms] by (simp add: list_all_iff)

theorem batches_complete_witness:
  "\<exists>pages. batches (el_read_after el_init) 0 500 = Some pages \<and> concat pages = []"
  using batches_complete [of el_init 500 0] by (auto simp: el_ok_init) (simp add: el_init_def el_contents_def)

text \<open>The positions of the SQL log ascend but are not gapless: replaying an append takes a value of
  the sequence for the row it skips, so of two events appended around a replay the second gets
  position 3.\<close>

theorem sql_log_gap_after_replay:
  assumes "event_fits e" "event_fits f" "event_id e \<noteq> event_id f" "batch_fits b"
  shows "map seq (el_contents (el_run [([e], b), ([e], b), ([f], b)] el_init)) = [1, 3]"
  using assms by (simp add: el_append_def el_init_def el_contents_def event_to_row_def)

theorem sql_log_gap_after_replay_witness:
  "map seq (el_contents (el_run [([example_event], example_batch), ([example_event], example_batch),
     ([example_event\<lparr>event_id := 2\<rparr>], example_batch)] el_init)) = [1, 3]"
  by (rule sql_log_gap_after_replay)
    (simp_all add: event_fits_def example_event_def batch_fits_def example_batch_def)

end
