(* ===== verification/Cursors.thy ===== *)
theory Cursors
  imports Errors
begin

text \<open>
  Consumer cursors (\<open>cursor/\<close>): the position and version of each consumer, the optimistic commit, the
  contract of \<open>BaseCursorStore\<close> and its two implementations. In SQL the commit is a guarded insert for
  a new consumer and a guarded update otherwise; in memory it is one comparison. The contract makes
  them the same to a caller.
\<close>

record cursor_state =
  last_seq :: int
  version :: int

definition cursor0 :: cursor_state where
  "cursor0 = \<lparr>last_seq = 0, version = 0\<rparr>"

subsection \<open>The contract\<close>

locale cursor_store =
  fixes get_cursor :: "'c \<Rightarrow> string \<Rightarrow> cursor_state"
    and commit_cursor :: "string \<Rightarrow> int \<Rightarrow> int \<Rightarrow> 'c \<Rightarrow> unit result \<times> 'c"
    and delete_cursor :: "string \<Rightarrow> 'c \<Rightarrow> 'c"
    and watermark :: "'c \<Rightarrow> int option"
    and cursor_names :: "'c \<Rightarrow> string list"
    and cursors_ok :: "'c \<Rightarrow> bool"
  assumes absent_cursor: "name \<notin> set (cursor_names c) \<Longrightarrow> get_cursor c name = cursor0"
    and present_version: "cursors_ok c \<Longrightarrow> name \<in> set (cursor_names c) \<Longrightarrow> 1 \<le> version (get_cursor c name)"
    and commit_matching: "cursors_ok c \<Longrightarrow> version (get_cursor c name) = v \<Longrightarrow>
          \<exists>c'. commit_cursor name s v c = (Inr (), c') \<and> cursors_ok c'
             \<and> get_cursor c' name = \<lparr>last_seq = s, version = v + 1\<rparr>
             \<and> (\<forall>other. other \<noteq> name \<longrightarrow> get_cursor c' other = get_cursor c other)
             \<and> set (cursor_names c') = insert name (set (cursor_names c))"
    and commit_stale: "cursors_ok c \<Longrightarrow> version (get_cursor c name) \<noteq> v \<Longrightarrow>
          commit_cursor name s v c = (Inl (Engine (CursorConflict name v (version (get_cursor c name)))), c)"
    and delete_effect: "cursors_ok c \<Longrightarrow> cursors_ok (delete_cursor name c)"
      "cursors_ok c \<Longrightarrow> get_cursor (delete_cursor name c) other = (if other = name then cursor0 else get_cursor c other)"
      "cursors_ok c \<Longrightarrow> set (cursor_names (delete_cursor name c)) = set (cursor_names c) - {name}"
    and watermark_min: "cursors_ok c \<Longrightarrow> watermark c = (if cursor_names c = [] then None
          else Some (Min ((\<lambda>n. last_seq (get_cursor c n)) ` set (cursor_names c))))"
begin

text \<open>Of two writers that read the same version only the first commits.\<close>

lemma second_writer_conflicts:
  assumes "cursors_ok c" "commit_cursor name s v c = (Inr (), c')"
  shows "commit_cursor name s' v c' = (Inl (Engine (CursorConflict name v (v + 1))), c')"
proof -
  have v: "version (get_cursor c name) = v"
  proof (rule ccontr)
    assume "version (get_cursor c name) \<noteq> v"
    from commit_stale [OF assms(1) this] assms(2) show False by simp
  qed
  from commit_matching [OF assms(1) v, of s] assms(2)
  have "cursors_ok c'" "version (get_cursor c' name) = v + 1" by auto
  with commit_stale [of c' name v s'] show ?thesis by simp
qed

text \<open>A run of commits that each expect the version the one before left.\<close>

fun commit_run :: "string \<Rightarrow> int list \<Rightarrow> int \<Rightarrow> 'c \<Rightarrow> unit result \<times> 'c" where
  "commit_run name [] v c = (Inr (), c)"
| "commit_run name (s # ss) v c =
     (case commit_cursor name s v c of
        (Inl e, c') \<Rightarrow> (Inl e, c')
      | (Inr _, c') \<Rightarrow> commit_run name ss (v + 1) c')"

lemma commit_run_ends:
  assumes "cursors_ok c" "version (get_cursor c name) = v"
  shows "\<exists>c'. commit_run name ss v c = (Inr (), c') \<and> cursors_ok c'
    \<and> get_cursor c' name = (if ss = [] then get_cursor c name else \<lparr>last_seq = last ss, version = v + int (length ss)\<rparr>)"
  using assms
proof (induction ss arbitrary: v c)
  case (Cons s ss)
  obtain c1 where "commit_cursor name s v c = (Inr (), c1)" "cursors_ok c1"
    "get_cursor c1 name = \<lparr>last_seq = s, version = v + 1\<rparr>"
    using commit_matching [OF Cons.prems, of s] by blast
  with Cons.IH [of c1 "v + 1"] show ?case by (auto simp: add.assoc)
qed simp

lemma watermark_below:
  assumes "cursors_ok c" "watermark c = Some w" "name \<in> set (cursor_names c)"
  shows "w \<le> last_seq (get_cursor c name)"
  using assms watermark_min [of c] by (auto split: if_splits)

end

subsection \<open>In memory\<close>

type_synonym memory_cursors = "(string, cursor_state) dict"

definition mc_get :: "memory_cursors \<Rightarrow> string \<Rightarrow> cursor_state" where
  "mc_get c name = (case map_of c name of None \<Rightarrow> cursor0 | Some st \<Rightarrow> st)"

definition mc_commit :: "string \<Rightarrow> int \<Rightarrow> int \<Rightarrow> memory_cursors \<Rightarrow> unit result \<times> memory_cursors" where
  "mc_commit name s expected c =
     (let current = mc_get c name in
      if version current \<noteq> expected then (Inl (Engine (CursorConflict name expected (version current))), c)
      else (Inr (), AList.update name \<lparr>last_seq = s, version = expected + 1\<rparr> c))"

definition mc_delete :: "string \<Rightarrow> memory_cursors \<Rightarrow> memory_cursors" where
  "mc_delete name c = AList.delete name c"

definition mc_watermark :: "memory_cursors \<Rightarrow> int option" where
  "mc_watermark c = (if c = [] then None else Some (Min (set (map (\<lambda>(n, st). last_seq st) c))))"

definition mc_ok :: "memory_cursors \<Rightarrow> bool" where
  "mc_ok c \<longleftrightarrow> dict_ok c \<and> (\<forall>(n, st)\<in>set c. 1 \<le> version st)"

lemma map_of_in_dict: "dict_ok c \<Longrightarrow> (n, st) \<in> set c \<Longrightarrow> map_of c n = Some st"
  by (simp add: map_of_mem_dict [symmetric])

lemma mc_watermark_min:
  assumes "dict_ok c"
  shows "mc_watermark c = (if dict_keys c = [] then None
          else Some (Min ((\<lambda>n. last_seq (mc_get c n)) ` set (dict_keys c))))"
proof -
  have "(\<lambda>n. last_seq (mc_get c n)) ` set (dict_keys c) = set (map (\<lambda>(n, st). last_seq st) c)"
    using map_of_in_dict [OF assms] by (force simp: mc_get_def image_iff)
  then show ?thesis by (simp add: mc_watermark_def)
qed

lemma mc_get_set: "mc_get (AList.update name st c) other = (if other = name then st else mc_get c other)"
  by (simp add: mc_get_def dict_simps)

lemma set_dict_set: "dict_ok c \<Longrightarrow> set (AList.update k v c) = insert (k, v) {p \<in> set c. fst p \<noteq> k}"
  by (auto simp: map_of_mem_dict dict_simps split: if_splits)

lemma mc_ok_set: "mc_ok c \<Longrightarrow> 1 \<le> version st \<Longrightarrow> mc_ok (AList.update name st c)"
  by (auto simp: mc_ok_def set_dict_set)

lemma mc_ok_pop: "mc_ok c \<Longrightarrow> mc_ok (AList.delete name c)"
  using dict_ok_pop [of c name] by (auto simp: mc_ok_def AList.delete_eq)

lemma mc_version_nonneg: "mc_ok c \<Longrightarrow> 0 \<le> version (mc_get c name)"
  by (auto simp: mc_get_def mc_ok_def cursor0_def split: option.splits dest!: map_of_SomeD)

interpretation mcur: cursor_store mc_get mc_commit mc_delete mc_watermark dict_keys mc_ok
proof (unfold_locales, goal_cases)
  case (1 name c)
  then show ?case by (auto simp: mc_get_def map_of_eq_None_iff [symmetric])
next
  case (2 c name)
  then show ?case by (auto simp: mc_get_def mc_ok_def map_of_in_dict)
next
  case (3 c name v s)
  then have "mc_ok (AList.update name \<lparr>last_seq = s, version = v + 1\<rparr> c)"
    using mc_version_nonneg [OF 3(1), of name] by (intro mc_ok_set) auto
  with 3 show ?case by (simp add: mc_commit_def mc_get_set dict_keys_set)
next
  case (8 c)
  then show ?case by (simp only: mc_ok_def mc_watermark_min)
qed (auto simp: mc_commit_def mc_delete_def mc_get_def mc_ok_pop dict_simps dict_keys_pop)

subsection \<open>In SQL\<close>

text \<open>The table \<open>consumer_cursor\<close> by its primary key; \<open>updated_at\<close> is read by nobody.\<close>

record cursor_row =
  cr_last_seq :: int
  cr_version :: int

type_synonym cursor_table = "(string \<times> cursor_row) list"

definition sc_get :: "cursor_table \<Rightarrow> string \<Rightarrow> cursor_state" where
  "sc_get t name = (case map_of t name of
       None \<Rightarrow> \<lparr>last_seq = 0, version = 0\<rparr>
     | Some row \<Rightarrow> \<lparr>last_seq = cr_last_seq row, version = cr_version row\<rparr>)"

definition sc_version :: "cursor_table \<Rightarrow> string \<Rightarrow> int" where
  "sc_version t name = (case map_of t name of None \<Rightarrow> 0 | Some row \<Rightarrow> cr_version row)"

text \<open>\<open>INSERT ... ON CONFLICT DO NOTHING\<close> and the guarded \<open>UPDATE\<close>, each with its row count.\<close>

definition sc_insert :: "string \<Rightarrow> int \<Rightarrow> cursor_table \<Rightarrow> nat \<times> cursor_table" where
  "sc_insert name s t = (case map_of t name of
       None \<Rightarrow> (1, t @ [(name, \<lparr>cr_last_seq = s, cr_version = 1\<rparr>)])
     | Some _ \<Rightarrow> (0, t))"

definition sc_update :: "string \<Rightarrow> int \<Rightarrow> int \<Rightarrow> cursor_table \<Rightarrow> nat \<times> cursor_table" where
  "sc_update name s expected t = (case map_of t name of
       Some row \<Rightarrow>
         if cr_version row = expected
         then (1, map (\<lambda>(n, r). if n = name then (n, \<lparr>cr_last_seq = s, cr_version = cr_version r + 1\<rparr>) else (n, r)) t)
         else (0, t)
     | None \<Rightarrow> (0, t))"

definition sc_commit :: "string \<Rightarrow> int \<Rightarrow> int \<Rightarrow> cursor_table \<Rightarrow> unit result \<times> cursor_table" where
  "sc_commit name s expected t =
     (if expected = 0 then
        (case sc_insert name s t of (n, t') \<Rightarrow>
           if n = 0 then (Inl (Engine (CursorConflict name expected (sc_version t name))), t)
           else (Inr (), t'))
      else
        (case sc_update name s expected t of (n, t') \<Rightarrow>
           if n = 0 then (Inl (Engine (CursorConflict name expected (sc_version t name))), t)
           else (Inr (), t')))"

definition sc_delete :: "string \<Rightarrow> cursor_table \<Rightarrow> cursor_table" where
  "sc_delete name t = filter (\<lambda>(n, r). n \<noteq> name) t"

definition sc_watermark :: "cursor_table \<Rightarrow> int option" where
  "sc_watermark t = (if t = [] then None else Some (Min (set (map (\<lambda>(n, r). cr_last_seq r) t))))"

definition sc_ok :: "cursor_table \<Rightarrow> bool" where
  "sc_ok t \<longleftrightarrow> dict_ok t \<and> (\<forall>(n, r)\<in>set t. 1 \<le> cr_version r)"

text \<open>The rows as the cursors of the memory store: the SQL commit refines the memory commit.\<close>

definition row_state :: "cursor_row \<Rightarrow> cursor_state" where
  "row_state r = \<lparr>last_seq = cr_last_seq r, version = cr_version r\<rparr>"

definition cursor_abs :: "cursor_table \<Rightarrow> memory_cursors" where
  "cursor_abs t = map (\<lambda>(n, r). (n, row_state r)) t"

lemma map_of_cursor_abs: "map_of (cursor_abs t) n = map_option row_state (map_of t n)"
  by (induction t) (auto simp: cursor_abs_def)

lemma sc_get_abs: "sc_get t name = mc_get (cursor_abs t) name"
  by (simp add: sc_get_def mc_get_def map_of_cursor_abs row_state_def cursor0_def split: option.splits)

lemma sc_version_abs: "sc_version t name = version (mc_get (cursor_abs t) name)"
  by (simp add: sc_version_def mc_get_def map_of_cursor_abs row_state_def cursor0_def split: option.splits)

lemma cursor_abs_ok: "mc_ok (cursor_abs t) = sc_ok t"
  by (auto simp: mc_ok_def sc_ok_def cursor_abs_def row_state_def dict_ok_def comp_def case_prod_beta)

lemma cursor_abs_keys: "dict_keys (cursor_abs t) = dict_keys t"
  by (simp add: cursor_abs_def comp_def case_prod_beta)

lemma update_absent: "k \<notin> set (dict_keys d) \<Longrightarrow> AList.update k v d = d @ [(k, v)]"
  by (induction d) auto

lemma update_present:
  "dict_ok d \<Longrightarrow> k \<in> set (dict_keys d) \<Longrightarrow> AList.update k v d = map (\<lambda>(n, x). if n = k then (n, v) else (n, x)) d"
proof (induction d)
  case (Cons p d)
  obtain n x where p: "p = (n, x)" by (cases p)
  show ?case
  proof (cases "n = k")
    case True
    then have "k \<notin> set (dict_keys d)" using Cons.prems by (simp add: p dict_ok_Cons)
    then have "map (\<lambda>(n, x). if n = k then (n, v) else (n, x)) d = d"
      by (intro map_idI) (auto simp: image_iff)
    then show ?thesis by (simp add: p True)
  next
    case False
    then show ?thesis using Cons by (simp add: p dict_ok_Cons)
  qed
qed simp

lemma sc_commit_refines:
  assumes "sc_ok t"
  shows "map_prod id cursor_abs (sc_commit name s v t) = mc_commit name s v (cursor_abs t)"
proof (cases "map_of t name")
  case None
  then have n: "name \<notin> set (dict_keys (cursor_abs t))"
    by (simp add: cursor_abs_keys map_of_eq_None_iff)
  have "AList.update name \<lparr>last_seq = s, version = 1\<rparr> (cursor_abs t)
      = cursor_abs (t @ [(name, \<lparr>cr_last_seq = s, cr_version = 1\<rparr>)])"
    unfolding update_absent [OF n] by (simp add: cursor_abs_def row_state_def)
  then show ?thesis using None
    by (simp add: sc_commit_def sc_insert_def sc_update_def sc_version_def mc_commit_def mc_get_def
        map_of_cursor_abs cursor0_def)
next
  case (Some row)
  then have n: "name \<in> set (dict_keys (cursor_abs t))"
    by (simp add: cursor_abs_keys) (metis domI dom_map_of_conv_image_fst)
  have ok: "dict_ok (cursor_abs t)" using assms cursor_abs_ok [of t] by (simp add: mc_ok_def)
  have pos: "1 \<le> cr_version row" using assms map_of_SomeD [OF Some] by (auto simp: sc_ok_def)
  have same: "r = row" if "(name, r) \<in> set t" for r
    using assms Some that by (simp add: sc_ok_def map_of_mem_dict)
  have "AList.update name \<lparr>last_seq = s, version = cr_version row + 1\<rparr> (cursor_abs t)
      = cursor_abs (map (\<lambda>(n, r). if n = name then (n, \<lparr>cr_last_seq = s, cr_version = cr_version r + 1\<rparr>) else (n, r)) t)"
    unfolding update_present [OF ok n] using same by (auto simp: cursor_abs_def row_state_def)
  then show ?thesis using Some pos
    by (auto simp: sc_commit_def sc_insert_def sc_update_def sc_version_def mc_commit_def mc_get_def
        map_of_cursor_abs row_state_def)
qed

lemma sc_delete_refines: "cursor_abs (sc_delete name t) = mc_delete name (cursor_abs t)"
  by (auto simp: cursor_abs_def sc_delete_def mc_delete_def AList.delete_eq filter_map comp_def case_prod_beta
      intro!: arg_cong [where f = "map _"] filter_cong)

lemma sc_watermark_refines: "sc_watermark t = mc_watermark (cursor_abs t)"
  by (simp add: sc_watermark_def mc_watermark_def cursor_abs_def comp_def case_prod_beta row_state_def image_image)

interpretation scur: cursor_store sc_get sc_commit sc_delete sc_watermark dict_keys sc_ok
proof (unfold_locales, goal_cases)
  case (1 name c)
  then show ?case by (simp add: sc_get_abs mcur.absent_cursor cursor_abs_keys del: set_map)
next
  case (2 c name)
  then show ?case by (simp add: sc_get_abs mcur.present_version cursor_abs_keys cursor_abs_ok del: set_map)
next
  case (3 c name v s)
  obtain r c' where r: "sc_commit name s v c = (r, c')" by fastforce
  then have "mc_commit name s v (cursor_abs c) = (r, cursor_abs c')"
    using sc_commit_refines [OF 3(1), of name s v] by simp
  with mcur.commit_matching [of "cursor_abs c" name v s] 3 show ?case
    by (auto simp: r sc_get_abs cursor_abs_ok cursor_abs_keys simp del: set_map)
next
  case (4 c name v s)
  obtain r c' where r: "sc_commit name s v c = (r, c')" by fastforce
  then show ?case
    using 4 by (auto simp: sc_commit_def sc_insert_def sc_update_def sc_version_def sc_get_def
        split: if_splits option.splits)
next
  case (5 c name)
  then show ?case by (simp add: sc_delete_refines mcur.delete_effect flip: cursor_abs_ok)
next
  case (6 c name other)
  then show ?case by (simp add: sc_get_abs sc_delete_refines mcur.delete_effect flip: cursor_abs_ok)
next
  case (7 c name)
  then show ?case
    using mcur.delete_effect(3) [of "cursor_abs c" name]
    by (simp only: cursor_abs_ok flip: sc_delete_refines) (simp only: cursor_abs_keys)
next
  case (8 c)
  then show ?case
    using mcur.watermark_min [of "cursor_abs c"]
    by (simp only: cursor_abs_ok sc_watermark_refines cursor_abs_keys sc_get_abs)
qed

subsection \<open>Properties\<close>

text \<open>C7: The SQL cursor store refines the in-memory one: under the row invariant (one row per consumer,
  versions from 1) a commit, a read, a delete and the watermark give the same result and the same
  rows, conflicts with their reported versions included.\<close>

theorem sql_cursors_refine_memory:
  assumes "sc_ok t"
  shows "map_prod id cursor_abs (sc_commit name s v t) = mc_commit name s v (cursor_abs t)
    \<and> sc_ok (snd (sc_commit name s v t))
    \<and> sc_get t name = mc_get (cursor_abs t) name
    \<and> cursor_abs (sc_delete name t) = mc_delete name (cursor_abs t)
    \<and> sc_watermark t = mc_watermark (cursor_abs t)"
proof -
  have "sc_ok (snd (sc_commit name s v t))"
  proof (cases "version (sc_get t name) = v")
    case True
    then show ?thesis using scur.commit_matching [OF assms True, of s] by auto
  next
    case False
    then show ?thesis using scur.commit_stale [OF assms False, of s] assms by simp
  qed
  with assms show ?thesis
    by (simp add: sc_commit_refines sc_get_abs sc_delete_refines sc_watermark_refines)
qed

theorem sql_cursors_refine_memory_witness:
  "map_prod id cursor_abs (sc_commit ''bus'' 7 2 [(''bus'', \<lparr>cr_last_seq = 5, cr_version = 2\<rparr>)])
     = (Inr (), [(''bus'', \<lparr>last_seq = 7, version = 3\<rparr>)])"
  using sql_cursors_refine_memory [of "[(''bus'', \<lparr>cr_last_seq = 5, cr_version = 2\<rparr>)]" "''bus''" 7 2]
  by (simp add: sc_ok_def dict_ok_def mc_commit_def mc_get_def cursor_abs_def row_state_def)

text \<open>Two instances of one consumer cannot clobber each other: when both read the same version, the
  first commit succeeds and moves the cursor, and the second raises \<open>CursorConflict\<close> with the version
  it lost to and leaves the cursor where the first put it.\<close>

theorem second_commit_conflicts:
  assumes "sc_ok t" "version (sc_get t name) = v"
  shows "\<exists>t'. sc_commit name s v t = (Inr (), t') \<and> sc_get t' name = \<lparr>last_seq = s, version = v + 1\<rparr>
    \<and> sc_commit name s' v t' = (Inl (Engine (CursorConflict name v (v + 1))), t')"
  using scur.commit_matching [OF assms, of s] scur.second_writer_conflicts [OF assms(1)] by blast

theorem second_commit_conflicts_witness:
  "\<exists>t'. sc_commit ''bus'' 7 0 [] = (Inr (), t') \<and> sc_commit ''bus'' 9 0 t' = (Inl (Engine (CursorConflict ''bus'' 0 1)), t')"
  using second_commit_conflicts [of "[]" "''bus''" 0 7 9] by (auto simp: sc_ok_def sc_get_def)

end
