(* ===== verification/Dead_Letters.thy ===== *)
theory Dead_Letters
  imports Event_Codec
begin

text \<open>
  The dead-letter store (\<open>bus/dlq.py\<close>): parked events per consumer, in memory and in the table
  \<open>dead_letter\<close>, whose JSON payload carries the envelope fields the columns lack. The contract says
  that draining a consumer gives what was parked for it, in order, once, and leaves the others; the
  SQL store gives the parked events back as base events, with their identity and wire shape.
\<close>

record dead_letter =
  dl_consumer :: string
  dl_seq :: int
  dl_event :: domain_event
  dl_reason :: string

subsection \<open>The contract\<close>

locale dead_letter_store =
  fixes park :: "string \<Rightarrow> domain_event \<Rightarrow> string \<Rightarrow> 'd \<Rightarrow> 'd"
    and list_for :: "string \<Rightarrow> 'd \<Rightarrow> dead_letter list option"
    and drain :: "string \<Rightarrow> 'd \<Rightarrow> dead_letter list option \<times> 'd"
    and count_parked :: "'d \<Rightarrow> int"
    and seen_as :: "domain_event \<Rightarrow> domain_event"
    and parkable :: "domain_event \<Rightarrow> bool"
    and store_ok :: "'d \<Rightarrow> bool"
  assumes parked_listed: "store_ok d \<Longrightarrow> parkable e \<Longrightarrow> list_for c d = Some ds \<Longrightarrow>
          store_ok (park c e r d) \<and> list_for c (park c e r d)
            = Some (ds @ [\<lparr>dl_consumer = c, dl_seq = seq e, dl_event = seen_as e, dl_reason = r\<rparr>])"
    and parked_other: "c' \<noteq> c \<Longrightarrow> list_for c' (park c e r d) = list_for c' d"
    and park_count: "count_parked (park c e r d) = count_parked d + 1"
    and listed: "store_ok d \<Longrightarrow> list_for c d \<noteq> None"
    and drain_gives: "store_ok d \<Longrightarrow> fst (drain c d) = list_for c d"
    and drain_clears: "store_ok d \<Longrightarrow> store_ok (snd (drain c d)) \<and> list_for c (snd (drain c d)) = Some []"
    and drain_other: "store_ok d \<Longrightarrow> c' \<noteq> c \<Longrightarrow> list_for c' (snd (drain c d)) = list_for c' d"
begin

lemma park_then_drain:
  assumes "store_ok d" "\<forall>(e, r)\<in>set ers. parkable e" "list_for c d = Some ds"
  shows "store_ok (foldl (\<lambda>d (e, r). park c e r d) d ers) \<and>
    list_for c (foldl (\<lambda>d (e, r). park c e r d) d ers)
     = Some (ds @ map (\<lambda>(e, r). \<lparr>dl_consumer = c, dl_seq = seq e, dl_event = seen_as e, dl_reason = r\<rparr>) ers)"
  using assms
proof (induction ers arbitrary: d ds)
  case (Cons p ers)
  obtain e r where p: "p = (e, r)" by (cases p)
  with Cons.prems have "store_ok (park c e r d)"
    "list_for c (park c e r d) = Some (ds @ [\<lparr>dl_consumer = c, dl_seq = seq e, dl_event = seen_as e, dl_reason = r\<rparr>])"
    using parked_listed by auto
  from Cons.IH [OF this(1) _ this(2)] Cons.prems(2) show ?case by (simp add: p)
qed simp

lemma second_drain_empty:
  assumes "store_ok d" shows "fst (drain c (snd (drain c d))) = Some []"
  using drain_clears [OF assms, of c] drain_gives by simp

end

subsection \<open>In memory\<close>

type_synonym memory_dlq = "dead_letter list"

definition md_park :: "string \<Rightarrow> domain_event \<Rightarrow> string \<Rightarrow> memory_dlq \<Rightarrow> memory_dlq" where
  "md_park c e r d = d @ [\<lparr>dl_consumer = c, dl_seq = seq e, dl_event = e, dl_reason = r\<rparr>]"

definition md_list_for :: "string \<Rightarrow> memory_dlq \<Rightarrow> dead_letter list" where
  "md_list_for c d = filter (\<lambda>x. dl_consumer x = c) d"

definition md_drain :: "string \<Rightarrow> memory_dlq \<Rightarrow> dead_letter list \<times> memory_dlq" where
  "md_drain c d = (filter (\<lambda>x. dl_consumer x = c) d, filter (\<lambda>x. dl_consumer x \<noteq> c) d)"

definition md_count :: "memory_dlq \<Rightarrow> int" where
  "md_count d = int (length d)"

interpretation mdlq: dead_letter_store md_park "\<lambda>c d. Some (md_list_for c d)"
  "\<lambda>c d. map_prod Some id (md_drain c d)" md_count "\<lambda>e. e" "\<lambda>e. True" "\<lambda>d. True"
  by unfold_locales (auto simp: md_park_def md_list_for_def md_drain_def md_count_def filter_empty_conv
      intro!: filter_cong)

subsection \<open>In SQL\<close>

record dead_letter_row =
  dr_id :: int
  dr_consumer :: string
  dr_seq :: int
  dr_event_id :: uuid
  dr_reason :: string
  dr_payload :: json

record dlq_db =
  dq_rows :: "dead_letter_row list"
  dq_next :: int

definition dq_init :: dlq_db where
  "dq_init = \<lparr>dq_rows = [], dq_next = 1\<rparr>"

definition pack_event :: "domain_event \<Rightarrow> json" where
  "pack_event e =
     JObj [(''_meta'', JObj [(''event_type'', JStr (et_value (ev_type e))),
                             (''aggregate_id'', JStr (aggregate_id e)),
                             (''occurred_at'', JStr (isoformat (occurred_at e))),
                             (''content_hash'', JStr (content_hash e)),
                             (''schema_version'', JInt (schema_version e))]),
           (''payload'', JObj (encode_event e))]"

definition meta_str :: "json \<Rightarrow> string \<Rightarrow> string option" where
  "meta_str m k = (case json_item m k of Some (JStr s) \<Rightarrow> Some s | _ \<Rightarrow> None)"

text \<open>None stands for whichever exception a row raises that \<open>park\<close> did not write.\<close>

definition row_to_dead_letter :: "dead_letter_row \<Rightarrow> dead_letter option" where
  "row_to_dead_letter row =
     (case (json_item (dr_payload row) ''_meta'', json_item (dr_payload row) ''payload'') of
        (Some meta, Some (JObj pl)) \<Rightarrow>
          (case (meta_str meta ''event_type'', meta_str meta ''aggregate_id'',
                 Option.bind (meta_str meta ''occurred_at'') from_isoformat,
                 meta_str meta ''content_hash'', json_item meta ''schema_version'') of
             (Some et, Some agg, Some ts, Some hash, Some (JInt ver)) \<Rightarrow>
               map_option (\<lambda>e. \<lparr>dl_consumer = dr_consumer row, dl_seq = dr_seq row,
                                dl_event = e, dl_reason = dr_reason row\<rparr>)
                 (decode_event (dr_event_id row) et agg ts hash ver (dr_seq row) pl)
           | _ \<Rightarrow> None)
      | _ \<Rightarrow> None)"

definition dq_park :: "string \<Rightarrow> domain_event \<Rightarrow> string \<Rightarrow> dlq_db \<Rightarrow> dlq_db" where
  "dq_park c e r d =
     \<lparr>dq_rows = dq_rows d @ [\<lparr>dr_id = dq_next d, dr_consumer = c, dr_seq = seq e,
                               dr_event_id = event_id e, dr_reason = r, dr_payload = pack_event e\<rparr>],
      dq_next = dq_next d + 1\<rparr>"

definition dq_select :: "string \<Rightarrow> dlq_db \<Rightarrow> dead_letter_row list" where
  "dq_select c d = sort_key dr_id (filter (\<lambda>row. dr_consumer row = c) (dq_rows d))"

definition dq_list_for :: "string \<Rightarrow> dlq_db \<Rightarrow> dead_letter list option" where
  "dq_list_for c d = those (map row_to_dead_letter (dq_select c d))"

text \<open>A row that cannot be read back raises before the delete, and the transaction rolls back.\<close>

definition dq_drain :: "string \<Rightarrow> dlq_db \<Rightarrow> dead_letter list option \<times> dlq_db" where
  "dq_drain c d =
     (case those (map row_to_dead_letter (dq_select c d)) of
        None \<Rightarrow> (None, d)
      | Some ds \<Rightarrow> (Some ds, d\<lparr>dq_rows := filter (\<lambda>row. dr_consumer row \<noteq> c) (dq_rows d)\<rparr>))"

definition dq_count :: "dlq_db \<Rightarrow> int" where
  "dq_count d = int (length (dq_rows d))"

definition dq_ok :: "dlq_db \<Rightarrow> bool" where
  "dq_ok d \<longleftrightarrow> ascending dr_id (dq_rows d) \<and> (\<forall>row\<in>set (dq_rows d). dr_id row < dq_next d)
             \<and> (\<forall>row\<in>set (dq_rows d). row_to_dead_letter row \<noteq> None)"

lemma packed_row_read:
  assumes "valid_dt (occurred_at e)"
  shows "row_to_dead_letter \<lparr>dr_id = n, dr_consumer = c, dr_seq = seq e, dr_event_id = event_id e,
            dr_reason = r, dr_payload = pack_event e\<rparr>
       = Some \<lparr>dl_consumer = c, dl_seq = seq e, dl_event = flatten e, dl_reason = r\<rparr>"
proof -
  have "decode_event (event_id e) (et_value (ev_type e)) (aggregate_id e) (occurred_at e) (content_hash e)
      (schema_version e) (seq e) (encode_event e) = Some (flatten e)"
    using decode_flatten [of e "seq e"] by (simp add: with_seq_def)
  then show ?thesis
    using assms by (simp add: row_to_dead_letter_def pack_event_def json_item_def meta_str_def from_isoformat_isoformat)
qed

lemma those_not_None: "(\<forall>x\<in>set xs. f x \<noteq> None) \<Longrightarrow> those (map f xs) \<noteq> None"
  by (induction xs) auto

lemma those_append: "those (xs @ [x]) = Option.bind (those xs) (\<lambda>ys. map_option (\<lambda>y. ys @ [y]) x)"
  by (induction xs) (auto simp: option.map_comp comp_def split: option.splits Option.bind_splits)

lemma dq_select_asc: "dq_ok d \<Longrightarrow> dq_select c d = filter (\<lambda>row. dr_consumer row = c) (dq_rows d)"
  by (simp add: dq_select_def dq_ok_def sort_key_id_if_sorted ascending_filter ascending_def [symmetric]
      strict_sorted_imp_sorted)

lemma dq_listed: "dq_ok d \<Longrightarrow> dq_list_for c d \<noteq> None"
  using those_not_None [of "dq_select c d" row_to_dead_letter]
  by (simp add: dq_list_for_def dq_select_asc) (simp add: dq_ok_def)

interpretation sdlq: dead_letter_store dq_park dq_list_for dq_drain dq_count flatten
  "\<lambda>e. valid_dt (occurred_at e)" dq_ok
proof (unfold_locales, goal_cases)
  case (1 d e c ds r)
  let ?row = "\<lparr>dr_id = dq_next d, dr_consumer = c, dr_seq = seq e, dr_event_id = event_id e,
               dr_reason = r, dr_payload = pack_event e\<rparr>"
  have rows: "dq_rows (dq_park c e r d) = dq_rows d @ [?row]" by (simp add: dq_park_def)
  have read: "row_to_dead_letter ?row = Some \<lparr>dl_consumer = c, dl_seq = seq e, dl_event = flatten e, dl_reason = r\<rparr>"
    using packed_row_read [OF 1(2)] .
  have ok: "dq_ok (dq_park c e r d)"
    using 1(1) read by (auto simp: dq_ok_def dq_park_def ascending_append)
  show ?case
    using ok 1(1,3) read by (simp add: dq_list_for_def dq_select_asc rows those_append)
next
  case (2 c' c e r d)
  then show ?case by (simp add: dq_list_for_def dq_select_def dq_park_def)
next
  case (3 c e r d)
  then show ?case by (simp add: dq_count_def dq_park_def)
next
  case (4 d c)
  then show ?case using dq_listed by simp
next
  case (5 d c)
  then show ?case by (simp add: dq_drain_def dq_list_for_def split: option.splits)
next
  case (6 d c)
  then obtain ds where "dq_drain c d = (Some ds, d\<lparr>dq_rows := filter (\<lambda>row. dr_consumer row \<noteq> c) (dq_rows d)\<rparr>)"
    using dq_listed [of d c] by (auto simp: dq_drain_def dq_list_for_def)
  moreover from 6 have "dq_ok (d\<lparr>dq_rows := filter (\<lambda>row. dr_consumer row \<noteq> c) (dq_rows d)\<rparr>)"
    by (auto simp: dq_ok_def)
  ultimately show ?case by (simp add: dq_list_for_def dq_select_def filter_False)
next
  case (7 d c' c)
  then obtain ds where "dq_drain c d = (Some ds, d\<lparr>dq_rows := filter (\<lambda>row. dr_consumer row \<noteq> c) (dq_rows d)\<rparr>)"
    using dq_listed [of d c] by (auto simp: dq_drain_def dq_list_for_def)
  moreover have "filter (\<lambda>row. dr_consumer row \<noteq> c \<and> dr_consumer row = c') (dq_rows d)
      = filter (\<lambda>row. dr_consumer row = c') (dq_rows d)"
    using 7 by (intro filter_cong) auto
  ultimately show ?case by (simp add: dq_list_for_def dq_select_def)
qed

subsection \<open>Properties\<close>

text \<open>A drain of the SQL dead-letter store gives back what was parked: for events with a valid
  timestamp, draining the consumer they were parked for returns them in order with their reasons and
  positions, each with the identity, type, flattened payload and envelope it had, leaves the store
  empty for that consumer, and leaves every other consumer's letters as they were.\<close>

theorem parked_events_drained:
  assumes "list_all (\<lambda>(e, r). valid_dt (occurred_at e)) ers" "c' \<noteq> c"
  defines "d \<equiv> foldl (\<lambda>d (e, r). dq_park c e r d) dq_init ers"
  shows "fst (dq_drain c d)
       = Some (map (\<lambda>(e, r). \<lparr>dl_consumer = c, dl_seq = seq e, dl_event = flatten e, dl_reason = r\<rparr>) ers)
    \<and> dq_list_for c (snd (dq_drain c d)) = Some [] \<and> dq_list_for c' (snd (dq_drain c d)) = dq_list_for c' d"
proof -
  have i: "dq_ok dq_init" "dq_list_for c dq_init = Some []"
    by (simp_all add: dq_ok_def dq_init_def dq_list_for_def dq_select_def)
  have "dq_ok d \<and> dq_list_for c d = Some (map (\<lambda>(e, r). \<lparr>dl_consumer = c, dl_seq = seq e, dl_event = flatten e, dl_reason = r\<rparr>) ers)"
    using sdlq.park_then_drain [OF i(1) _ i(2)] assms(1) unfolding d_def list_all_iff by simp
  with sdlq.drain_gives [of d c] sdlq.drain_clears [of d c] sdlq.drain_other [of d c' c] assms(2)
  show ?thesis by simp
qed

definition parked_example :: domain_event where
  "parked_example =
     \<lparr>event_id = 5, aggregate_id = ''17'',
      occurred_at = \<lparr>dt_year = 2024, dt_month = 2, dt_day = 29, dt_hour = 1, dt_minute = 2, dt_second = 3,
                     dt_micro = 4, utc_offset = Some 0\<rparr>,
      content_hash = ''h'', schema_version = 1, seq = 9, payload = [], body = RatingChanged 5 1 1 0\<rparr>"

theorem parked_events_drained_witness:
  "map_option (map dl_event) (fst (dq_drain ''hook'' (dq_park ''hook'' parked_example ''boom'' dq_init))) = Some [flatten parked_example]"
  using parked_events_drained [of "[(parked_example, ''boom'')]" "''x''" "''hook''"]
  by (simp add: valid_dt_def parked_example_def days_in_month_def leap_year_def)

end
