(* ===== verification/Consumers.thy ===== *)
theory Consumers
  imports Event_Codec
begin

text \<open>
  The consumer contract (\<open>consumers/\<close>): a subscription as a set of types with payload filters and an
  optional class test, a consumer as a name, its subscriptions and its handler, the decorator-based
  router and the logging consumer. A handler acts on a world of any type and either returns (None)
  or raises (the \<open>repr\<close> of its exception). Filters compare \<open>str()\<close> of a payload value, so the text
  Python gives a JSON value is defined here too.
\<close>

subsection \<open>Python's text of a JSON value\<close>

definition repr_char :: "char \<Rightarrow> char \<Rightarrow> string" where
  "repr_char q c =
     (if c = q \<or> c = backslash then [backslash, c]
      else if code c = 10 then [backslash, CHR ''n'']
      else if code c = 13 then [backslash, CHR ''r'']
      else if code c = 9 then [backslash, CHR ''t'']
      else if code c < 32 \<or> (127 \<le> code c \<and> code c \<le> 160) \<or> code c = 173
        then [backslash, CHR ''x'', hex_digit (code c div 16), hex_digit (code c mod 16)]
      else [c])"

definition py_repr_str :: "string \<Rightarrow> string" where
  "py_repr_str s =
     (let q = (if CHR 0x27 \<in> set s \<and> CHR 0x22 \<notin> set s then CHR 0x22 else CHR 0x27)
      in [q] @ concat (map (repr_char q) s) @ [q])"

fun py_repr :: "json \<Rightarrow> string" where
  "py_repr JNull = ''None''"
| "py_repr (JBool b) = (if b then ''True'' else ''False'')"
| "py_repr (JInt i) = str_int i"
| "py_repr (JFloat t) = t"
| "py_repr (JStr s) = py_repr_str s"
| "py_repr (JArr js) = ''['' @ sep_join '', '' (map py_repr js) @ '']''"
| "py_repr (JObj kvs) = ''{'' @ sep_join '', '' (map (\<lambda>(k, v). py_repr_str k @ '': '' @ py_repr v) kvs) @ ''}''"

definition py_str :: "json \<Rightarrow> string" where
  "py_str j = (case j of JStr s \<Rightarrow> s | _ \<Rightarrow> py_repr j)"

subsection \<open>Subscriptions and consumers\<close>

record subscription =
  sub_types :: "event_type list"
  sub_filters :: "(string \<times> string) list"
  sub_class :: "(event_body \<Rightarrow> bool) option"

definition payload_str :: "(string \<times> json) list \<Rightarrow> string \<Rightarrow> string" where
  "payload_str pl k = py_str (case map_of pl k of None \<Rightarrow> JNull | Some v \<Rightarrow> v)"

definition sub_matches :: "subscription \<Rightarrow> domain_event \<Rightarrow> bool" where
  "sub_matches sub e =
     (if ev_type e \<notin> set (sub_types sub) then False
      else if (case sub_class sub of None \<Rightarrow> False | Some is_cls \<Rightarrow> \<not> is_cls (body e)) then False
      else list_all (\<lambda>(k, v). payload_str (payload e) k = v) (sub_filters sub))"

type_synonym 'w handler = "domain_event \<Rightarrow> 'w \<Rightarrow> string option \<times> 'w"

record 'w consumer =
  con_name :: string
  con_subs :: "subscription list"
  con_handle :: "'w handler"

definition wants :: "'w consumer \<Rightarrow> domain_event \<Rightarrow> bool" where
  "wants c e \<longleftrightarrow> list_ex (\<lambda>sub. sub_matches sub e) (con_subs c)"

text \<open>
  A subscription without a class test whose filters do not name a field of the event's body sees an
  event of the SQL log as it sees the original; one that does may see the two differently.
\<close>

lemma sub_matches_flatten:
  assumes "sub_class sub = None" "\<forall>(k, v)\<in>set (sub_filters sub). k \<notin> set (dict_keys (body_json (body e)))"
  shows "sub_matches sub (flatten e) = sub_matches sub e"
proof -
  have "payload_str (encode_event e) k = payload_str (payload e) k" if "(k, v) \<in> set (sub_filters sub)" for k v
  proof -
    have "map_of (body_json (body e)) k = None"
      using assms(2) that by (auto simp: map_of_eq_None_iff)
    then show ?thesis by (simp add: payload_str_def encode_lookup)
  qed
  then show ?thesis using assms(1) by (auto simp: sub_matches_def list_all_iff)
qed

subsection \<open>The router\<close>

record 'w event_router =
  rt_name :: string
  rt_subs :: "subscription list"
  rt_routes :: "(subscription \<times> 'w handler) list"

definition new_router :: "string \<Rightarrow> 'w event_router" where
  "new_router name = \<lparr>rt_name = name, rt_subs = [], rt_routes = []\<rparr>"

definition router_on ::
  "event_type list \<Rightarrow> (string \<times> string) list \<Rightarrow> (event_body \<Rightarrow> bool) option \<Rightarrow> 'w handler
     \<Rightarrow> 'w event_router \<Rightarrow> 'w event_router result" where
  "router_on types filters cls h r =
     (if types = [] then Inl ValueError
      else (let sub = \<lparr>sub_types = types, sub_filters = filters, sub_class = cls\<rparr>
            in Inr (r\<lparr>rt_routes := rt_routes r @ [(sub, h)], rt_subs := rt_subs r @ [sub]\<rparr>)))"

fun run_routes :: "(subscription \<times> 'w handler) list \<Rightarrow> 'w handler" where
  "run_routes [] e w = (None, w)"
| "run_routes ((sub, h) # routes) e w =
     (if sub_matches sub e then
        (case h e w of
           (Some err, w') \<Rightarrow> (Some err, w')
         | (None, w') \<Rightarrow> run_routes routes e w')
      else run_routes routes e w)"

definition router_consumer :: "'w event_router \<Rightarrow> 'w consumer" where
  "router_consumer r = \<lparr>con_name = rt_name r, con_subs = rt_subs r, con_handle = run_routes (rt_routes r)\<rparr>"

definition router_ok :: "'w event_router \<Rightarrow> bool" where
  "router_ok r \<longleftrightarrow> rt_subs r = map fst (rt_routes r)"

lemma router_on_ok: "router_ok r \<Longrightarrow> router_on types filters cls h r = Inr r' \<Longrightarrow> router_ok r'"
  by (auto simp: router_on_def router_ok_def Let_def split: if_splits)

text \<open>The handlers a router runs for an event are those whose subscription matches, in order.\<close>

fun run_handlers :: "'w handler list \<Rightarrow> 'w handler" where
  "run_handlers [] e w = (None, w)"
| "run_handlers (h # hs) e w = (case h e w of (Some err, w') \<Rightarrow> (Some err, w') | (None, w') \<Rightarrow> run_handlers hs e w')"

lemma run_routes_handlers:
  "run_routes routes e w = run_handlers (map snd (filter (\<lambda>(sub, h). sub_matches sub e) routes)) e w"
  by (induction routes e w rule: run_routes.induct) (auto split: prod.splits option.splits)

lemma router_wants_iff:
  "router_ok r \<Longrightarrow> wants (router_consumer r) e \<longleftrightarrow> filter (\<lambda>(sub, h). sub_matches sub e) (rt_routes r) \<noteq> []"
  by (force simp: wants_def router_consumer_def router_ok_def list_ex_iff filter_empty_conv)

lemma router_unwanted: "router_ok r \<Longrightarrow> \<not> wants (router_consumer r) e \<Longrightarrow> con_handle (router_consumer r) e w = (None, w)"
  using router_wants_iff [of r e] by (simp add: router_consumer_def run_routes_handlers)

subsection \<open>The logging consumer\<close>

definition catalog_events :: "event_type list" where
  "catalog_events = [NEW_LOT, PRICE_DROPPED, LOT_UPDATED, LOT_DISAPPEARED, SNAPSHOT_INITIALIZED]"

definition logging_handle :: "domain_event list handler" where
  "logging_handle e seen = (None, seen @ [e])"

definition logging_consumer :: "event_type list \<Rightarrow> domain_event list consumer" where
  "logging_consumer types =
     \<lparr>con_name = ''logging'', con_subs = [\<lparr>sub_types = types, sub_filters = [], sub_class = None\<rparr>],
      con_handle = logging_handle\<rparr>"

subsection \<open>Properties\<close>

text \<open>The router runs exactly the handlers whose subscription matches, in the order they were
  registered, and stops at the first that raises; an event the bus would not offer it runs none.\<close>

theorem router_runs_matching:
  assumes "router_ok r"
  shows "con_handle (router_consumer r) e w
       = run_handlers (map snd (filter (\<lambda>(sub, h). sub_matches sub e) (rt_routes r))) e w
    \<and> (\<not> wants (router_consumer r) e \<longrightarrow> con_handle (router_consumer r) e w = (None, w))"
  using router_unwanted [OF assms] by (simp add: router_consumer_def run_routes_handlers)

theorem router_runs_matching_witness:
  "con_handle (router_consumer (new_router ''r'')) (build (RatingChanged 1 0 1 0) ''u'' (the (from_timestamp_utc 0)) ''h'' 1 []) (3 :: int) = (None, 3)"
  using router_runs_matching [of "new_router ''r''" _ "3 :: int"]
  by (simp add: router_ok_def new_router_def)

text \<open>What a subscription sees of an event does not depend on the log that stored it, as long as
  the subscription has no class test and its filters name no field of the event's own class: it
  matches the base event the SQL log reads back iff it matches the original.\<close>

theorem filters_see_stored_event:
  assumes "sub_class sub = None" "list_all (\<lambda>(k, v). k \<notin> set (dict_keys (body_json (body e)))) (sub_filters sub)"
  shows "sub_matches sub (flatten e) = sub_matches sub e"
  by (rule sub_matches_flatten [OF assms(1) assms(2) [unfolded list_all_iff]])

theorem filters_see_stored_event_witness:
  "sub_matches \<lparr>sub_types = [RATING_CHANGED], sub_filters = [(''category'', ''steam'')], sub_class = None\<rparr>
       (flatten (build (RatingChanged 1 0 1 0) ''u'' (the (from_timestamp_utc 0)) ''h'' 1 []))
     = sub_matches \<lparr>sub_types = [RATING_CHANGED], sub_filters = [(''category'', ''steam'')], sub_class = None\<rparr>
       (build (RatingChanged 1 0 1 0) ''u'' (the (from_timestamp_utc 0)) ''h'' 1 [])"
  by (rule filters_see_stored_event) simp_all

text \<open>Outside that condition it does: a payment event is built with an empty payload and its
  currency in a field of its class, so the filter \<open>currency\<close>, for the very currency of the operation,
  does not match the event in the in-memory log and matches the same event read back from the SQL log.\<close>

theorem filter_depends_on_log:
  assumes "from_operation op ts h ep = Inr (Some e)" "po_currency op \<noteq> ''None''"
  shows "\<not> sub_matches \<lparr>sub_types = [ev_type e], sub_filters = [(''currency'', po_currency op)], sub_class = None\<rparr> e
    \<and> sub_matches \<lparr>sub_types = [ev_type e], sub_filters = [(''currency'', po_currency op)], sub_class = None\<rparr> (flatten e)"
  using assms
  by (auto simp: from_operation_def bind_result_Inr_iff Let_def sub_matches_def payload_str_def py_str_def
        encode_lookup payment_json_def split: option.splits)

theorem filter_depends_on_log_witness:
  "\<exists>e. from_operation \<lparr>po_operation_id = 5, po_operation_type = ''income'', po_amount = Decimal 5 0,
          po_currency = ''rub'', po_counterparty_id = None, po_counterparty_username = [], po_fee = 0,
          po_is_hold = False, po_hold_end_date = 0, po_comment = []\<rparr> (the (from_timestamp_utc 0)) ''h'' 1 = Inr (Some e)
     \<and> \<not> sub_matches \<lparr>sub_types = [ev_type e], sub_filters = [(''currency'', ''rub'')], sub_class = None\<rparr> e
     \<and> sub_matches \<lparr>sub_types = [ev_type e], sub_filters = [(''currency'', ''rub'')], sub_class = None\<rparr> (flatten e)"
proof -
  let ?op = "\<lparr>po_operation_id = 5, po_operation_type = ''income'', po_amount = Decimal 5 0,
          po_currency = ''rub'', po_counterparty_id = None, po_counterparty_username = [], po_fee = 0,
          po_is_hold = False, po_hold_end_date = 0, po_comment = []\<rparr>"
  have "\<exists>e. from_operation ?op (the (from_timestamp_utc 0)) ''h'' 1 = Inr (Some e)"
    by (simp add: from_operation_def hold_end_def by_operation_type_def Let_def)
  then show ?thesis using filter_depends_on_log [of ?op] by fastforce
qed

end
