(* ===== verification/Catch_Up_Bus.thy ===== *)
theory Catch_Up_Bus
  imports Event_Log Cursors Dead_Letters Consumers
begin

text \<open>
  The catch-up bus (\<open>bus/catchup.py\<close>): one consumer is pumped by reading a page of the log after its
  cursor, handling each wanted event with retries, parking it past the last attempt and committing
  the cursor after every event. The operations of the three stores are arguments (\<open>bus_ops\<close>), as the
  bus has them through its abstract classes; the lemmas are proved once from the stores' contracts
  and interpreted for the in-memory stores and for the SQL ones.
\<close>

record ('l, 'c, 'd) bus_ops =
  op_read :: "'l \<Rightarrow> int \<Rightarrow> nat \<Rightarrow> domain_event list option"
  op_get :: "'c \<Rightarrow> string \<Rightarrow> cursor_state"
  op_commit :: "string \<Rightarrow> int \<Rightarrow> int \<Rightarrow> 'c \<Rightarrow> unit result \<times> 'c"
  op_park :: "string \<Rightarrow> domain_event \<Rightarrow> string \<Rightarrow> 'd \<Rightarrow> 'd"

record bus_config =
  bc_max_attempts :: nat
  bc_read_limit :: nat
  bc_backoff_base :: rat
  bc_backoff_max :: rat

text \<open>What a pump changes: cursors, dead letters, the handlers' world and the waits it slept.\<close>

record ('c, 'd, 'w) bus_state =
  bs_cursors :: 'c
  bs_dlq :: 'd
  bs_world :: 'w
  bs_waits :: "rat list"

definition default_bus_config :: bus_config where
  "default_bus_config = \<lparr>bc_max_attempts = 5, bc_read_limit = 500, bc_backoff_base = 1, bc_backoff_max = 30\<rparr>"

definition backoff_wait :: "bus_config \<Rightarrow> nat \<Rightarrow> rat" where
  "backoff_wait cfg attempt = min (bc_backoff_base cfg * 2 ^ attempt) (bc_backoff_max cfg)"

text \<open>
  The attempts from number \<open>attempt\<close> on, \<open>left\<close> of them: None when one succeeded, the last error
  otherwise.
\<close>

fun try_handle ::
  "bus_config \<Rightarrow> 'w handler \<Rightarrow> domain_event \<Rightarrow> nat \<Rightarrow> nat \<Rightarrow> string \<Rightarrow> 'w \<times> rat list \<Rightarrow> string option \<times> 'w \<times> rat list" where
  "try_handle cfg h e 0 attempt err (w, ws) = (Some err, w, ws)"
| "try_handle cfg h e (Suc left) attempt err (w, ws) =
     (case h e w of
        (None, w') \<Rightarrow> (None, w', ws)
      | (Some err', w') \<Rightarrow>
          try_handle cfg h e left (attempt + 1) err'
            (w', if attempt + 1 < bc_max_attempts cfg then ws @ [backoff_wait cfg attempt] else ws))"

definition deliver ::
  "bus_config \<Rightarrow> ('l, 'c, 'd) bus_ops \<Rightarrow> 'w consumer \<Rightarrow> domain_event \<Rightarrow> ('c, 'd, 'w) bus_state \<Rightarrow> ('c, 'd, 'w) bus_state" where
  "deliver cfg ops con e s =
     (case try_handle cfg (con_handle con) e (bc_max_attempts cfg) 0 [] (bs_world s, bs_waits s) of
        (None, w, ws) \<Rightarrow> s\<lparr>bs_world := w, bs_waits := ws\<rparr>
      | (Some err, w, ws) \<Rightarrow>
          s\<lparr>bs_world := w, bs_waits := ws, bs_dlq := op_park ops (con_name con) e err (bs_dlq s)\<rparr>)"

fun pump_events ::
  "bus_config \<Rightarrow> ('l, 'c, 'd) bus_ops \<Rightarrow> 'w consumer \<Rightarrow> domain_event list \<Rightarrow> int \<Rightarrow> int \<Rightarrow> ('c, 'd, 'w) bus_state
     \<Rightarrow> int result \<times> ('c, 'd, 'w) bus_state" where
  "pump_events cfg ops con [] v handled s = (Inr handled, s)"
| "pump_events cfg ops con (e # es) v handled s =
     (let (s1, handled1) = (if wants con e then (deliver cfg ops con e s, handled + 1) else (s, handled)) in
      case op_commit ops (con_name con) (seq e) v (bs_cursors s1) of
        (Inl x, c) \<Rightarrow> (Inl x, s1\<lparr>bs_cursors := c\<rparr>)
      | (Inr _, c) \<Rightarrow> pump_events cfg ops con es (v + 1) handled1 (s1\<lparr>bs_cursors := c\<rparr>))"

definition pump_consumer ::
  "bus_config \<Rightarrow> ('l, 'c, 'd) bus_ops \<Rightarrow> 'l \<Rightarrow> 'w consumer \<Rightarrow> ('c, 'd, 'w) bus_state
     \<Rightarrow> int result \<times> ('c, 'd, 'w) bus_state" where
  "pump_consumer cfg ops lg con s =
     (let st = op_get ops (bs_cursors s) (con_name con) in
      case op_read ops lg (last_seq st) (bc_read_limit cfg) of
        None \<Rightarrow> (Inl (StoreError ''read_after''), s)
      | Some events \<Rightarrow> pump_events cfg ops con events (version st) 0 s)"

text \<open>One pass over the registered consumers; an exception of one ends the pass.\<close>

fun pump_once ::
  "bus_config \<Rightarrow> ('l, 'c, 'd) bus_ops \<Rightarrow> 'l \<Rightarrow> 'w consumer list \<Rightarrow> ('c, 'd, 'w) bus_state
     \<Rightarrow> int result \<times> ('c, 'd, 'w) bus_state" where
  "pump_once cfg ops lg [] s = (Inr 0, s)"
| "pump_once cfg ops lg (con # cons) s =
     (case pump_consumer cfg ops lg con s of
        (Inl x, s1) \<Rightarrow> (Inl x, s1)
      | (Inr n, s1) \<Rightarrow>
          (case pump_once cfg ops lg cons s1 of
             (Inl x, s2) \<Rightarrow> (Inl x, s2)
           | (Inr m, s2) \<Rightarrow> (Inr (n + m), s2)))"

text \<open>The worker's repeated pumps of one consumer.\<close>

fun pump_times ::
  "bus_config \<Rightarrow> ('l, 'c, 'd) bus_ops \<Rightarrow> 'l \<Rightarrow> 'w consumer \<Rightarrow> nat \<Rightarrow> ('c, 'd, 'w) bus_state
     \<Rightarrow> int result \<times> ('c, 'd, 'w) bus_state" where
  "pump_times cfg ops lg con 0 s = (Inr 0, s)"
| "pump_times cfg ops lg con (Suc k) s =
     (case pump_consumer cfg ops lg con s of
        (Inl x, s1) \<Rightarrow> (Inl x, s1)
      | (Inr n, s1) \<Rightarrow> map_prod (map_sum id ((+) n)) id (pump_times cfg ops lg con k s1))"

definition register :: "'w consumer \<Rightarrow> 'w consumer list \<Rightarrow> 'w consumer list" where
  "register con cons = cons @ [con]"

fun unregister :: "string \<Rightarrow> 'w consumer list \<Rightarrow> bool \<times> 'w consumer list" where
  "unregister name [] = (False, [])"
| "unregister name (con # cons) =
     (if con_name con = name then (True, cons)
      else (case unregister name cons of (b, rest) \<Rightarrow> (b, con # rest)))"

definition consumer_names :: "'w consumer list \<Rightarrow> string list" where
  "consumer_names cons = map con_name cons"

subsection \<open>Delivery\<close>

lemma deliver_cursors [simp]: "bs_cursors (deliver cfg ops con e s) = bs_cursors s"
  by (simp add: deliver_def split: prod.splits option.splits)

text \<open>What a delivery does to the world and the dead letters, as a function of the wanted events.\<close>

definition handle_outcome :: "bus_config \<Rightarrow> 'w consumer \<Rightarrow> domain_event \<Rightarrow> 'w \<Rightarrow> string option \<times> 'w" where
  "handle_outcome cfg con e w =
     (case try_handle cfg (con_handle con) e (bc_max_attempts cfg) 0 [] (w, []) of (r, w', ws) \<Rightarrow> (r, w'))"

lemma try_handle_waits:
  "\<exists>new. snd (snd (try_handle cfg h e left attempt err (w, ws))) = ws @ new
     \<and> (\<forall>ws'. try_handle cfg h e left attempt err (w, ws')
           = (fst (try_handle cfg h e left attempt err (w, ws)), fst (snd (try_handle cfg h e left attempt err (w, ws))), ws' @ new))"
proof (induction left arbitrary: attempt err w ws)
  case (Suc left)
  show ?case
  proof (cases "h e w")
    case (Pair r w')
    show ?thesis
    proof (cases r)
      case (Some err')
      let ?add = "if attempt + 1 < bc_max_attempts cfg then [backoff_wait cfg attempt] else []"
      obtain new where new: "snd (snd (try_handle cfg h e left (attempt + 1) err' (w', ws @ ?add))) = (ws @ ?add) @ new"
        "\<forall>ws'. try_handle cfg h e left (attempt + 1) err' (w', ws')
           = (fst (try_handle cfg h e left (attempt + 1) err' (w', ws @ ?add)),
              fst (snd (try_handle cfg h e left (attempt + 1) err' (w', ws @ ?add))), ws' @ new)"
        using Suc.IH [of "attempt + 1" err' w' "ws @ ?add"] by blast
      have step: "try_handle cfg h e (Suc left) attempt err (w, ws') = try_handle cfg h e left (attempt + 1) err' (w', ws' @ ?add)" for ws'
        using Pair Some by simp
      show ?thesis
        unfolding step using new by (intro exI [of _ "?add @ new"]) (metis append.assoc)
    qed (use Pair in simp)
  qed
qed simp

lemma deliver_outcome:
  "bs_world (deliver cfg ops con e s) = snd (handle_outcome cfg con e (bs_world s))"
  "bs_dlq (deliver cfg ops con e s) =
     (case fst (handle_outcome cfg con e (bs_world s)) of
        None \<Rightarrow> bs_dlq s | Some err \<Rightarrow> op_park ops (con_name con) e err (bs_dlq s))"
proof -
  let ?t = "try_handle cfg (con_handle con) e (bc_max_attempts cfg) 0 []"
  obtain r w1 new where "?t (bs_world s, []) = (r, w1, new)" by (metis prod_cases3)
  moreover from this have "?t (bs_world s, bs_waits s) = (r, w1, bs_waits s @ new)"
    using try_handle_waits [of cfg "con_handle con" e "bc_max_attempts cfg" 0 "[]" "bs_world s" "[]"] by simp
  ultimately show "bs_world (deliver cfg ops con e s) = snd (handle_outcome cfg con e (bs_world s))"
    "bs_dlq (deliver cfg ops con e s) =
     (case fst (handle_outcome cfg con e (bs_world s)) of
        None \<Rightarrow> bs_dlq s | Some err \<Rightarrow> op_park ops (con_name con) e err (bs_dlq s))"
    by (cases r; simp add: deliver_def handle_outcome_def)+
qed

text \<open>The world the attempt number \<open>k\<close> starts from when all before it failed.\<close>

definition attempt_world :: "'w handler \<Rightarrow> domain_event \<Rightarrow> nat \<Rightarrow> 'w \<Rightarrow> 'w" where
  "attempt_world h e k w = ((\<lambda>w. snd (h e w)) ^^ k) w"

lemma attempt_world_0 [simp]: "attempt_world h e 0 w = w"
  by (simp add: attempt_world_def)

lemma attempt_world_Suc: "attempt_world h e (Suc k) w = attempt_world h e k (snd (h e w))"
  by (simp add: attempt_world_def funpow_Suc_right del: funpow.simps)

lemma ex_less_Suc_first: "(\<exists>k<Suc n. P k) \<longleftrightarrow> P 0 \<or> (\<exists>k<n. P (Suc k))"
  by (metis less_Suc_eq_0_disj)

lemma try_handle_success:
  "fst (try_handle cfg h e left attempt err (w, ws)) = None \<longleftrightarrow> (\<exists>k<left. fst (h e (attempt_world h e k w)) = None)"
proof (induction left arbitrary: attempt err w ws)
  case (Suc left)
  obtain r w' where "h e w = (r, w')" by fastforce
  then show ?case using Suc.IH by (cases r) (simp_all add: ex_less_Suc_first attempt_world_Suc)
qed simp

lemma try_handle_exhausted:
  assumes "\<forall>k<left. fst (h e (attempt_world h e k w)) \<noteq> None" "attempt + left = bc_max_attempts cfg"
  shows "snd (try_handle cfg h e left attempt err (w, ws))
      = (attempt_world h e left w, ws @ map (backoff_wait cfg) [attempt..<attempt + left - 1])"
  using assms
proof (induction left arbitrary: attempt err w ws)
  case (Suc left)
  obtain err' w' where h: "h e w = (Some err', w')"
    using Suc.prems(1) by (metis attempt_world_0 not_None_eq prod.collapse zero_less_Suc)
  have "\<forall>k<left. fst (h e (attempt_world h e k w')) \<noteq> None"
    using Suc.prems(1) h attempt_world_Suc [of h e _ w] by auto
  from Suc.IH [OF this, of "attempt + 1"] Suc.prems(2)
  have "snd (try_handle cfg h e left (attempt + 1) err' (w', if attempt + 1 < bc_max_attempts cfg then ws @ [backoff_wait cfg attempt] else ws))
      = (attempt_world h e left w', (if attempt + 1 < bc_max_attempts cfg then ws @ [backoff_wait cfg attempt] else ws)
            @ map (backoff_wait cfg) [attempt + 1..<attempt + left])" by simp
  moreover have "[attempt..<attempt + Suc left - 1] = (if left = 0 then [] else attempt # [attempt + 1..<attempt + left])"
    by (simp add: upt_conv_Cons)
  moreover have "Suc attempt < bc_max_attempts cfg \<longleftrightarrow> 0 < left" using Suc.prems(2) by auto
  ultimately show ?case using h by (simp add: attempt_world_Suc)
qed simp

lemma backoff_wait_bounds:
  assumes "0 \<le> bc_backoff_base cfg" "0 \<le> bc_backoff_max cfg"
  shows "0 \<le> backoff_wait cfg k" "backoff_wait cfg k \<le> bc_backoff_max cfg" "backoff_wait cfg k \<le> backoff_wait cfg (Suc k)"
  using assms by (auto simp: backoff_wait_def min_def mult_left_mono)

text \<open>
  The specification of a pump: the outcome of every wanted event in order, and the events that end
  up parked with their reason.
\<close>

fun outcomes :: "bus_config \<Rightarrow> 'w consumer \<Rightarrow> domain_event list \<Rightarrow> 'w \<Rightarrow> (domain_event \<times> string option) list \<times> 'w" where
  "outcomes cfg con [] w = ([], w)"
| "outcomes cfg con (e # es) w =
     (if wants con e then
        (let (r, w1) = handle_outcome cfg con e w; (rs, w2) = outcomes cfg con es w1 in ((e, r) # rs, w2))
      else outcomes cfg con es w)"

definition parked_of :: "(domain_event \<times> string option) list \<Rightarrow> (domain_event \<times> string) list" where
  "parked_of rs = List.map_filter (\<lambda>(e, r). map_option (Pair e) r) rs"

lemma outcomes_events: "map fst (fst (outcomes cfg con es w)) = filter (wants con) es"
  by (induction es arbitrary: w) (simp_all add: Let_def case_prod_beta)

lemma outcomes_append:
  "outcomes cfg con (es @ fs) w =
     (fst (outcomes cfg con es w) @ fst (outcomes cfg con fs (snd (outcomes cfg con es w))),
      snd (outcomes cfg con fs (snd (outcomes cfg con es w))))"
  by (induction es arbitrary: w) (simp_all add: Let_def case_prod_beta)

lemma parked_of_Cons: "parked_of ((e, r) # rs) = (case r of None \<Rightarrow> [] | Some err \<Rightarrow> [(e, err)]) @ parked_of rs"
  by (simp add: parked_of_def map_filter_simps split: option.splits)

lemma parked_of_Nil [simp]: "parked_of [] = []"
  by (simp add: parked_of_def map_filter_simps)

lemma parked_of_append: "parked_of (rs @ rs') = parked_of rs @ parked_of rs'"
  by (induction rs) (auto simp: parked_of_Cons)

subsection \<open>The bus over any stores that keep their contracts\<close>

locale bus_stores =
  elog: event_log append_log read_after max_seq contents obs log_ok +
  curs: cursor_store get_cursor commit_cursor delete_cursor watermark cursor_names cursors_ok +
  dead: dead_letter_store park list_for drain count_parked seen_as parkable dlq_ok
  for append_log :: "domain_event list \<Rightarrow> last_seen_batch \<Rightarrow> 'l \<Rightarrow> int result \<times> 'l"
    and read_after max_seq contents obs log_ok
    and get_cursor :: "'c \<Rightarrow> string \<Rightarrow> cursor_state"
    and commit_cursor delete_cursor watermark cursor_names cursors_ok
    and park :: "string \<Rightarrow> domain_event \<Rightarrow> string \<Rightarrow> 'd \<Rightarrow> 'd"
    and list_for drain count_parked seen_as parkable dlq_ok
begin

definition ops :: "('l, 'c, 'd) bus_ops" where
  "ops = \<lparr>op_read = read_after, op_get = get_cursor, op_commit = commit_cursor, op_park = park\<rparr>"

definition letter :: "string \<Rightarrow> domain_event \<times> string \<Rightarrow> dead_letter" where
  "letter name er = \<lparr>dl_consumer = name, dl_seq = seq (fst er), dl_event = seen_as (fst er), dl_reason = snd er\<rparr>"

text \<open>
  \<open>pumped con es s s'\<close>: state \<open>s'\<close> is \<open>s\<close> after the consumer went through the events \<open>es\<close>: world and
  dead letters as the outcomes say, the cursor on the last event, everything else untouched.
\<close>

definition pumped :: "bus_config \<Rightarrow> 'w consumer \<Rightarrow> domain_event list \<Rightarrow> ('c, 'd, 'w) bus_state \<Rightarrow> ('c, 'd, 'w) bus_state \<Rightarrow> bool" where
  "pumped cfg con es s s' \<longleftrightarrow>
     (let name = con_name con; cur = get_cursor (bs_cursors s) name;
          (rs, w) = outcomes cfg con es (bs_world s)
      in cursors_ok (bs_cursors s') \<and> dlq_ok (bs_dlq s')
       \<and> get_cursor (bs_cursors s') name
           = \<lparr>last_seq = last_pos seq (last_seq cur) es, version = version cur + int (length es)\<rparr>
       \<and> (\<forall>other. other \<noteq> name \<longrightarrow> get_cursor (bs_cursors s') other = get_cursor (bs_cursors s) other)
       \<and> bs_world s' = w
       \<and> (\<forall>ds. list_for name (bs_dlq s) = Some ds \<longrightarrow>
              list_for name (bs_dlq s') = Some (ds @ map (letter name) (parked_of rs)))
       \<and> (\<forall>other. other \<noteq> name \<longrightarrow> list_for other (bs_dlq s') = list_for other (bs_dlq s)))"

lemma pumped_Nil: "cursors_ok (bs_cursors s) \<Longrightarrow> dlq_ok (bs_dlq s) \<Longrightarrow> pumped cfg con [] s s"
  by (simp add: pumped_def)

lemma pumped_trans:
  assumes "pumped cfg con es s s1" "pumped cfg con fs s1 s2" "dlq_ok (bs_dlq s)"
  shows "pumped cfg con (es @ fs) s s2"
proof -
  obtain rs w where 1: "outcomes cfg con es (bs_world s) = (rs, w)" by fastforce
  obtain rs' w' where 2: "outcomes cfg con fs w = (rs', w')" by fastforce
  have "bs_world s1 = w" using assms(1) 1 by (simp add: pumped_def Let_def)
  then show ?thesis
    using assms(1,2) 1 2 dead.listed [OF assms(3), of "con_name con"]
    by (auto simp: pumped_def Let_def outcomes_append last_pos_append parked_of_append)
qed

lemma pumped_skip:
  assumes ok: "cursors_ok (bs_cursors s)" "dlq_ok (bs_dlq s)" and nw: "\<not> wants con e"
    and v: "version (get_cursor (bs_cursors s) (con_name con)) = v"
  shows "\<exists>c. commit_cursor (con_name con) (seq e) v (bs_cursors s) = (Inr (), c) \<and> pumped cfg con [e] s (s\<lparr>bs_cursors := c\<rparr>)"
proof -
  obtain c where "commit_cursor (con_name con) (seq e) v (bs_cursors s) = (Inr (), c)" "cursors_ok c"
    "get_cursor c (con_name con) = \<lparr>last_seq = seq e, version = v + 1\<rparr>"
    "\<forall>other. other \<noteq> con_name con \<longrightarrow> get_cursor c other = get_cursor (bs_cursors s) other"
    using curs.commit_matching [OF ok(1) v, of "seq e"] by blast
  then show ?thesis using ok v nw by (simp add: pumped_def)
qed

lemma pumped_handle:
  assumes ok: "cursors_ok (bs_cursors s)" "dlq_ok (bs_dlq s)" and w: "wants con e" "parkable e"
    and v: "version (get_cursor (bs_cursors s) (con_name con)) = v"
  shows "\<exists>c. commit_cursor (con_name con) (seq e) v (bs_cursors s) = (Inr (), c)
      \<and> pumped cfg con [e] s ((deliver cfg ops con e s)\<lparr>bs_cursors := c\<rparr>)"
proof -
  obtain c where c: "commit_cursor (con_name con) (seq e) v (bs_cursors s) = (Inr (), c)" "cursors_ok c"
    "get_cursor c (con_name con) = \<lparr>last_seq = seq e, version = v + 1\<rparr>"
    "\<forall>other. other \<noteq> con_name con \<longrightarrow> get_cursor c other = get_cursor (bs_cursors s) other"
    using curs.commit_matching [OF ok(1) v, of "seq e"] by blast
  obtain r w1 where o: "handle_outcome cfg con e (bs_world s) = (r, w1)" by fastforce
  obtain ds where ds: "list_for (con_name con) (bs_dlq s) = Some ds" using dead.listed [OF ok(2)] by blast
  let ?d = "case r of None \<Rightarrow> bs_dlq s | Some err \<Rightarrow> park (con_name con) e err (bs_dlq s)"
  have d: "bs_dlq (deliver cfg ops con e s) = ?d" "bs_world (deliver cfg ops con e s) = w1"
    using o by (cases r; simp add: deliver_outcome ops_def)+
  have "dlq_ok ?d \<and> list_for (con_name con) ?d = Some (ds @ map (letter (con_name con)) (parked_of [(e, r)]))"
    using dead.parked_listed [OF ok(2) w(2) ds] ok(2) ds
    by (cases r) (simp_all add: parked_of_Cons letter_def)
  moreover have "\<forall>other. other \<noteq> con_name con \<longrightarrow> list_for other ?d = list_for other (bs_dlq s)"
    by (cases r) (simp_all add: dead.parked_other)
  ultimately show ?thesis
    using c d ds o w v by (simp add: pumped_def)
qed

lemma pump_events_pumped:
  assumes "cursors_ok (bs_cursors s)" "dlq_ok (bs_dlq s)" "\<forall>e\<in>set es. wants con e \<longrightarrow> parkable e"
    and "version (get_cursor (bs_cursors s) (con_name con)) = v"
  shows "\<exists>s'. pump_events cfg ops con es v h s = (Inr (h + int (length (filter (wants con) es))), s')
            \<and> pumped cfg con es s s'"
  using assms
proof (induction es arbitrary: s v h)
  case Nil
  then show ?case using pumped_Nil by auto
next
  case (Cons e es)
  let ?s1 = "if wants con e then deliver cfg ops con e s else s"
  let ?h1 = "if wants con e then h + 1 else h"
  obtain c where c: "commit_cursor (con_name con) (seq e) v (bs_cursors s) = (Inr (), c)"
    and p: "pumped cfg con [e] s (?s1\<lparr>bs_cursors := c\<rparr>)"
    using pumped_skip [OF Cons.prems(1,2) _ Cons.prems(4), of e cfg]
      pumped_handle [OF Cons.prems(1,2) _ _ Cons.prems(4), of e cfg] Cons.prems(3)
    by (cases "wants con e") auto
  let ?s2 = "?s1\<lparr>bs_cursors := c\<rparr>"
  have "cursors_ok (bs_cursors ?s2)" "dlq_ok (bs_dlq ?s2)"
    "version (get_cursor (bs_cursors ?s2) (con_name con)) = v + 1"
    using p Cons.prems(4) by (auto simp: pumped_def Let_def split: prod.splits)
  from Cons.IH [OF this(1,2) _ this(3), of ?h1] Cons.prems(3)
  obtain s' where s': "pump_events cfg ops con es (v + 1) ?h1 ?s2
      = (Inr (?h1 + int (length (filter (wants con) es))), s')" "pumped cfg con es ?s2 s'" by auto
  have "op_commit ops (con_name con) (seq e) v (bs_cursors s) = (Inr (), c)"
    using c by (simp add: ops_def)
  then have "pump_events cfg ops con (e # es) v h s = pump_events cfg ops con es (v + 1) ?h1 ?s2"
    by (cases "wants con e") simp_all
  moreover have "pumped cfg con ([e] @ es) s s'"
    using pumped_trans [OF p s'(2) Cons.prems(2)] .
  ultimately show ?case using s'(1) by auto
qed

text \<open>One pump is one page; \<open>k\<close> pumps are the first \<open>k\<close> pages, without a gap.\<close>

lemma pump_consumer_pumped:
  assumes lok: "log_ok lg" and "cursors_ok (bs_cursors s)" "dlq_ok (bs_dlq s)"
    and "\<forall>e\<in>set (contents lg). wants con e \<longrightarrow> parkable e"
    and page_def: "page = page_after seq (contents lg) (last_seq (get_cursor (bs_cursors s) (con_name con))) (bc_read_limit cfg)"
  shows "\<exists>s'. pump_consumer cfg ops lg con s = (Inr (int (length (filter (wants con) page))), s') \<and> pumped cfg con page s s'"
proof -
  have "\<forall>e\<in>set page. wants con e \<longrightarrow> parkable e"
  proof
    fix e assume "e \<in> set page"
    then have "e \<in> set (contents lg)" unfolding page_def page_after_def by (auto dest: in_set_takeD)
    with assms(4) show "wants con e \<longrightarrow> parkable e" by blast
  qed
  from pump_events_pumped [OF assms(2,3) this refl, of cfg 0]
  obtain s' where s': "pump_events cfg ops con page (version (get_cursor (bs_cursors s) (con_name con))) 0 s
      = (Inr (0 + int (length (filter (wants con) page))), s')" "pumped cfg con page s s'" by blast
  have "op_get ops = get_cursor" "op_read ops lg q n = Some (page_after seq (contents lg) q n)" for q n
    by (simp_all add: ops_def elog.read_page [OF lok])
  then have "pump_consumer cfg ops lg con s = (Inr (int (length (filter (wants con) page))), s')"
    using s'(1) by (simp add: pump_consumer_def Let_def page_def)
  with s'(2) show ?thesis by blast
qed

lemma pump_times_pumped:
  assumes lok: "log_ok lg" and "cursors_ok (bs_cursors s)" "dlq_ok (bs_dlq s)"
    and pk: "\<forall>e\<in>set (contents lg). wants con e \<longrightarrow> parkable e"
    and rest_def: "rest = filter (\<lambda>e. last_seq (get_cursor (bs_cursors s) (con_name con)) < seq e) (contents lg)"
  shows "\<exists>s'. pump_times cfg ops lg con k s
              = (Inr (int (length (filter (wants con) (take (k * bc_read_limit cfg) rest)))), s')
            \<and> pumped cfg con (take (k * bc_read_limit cfg) rest) s s'"
  using assms(2,3) unfolding rest_def
proof (induction k arbitrary: s)
  case 0
  then show ?case using pumped_Nil by auto
next
  case (Suc k)
  let ?n = "bc_read_limit cfg" and ?q = "last_seq (get_cursor (bs_cursors s) (con_name con))"
  let ?rest = "filter (\<lambda>e. ?q < seq e) (contents lg)"
  obtain s1 where s1: "pump_consumer cfg ops lg con s = (Inr (int (length (filter (wants con) (take ?n ?rest)))), s1)"
    "pumped cfg con (take ?n ?rest) s s1"
    using pump_consumer_pumped [OF lok Suc.prems pk refl, of cfg] by (auto simp: page_after_def)
  have ok1: "cursors_ok (bs_cursors s1)" "dlq_ok (bs_dlq s1)"
    and q1: "last_seq (get_cursor (bs_cursors s1) (con_name con)) = last_pos seq ?q (take ?n ?rest)"
    using s1(2) by (auto simp: pumped_def Let_def split: prod.splits)
  have rest1: "filter (\<lambda>e. last_seq (get_cursor (bs_cursors s1) (con_name con)) < seq e) (contents lg) = drop ?n ?rest"
    unfolding q1 by (rule ascending_split_after [OF elog.contents_ascending [OF lok]])
  obtain s2 where s2: "pump_times cfg ops lg con k s1
      = (Inr (int (length (filter (wants con) (take (k * ?n) (drop ?n ?rest))))), s2)"
    "pumped cfg con (take (k * ?n) (drop ?n ?rest)) s1 s2"
    using Suc.IH [OF ok1] unfolding rest1 by blast
  have "take (Suc k * ?n) ?rest = take ?n ?rest @ take (k * ?n) (drop ?n ?rest)"
    by (simp add: take_add)
  then show ?case
    using s1(1) s2(1) pumped_trans [OF s1(2) s2(2) Suc.prems(2)] by auto
qed

end

subsection \<open>The two sets of stores\<close>

abbreviation mem_ops :: "(memory_log, memory_cursors, memory_dlq) bus_ops" where
  "mem_ops \<equiv> \<lparr>op_read = \<lambda>l q n. Some (ml_read_after l q n), op_get = mc_get, op_commit = mc_commit, op_park = md_park\<rparr>"

abbreviation sql_ops :: "(event_db, cursor_table, dlq_db) bus_ops" where
  "sql_ops \<equiv> \<lparr>op_read = el_read_after, op_get = sc_get, op_commit = sc_commit, op_park = dq_park\<rparr>"

interpretation mbus: bus_stores
  ml_append "\<lambda>s q n. Some (ml_read_after s q n)" ml_max_seq ml_events "\<lambda>e. e" "\<lambda>s. ml_ok s"
  mc_get mc_commit mc_delete mc_watermark dict_keys mc_ok
  md_park "\<lambda>c d. Some (md_list_for c d)" "\<lambda>c d. map_prod Some id (md_drain c d)" md_count "\<lambda>e. e" "\<lambda>e. True" "\<lambda>d. True"
  by unfold_locales

interpretation sbus: bus_stores
  el_append el_read_after el_max_seq el_contents flatten el_ok
  sc_get sc_commit sc_delete sc_watermark dict_keys sc_ok
  dq_park dq_list_for dq_drain dq_count flatten "\<lambda>e. valid_dt (occurred_at e)" dq_ok
  by unfold_locales

subsection \<open>Properties\<close>

text \<open>C1: Over the SQL stores the bus catches up without loss, repetition or reordering. Enough pumps
  (pages of \<open>read_limit\<close> events) take a consumer from its cursor to the head of the log: each pump
  returns, the handled count is the number of wanted events after the cursor, the cursor ends on the
  last event, the handler saw exactly those events in log order, the ones whose attempts all failed
  are in the dead-letter store after what was there, in order, and no other consumer's cursor or
  letters changed.\<close>

theorem bus_catches_up:
  assumes "el_ok lg" "sc_ok (bs_cursors s)" "dq_ok (bs_dlq s)"
    and "list_all (\<lambda>e. valid_dt (occurred_at e)) (el_contents lg)"
    and "rest = filter (\<lambda>e. last_seq (sc_get (bs_cursors s) (con_name con)) < seq e) (el_contents lg)"
    and "length rest \<le> k * bc_read_limit cfg"
    and "outcomes cfg con rest (bs_world s) = (rs, w)"
    and "dq_list_for (con_name con) (bs_dlq s) = Some ds"
  shows "\<exists>s'. pump_times cfg sql_ops lg con k s = (Inr (int (length (filter (wants con) rest))), s')
    \<and> map fst rs = filter (wants con) rest
    \<and> last_seq (sc_get (bs_cursors s') (con_name con)) = last_pos seq (last_seq (sc_get (bs_cursors s) (con_name con))) rest
    \<and> bs_world s' = w
    \<and> dq_list_for (con_name con) (bs_dlq s')
        = Some (ds @ map (\<lambda>(e, err). \<lparr>dl_consumer = con_name con, dl_seq = seq e, dl_event = flatten e, dl_reason = err\<rparr>) (parked_of rs))
    \<and> (\<forall>other. other \<noteq> con_name con \<longrightarrow> sc_get (bs_cursors s') other = sc_get (bs_cursors s) other
          \<and> dq_list_for other (bs_dlq s') = dq_list_for other (bs_dlq s))"
proof -
  have pk: "\<forall>e\<in>set (el_contents lg). wants con e \<longrightarrow> valid_dt (occurred_at e)"
    using assms(4) by (simp add: list_all_iff)
  have all: "take (k * bc_read_limit cfg) rest = rest" using assms(6) by simp
  obtain s' where s': "pump_times cfg sbus.ops lg con k s = (Inr (int (length (filter (wants con) rest))), s')"
    "sbus.pumped cfg con rest s s'"
    using sbus.pump_times_pumped [OF assms(1-3) pk assms(5), of cfg k] unfolding all by blast
  have "map fst rs = filter (wants con) rest" using outcomes_events [of cfg con rest "bs_world s"] assms(7) by simp
  moreover have "sbus.letter (con_name con) = (\<lambda>(e, err). \<lparr>dl_consumer = con_name con, dl_seq = seq e, dl_event = flatten e, dl_reason = err\<rparr>)"
    by (simp add: fun_eq_iff sbus.letter_def)
  ultimately show ?thesis
    using s' assms(7,8) by (auto simp: sbus.ops_def sbus.pumped_def Let_def)
qed

definition example_consumer :: "domain_event list consumer" where
  "example_consumer = \<lparr>con_name = ''probe'', con_subs = [\<lparr>sub_types = [RATING_CHANGED], sub_filters = [], sub_class = None\<rparr>],
     con_handle = (\<lambda>e w. (Some ''boom'', w @ [e]))\<rparr>"

theorem bus_catches_up_witness:
  "\<exists>s'. pump_times (default_bus_config\<lparr>bc_max_attempts := 1\<rparr>) sql_ops
          (snd (el_append [parked_example] (marker_batch ''other'' 1) el_init)) example_consumer 1
          \<lparr>bs_cursors = [], bs_dlq = dq_init, bs_world = [], bs_waits = []\<rparr> = (Inr 1, s')
      \<and> last_seq (sc_get (bs_cursors s') ''probe'') = 1"
proof -
  let ?lg = "snd (el_append [parked_example] (marker_batch ''other'' 1) el_init)"
  have ok: "el_ok ?lg" using el_ok_append [OF el_ok_init] by (metis prod.collapse)
  have c: "el_contents ?lg = [flatten (with_seq 1 parked_example)]"
    by (simp add: el_append_def el_init_def el_contents_def event_fits_def parked_example_def batch_fits_def
        marker_batch_def row_event_of_event)
  have v: "valid_dt (occurred_at parked_example)"
    by (simp add: valid_dt_def parked_example_def days_in_month_def leap_year_def)
  have w: "wants example_consumer (flatten (with_seq 1 parked_example))"
    by (simp add: wants_def example_consumer_def sub_matches_def) (simp add: ev_type_def parked_example_def)
  let ?s = "\<lparr>bs_cursors = [], bs_dlq = dq_init, bs_world = [], bs_waits = []\<rparr> :: (cursor_table, dlq_db, domain_event list) bus_state"
  let ?cfg = "default_bus_config\<lparr>bc_max_attempts := 1\<rparr>" and ?rest = "[flatten (with_seq 1 parked_example)]"
  have a: "sc_ok (bs_cursors ?s)" by (simp add: sc_ok_def)
  have b: "dq_ok (bs_dlq ?s)" by (simp add: dq_ok_def dq_init_def)
  have f: "dq_list_for (con_name example_consumer) (bs_dlq ?s) = Some []"
    by (simp add: dq_list_for_def dq_select_def dq_init_def)
  have cv: "list_all (\<lambda>e. valid_dt (occurred_at e)) (el_contents ?lg)" using v by (simp add: c)
  have d: "?rest = filter (\<lambda>e. last_seq (sc_get (bs_cursors ?s) (con_name example_consumer)) < seq e) (el_contents ?lg)"
    by (simp add: c sc_get_def)
  have l: "length ?rest \<le> 1 * bc_read_limit ?cfg" by (simp add: default_bus_config_def)
  obtain rs w' where o: "outcomes ?cfg example_consumer ?rest (bs_world ?s) = (rs, w')"
    by (metis prod.collapse)
  have n: "int (length (filter (wants example_consumer) ?rest)) = 1" using w by simp
  have m: "last_pos seq q ?rest = 1" for q by simp
  show ?thesis
    using bus_catches_up [OF ok a b cv d l o f] unfolding n m by (auto simp: example_consumer_def)
qed



end
