(* ===== verification/Bus_Workers.thy ===== *)
theory Bus_Workers
  imports Catch_Up_Bus
begin

text \<open>
  The workers of the bus (\<open>CatchUpBus.run\<close> and \<open>_run_worker\<close>) as a step relation. One worker shares
  with the rest of the engine the log, which appenders extend, its durable cursor and its wake event,
  which \<open>notify\<close> sets some time after an append committed; between two awaits of the worker any of
  them may move, and the process may crash at any point and start again from the durable state. The
  outcome of a delivery (handled or parked) is one step here; \<open>Catch_Up_Bus\<close> says what it does. The
  table of workers and one reconciliation of it follow as functions; \<open>Bus_Supervisor\<close> has the supervisor as a step relation.
\<close>

subsection \<open>One worker\<close>

datatype worker_pc =
    Checking
  | Reading
  | Pumping "domain_event list" nat
  | Committing domain_event "domain_event list" nat
  | Waiting
  | Stopped

record worker_sys =
  ws_log :: "domain_event list"
  ws_cursor :: int
  ws_resolved :: "domain_event list"
  ws_wake :: bool
  ws_notify_due :: bool
  ws_stop :: bool
  ws_full_page :: bool
  ws_crashed :: bool
  ws_pc :: worker_pc

text \<open>
  \<open>ws_resolved\<close> records the deliveries in the order they ended, \<open>ws_full_page\<close> whether the last page
  was as long as the limit and \<open>ws_crashed\<close> whether the process ever crashed; the program keeps none
  of the three.
\<close>

definition worker_start :: "domain_event list \<Rightarrow> int \<Rightarrow> worker_sys" where
  "worker_start es q = \<lparr>ws_log = es, ws_cursor = q, ws_resolved = [], ws_wake = False, ws_notify_due = False,
     ws_stop = False, ws_full_page = False, ws_crashed = False, ws_pc = Checking\<rparr>"

inductive worker_step :: "(domain_event \<Rightarrow> bool) \<Rightarrow> nat \<Rightarrow> worker_sys \<Rightarrow> worker_sys \<Rightarrow> bool" for wanted limit where
  ws_append: "ascending seq (ws_log s @ new) \<Longrightarrow> \<forall>e\<in>set new. ws_cursor s < seq e \<Longrightarrow>
     worker_step wanted limit s (s\<lparr>ws_log := ws_log s @ new, ws_notify_due := True\<rparr>)"
| ws_notify: "worker_step wanted limit s (s\<lparr>ws_wake := True, ws_notify_due := False\<rparr>)"
| ws_request_stop: "worker_step wanted limit s (s\<lparr>ws_stop := True, ws_wake := True\<rparr>)"
| ws_check: "ws_pc s = Checking \<Longrightarrow> \<not> ws_stop s \<Longrightarrow>
     worker_step wanted limit s (s\<lparr>ws_wake := False, ws_pc := Reading\<rparr>)"
| ws_exit: "ws_pc s = Checking \<Longrightarrow> ws_stop s \<Longrightarrow> worker_step wanted limit s (s\<lparr>ws_pc := Stopped\<rparr>)"
| ws_read: "ws_pc s = Reading \<Longrightarrow> page = page_after seq (ws_log s) (ws_cursor s) limit \<Longrightarrow>
     worker_step wanted limit s (s\<lparr>ws_pc := Pumping page 0, ws_full_page := (length page = limit)\<rparr>)"
| ws_skip: "ws_pc s = Pumping (e # es) n \<Longrightarrow> \<not> wanted e \<Longrightarrow>
     worker_step wanted limit s (s\<lparr>ws_cursor := seq e, ws_pc := Pumping es n\<rparr>)"
| ws_deliver: "ws_pc s = Pumping (e # es) n \<Longrightarrow> wanted e \<Longrightarrow>
     worker_step wanted limit s (s\<lparr>ws_resolved := ws_resolved s @ [e], ws_pc := Committing e es (n + 1)\<rparr>)"
| ws_commit: "ws_pc s = Committing e es n \<Longrightarrow>
     worker_step wanted limit s (s\<lparr>ws_cursor := seq e, ws_pc := Pumping es n\<rparr>)"
| ws_busy: "ws_pc s = Pumping [] n \<Longrightarrow> n \<noteq> 0 \<Longrightarrow> worker_step wanted limit s (s\<lparr>ws_pc := Checking\<rparr>)"
| ws_idle: "ws_pc s = Pumping [] 0 \<Longrightarrow> worker_step wanted limit s (s\<lparr>ws_pc := Waiting\<rparr>)"
| ws_woken: "ws_pc s = Waiting \<Longrightarrow> ws_wake s \<Longrightarrow> worker_step wanted limit s (s\<lparr>ws_pc := Checking\<rparr>)"
| ws_timeout: "ws_pc s = Waiting \<Longrightarrow> worker_step wanted limit s (s\<lparr>ws_pc := Checking\<rparr>)"
| ws_crash: "worker_step wanted limit s
     (s\<lparr>ws_pc := Checking, ws_wake := False, ws_notify_due := False, ws_stop := False, ws_crashed := True\<rparr>)"

inductive worker_reaches :: "(domain_event \<Rightarrow> bool) \<Rightarrow> nat \<Rightarrow> worker_sys \<Rightarrow> worker_sys \<Rightarrow> bool" for wanted limit s where
  wr_refl: "worker_reaches wanted limit s s"
| wr_step: "worker_reaches wanted limit s t \<Longrightarrow> worker_step wanted limit t u \<Longrightarrow> worker_reaches wanted limit s u"

inductive_cases worker_stepE: "worker_step wanted limit s t"

text \<open>What is still ahead of the worker in the page it holds.\<close>

definition page_left :: "worker_pc \<Rightarrow> domain_event list" where
  "page_left pc = (case pc of Pumping es n \<Rightarrow> es | Committing e es n \<Rightarrow> e # es | _ \<Rightarrow> [])"

definition pc_handled :: "worker_pc \<Rightarrow> nat" where
  "pc_handled pc = (case pc of Pumping es n \<Rightarrow> n | Committing e es n \<Rightarrow> n | _ \<Rightarrow> 0)"

text \<open>
  The invariant: the log ascends; the rest of the page is a prefix of what lies after the cursor; every
  wanted event from the start position up to the cursor is resolved, and so is the one about to be
  committed; and if no notification is due or set, what lies beyond a page that was not full is
  nothing.
\<close>

definition worker_inv :: "(domain_event \<Rightarrow> bool) \<Rightarrow> int \<Rightarrow> worker_sys \<Rightarrow> bool" where
  "worker_inv wanted q s \<longleftrightarrow>
     ascending seq (ws_log s)
   \<and> q \<le> ws_cursor s
   \<and> (\<exists>rest. filter (\<lambda>e. ws_cursor s < seq e) (ws_log s) = page_left (ws_pc s) @ rest)
   \<and> (\<forall>e\<in>set (ws_log s). wanted e \<longrightarrow> q < seq e \<longrightarrow> seq e \<le> ws_cursor s \<longrightarrow> e \<in> set (ws_resolved s))
   \<and> (\<forall>e es n. ws_pc s = Committing e es n \<longrightarrow> e \<in> set (ws_resolved s))"

text \<open>The wake-up: a worker past its read with no wake-up set or due has everything in its page.\<close>

definition wake_inv :: "worker_sys \<Rightarrow> bool" where
  "wake_inv s \<longleftrightarrow>
     (case ws_pc s of
        Checking \<Rightarrow> True
      | Reading \<Rightarrow> True
      | Stopped \<Rightarrow> True
      | _ \<Rightarrow> ws_wake s \<or> ws_notify_due s \<or> ws_full_page s
             \<or> filter (\<lambda>e. ws_cursor s < seq e) (ws_log s) = page_left (ws_pc s))"

text \<open>Without a crash the deliveries ascend: each event at most once, in log order.\<close>

definition order_inv :: "worker_sys \<Rightarrow> bool" where
  "order_inv s \<longleftrightarrow> \<not> ws_crashed s \<longrightarrow>
     ascending seq (ws_resolved s)
   \<and> (\<forall>e\<in>set (ws_resolved s). seq e \<le> ws_cursor s \<or> (\<exists>es n. ws_pc s = Committing e es n))"

lemma filter_after_head:
  assumes "ascending f xs" "filter (\<lambda>x. q < f x) xs = e # ys"
  shows "filter (\<lambda>x. f e < f x) xs = ys" and "q < f e" and "e \<in> set xs"
    and "\<And>x. x \<in> set xs \<Longrightarrow> f x \<le> f e \<Longrightarrow> q < f x \<Longrightarrow> x = e"
proof -
  have e: "e \<in> set (filter (\<lambda>x. q < f x) xs)" by (simp add: assms(2))
  then show qe: "q < f e" and m: "e \<in> set xs" by auto
  have "take 1 (filter (\<lambda>x. q < f x) xs) = [e]" by (simp add: assms(2))
  then show "filter (\<lambda>x. f e < f x) xs = ys"
    using ascending_split_after [OF assms(1), of q 1] by (simp add: last_pos_def assms(2))
  fix x assume x: "x \<in> set xs" "f x \<le> f e" "q < f x"
  then have "x \<in> set (e # ys)" using assms(2) by (simp flip: assms(2))
  moreover have "ascending f (e # ys)" using ascending_filter [OF assms(1)] assms(2) by metis
  ultimately show "x = e" using x(2) by auto
qed

lemma filter_after_new:
  assumes "\<forall>e\<in>set new. q < f e"
  shows "filter (\<lambda>e. q < f e) (xs @ new) = filter (\<lambda>e. q < f e) xs @ new"
  using assms by simp

lemma worker_inv_advance:
  assumes inv: "worker_inv wanted q s" and left: "page_left (ws_pc s) = e # es" and res: "wanted e \<Longrightarrow> e \<in> set (ws_resolved s)"
  shows "worker_inv wanted q (s\<lparr>ws_cursor := seq e, ws_pc := Pumping es n\<rparr>)"
    and "filter (\<lambda>x. seq e < seq x) (ws_log s) = tl (filter (\<lambda>x. ws_cursor s < seq x) (ws_log s))"
    and "ws_cursor s < seq e"
proof -
  obtain rest where r: "filter (\<lambda>e. ws_cursor s < seq e) (ws_log s) = e # (es @ rest)"
    using inv left by (auto simp: worker_inv_def)
  have asc: "ascending seq (ws_log s)" using inv by (simp add: worker_inv_def)
  note h = filter_after_head [OF asc r]
  show "ws_cursor s < seq e" by (rule h(2))
  show "filter (\<lambda>x. seq e < seq x) (ws_log s) = tl (filter (\<lambda>x. ws_cursor s < seq x) (ws_log s))"
    by (simp add: h(1) r)
  have "x \<in> set (ws_resolved s)" if "x \<in> set (ws_log s)" "wanted x" "q < seq x" "seq x \<le> seq e" for x
  proof (cases "seq x \<le> ws_cursor s")
    case True
    then show ?thesis using inv that by (auto simp: worker_inv_def)
  next
    case False
    then have "x = e" using h(4) that by simp
    then show ?thesis using res that by simp
  qed
  then show "worker_inv wanted q (s\<lparr>ws_cursor := seq e, ws_pc := Pumping es n\<rparr>)"
    using inv h(1,2) by (auto simp: worker_inv_def page_left_def)
qed

lemma worker_inv_step:
  assumes "worker_step wanted limit s t" "worker_inv wanted q s"
  shows "worker_inv wanted q t"
  using assms
proof (induction rule: worker_step.induct)
  case (ws_append s new)
  then show ?case
    by (auto simp: worker_inv_def)
next
  case (ws_read s page)
  then have "filter (\<lambda>e. ws_cursor s < seq e) (ws_log s) = page @ drop limit (filter (\<lambda>e. ws_cursor s < seq e) (ws_log s))"
    by (simp add: page_after_def)
  with ws_read show ?case
    by (auto simp: worker_inv_def page_left_def)
next
  case (ws_skip s e es n)
  then show ?case by (intro worker_inv_advance(1)) (auto simp: page_left_def)
next
  case (ws_commit s e es n)
  then show ?case by (intro worker_inv_advance(1)) (auto simp: page_left_def worker_inv_def)
qed (auto simp: worker_inv_def page_left_def)

lemma wake_inv_step:
  assumes "worker_step wanted limit s t" "worker_inv wanted q s" "wake_inv s"
  shows "wake_inv t"
  using assms
proof (induction rule: worker_step.induct)
  case (ws_append s new)
  then show ?case by (cases "ws_pc s") (auto simp: wake_inv_def)
next
  case (ws_notify s)
  then show ?case by (cases "ws_pc s") (auto simp: wake_inv_def)
next
  case (ws_request_stop s)
  then show ?case by (cases "ws_pc s") (auto simp: wake_inv_def)
next
  case (ws_read s page)
  have "length page \<le> limit" by (simp add: ws_read page_after_def)
  then have "length page = limit \<or> filter (\<lambda>e. ws_cursor s < seq e) (ws_log s) = page"
    using page_after_short [of seq "ws_log s" "ws_cursor s" limit] unfolding ws_read(2) by (metis le_neq_implies_less)
  then show ?case by (auto simp: wake_inv_def page_left_def)
next
  case (ws_skip s e es n)
  then show ?case
    using worker_inv_advance(2) [of wanted q s e es] by (auto simp: wake_inv_def page_left_def)
next
  case (ws_commit s e es n)
  then have "e \<in> set (ws_resolved s)" by (auto simp: worker_inv_def)
  with ws_commit show ?case
    using worker_inv_advance(2) [of wanted q s e es] by (auto simp: wake_inv_def page_left_def)
qed (auto simp: wake_inv_def page_left_def)

lemma order_inv_step:
  assumes "worker_step wanted limit s t" "worker_inv wanted q s" "order_inv s"
  shows "order_inv t"
  using assms
proof (induction rule: worker_step.induct)
  case (ws_skip s e es n)
  then show ?case
    using worker_inv_advance(3) [of wanted q s e es] by (fastforce simp: order_inv_def page_left_def)
next
  case (ws_deliver s e es n)
  then obtain rest where r: "filter (\<lambda>e. ws_cursor s < seq e) (ws_log s) = e # (es @ rest)"
    by (auto simp: worker_inv_def page_left_def)
  have "ascending seq (ws_log s)" using ws_deliver by (simp add: worker_inv_def)
  from filter_after_head(2) [OF this r] ws_deliver show ?case
    by (fastforce simp: order_inv_def ascending_append)
next
  case (ws_commit s e es n)
  then have "e \<in> set (ws_resolved s)" by (auto simp: worker_inv_def)
  with ws_commit show ?case
    using worker_inv_advance(3) [of wanted q s e es] by (fastforce simp: order_inv_def page_left_def)
qed (auto simp: order_inv_def)

lemma worker_start_invs:
  "ascending seq es \<Longrightarrow> worker_inv wanted q (worker_start es q) \<and> wake_inv (worker_start es q) \<and> order_inv (worker_start es q)"
  by (auto simp: worker_inv_def wake_inv_def order_inv_def worker_start_def page_left_def)

lemma worker_reaches_invs:
  assumes "worker_reaches wanted limit s t" "worker_inv wanted q s" "wake_inv s" "order_inv s"
  shows "worker_inv wanted q t \<and> wake_inv t \<and> order_inv t"
  using assms
proof (induction rule: worker_reaches.induct)
  case (wr_step t u)
  then show ?case using worker_inv_step wake_inv_step order_inv_step by blast
qed simp

subsection \<open>The supervisor\<close>

text \<open>
  The worker table: a task is running, or it ended with an exception of a store, which
  \<open>_on_worker_done\<close> only logs. \<open>_stop_worker\<close> awaits the task, so a dead one raises its exception
  again, after it left the table.
\<close>

datatype task_state = Running | Died exn

type_synonym worker_table = "(string, task_state) dict"

fun start_missing :: "string list \<Rightarrow> worker_table \<Rightarrow> worker_table" where
  "start_missing [] ws = ws"
| "start_missing (name # names) ws =
     start_missing names (if name \<in> set (dict_keys ws) then ws else ws @ [(name, Running)])"

fun stop_workers :: "string list \<Rightarrow> worker_table \<Rightarrow> unit result \<times> worker_table" where
  "stop_workers [] ws = (Inr (), ws)"
| "stop_workers (name # names) ws =
     (let ws' = AList.delete name ws in
      case map_of ws name of
        Some (Died x) \<Rightarrow> (Inl x, ws')
      | _ \<Rightarrow> stop_workers names ws')"

definition reconcile_workers :: "string list \<Rightarrow> worker_table \<Rightarrow> unit result \<times> worker_table" where
  "reconcile_workers desired ws =
     (let ws1 = start_missing desired ws
      in stop_workers (filter (\<lambda>n. n \<notin> set desired) (dict_keys ws1)) ws1)"

text \<open>The done callback of a task that ended with an exception.\<close>

definition worker_died :: "string \<Rightarrow> exn \<Rightarrow> worker_table \<Rightarrow> worker_table" where
  "worker_died name x ws = map (\<lambda>(n, st). if n = name then (n, Died x) else (n, st)) ws"

lemma start_missing_keys: "set (dict_keys (start_missing names ws)) = set names \<union> set (dict_keys ws)"
  by (induction names ws rule: start_missing.induct) auto

lemma start_missing_ok: "dict_ok ws \<Longrightarrow> dict_ok (start_missing names ws)"
  by (induction names ws rule: start_missing.induct) (auto simp: dict_ok_def)

lemma start_missing_keeps: "map_of ws n = Some st \<Longrightarrow> map_of (start_missing names ws) n = Some st"
  by (induction names ws rule: start_missing.induct) (auto simp: map_add_Some_iff)

lemma stop_workers_effect:
  "stop_workers names ws = (r, ws') \<Longrightarrow> n \<notin> set names \<Longrightarrow> map_of ws' n = map_of ws n"
  by (induction names ws rule: stop_workers.induct)
    (auto simp: Let_def dict_simps split: option.splits task_state.splits)

lemma stop_workers_done:
  "stop_workers names ws = (Inr (), ws') \<Longrightarrow> set (dict_keys ws') = set (dict_keys ws) - set names"
proof (induction names ws rule: stop_workers.induct)
  case (2 name names ws)
  then have "set (dict_keys ws') = set (dict_keys (AList.delete name ws)) - set names"
    by (auto simp: Let_def split: option.splits task_state.splits)
  then show ?case by auto
qed simp

lemma stop_workers_running:
  "\<forall>n\<in>set names. map_of ws n \<in> {None, Some Running} \<Longrightarrow> fst (stop_workers names ws) = Inr ()"
proof (induction names arbitrary: ws)
  case (Cons name names)
  have "fst (stop_workers names (AList.delete name ws)) = Inr ()"
    using Cons.prems by (intro Cons.IH) (auto simp: dict_simps)
  with Cons.prems show ?case by (cases "map_of ws name") (auto simp: Let_def)
qed simp

lemma stop_workers_dead:
  "name \<in> set names \<Longrightarrow> map_of ws name = Some (Died x) \<Longrightarrow> \<exists>y. fst (stop_workers names ws) = Inl y"
proof (induction names arbitrary: ws)
  case (Cons n names)
  show ?case
  proof (cases "n = name")
    case False
    then have "\<exists>y. fst (stop_workers names (AList.delete n ws)) = Inl y"
      using Cons by (intro Cons.IH) (auto simp: dict_simps)
    then show ?thesis by (auto simp: Let_def split: option.splits task_state.splits)
  qed (use Cons.prems in \<open>simp add: Let_def\<close>)
qed simp

lemma reconcile_desired:
  assumes "reconcile_workers desired ws = (Inr (), ws')"
  shows "set (dict_keys ws') = set desired"
  using assms stop_workers_done [of _ "start_missing desired ws" ws']
  by (auto simp: reconcile_workers_def Let_def start_missing_keys simp del: set_map)

lemma reconcile_keeps:
  assumes "reconcile_workers desired ws = (r, ws')" "n \<in> set desired" "map_of ws n = Some st"
  shows "map_of ws' n = Some st"
  using assms stop_workers_effect [of _ "start_missing desired ws" r ws' n] start_missing_keeps [OF assms(3), of desired]
  by (auto simp: reconcile_workers_def Let_def)

subsection \<open>Properties\<close>

text \<open>C9: The bus loses no event. In every state a worker can reach from a cursor on an ascending log,
  whatever appends, notifications, stops and crashes fall between its steps, every event its consumer
  wants from its first position up to the committed cursor has been handled or parked; and as long as
  the process has not crashed the deliveries are strictly ascending, so none is made twice.\<close>

theorem worker_no_loss:
  assumes "ascending seq es" "worker_reaches wanted limit (worker_start es q) s"
  shows "{e \<in> set (ws_log s). wanted e \<and> q < seq e \<and> seq e \<le> ws_cursor s} \<subseteq> set (ws_resolved s)
    \<and> (ws_crashed s \<or> ascending seq (ws_resolved s))"
  using worker_reaches_invs [OF assms(2), of q] worker_start_invs [OF assms(1), of wanted q]
  by (auto simp: worker_inv_def order_inv_def)

text \<open>C10: No wake-up is lost. A worker that waits with no wake-up set or due has committed the whole log,
  unless the last page it read was full: appends that commit while it reads, delivers or decides to
  wait leave their mark, because the wake event is cleared before the read.\<close>

theorem worker_no_lost_wakeup:
  assumes "ascending seq es" "worker_reaches wanted limit (worker_start es q) s"
    and "ws_pc s = Waiting" "\<not> ws_wake s" "\<not> ws_notify_due s" "\<not> ws_full_page s" "e \<in> set (ws_log s)"
  shows "seq e \<le> ws_cursor s"
  using worker_reaches_invs [OF assms(2), of q] worker_start_invs [OF assms(1), of wanted q] assms(3-)
  by (auto simp: wake_inv_def page_left_def filter_empty_conv)

abbreviation two_events :: "domain_event list" where
  "two_events \<equiv> [with_seq 1 example_event, with_seq 2 (example_event\<lparr>event_id := 2\<rparr>)]"

lemma worker_run_to_wait:
  "worker_reaches (\<lambda>e. seq e \<noteq> 1) 1 (worker_start two_events 0)
     ((worker_start two_events 0)\<lparr>ws_pc := Waiting, ws_cursor := 1, ws_full_page := True\<rparr>)"
proof -
  let ?w = "\<lambda>e. seq e \<noteq> 1" and ?s0 = "worker_start two_events 0"
  have "worker_reaches ?w 1 ?s0 (?s0\<lparr>ws_wake := False, ws_pc := Reading\<rparr>)"
    by (rule wr_step [OF wr_refl ws_check]) (simp_all add: worker_start_def)
  then have "worker_reaches ?w 1 ?s0 (?s0\<lparr>ws_wake := False, ws_pc := Reading\<rparr>
      \<lparr>ws_pc := Pumping [with_seq 1 example_event] 0, ws_full_page := (length [with_seq 1 example_event] = 1)\<rparr>)"
    by (rule wr_step [OF _ ws_read]) (simp_all add: worker_start_def page_after_def)
  then have "worker_reaches ?w 1 ?s0 (?s0\<lparr>ws_wake := False, ws_pc := Reading\<rparr>
      \<lparr>ws_pc := Pumping [with_seq 1 example_event] 0, ws_full_page := (length [with_seq 1 example_event] = 1)\<rparr>
      \<lparr>ws_cursor := seq (with_seq 1 example_event), ws_pc := Pumping [] 0\<rparr>)"
    by (rule wr_step [OF _ ws_skip]) simp_all
  then have "worker_reaches ?w 1 ?s0 (?s0\<lparr>ws_wake := False, ws_pc := Reading\<rparr>
      \<lparr>ws_pc := Pumping [with_seq 1 example_event] 0, ws_full_page := (length [with_seq 1 example_event] = 1)\<rparr>
      \<lparr>ws_cursor := seq (with_seq 1 example_event), ws_pc := Pumping [] 0\<rparr>\<lparr>ws_pc := Waiting\<rparr>)"
    by (rule wr_step [OF _ ws_idle]) simp_all
  then show ?thesis by (simp add: worker_start_def)
qed

theorem worker_no_loss_witness:
  "\<exists>s. worker_reaches (\<lambda>e. seq e \<noteq> 1) 1 (worker_start two_events 0) s \<and> ws_cursor s = 1
     \<and> {e \<in> set (ws_log s). seq e \<noteq> 1 \<and> 0 < seq e \<and> seq e \<le> ws_cursor s} \<subseteq> set (ws_resolved s)"
  using worker_no_loss [OF _ worker_run_to_wait] worker_run_to_wait by (force simp: worker_start_def)

theorem worker_no_lost_wakeup_witness:
  "ws_cursor (worker_start [with_seq 1 example_event] 0\<lparr>ws_pc := Waiting, ws_cursor := 1, ws_full_page := False\<rparr>)
     \<ge> seq (with_seq 1 example_event)"
proof -
  let ?s0 = "worker_start [with_seq 1 example_event] 0" and ?w = "\<lambda>e. False"
  have "worker_reaches ?w 9 ?s0 (?s0\<lparr>ws_wake := False, ws_pc := Reading\<rparr>)"
    by (rule wr_step [OF wr_refl ws_check]) (simp_all add: worker_start_def)
  then have "worker_reaches ?w 9 ?s0 (?s0\<lparr>ws_wake := False, ws_pc := Reading\<rparr>
      \<lparr>ws_pc := Pumping [with_seq 1 example_event] 0, ws_full_page := (length [with_seq 1 example_event] = 9)\<rparr>)"
    by (rule wr_step [OF _ ws_read]) (simp_all add: worker_start_def page_after_def)
  then have "worker_reaches ?w 9 ?s0 (?s0\<lparr>ws_wake := False, ws_pc := Reading\<rparr>
      \<lparr>ws_pc := Pumping [with_seq 1 example_event] 0, ws_full_page := (length [with_seq 1 example_event] = 9)\<rparr>
      \<lparr>ws_cursor := seq (with_seq 1 example_event), ws_pc := Pumping [] 0\<rparr>)"
    by (rule wr_step [OF _ ws_skip]) simp_all
  then have "worker_reaches ?w 9 ?s0 (?s0\<lparr>ws_wake := False, ws_pc := Reading\<rparr>
      \<lparr>ws_pc := Pumping [with_seq 1 example_event] 0, ws_full_page := (length [with_seq 1 example_event] = 9)\<rparr>
      \<lparr>ws_cursor := seq (with_seq 1 example_event), ws_pc := Pumping [] 0\<rparr>\<lparr>ws_pc := Waiting\<rparr>)"
    by (rule wr_step [OF _ ws_idle]) simp_all
  then have r: "worker_reaches ?w 9 ?s0 (?s0\<lparr>ws_pc := Waiting, ws_cursor := 1, ws_full_page := False\<rparr>)"
    by (simp add: worker_start_def)
  show ?thesis
    by (rule worker_no_lost_wakeup [OF _ r]) (simp_all add: worker_start_def)
qed

text \<open>The exception is real: with a page of one event and an unwanted event first, the worker counts
  nothing handled and goes to wait, with no wake-up set or due, while a wanted event lies unread in
  the log; only the idle timeout gets it moving again.\<close>

theorem worker_waits_with_backlog:
  "\<exists>s e. worker_reaches (\<lambda>e. seq e \<noteq> 1) 1 (worker_start two_events 0) s
     \<and> ws_pc s = Waiting \<and> \<not> ws_wake s \<and> \<not> ws_notify_due s
     \<and> e \<in> set (ws_log s) \<and> seq e \<noteq> 1 \<and> ws_cursor s < seq e"
  using worker_run_to_wait by (force simp: worker_start_def)

text \<open>A reconciliation that returns leaves exactly the desired workers, and it returns whenever no
  worker it has to stop has died. But it never replaces a dead worker: a consumer that stays
  desired keeps its dead task through every reconciliation, and one that is dropped makes the
  reconciliation raise the dead task's exception.\<close>

theorem reconcile_workers_table:
  assumes "dict_ok ws"
  shows "(reconcile_workers desired ws = (Inr (), ws') \<longrightarrow> set (dict_keys ws') = set desired)
    \<and> ((\<forall>n x. n \<notin> set desired \<longrightarrow> map_of ws n \<noteq> Some (Died x)) \<longrightarrow> fst (reconcile_workers desired ws) = Inr ())
    \<and> (map_of ws name = Some (Died x) \<longrightarrow> name \<in> set desired \<longrightarrow>
         map_of (snd (reconcile_workers desired ws)) name = Some (Died x))
    \<and> (map_of ws name = Some (Died x) \<longrightarrow> name \<notin> set desired \<longrightarrow>
         (\<exists>y. fst (reconcile_workers desired ws) = Inl y))"
proof (intro conjI impI)
  assume "reconcile_workers desired ws = (Inr (), ws')"
  then show "set (dict_keys ws') = set desired" by (rule reconcile_desired)
next
  assume h: "\<forall>n x. n \<notin> set desired \<longrightarrow> map_of ws n \<noteq> Some (Died x)"
  have "map_of (start_missing desired ws) n \<in> {None, Some Running}" if "n \<notin> set desired" for n
  proof (cases "map_of ws n")
    case None
    then have "n \<notin> set (dict_keys (start_missing desired ws))"
      using that start_missing_keys [of desired ws] by (auto simp: map_of_eq_None_iff)
    then show ?thesis by (simp add: map_of_eq_None_iff)
  next
    case (Some st)
    then show ?thesis using h that start_missing_keeps [OF Some, of desired] by (cases st) auto
  qed
  then show "fst (reconcile_workers desired ws) = Inr ()"
    unfolding reconcile_workers_def Let_def by (intro stop_workers_running) auto
next
  assume "map_of ws name = Some (Died x)" "name \<in> set desired"
  then show "map_of (snd (reconcile_workers desired ws)) name = Some (Died x)"
    using reconcile_keeps [of desired ws _ _ name] by (metis prod.collapse)
next
  assume d: "map_of ws name = Some (Died x)" "name \<notin> set desired"
  then have k: "map_of (start_missing desired ws) name = Some (Died x)" by (simp add: start_missing_keeps)
  then have "name \<in> set (filter (\<lambda>n. n \<notin> set desired) (dict_keys (start_missing desired ws)))"
    using d(2) map_of_SomeD [OF k] by force
  then show "\<exists>y. fst (reconcile_workers desired ws) = Inl y"
    unfolding reconcile_workers_def Let_def by (rule stop_workers_dead) (rule k)
qed

theorem reconcile_workers_table_witness:
  "fst (reconcile_workers [''b''] [(''a'', Running)]) = Inr ()
     \<and> (\<exists>y. fst (reconcile_workers [''b''] [(''a'', Died TypeError)]) = Inl y)"
  using reconcile_workers_table [of "[(''a'', Running)]" "[''b'']" "[]" "''a''" TypeError]
    reconcile_workers_table [of "[(''a'', Died TypeError)]" "[''b'']" "[]" "''a''" TypeError]
  by (auto simp: dict_ok_def split: if_splits)

end
