(* ===== verification/Source_Cadence.thy ===== *)
theory Source_Cadence
  imports Errors Complex_Main
begin

text \<open>
  The run loop of a source (\<open>sources/base.py\<close>) with its adaptive cadence, and the source that rotates
  over the poll units of several accounts (\<open>sources/rotation.py\<close>). A poll is a function on a state of
  any type that returns the number of emitted events or raises; a duration is a rational number. The
  loop is given the number of polls before the stop event is set and returns the waits it made.
\<close>

subsection \<open>The cadence\<close>

record cadence =
  cad_min :: rat
  cad_max :: rat
  cad_now :: rat

definition clamp :: "rat \<Rightarrow> rat \<Rightarrow> rat \<Rightarrow> rat" where
  "clamp mn mx c = max mn (min c mx)"

definition new_cadence :: "rat \<Rightarrow> rat \<Rightarrow> rat \<Rightarrow> cadence" where
  "new_cadence mn mx c = \<lparr>cad_min = mn, cad_max = mx, cad_now = clamp mn mx c\<rparr>"

definition update_cadence :: "rat option \<Rightarrow> rat option \<Rightarrow> rat option \<Rightarrow> cadence \<Rightarrow> cadence" where
  "update_cadence mn mx c cad =
     (let cad1 = (case mn of None \<Rightarrow> cad | Some m \<Rightarrow> cad\<lparr>cad_min := m\<rparr>);
          cad2 = (case mx of None \<Rightarrow> cad1 | Some m \<Rightarrow> cad1\<lparr>cad_max := m\<rparr>);
          cad3 = (case c of None \<Rightarrow> cad2 | Some x \<Rightarrow> cad2\<lparr>cad_now := x\<rparr>)
      in cad3\<lparr>cad_now := clamp (cad_min cad3) (cad_max cad3) (cad_now cad3)\<rparr>)"

definition retune :: "int \<Rightarrow> cadence \<Rightarrow> cadence" where
  "retune emitted cad =
     (if emitted > 0 then cad\<lparr>cad_now := max (cad_min cad) (cad_now cad / 2)\<rparr>
      else cad\<lparr>cad_now := min (cad_max cad) (cad_now cad * (3 / 2))\<rparr>)"

fun run_source :: "('s \<Rightarrow> int result \<times> 's) \<Rightarrow> nat \<Rightarrow> cadence \<Rightarrow> 's \<Rightarrow> rat list \<times> cadence \<times> 's" where
  "run_source poll 0 cad s = ([], cad, s)"
| "run_source poll (Suc n) cad s =
     (case poll s of
        (r, s1) \<Rightarrow>
          (let cad1 = (case r of Inl _ \<Rightarrow> cad | Inr emitted \<Rightarrow> retune emitted cad);
               (ws, cad2, s2) = run_source poll n cad1 s1
           in (cad_now cad1 # ws, cad2, s2)))"

definition cadence_ok :: "cadence \<Rightarrow> bool" where
  "cadence_ok cad \<longleftrightarrow> 0 < cad_min cad \<and> cad_min cad \<le> cad_now cad \<and> cad_now cad \<le> cad_max cad"

lemma new_cadence_ok: "0 < mn \<Longrightarrow> mn \<le> mx \<Longrightarrow> cadence_ok (new_cadence mn mx c)"
  by (simp add: cadence_ok_def new_cadence_def clamp_def)

lemma update_cadence_ok:
  assumes "0 < cad_min (update_cadence mn mx c cad)"
    and "cad_min (update_cadence mn mx c cad) \<le> cad_max (update_cadence mn mx c cad)"
  shows "cadence_ok (update_cadence mn mx c cad)"
  using assms by (auto simp: cadence_ok_def update_cadence_def clamp_def Let_def split: option.splits)

lemma retune_bounds [simp]:
  "cad_min (retune n cad) = cad_min cad" "cad_max (retune n cad) = cad_max cad"
  by (simp_all add: retune_def)

lemma retune_ok: "cadence_ok cad \<Longrightarrow> cadence_ok (retune n cad)"
  by (auto simp: cadence_ok_def retune_def max_def min_def field_simps)

lemma run_source_ok:
  assumes "cadence_ok cad" "run_source poll n cad s = (ws, cad', s')"
  shows "cadence_ok cad' \<and> cad_min cad' = cad_min cad \<and> cad_max cad' = cad_max cad \<and> length ws = n
    \<and> (\<forall>w\<in>set ws. cad_min cad \<le> w \<and> w \<le> cad_max cad)"
  using assms
proof (induction n arbitrary: cad s ws)
  case (Suc n)
  obtain r s1 where p: "poll s = (r, s1)" by fastforce
  let ?cad = "case r of Inl _ \<Rightarrow> cad | Inr emitted \<Rightarrow> retune emitted cad"
  have ok: "cadence_ok ?cad" and eq: "cad_min ?cad = cad_min cad" "cad_max ?cad = cad_max cad"
    using Suc.prems(1) by (simp_all add: retune_ok split: sum.splits)
  obtain ws1 where run: "run_source poll n ?cad s1 = (ws1, cad', s')" and ws: "ws = cad_now ?cad # ws1"
    using Suc.prems(2) by (auto simp: p Let_def split: prod.splits)
  from Suc.IH [OF ok run] ok show ?case by (auto simp: ws eq cadence_ok_def)
qed simp

text \<open>Polls that emit nothing let the wait grow by half up to the maximum, and busy ones halve it.\<close>

lemma grow_below: "0 < (m :: rat) \<Longrightarrow> min m (min m x * (3 / 2)) = min m (x * (3 / 2))"
  by (simp add: min_def field_simps)

lemma halve_above: "0 < (m :: rat) \<Longrightarrow> max m (max m x / 2) = max m (x / 2)"
  by (simp add: max_def field_simps)

lemma quiet_cadence:
  assumes "cadence_ok cad" "0 < k"
  shows "cad_now ((retune 0 ^^ k) cad) = min (cad_max cad) (cad_now cad * (3 / 2) ^ k)
       \<and> cad_max ((retune 0 ^^ k) cad) = cad_max cad"
  using assms(2)
proof (induction k rule: nat_induct_non_zero)
  case (Suc k)
  have "0 < cad_max cad" using assms(1) by (simp add: cadence_ok_def)
  from Suc.IH grow_below [OF this, of "cad_now cad * (3 / 2) ^ k"] show ?case
    by (simp add: retune_def mult_ac)
qed (simp add: retune_def)

lemma busy_cadence:
  assumes "cadence_ok cad" "0 < k"
  shows "cad_now ((retune 1 ^^ k) cad) = max (cad_min cad) (cad_now cad / 2 ^ k)
       \<and> cad_min ((retune 1 ^^ k) cad) = cad_min cad"
  using assms(2)
proof (induction k rule: nat_induct_non_zero)
  case (Suc k)
  have "0 < cad_min cad" using assms(1) by (simp add: cadence_ok_def)
  from Suc.IH halve_above [OF this, of "cad_now cad / 2 ^ k"] show ?case
    by (simp add: retune_def mult_ac)
qed (simp add: retune_def)

subsection \<open>Rotation\<close>

record 's rotation =
  rot_units :: "('s \<Rightarrow> int result \<times> 's) list"
  rot_per_tick :: nat
  rot_cursor :: nat

definition new_rotation :: "('s \<Rightarrow> int result \<times> 's) list \<Rightarrow> int \<Rightarrow> 's rotation result" where
  "new_rotation units per_tick =
     (if units = [] then Inl (Engine EmptySourceUnits)
      else if per_tick \<le> 0 then Inl (Engine (InvalidAccountsPerTick per_tick))
      else Inr \<lparr>rot_units = units, rot_per_tick = nat per_tick, rot_cursor = 0\<rparr>)"

text \<open>The units at offsets \<open>k, \<dots>\<close> from the cursor, \<open>left\<close> of them, with the events emitted so far.\<close>

fun poll_units ::
  "('s \<Rightarrow> int result \<times> 's) list \<Rightarrow> nat \<Rightarrow> nat \<Rightarrow> nat \<Rightarrow> int \<Rightarrow> 's \<Rightarrow> int result \<times> 's" where
  "poll_units units c k 0 emitted s = (Inr emitted, s)"
| "poll_units units c k (Suc left) emitted s =
     (case (units ! ((c + k) mod length units)) s of
        (Inl x, s1) \<Rightarrow> (Inl x, s1)
      | (Inr n, s1) \<Rightarrow> poll_units units c (k + 1) left (emitted + n) s1)"

definition rotation_poll :: "'s rotation \<Rightarrow> 's \<Rightarrow> int result \<times> 's rotation \<times> 's" where
  "rotation_poll r s =
     (case poll_units (rot_units r) (rot_cursor r) 0 (rot_per_tick r) 0 s of
        (Inl x, s1) \<Rightarrow> (Inl x, r, s1)
      | (Inr n, s1) \<Rightarrow>
          (Inr n, r\<lparr>rot_cursor := (rot_cursor r + rot_per_tick r) mod length (rot_units r)\<rparr>, s1))"

fun rotation_ticks :: "nat \<Rightarrow> 's rotation \<Rightarrow> 's \<Rightarrow> 's rotation \<times> 's" where
  "rotation_ticks 0 r s = (r, s)"
| "rotation_ticks (Suc n) r s = (case rotation_poll r s of (_, r1, s1) \<Rightarrow> rotation_ticks n r1 s1)"

definition never_raises :: "('s \<Rightarrow> int result \<times> 's) \<Rightarrow> bool" where
  "never_raises u \<longleftrightarrow> (\<forall>s. \<not> isl (fst (u s)))"

text \<open>The specification: the units one after the other, cyclically, from position \<open>c\<close>.\<close>

definition round_robin :: "('s \<Rightarrow> int result \<times> 's) list \<Rightarrow> nat \<Rightarrow> nat \<Rightarrow> 's \<Rightarrow> 's" where
  "round_robin units c k s = foldl (\<lambda>s i. snd ((units ! (i mod length units)) s)) s [c..<c + k]"

lemma round_robin_add: "round_robin units c (k + m) s = round_robin units (c + k) m (round_robin units c k s)"
proof -
  have "[c..<c + (k + m)] = [c..<c + k] @ [c + k..<c + k + m]"
    by (metis add.assoc le_add1 upt_add_eq_append)
  then show ?thesis by (simp add: round_robin_def)
qed

lemma round_robin_shift: "round_robin units (c + j * length units) k s = round_robin units c k s"
proof (induction k arbitrary: c s)
  case (Suc k)
  show ?case
    using round_robin_add [of units "c + j * length units" 1 k s] round_robin_add [of units c 1 k s]
      Suc.IH [of "c + 1" "snd ((units ! (c mod length units)) s)"]
    by (simp add: round_robin_def)
qed (simp add: round_robin_def)

lemma round_robin_mod: "round_robin units (c mod length units) k s = round_robin units c k s"
  using round_robin_shift [of units "c mod length units" "c div length units" k s]
  by (simp add: mod_div_mult_eq)

lemma poll_units_all:
  assumes "\<forall>u\<in>set units. never_raises u" "units \<noteq> []"
  shows "\<exists>n. poll_units units c k left emitted s = (Inr n, round_robin units (c + k) left s)"
proof (induction left arbitrary: k emitted s)
  case 0
  then show ?case by (simp add: round_robin_def)
next
  case (Suc left)
  let ?u = "units ! ((c + k) mod length units)"
  have "?u \<in> set units" using assms(2) by simp
  then obtain n s1 where u: "?u s = (Inr n, s1)"
    using assms(1) unfolding never_raises_def by (metis isl_def obj_sumE prod.exhaust_sel)
  have "round_robin units (c + k) (Suc left) s = round_robin units (c + (k + 1)) left s1"
    using round_robin_add [of units "c + k" 1 left s] by (simp add: round_robin_def u)
  then show ?case using Suc.IH [of "k + 1" "emitted + n" s1] u by simp
qed

lemma rotation_ticks_round_robin:
  assumes "\<forall>u\<in>set (rot_units r). never_raises u" "rot_units r \<noteq> []" "rot_cursor r < length (rot_units r)"
  shows "rotation_ticks t r s =
     (r\<lparr>rot_cursor := (rot_cursor r + t * rot_per_tick r) mod length (rot_units r)\<rparr>,
      round_robin (rot_units r) (rot_cursor r) (t * rot_per_tick r) s)"
  using assms
proof (induction t arbitrary: r s)
  case 0
  then show ?case by (simp add: round_robin_def)
next
  case (Suc t)
  let ?c = "rot_cursor r" and ?p = "rot_per_tick r" and ?n = "length (rot_units r)"
  let ?r = "r\<lparr>rot_cursor := (?c + ?p) mod ?n\<rparr>" and ?s = "round_robin (rot_units r) ?c ?p s"
  obtain n where "poll_units (rot_units r) ?c 0 ?p 0 s = (Inr n, ?s)"
    using poll_units_all [OF Suc.prems(1,2), of ?c 0 ?p 0 s] by auto
  then have tick: "rotation_ticks (Suc t) r s = rotation_ticks t ?r ?s"
    by (simp add: rotation_poll_def split: prod.splits)
  have "rotation_ticks t ?r ?s =
     (?r\<lparr>rot_cursor := ((?c + ?p) mod ?n + t * ?p) mod ?n\<rparr>, round_robin (rot_units r) ((?c + ?p) mod ?n) (t * ?p) ?s)"
    using Suc.IH [of ?r ?s] Suc.prems by simp
  then show ?case
    unfolding tick by (simp add: round_robin_mod mod_simps add.assoc round_robin_add)
qed

text \<open>Any run of as many polls as there are units polls every unit.\<close>

lemma window_covers:
  assumes "0 < n" "i < n" shows "\<exists>j\<in>set [c..<c + n]. j mod n = (i :: nat)"
proof -
  have "(c + (i + n - c mod n) mod n) mod n = i"
    by (metis assms(1,2) add_diff_cancel_left' le_add_diff_inverse mod_add_left_eq mod_add_right_eq mod_add_self2
        mod_less mod_less_divisor order_less_imp_le trans_le_add2)
  then show ?thesis using assms(1) by (intro bexI [of _ "c + (i + n - c mod n) mod n"]) simp_all
qed

text \<open>A unit that raises ends the tick before the cursor moves.\<close>

lemma rotation_ticks_raising:
  assumes "rot_cursor r < length (rot_units r)" "0 < rot_per_tick r"
    and "\<forall>s. isl (fst ((rot_units r ! rot_cursor r) s))"
  shows "rotation_ticks t r s = (r, ((\<lambda>s. snd ((rot_units r ! rot_cursor r) s)) ^^ t) s)"
proof (induction t arbitrary: s)
  case (Suc t)
  obtain left where left: "rot_per_tick r = Suc left" using assms(2) gr0_conv_Suc by blast
  obtain x s1 where u: "(rot_units r ! rot_cursor r) s = (Inl x, s1)"
    using assms(3) [rule_format, of s] by (metis isl_def prod.exhaust_sel)
  have "rotation_poll r s = (Inl x, r, s1)"
    using assms(1) by (simp add: rotation_poll_def left u)
  then show ?case using Suc.IH u by (simp add: funpow_Suc_right del: funpow.simps)
qed simp

subsection \<open>Properties\<close>

text \<open>The waits of a source never leave its bounds, whatever its polls return or raise, and the
  cadence adapts to them: \<open>k\<close> quiet polls let the wait grow by half each up to the maximum and \<open>k\<close>
  busy ones halve it down to the minimum.\<close>

theorem cadence_bounded:
  assumes "0 < mn" "mn \<le> mx" "run_source poll n (new_cadence mn mx c) s = (ws, cad, s')"
  shows "length ws = n \<and> (\<forall>w\<in>set ws. mn \<le> w \<and> w \<le> mx)
    \<and> (\<forall>k. 0 < k \<longrightarrow> cad_now ((retune 0 ^^ k) cad) = min mx (cad_now cad * (3 / 2) ^ k)
              \<and> cad_now ((retune 1 ^^ k) cad) = max mn (cad_now cad / 2 ^ k))"
  using run_source_ok [OF new_cadence_ok [OF assms(1,2)] assms(3)]
  by (auto simp: quiet_cadence busy_cadence) (simp_all add: new_cadence_def)

theorem cadence_bounded_witness:
  "run_source (\<lambda>s. (Inr s, 0)) 2 (new_cadence 1 10 4) 3 = ([2, 3], \<lparr>cad_min = 1, cad_max = 10, cad_now = 3\<rparr>, 0)
   \<and> 1 \<le> (2 :: rat) \<and> (2 :: rat) \<le> 10 \<and> 1 \<le> (3 :: rat) \<and> (3 :: rat) \<le> 10"
proof -
  have run: "run_source (\<lambda>s. (Inr s, 0)) 2 (new_cadence 1 10 4) 3 = ([2, 3], \<lparr>cad_min = 1, cad_max = 10, cad_now = 3\<rparr>, 0)"
    by (simp add: numeral_2_eq_2 new_cadence_def clamp_def retune_def)
  show ?thesis using run cadence_bounded [OF _ _ run] by simp
qed

text \<open>A rotation whose units do not raise polls them round robin: after any number of ticks the
  state is that of polling the units cyclically from the first, the given number per tick, so any
  window of as many polls as there are units has polled each of them.\<close>

theorem rotation_round_robin:
  assumes "new_rotation units per_tick = Inr r" "\<forall>u\<in>set units. never_raises u"
  shows "rotation_ticks t r s =
      (r\<lparr>rot_cursor := (t * nat per_tick) mod length units\<rparr>, round_robin units 0 (t * nat per_tick) s)
    \<and> (\<forall>i<length units. \<forall>c. \<exists>j\<in>set [c..<c + length units]. j mod length units = i)"
  using assms window_covers [of "length units"] rotation_ticks_round_robin [of r t s]
  by (auto simp: new_rotation_def split: if_splits)

theorem rotation_round_robin_witness:
  "rotation_ticks 2 \<lparr>rot_units = [\<lambda>s. (Inr 1, s @ ''a''), \<lambda>s. (Inr 0, s @ ''b'')], rot_per_tick = 1, rot_cursor = 0\<rparr> []
     = (\<lparr>rot_units = [\<lambda>s. (Inr 1, s @ ''a''), \<lambda>s. (Inr 0, s @ ''b'')], rot_per_tick = 1, rot_cursor = 0\<rparr>, ''ab'')"
proof -
  have m: "(2 :: nat) mod Suc (Suc 0) = 0" by (simp add: numeral_2_eq_2)
  show ?thesis
    using rotation_round_robin [of "[\<lambda>s. (Inr 1, s @ ''a''), \<lambda>s. (Inr 0, s @ ''b'')]" 1 _ 2 "[]"]
    by (simp add: new_rotation_def never_raises_def round_robin_def upt_rec m)
qed

text \<open>A unit that keeps raising starves the others: every tick ends at it before the cursor is
  advanced, so the rotation polls that one unit for ever.\<close>

theorem raising_unit_pins_rotation:
  assumes "rot_cursor r < length (rot_units r)" "0 < rot_per_tick r"
    and "\<forall>s. isl (fst ((rot_units r ! rot_cursor r) s))"
  shows "rotation_ticks t r s = (r, ((\<lambda>s. snd ((rot_units r ! rot_cursor r) s)) ^^ t) s)"
  by (rule rotation_ticks_raising [OF assms])

theorem raising_unit_pins_rotation_witness:
  "rotation_ticks 2 \<lparr>rot_units = [\<lambda>s. (Inl KeyError, s @ ''x''), \<lambda>s. (Inr 1, s @ ''y'')], rot_per_tick = 1, rot_cursor = 0\<rparr> []
     = (\<lparr>rot_units = [\<lambda>s. (Inl KeyError, s @ ''x''), \<lambda>s. (Inr 1, s @ ''y'')], rot_per_tick = 1, rot_cursor = 0\<rparr>, ''xx'')"
  by (subst raising_unit_pins_rotation) (simp_all add: numeral_2_eq_2)

end
