(* ===== verification/Source_Base.thy ===== *)
theory Source_Base
  imports Event_Log Cursors
begin

text \<open>
  What every source shares (\<open>dedup/seen.py\<close>, \<open>transport.py\<close>, \<open>sources/base.py\<close>, \<open>sources/rotation.py\<close>): the
  seen cache, the transport that appends and then wakes the bus, the stores a source reads, the
  adaptive cadence of the run loop and the rotation over accounts. The stores' operations are the
  argument \<open>source_ops\<close> of a poll; the locale \<open>source_stores\<close> states what a poll relies on and is
  interpreted for the in-memory stores and for the SQL ones. A duration is a rational number.
\<close>

subsection \<open>The seen cache\<close>

definition seen_key :: "item_id \<Rightarrow> string \<Rightarrow> string" where
  "seen_key i h = ''seen:'' @ str_int i @ '':'' @ h"

text \<open>\<open>SeenCache\<close> over a server's \<open>EXISTS\<close> and \<open>SET ... EX ttl\<close>.\<close>

definition redis_is_seen :: "('r \<Rightarrow> string \<Rightarrow> bool) \<Rightarrow> 'r \<Rightarrow> item_id \<Rightarrow> string \<Rightarrow> bool" where
  "redis_is_seen exists_key r i h = exists_key r (seen_key i h)"

definition redis_mark :: "(string \<Rightarrow> string \<Rightarrow> int \<Rightarrow> 'r \<Rightarrow> 'r) \<Rightarrow> int \<Rightarrow> item_id \<Rightarrow> string \<Rightarrow> 'r \<Rightarrow> 'r" where
  "redis_mark set_ex ttl i h r = set_ex (seen_key i h) ''1'' ttl r"

type_synonym memory_seen = "(item_id \<times> string) list"

definition ck_is_seen :: "memory_seen \<Rightarrow> item_id \<Rightarrow> string \<Rightarrow> bool" where
  "ck_is_seen s i h \<longleftrightarrow> (i, h) \<in> set s"

definition ck_mark :: "item_id \<Rightarrow> string \<Rightarrow> memory_seen \<Rightarrow> memory_seen" where
  "ck_mark i h s = List.insert (i, h) s"

lemma str_int_no_colon: "CHR '':'' \<notin> set (str_int i)"
proof -
  have "CHR '':'' \<notin> set (nat_digits n)" for n
    using nat_digits_all_digits [of "CHR '':''" n] by (auto simp: is_digit_def)
  then show ?thesis by (simp add: str_int_def)
qed

lemma seen_key_inj: "seen_key i h = seen_key j g \<longleftrightarrow> i = j \<and> h = g"
proof
  assume "seen_key i h = seen_key j g"
  then have "str_int i @ CHR '':'' # h = str_int j @ CHR '':'' # g" by (simp add: seen_key_def)
  from split_at_sep [OF this str_int_no_colon str_int_no_colon] show "i = j \<and> h = g"
    by (simp add: str_int_inj)
qed simp

text \<open>
  As long as no key expires, the server's cache answers as the in-memory one: keys of different
  items or hashes are different.
\<close>

lemma redis_refines_memory_seen:
  assumes "\<And>k v t r k'. exists_key (set_ex k v t r) k' \<longleftrightarrow> k' = k \<or> exists_key r k'"
    and "\<And>i h. redis_is_seen exists_key r i h = ck_is_seen s i h"
  shows "redis_is_seen exists_key (redis_mark set_ex ttl i h r) j g = ck_is_seen (ck_mark i h s) j g"
  using assms by (auto simp: redis_is_seen_def redis_mark_def ck_is_seen_def ck_mark_def seen_key_inj)

locale seen_cache =
  fixes is_seen :: "'e \<Rightarrow> item_id \<Rightarrow> string \<Rightarrow> bool"
    and mark_seen :: "item_id \<Rightarrow> string \<Rightarrow> 'e \<Rightarrow> 'e"
  assumes seen_mark: "is_seen (mark_seen i h e) j g \<longleftrightarrow> (j = i \<and> g = h) \<or> is_seen e j g"

interpretation mseen: seen_cache ck_is_seen ck_mark
  by unfold_locales (auto simp: ck_is_seen_def ck_mark_def)

subsection \<open>The stores a source works on\<close>

record ('l, 'c, 'e) source_ops =
  so_append :: "domain_event list \<Rightarrow> last_seen_batch \<Rightarrow> 'l \<Rightarrow> int result \<times> 'l"
  so_has_baseline :: "'l \<Rightarrow> category \<Rightarrow> bool"
  so_get_baseline :: "'l \<Rightarrow> category \<Rightarrow> (item_id, baseline_entry) dict"
  so_poll_epoch :: "'l \<Rightarrow> category \<Rightarrow> int"
  so_get_cursor :: "'c \<Rightarrow> string \<Rightarrow> cursor_state"
  so_commit :: "string \<Rightarrow> int \<Rightarrow> int \<Rightarrow> 'c \<Rightarrow> unit result \<times> 'c"
  so_is_seen :: "'e \<Rightarrow> item_id \<Rightarrow> string \<Rightarrow> bool"
  so_mark :: "item_id \<Rightarrow> string \<Rightarrow> 'e \<Rightarrow> 'e"

text \<open>\<open>ss_notified\<close> counts the calls of the bus's \<open>notify\<close>.\<close>

record ('l, 'c, 'e) source_state =
  ss_log :: 'l
  ss_cursors :: 'c
  ss_seen :: 'e
  ss_notified :: nat

text \<open>\<open>LogTransport.send\<close>\<close>

definition send ::
  "('l, 'c, 'e) source_ops \<Rightarrow> domain_event list \<Rightarrow> last_seen_batch \<Rightarrow> ('l, 'c, 'e) source_state
     \<Rightarrow> int result \<times> ('l, 'c, 'e) source_state" where
  "send ops es b s =
     (case so_append ops es b (ss_log s) of
        (Inl x, l) \<Rightarrow> (Inl x, s\<lparr>ss_log := l\<rparr>)
      | (Inr k, l) \<Rightarrow>
          (Inr k, s\<lparr>ss_log := l, ss_notified := (if es \<noteq> [] then ss_notified s + 1 else ss_notified s)\<rparr>))"

text \<open>
  Two steps the sources share: a send made only when there are events, and the commit of a source's
  own cursor, made only when its mark moved.
\<close>

definition send_events ::
  "('l, 'c, 'e) source_ops \<Rightarrow> domain_event list \<Rightarrow> last_seen_batch \<Rightarrow> ('l, 'c, 'e) source_state
     \<Rightarrow> unit result \<times> ('l, 'c, 'e) source_state" where
  "send_events ops es b s =
     (if es = [] then (Inr (), s)
      else case send ops es b s of (Inl x, s') \<Rightarrow> (Inl x, s') | (Inr _, s') \<Rightarrow> (Inr (), s'))"

definition commit_mark ::
  "('l, 'c, 'e) source_ops \<Rightarrow> string \<Rightarrow> cursor_state \<Rightarrow> bool \<Rightarrow> int \<Rightarrow> ('l, 'c, 'e) source_state
     \<Rightarrow> unit result \<times> ('l, 'c, 'e) source_state" where
  "commit_mark ops consumer st moved mark s =
     (if moved then
        (case so_commit ops consumer mark (version st) (ss_cursors s) of (r, c) \<Rightarrow> (r, s\<lparr>ss_cursors := c\<rparr>))
      else (Inr (), s))"

lemma commit_mark_keeps:
  "commit_mark ops consumer st moved mark s = (r, s') \<Longrightarrow>
     ss_log s' = ss_log s \<and> ss_seen s' = ss_seen s \<and> ss_notified s' = ss_notified s"
  by (auto simp: commit_mark_def split: if_splits prod.splits)

lemma send_keeps:
  "send ops es b s = (r, s') \<Longrightarrow> ss_cursors s' = ss_cursors s \<and> ss_seen s' = ss_seen s"
  by (auto simp: send_def split: prod.splits sum.splits)

text \<open>The same stores while every append raises \<open>x\<close>.\<close>

definition failing_append :: "exn \<Rightarrow> ('l, 'c, 'e) source_ops \<Rightarrow> ('l, 'c, 'e) source_ops" where
  "failing_append x ops = ops\<lparr>so_append := (\<lambda>es b l. (Inl x, l))\<rparr>"

lemma failing_append_simps [simp]:
  "so_is_seen (failing_append x ops) = so_is_seen ops" "so_mark (failing_append x ops) = so_mark ops"
  "so_get_cursor (failing_append x ops) = so_get_cursor ops" "so_commit (failing_append x ops) = so_commit ops"
  "so_poll_epoch (failing_append x ops) = so_poll_epoch ops"
  "so_append (failing_append x ops) es b l = (Inl x, l)"
  by (simp_all add: failing_append_def)

lemma commit_mark_failing: "commit_mark (failing_append x ops) consumer st moved mark s = commit_mark ops consumer st moved mark s"
  by (simp add: commit_mark_def)

locale source_stores =
  elog: event_log append_log read_after max_seq contents obs log_ok +
  curs: cursor_store get_cursor commit_cursor delete_cursor watermark cursor_names cursors_ok +
  seen: seen_cache is_seen mark_seen
  for append_log :: "domain_event list \<Rightarrow> last_seen_batch \<Rightarrow> 'l \<Rightarrow> int result \<times> 'l"
    and read_after max_seq contents obs log_ok
    and get_cursor :: "'c \<Rightarrow> string \<Rightarrow> cursor_state"
    and commit_cursor delete_cursor watermark cursor_names cursors_ok
    and is_seen :: "'e \<Rightarrow> item_id \<Rightarrow> string \<Rightarrow> bool"
    and mark_seen +
  fixes log_has :: "'l \<Rightarrow> category \<Rightarrow> bool"
    and log_baseline :: "'l \<Rightarrow> category \<Rightarrow> (item_id, baseline_entry) dict"
    and log_epoch :: "'l \<Rightarrow> category \<Rightarrow> int"
  assumes log_dict: "log_ok s \<Longrightarrow> dict_ok (log_baseline s c)"
    and log_has_append: "append_log es b s = (Inr k, s') \<Longrightarrow> log_has s' c \<longleftrightarrow> c = lb_category b \<or> log_has s c"
    and log_epoch_append: "append_log es b s = (Inr k, s') \<Longrightarrow>
          log_epoch s' c = (if c = lb_category b then lb_epoch b else log_epoch s c)"
    and log_get_append: "log_ok s \<Longrightarrow> batch_ok b \<Longrightarrow> append_log es b s = (Inr k, s') \<Longrightarrow>
          map_of (log_baseline s' c)
            = (if c = lb_category b then batch_lookup b (map_of (log_baseline s c)) else map_of (log_baseline s c))"
    and log_failed_append: "append_log es b s = (Inl x, s') \<Longrightarrow>
          log_has s' = log_has s \<and> log_epoch s' = log_epoch s \<and> log_baseline s' = log_baseline s"
begin

definition sops :: "('l, 'c, 'e) source_ops" where
  "sops = \<lparr>so_append = append_log, so_has_baseline = log_has, so_get_baseline = log_baseline,
     so_poll_epoch = log_epoch, so_get_cursor = get_cursor, so_commit = commit_cursor,
     so_is_seen = is_seen, so_mark = mark_seen\<rparr>"

lemma sops_simps [simp]:
  "so_append sops = append_log" "so_has_baseline sops = log_has" "so_get_baseline sops = log_baseline"
  "so_poll_epoch sops = log_epoch" "so_get_cursor sops = get_cursor" "so_commit sops = commit_cursor"
  "so_is_seen sops = is_seen" "so_mark sops = mark_seen"
  by (simp_all add: sops_def)

text \<open>A send that returns: what the log, the epoch and the baseline are afterwards.\<close>

lemma send_done:
  assumes "send sops es b s = (Inr k, s')" "log_ok (ss_log s)"
  shows "log_ok (ss_log s')"
    and "\<exists>new. contents (ss_log s') = contents (ss_log s) @ new \<and> map (with_seq 0) new
            = map (\<lambda>e. with_seq 0 (obs e)) (fresh_events (map event_id (contents (ss_log s))) es)"
    and "event_id ` set (contents (ss_log s')) = event_id ` set (contents (ss_log s)) \<union> event_id ` set es"
    and "log_has (ss_log s') c \<longleftrightarrow> c = lb_category b \<or> log_has (ss_log s) c"
    and "log_epoch (ss_log s') c = (if c = lb_category b then lb_epoch b else log_epoch (ss_log s) c)"
    and "batch_ok b \<Longrightarrow> map_of (log_baseline (ss_log s') c)
            = (if c = lb_category b then batch_lookup b (map_of (log_baseline (ss_log s) c))
               else map_of (log_baseline (ss_log s) c))"
    and "ss_notified s' = (if es \<noteq> [] then ss_notified s + 1 else ss_notified s)"
    and "ss_cursors s' = ss_cursors s" "ss_seen s' = ss_seen s"
proof -
  have app: "append_log es b (ss_log s) = (Inr k, ss_log s')"
    and rest: "s' = s\<lparr>ss_log := ss_log s', ss_notified := (if es \<noteq> [] then ss_notified s + 1 else ss_notified s)\<rparr>"
    using assms(1) by (auto simp: send_def split: prod.splits sum.splits)
  show "log_ok (ss_log s')" using elog.append_keeps_ok assms(2) app by blast
  show "\<exists>new. contents (ss_log s') = contents (ss_log s) @ new \<and> map (with_seq 0) new
            = map (\<lambda>e. with_seq 0 (obs e)) (fresh_events (map event_id (contents (ss_log s))) es)"
    using elog.append_done [OF assms(2) app] by blast
  show "event_id ` set (contents (ss_log s')) = event_id ` set (contents (ss_log s)) \<union> event_id ` set es"
    by (rule elog.appended_ids [OF assms(2) app])
  show "log_has (ss_log s') c \<longleftrightarrow> c = lb_category b \<or> log_has (ss_log s) c" by (rule log_has_append [OF app])
  show "log_epoch (ss_log s') c = (if c = lb_category b then lb_epoch b else log_epoch (ss_log s) c)"
    by (rule log_epoch_append [OF app])
  show "batch_ok b \<Longrightarrow> map_of (log_baseline (ss_log s') c)
            = (if c = lb_category b then batch_lookup b (map_of (log_baseline (ss_log s) c))
               else map_of (log_baseline (ss_log s) c))"
    by (rule log_get_append [OF assms(2) _ app])
  show "ss_notified s' = (if es \<noteq> [] then ss_notified s + 1 else ss_notified s)" by (subst rest) simp
  show "ss_cursors s' = ss_cursors s" "ss_seen s' = ss_seen s" using send_keeps [OF assms(1)] by simp_all
qed

lemma send_events_done:
  assumes "send_events sops es b s = (Inr u, s')" "log_ok (ss_log s)"
  shows "log_ok (ss_log s')"
    and "event_id ` set (contents (ss_log s')) = event_id ` set (contents (ss_log s)) \<union> event_id ` set es"
    and "log_epoch (ss_log s') c = (if es \<noteq> [] \<and> c = lb_category b then lb_epoch b else log_epoch (ss_log s) c)"
    and "ss_cursors s' = ss_cursors s" "ss_seen s' = ss_seen s"
proof -
  have "log_ok (ss_log s')
    \<and> event_id ` set (contents (ss_log s')) = event_id ` set (contents (ss_log s)) \<union> event_id ` set es
    \<and> log_epoch (ss_log s') c = (if es \<noteq> [] \<and> c = lb_category b then lb_epoch b else log_epoch (ss_log s) c)
    \<and> ss_cursors s' = ss_cursors s \<and> ss_seen s' = ss_seen s"
  proof (cases "es = []")
    case True
    then show ?thesis using assms by (simp add: send_events_def)
  next
    case False
    then obtain k where "send sops es b s = (Inr k, s')"
      using assms(1) by (auto simp: send_events_def split: prod.splits sum.splits)
    from send_done(1,3,5,8,9) [OF this assms(2)] False show ?thesis by simp
  qed
  then show "log_ok (ss_log s')"
    "event_id ` set (contents (ss_log s')) = event_id ` set (contents (ss_log s)) \<union> event_id ` set es"
    "log_epoch (ss_log s') c = (if es \<noteq> [] \<and> c = lb_category b then lb_epoch b else log_epoch (ss_log s) c)"
    "ss_cursors s' = ss_cursors s" "ss_seen s' = ss_seen s" by simp_all
qed

text \<open>A commit against the state it read cannot conflict.\<close>

lemma commit_mark_done:
  assumes "cursors_ok (ss_cursors s)" "\<not> moved \<Longrightarrow> last_seq (get_cursor (ss_cursors s) consumer) = mark"
  obtains s' where "commit_mark sops consumer (get_cursor (ss_cursors s) consumer) moved mark s = (Inr (), s')"
    and "cursors_ok (ss_cursors s')" "last_seq (get_cursor (ss_cursors s') consumer) = mark"
    and "\<And>other. other \<noteq> consumer \<Longrightarrow> get_cursor (ss_cursors s') other = get_cursor (ss_cursors s) other"
    and "ss_log s' = ss_log s" "ss_seen s' = ss_seen s"
proof (cases moved)
  case False
  then show thesis using assms that [of s] by (simp add: commit_mark_def)
next
  case True
  obtain c where "commit_cursor consumer mark (version (get_cursor (ss_cursors s) consumer)) (ss_cursors s) = (Inr (), c)"
    "cursors_ok c" "last_seq (get_cursor c consumer) = mark"
    "\<And>other. other \<noteq> consumer \<Longrightarrow> get_cursor c other = get_cursor (ss_cursors s) other"
    using curs.commit_matching [OF assms(1) refl, of consumer mark] by auto
  then show thesis using True that [of "s\<lparr>ss_cursors := c\<rparr>"] by (simp add: commit_mark_def)
qed

text \<open>A send that raises leaves everything a reader sees as it was.\<close>

lemma send_raised:
  assumes "send sops es b s = (Inl x, s')" "log_ok (ss_log s)"
  shows "log_ok (ss_log s')" "contents (ss_log s') = contents (ss_log s)"
    "log_has (ss_log s') = log_has (ss_log s)" "log_epoch (ss_log s') = log_epoch (ss_log s)"
    "log_baseline (ss_log s') = log_baseline (ss_log s)"
    "ss_cursors s' = ss_cursors s" "ss_seen s' = ss_seen s" "ss_notified s' = ss_notified s"
proof -
  have app: "append_log es b (ss_log s) = (Inl x, ss_log s')" and s': "s' = s\<lparr>ss_log := ss_log s'\<rparr>"
    using assms(1) by (auto simp: send_def split: prod.splits sum.splits)
  show "log_ok (ss_log s')" using elog.append_keeps_ok assms(2) app by blast
  show "contents (ss_log s') = contents (ss_log s)" using elog.append_failed assms(2) app by blast
  show "log_has (ss_log s') = log_has (ss_log s)" "log_epoch (ss_log s') = log_epoch (ss_log s)"
    "log_baseline (ss_log s') = log_baseline (ss_log s)" using log_failed_append [OF app] by simp_all
  show "ss_cursors s' = ss_cursors s" "ss_seen s' = ss_seen s" "ss_notified s' = ss_notified s"
    by (subst s', simp)+
qed

end

subsection \<open>The two sets of stores\<close>

definition mem_source_ops :: "(memory_log, memory_cursors, memory_seen) source_ops" where
  "mem_source_ops = \<lparr>so_append = ml_append, so_has_baseline = (\<lambda>s. ms_has_baseline (ml_last_seen s)),
     so_get_baseline = (\<lambda>s. ms_get_baseline (ml_last_seen s)),
     so_poll_epoch = (\<lambda>s. ms_get_poll_epoch (ml_last_seen s)),
     so_get_cursor = mc_get, so_commit = mc_commit, so_is_seen = ck_is_seen, so_mark = ck_mark\<rparr>"

definition sql_source_ops :: "(event_db, cursor_table, memory_seen) source_ops" where
  "sql_source_ops = \<lparr>so_append = el_append, so_has_baseline = (\<lambda>s. db_has_baseline (el_baseline s)),
     so_get_baseline = (\<lambda>s. db_get_baseline (el_baseline s)),
     so_poll_epoch = (\<lambda>s. db_get_poll_epoch (el_baseline s)),
     so_get_cursor = sc_get, so_commit = sc_commit, so_is_seen = ck_is_seen, so_mark = ck_mark\<rparr>"

lemma mem_source_ops_simps [simp]:
  "so_append mem_source_ops = ml_append"
  "so_has_baseline mem_source_ops s = ms_has_baseline (ml_last_seen s)"
  "so_get_baseline mem_source_ops s = ms_get_baseline (ml_last_seen s)"
  "so_poll_epoch mem_source_ops s = ms_get_poll_epoch (ml_last_seen s)"
  "so_get_cursor mem_source_ops = mc_get" "so_commit mem_source_ops = mc_commit"
  "so_is_seen mem_source_ops = ck_is_seen" "so_mark mem_source_ops = ck_mark"
  by (simp_all add: mem_source_ops_def)

lemma sql_source_ops_simps [simp]:
  "so_append sql_source_ops = el_append"
  "so_has_baseline sql_source_ops t = db_has_baseline (el_baseline t)"
  "so_get_baseline sql_source_ops t = db_get_baseline (el_baseline t)"
  "so_poll_epoch sql_source_ops t = db_get_poll_epoch (el_baseline t)"
  "so_get_cursor sql_source_ops = sc_get" "so_commit sql_source_ops = sc_commit"
  "so_is_seen sql_source_ops = ck_is_seen" "so_mark sql_source_ops = ck_mark"
  by (simp_all add: sql_source_ops_def)

lemma ml_append_last_seen: "ml_append es b s = (r, s') \<Longrightarrow> ml_last_seen s' = ms_apply b (ml_last_seen s)"
  by (auto simp: ml_append_def Let_def)

lemma el_append_baseline:
  "el_append es b s = (Inr k, s') \<Longrightarrow> el_baseline s' = db_apply b (el_baseline s)"
  "el_append es b s = (Inl x, s') \<Longrightarrow> el_baseline s' = el_baseline s"
  by (auto simp: el_append_def split: prod.splits option.splits if_splits)

interpretation msrc: source_stores
  ml_append "\<lambda>s q n. Some (ml_read_after s q n)" ml_max_seq ml_events "\<lambda>e. e" "\<lambda>s. ml_ok s"
  mc_get mc_commit mc_delete mc_watermark dict_keys mc_ok ck_is_seen ck_mark
  "\<lambda>s. ms_has_baseline (ml_last_seen s)" "\<lambda>s. ms_get_baseline (ml_last_seen s)"
  "\<lambda>s. ms_get_poll_epoch (ml_last_seen s)"
proof (unfold_locales, goal_cases)
  case (5 es b s x s')
  then show ?case by (simp add: ml_append_def Let_def)
qed (auto simp: ml_append_last_seen mls.has_apply mls.epoch_apply mls.get_apply mls.baseline_dict ml_ok_def)

interpretation ssrc: source_stores
  el_append el_read_after el_max_seq el_contents flatten el_ok
  sc_get sc_commit sc_delete sc_watermark dict_keys sc_ok ck_is_seen ck_mark
  "\<lambda>s. db_has_baseline (el_baseline s)" "\<lambda>s. db_get_baseline (el_baseline s)"
  "\<lambda>s. db_get_poll_epoch (el_baseline s)"
  by unfold_locales (auto simp: el_append_baseline dls.has_apply dls.epoch_apply dls.get_apply dls.baseline_dict el_ok_def)

lemma mem_source_ops_eq: "msrc.sops = mem_source_ops"
  by (simp add: msrc.sops_def mem_source_ops_def)

lemma sql_source_ops_eq: "ssrc.sops = sql_source_ops"
  by (simp add: ssrc.sops_def sql_source_ops_def)

text \<open>The instant 0, used by the examples.\<close>

lemma epoch_time:
  "from_timestamp_utc 0 = Some \<lparr>dt_year = 1970, dt_month = 1, dt_day = 1, dt_hour = 0,
     dt_minute = 0, dt_second = 0, dt_micro = 0, utc_offset = Some 0\<rparr>"
  by code_simp

end
