(* ===== verification/Category_Source.thy ===== *)
theory Category_Source
  imports Source_Base
begin

text \<open>
  The catalog source (\<open>sources/confirm.py\<close>, \<open>sources/category.py\<close>): one poll pages the category, diffs
  it against the durable baseline, counts the misses of absent lots, confirms the ones that reach the
  threshold and appends events and baseline in one write. The upstream client is an argument: what
  \<open>list_lots(...).collect(limit)\<close> and \<open>get_lots_batch\<close> return during the poll. The clock is an argument
  too, its \<open>k\<close>-th reading in the poll. The set of absent ids is iterated in baseline order.
\<close>

subsection \<open>The confirm queue\<close>

definition sold_states :: "string list" where
  "sold_states = [''sold'', ''paid'', ''purchased'']"

definition resolve_reason :: "string option \<Rightarrow> bool \<Rightarrow> disappear_reason \<times> confidence" where
  "resolve_reason item_state found =
     (if \<not> found then (UnknownReason, LowConfidence)
      else if item_state = Some ''closed'' then (Delisted, NormalConfidence)
      else case item_state of
             Some st \<Rightarrow> if st \<in> set sold_states then (Sold, NormalConfidence) else (UnknownReason, LowConfidence)
           | None \<Rightarrow> (UnknownReason, LowConfidence))"

record confirm_result =
  cr_resolved :: "(item_id, disappear_reason \<times> confidence) dict"
  cr_deferred :: "item_id list"

text \<open>The errors of the client library, the ones a handler of \<open>LztError\<close> catches.\<close>

fun is_lzt_error :: "exn \<Rightarrow> bool" where
  "is_lzt_error UpstreamNotFound = True"
| "is_lzt_error (UpstreamError _) = True"
| "is_lzt_error _ = False"

definition lot_states :: "lot list \<Rightarrow> (item_id, string) dict" where
  "lot_states lots = dict_update [] (map (\<lambda>l. (lot_item_id l, lot_item_state l)) lots)"

definition checked_reason :: "(item_id, string) dict \<Rightarrow> item_id \<Rightarrow> disappear_reason \<times> confidence" where
  "checked_reason states i =
     (case map_of states i of Some st \<Rightarrow> resolve_reason (Some st) True | None \<Rightarrow> resolve_reason None False)"

definition confirm_resolve ::
  "(item_id list \<Rightarrow> lot list result) \<Rightarrow> nat \<Rightarrow> item_id list \<Rightarrow> confirm_result result" where
  "confirm_resolve get_lots cap ids =
     (let to_check = take cap ids; deferred = drop cap ids in
      bind_result
        (if to_check = [] then Inr []
         else case get_lots to_check of
                Inl x \<Rightarrow> (if is_lzt_error x then Inr [] else Inl x)
              | Inr lots \<Rightarrow> Inr lots)
        (\<lambda>lots.
          let checked = dict_update [] (map (\<lambda>i. (i, checked_reason (lot_states lots) i)) to_check)
          in Inr \<lparr>cr_resolved = dict_update checked (map (\<lambda>i. (i, (UnknownReason, LowConfidence))) deferred),
                  cr_deferred = deferred\<rparr>))"

lemma map_of_dict_update_const:
  "map_of (dict_update d (map (\<lambda>i. (i, f i)) ids)) i = (if i \<in> set ids then Some (f i) else map_of d i)"
  by (induction ids arbitrary: d) (auto simp: dict_simps)

lemma confirm_resolve_lookup:
  assumes "confirm_resolve get_lots cap ids = Inr r"
  obtains lots where
    "map_of (cr_resolved r) i =
       (if i \<in> set (drop cap ids) then Some (UnknownReason, LowConfidence)
        else if i \<in> set (take cap ids) then Some (checked_reason (lot_states lots) i) else None)"
    "take cap ids \<noteq> [] \<Longrightarrow> (get_lots (take cap ids) = Inr lots \<or> (\<exists>x. get_lots (take cap ids) = Inl x \<and> is_lzt_error x \<and> lots = []))"
    "cr_deferred r = drop cap ids"
  using assms
  by (fastforce simp: confirm_resolve_def Let_def map_of_dict_update_const bind_result_Inr_iff split: if_splits sum.splits)

lemma take_drop_set: "set (take n xs) \<union> set (drop n xs) = set xs"
  by (metis append_take_drop_id set_append)

text \<open>Every id asked for gets a reason, whatever the client returned.\<close>

lemma confirm_resolve_total:
  assumes "confirm_resolve get_lots cap ids = Inr r"
  shows "set (dict_keys (cr_resolved r)) = set ids"
proof -
  have "i \<in> set (dict_keys (cr_resolved r)) \<longleftrightarrow> i \<in> set ids" for i
  proof -
    have "i \<in> set (dict_keys (cr_resolved r)) \<longleftrightarrow> map_of (cr_resolved r) i \<noteq> None"
      by (simp add: map_of_eq_None_iff)
    also have "\<dots> \<longleftrightarrow> i \<in> set (take cap ids) \<union> set (drop cap ids)"
      by (rule confirm_resolve_lookup [OF assms, of i]) auto
    finally show ?thesis by (simp add: take_drop_set)
  qed
  then show ?thesis by blast
qed

subsection \<open>The source\<close>

record category_source =
  cs_category :: category
  cs_disappear_polls :: int
  cs_limit :: nat
  cs_confirm_cap :: nat

definition new_category_source :: "category \<Rightarrow> int \<Rightarrow> nat \<Rightarrow> nat \<Rightarrow> nat \<Rightarrow> category_source" where
  "new_category_source c polls pages per_page cap =
     \<lparr>cs_category = c, cs_disappear_polls = polls, cs_limit = pages * per_page, cs_confirm_cap = cap\<rparr>"

record catalog_client =
  list_lots :: "category \<Rightarrow> nat \<Rightarrow> lot list result"
  get_lots_batch :: "item_id list \<Rightarrow> lot list result"

definition fetch_snapshot :: "catalog_client \<Rightarrow> category_source \<Rightarrow> snapshot result" where
  "fetch_snapshot cl src =
     bind_result (list_lots cl (cs_category src) (cs_limit src)) (\<lambda>lots. Inr (from_lots (cs_category src) lots))"

definition lot_entry :: "lot \<Rightarrow> baseline_entry" where
  "lot_entry l = \<lparr>be_price = lot_price l, be_hash = lot_hash l, miss_count = 0\<rparr>"

definition snapshot_upserts :: "snapshot \<Rightarrow> (item_id, baseline_entry) dict" where
  "snapshot_upserts snap = map (\<lambda>(i, l). (i, lot_entry l)) (snap_lots snap)"

text \<open>The loop over the absent ids: the ripe ones, and the upserts with the bumped counters.\<close>

fun count_misses ::
  "int \<Rightarrow> (item_id, baseline_entry) dict \<Rightarrow> item_id list \<Rightarrow> item_id list \<Rightarrow> (item_id, baseline_entry) dict
     \<Rightarrow> (item_id list \<times> (item_id, baseline_entry) dict) result" where
  "count_misses polls prev [] ripe ups = Inr (ripe, ups)"
| "count_misses polls prev (i # ids) ripe ups =
     (case map_of prev i of
        None \<Rightarrow> Inl KeyError
      | Some b \<Rightarrow>
          (let miss = miss_count b + 1 in
           if polls \<le> miss then count_misses polls prev ids (ripe @ [i]) ups
           else count_misses polls prev ids ripe (AList.update i (b\<lparr>miss_count := miss\<rparr>) ups)))"

definition gone_event :: "category \<Rightarrow> int \<Rightarrow> datetime \<Rightarrow> item_id \<Rightarrow> disappear_reason \<times> confidence \<Rightarrow> domain_event" where
  "gone_event c epoch ts i rc =
     build (LotDisappeared (fst rc) (snd rc)) (str_int i) ts (''gone:'' @ str_int i) epoch [(''category'', JStr c)]"

fun gone_events ::
  "category \<Rightarrow> int \<Rightarrow> (nat \<Rightarrow> datetime) \<Rightarrow> nat \<Rightarrow> (item_id, disappear_reason \<times> confidence) dict \<Rightarrow> item_id list
     \<Rightarrow> domain_event list result" where
  "gone_events c epoch clk k resolved [] = Inr []"
| "gone_events c epoch clk k resolved (i # ids) =
     (case map_of resolved i of
        None \<Rightarrow> Inl KeyError
      | Some rc \<Rightarrow>
          bind_result (gone_events c epoch clk (k + 1) resolved ids)
            (\<lambda>es. Inr (gone_event c epoch (clk k) i rc # es)))"

text \<open>\<open>_resolve_disappearances\<close>: the drops, the events and the extended upserts.\<close>

definition resolve_disappearances ::
  "catalog_client \<Rightarrow> category_source \<Rightarrow> (nat \<Rightarrow> datetime) \<Rightarrow> item_id list \<Rightarrow> (item_id, baseline_entry) dict \<Rightarrow> int
     \<Rightarrow> (item_id, baseline_entry) dict
     \<Rightarrow> (item_id list \<times> domain_event list \<times> (item_id, baseline_entry) dict) result" where
  "resolve_disappearances cl src clk absent prev epoch ups =
     bind_result (count_misses (cs_disappear_polls src) prev absent [] ups) (\<lambda>(ripe, ups').
       if ripe = [] then Inr ([], [], ups')
       else bind_result (confirm_resolve (get_lots_batch cl) (cs_confirm_cap src) ripe) (\<lambda>confirmed.
              bind_result (gone_events (cs_category src) epoch clk 1 (cr_resolved confirmed) ripe) (\<lambda>es.
                Inr (ripe, es, ups'))))"

text \<open>What a poll sends: the events and the batch, computed from the state of the log.\<close>

definition bootstrap_plan ::
  "category_source \<Rightarrow> (nat \<Rightarrow> datetime) \<Rightarrow> snapshot \<Rightarrow> int \<Rightarrow> domain_event list \<times> last_seen_batch" where
  "bootstrap_plan src clk snap epoch =
     (let c = cs_category src; ups = snapshot_upserts snap;
          n = int (length ups);
          marker = build (SnapshotInitialized c n) c (clk 0) (''bootstrap:'' @ str_int n) epoch [(''category'', JStr c)]
      in ([marker], \<lparr>lb_category = c, lb_epoch = epoch, lb_upserts = ups, lb_drops = []\<rparr>))"

definition diff_plan ::
  "catalog_client \<Rightarrow> category_source \<Rightarrow> (nat \<Rightarrow> datetime) \<Rightarrow> snapshot \<Rightarrow> (item_id, baseline_entry) dict \<Rightarrow> int
     \<Rightarrow> (domain_event list \<times> last_seen_batch) result" where
  "diff_plan cl src clk snap prev epoch =
     (let d = diff prev snap epoch (clk 0) in
      bind_result (resolve_disappearances cl src clk (absent_ids d) prev epoch (snapshot_upserts snap))
        (\<lambda>(drops, gone, ups).
          Inr (diff_events d @ gone,
               \<lparr>lb_category = cs_category src, lb_epoch = epoch, lb_upserts = ups, lb_drops = drops\<rparr>)))"

definition category_plan ::
  "('l, 'c, 'e) source_ops \<Rightarrow> catalog_client \<Rightarrow> category_source \<Rightarrow> (nat \<Rightarrow> datetime) \<Rightarrow> 'l
     \<Rightarrow> (domain_event list \<times> last_seen_batch \<times> int) result" where
  "category_plan ops cl src clk l =
     bind_result (fetch_snapshot cl src) (\<lambda>snap.
       let c = cs_category src; epoch = so_poll_epoch ops l c + 1 in
       if \<not> so_has_baseline ops l c then
         (case bootstrap_plan src clk snap epoch of (es, b) \<Rightarrow> Inr (es, b, 0))
       else
         bind_result (diff_plan cl src clk snap (so_get_baseline ops l c) epoch)
           (\<lambda>(es, b). Inr (es, b, int (length es))))"

definition category_poll ::
  "('l, 'c, 'e) source_ops \<Rightarrow> catalog_client \<Rightarrow> category_source \<Rightarrow> (nat \<Rightarrow> datetime)
     \<Rightarrow> ('l, 'c, 'e) source_state \<Rightarrow> int result \<times> ('l, 'c, 'e) source_state" where
  "category_poll ops cl src clk s =
     (case category_plan ops cl src clk (ss_log s) of
        Inl x \<Rightarrow> (Inl x, s)
      | Inr (es, b, n) \<Rightarrow>
          (case send ops es b s of (Inl x, s') \<Rightarrow> (Inl x, s') | (Inr _, s') \<Rightarrow> (Inr n, s')))"

text \<open>Successive polls: the events each of them sent, None once one raises.\<close>

fun category_run ::
  "('l, 'c, 'e) source_ops \<Rightarrow> category_source \<Rightarrow> (catalog_client \<times> (nat \<Rightarrow> datetime)) list
     \<Rightarrow> ('l, 'c, 'e) source_state \<Rightarrow> (domain_event list list \<times> ('l, 'c, 'e) source_state) option" where
  "category_run ops src [] s = Some ([], s)"
| "category_run ops src ((cl, clk) # ps) s =
     (case category_plan ops cl src clk (ss_log s) of
        Inl _ \<Rightarrow> None
      | Inr (es, b, n) \<Rightarrow>
          (case category_poll ops cl src clk s of
             (Inl _, _) \<Rightarrow> None
           | (Inr _, s1) \<Rightarrow> map_option (\<lambda>(ess, s2). (es # ess, s2)) (category_run ops src ps s1)))"

subsection \<open>What a poll does to the baseline\<close>

definition misses :: "(item_id, baseline_entry) dict \<Rightarrow> item_id \<Rightarrow> int" where
  "misses prev i = miss_count (the (map_of prev i)) + 1"

definition bumped :: "(item_id, baseline_entry) dict \<Rightarrow> item_id \<Rightarrow> baseline_entry" where
  "bumped prev i = (the (map_of prev i))\<lparr>miss_count := misses prev i\<rparr>"

definition ripe_ids :: "int \<Rightarrow> (item_id, baseline_entry) dict \<Rightarrow> snapshot \<Rightarrow> item_id list" where
  "ripe_ids polls prev snap = filter (\<lambda>i. i \<notin> set (snap_ids snap) \<and> polls \<le> misses prev i) (dict_keys prev)"

text \<open>The specification of one poll on the baseline of an item.\<close>

definition next_entry :: "int \<Rightarrow> snapshot \<Rightarrow> item_id \<Rightarrow> baseline_entry option \<Rightarrow> baseline_entry option" where
  "next_entry polls snap i old =
     (case map_of (snap_lots snap) i of
        Some l \<Rightarrow> Some (lot_entry l)
      | None \<Rightarrow>
          (case old of
             None \<Rightarrow> None
           | Some b \<Rightarrow> if polls \<le> miss_count b + 1 then None else Some (b\<lparr>miss_count := miss_count b + 1\<rparr>)))"

lemma count_misses_eq:
  assumes "\<forall>i\<in>set ids. map_of prev i \<noteq> None"
  shows "count_misses polls prev ids ripe ups =
     Inr (ripe @ filter (\<lambda>i. polls \<le> misses prev i) ids,
          dict_update ups (map (\<lambda>i. (i, bumped prev i)) (filter (\<lambda>i. \<not> polls \<le> misses prev i) ids)))"
  using assms
proof (induction ids arbitrary: ripe ups)
  case (Cons i ids)
  then obtain b where b: "map_of prev i = Some b" by auto
  then have "misses prev i = miss_count b + 1" "bumped prev i = b\<lparr>miss_count := miss_count b + 1\<rparr>"
    by (simp_all add: misses_def bumped_def)
  with Cons b show ?case by (simp add: Let_def)
qed simp

lemma gone_events_eq:
  assumes "\<forall>i\<in>set ids. map_of resolved i \<noteq> None"
  shows "gone_events c epoch clk k resolved ids =
     Inr (map (\<lambda>(j, i). gone_event c epoch (clk j) i (the (map_of resolved i))) (zip [k..<k + length ids] ids))"
  using assms
proof (induction ids arbitrary: k)
  case (Cons i ids)
  moreover have "[k..<k + length (i # ids)] = k # [k + 1..<k + 1 + length ids]"
    by (simp add: upt_conv_Cons del: upt_Suc)
  ultimately show ?case by (auto simp del: upt_Suc)
qed simp

lemma absent_ids_diff: "absent_ids (diff prev snap epoch ts) = filter (\<lambda>i. i \<notin> set (snap_ids snap)) (dict_keys prev)"
  by (simp add: diff_def)

lemma absent_in_prev: "\<forall>i\<in>set (absent_ids (diff prev snap epoch ts)). map_of prev i \<noteq> None"
  by (auto simp: absent_ids_diff map_of_eq_None_iff)

lemma snapshot_upserts_lookup: "map_of (snapshot_upserts snap) i = map_option lot_entry (map_of (snap_lots snap) i)"
  by (simp add: snapshot_upserts_def map_of_map_snd)

lemma snapshot_upserts_keys [simp]: "dict_keys (snapshot_upserts snap) = snap_ids snap"
  by (simp add: snapshot_upserts_def snap_ids_def comp_def case_prod_beta)

text \<open>The plan of a diffing poll: which events and which batch.\<close>

lemma diff_plan_cases:
  assumes "diff_plan cl src clk snap prev epoch = Inr (es, b)"
  defines "ripe \<equiv> ripe_ids (cs_disappear_polls src) prev snap"
  obtains gone where "es = diff_events (diff prev snap epoch (clk 0)) @ gone"
    and "map aggregate_id gone = map str_int ripe"
    and "\<And>e. e \<in> set gone \<Longrightarrow> \<exists>i\<in>set ripe. \<exists>k rc. e = gone_event (cs_category src) epoch (clk k) i rc"
    and "b = \<lparr>lb_category = cs_category src, lb_epoch = epoch,
              lb_upserts = dict_update (snapshot_upserts snap) (map (\<lambda>i. (i, bumped prev i))
                 (filter (\<lambda>i. \<not> cs_disappear_polls src \<le> misses prev i) (absent_ids (diff prev snap epoch (clk 0))))),
              lb_drops = ripe\<rparr>"
proof -
  let ?d = "diff prev snap epoch (clk 0)" and ?p = "cs_disappear_polls src"
  let ?ups = "dict_update (snapshot_upserts snap) (map (\<lambda>i. (i, bumped prev i)) (filter (\<lambda>i. \<not> ?p \<le> misses prev i) (absent_ids ?d)))"
  have ripe: "filter (\<lambda>i. ?p \<le> misses prev i) (absent_ids ?d) = ripe"
    by (simp add: absent_ids_diff ripe_def ripe_ids_def filter_filter conj_commute)
  have cm: "count_misses ?p prev (absent_ids ?d) [] (snapshot_upserts snap) = Inr (ripe, ?ups)"
    using count_misses_eq [OF absent_in_prev, of ?p] by (simp add: ripe)
  obtain gone where rd: "resolve_disappearances cl src clk (absent_ids ?d) prev epoch (snapshot_upserts snap) = Inr (ripe, gone, ?ups)"
    and es: "es = diff_events ?d @ gone"
    and b: "b = \<lparr>lb_category = cs_category src, lb_epoch = epoch, lb_upserts = ?ups, lb_drops = ripe\<rparr>"
  proof (cases "ripe = []")
    case True
    then have "resolve_disappearances cl src clk (absent_ids ?d) prev epoch (snapshot_upserts snap) = Inr (ripe, [], ?ups)"
      by (simp add: resolve_disappearances_def cm)
    with assms(1) True that show ?thesis by (simp add: diff_plan_def Let_def)
  next
    case False
    with assms(1) that show ?thesis
      by (auto simp: diff_plan_def Let_def resolve_disappearances_def cm bind_result_Inr_iff)
  qed
  have "map aggregate_id gone = map str_int ripe
      \<and> (\<forall>e\<in>set gone. \<exists>i\<in>set ripe. \<exists>k rc. e = gone_event (cs_category src) epoch (clk k) i rc)"
  proof (cases "ripe = []")
    case True
    then show ?thesis using rd by (simp add: resolve_disappearances_def cm)
  next
    case False
    then obtain r where r: "confirm_resolve (get_lots_batch cl) (cs_confirm_cap src) ripe = Inr r"
      and g: "gone_events (cs_category src) epoch clk 1 (cr_resolved r) ripe = Inr gone"
      using rd by (auto simp: resolve_disappearances_def cm bind_result_Inr_iff)
    have "\<forall>i\<in>set ripe. map_of (cr_resolved r) i \<noteq> None"
      using confirm_resolve_total [OF r] by (auto simp: map_of_eq_None_iff)
    from gone_events_eq [OF this] g
    have gone: "gone = map (\<lambda>(j, i). gone_event (cs_category src) epoch (clk j) i (the (map_of (cr_resolved r) i)))
        (zip [1..<1 + length ripe] ripe)" by auto
    have "map aggregate_id gone = map (\<lambda>p. str_int (snd p)) (zip [1..<1 + length ripe] ripe)"
      by (simp add: gone case_prod_beta gone_event_def comp_def)
    also have "\<dots> = map str_int ripe"
      by (metis (no_types, lifting) map_map comp_apply length_upt diff_add_inverse map_snd_zip map_cong)
    finally have agg: "map aggregate_id gone = map str_int ripe" .
    moreover have "\<exists>i\<in>set ripe. \<exists>k rc. e = gone_event (cs_category src) epoch (clk k) i rc" if "e \<in> set gone" for e
    proof -
      from that obtain j i where "(j, i) \<in> set (zip [1..<1 + length ripe] ripe)"
        and "e = gone_event (cs_category src) epoch (clk j) i (the (map_of (cr_resolved r) i))"
        unfolding gone by auto
      then show ?thesis by (blast dest: set_zip_rightD)
    qed
    ultimately show ?thesis by blast
  qed
  with es b that show ?thesis by blast
qed

lemma dict_keys_update_set: "set (dict_keys (dict_update d e)) = set (dict_keys d) \<union> set (dict_keys e)"
  by simp

lemma diff_plan_batch:
  assumes plan: "diff_plan cl src clk snap prev epoch = Inr (es, b)"
    and "dict_ok prev" "dict_ok (snap_lots snap)"
  shows "batch_ok b" "lb_category b = cs_category src" "lb_epoch b = epoch"
    and "batch_lookup b (map_of prev) i = next_entry (cs_disappear_polls src) snap i (map_of prev i)"
proof -
  let ?p = "cs_disappear_polls src"
  let ?low = "filter (\<lambda>i. \<not> ?p \<le> misses prev i) (absent_ids (diff prev snap epoch (clk 0)))"
  let ?ups = "dict_update (snapshot_upserts snap) (map (\<lambda>i. (i, bumped prev i)) ?low)"
  from diff_plan_cases [OF plan]
  have b: "b = \<lparr>lb_category = cs_category src, lb_epoch = epoch, lb_upserts = ?ups, lb_drops = ripe_ids ?p prev snap\<rparr>"
    by metis
  then show "lb_category b = cs_category src" "lb_epoch b = epoch" by simp_all
  have up0: "dict_ok (snapshot_upserts snap)" using assms(3) by (simp add: dict_ok_def snap_ids_def)
  have keys: "set (dict_keys ?ups) = set (snap_ids snap) \<union> set ?low"
    by (simp only: dict_keys_update_set snapshot_upserts_keys) (simp add: comp_def)
  show "batch_ok b" unfolding batch_ok_def b
    using up0 keys by (auto simp: ripe_ids_def absent_ids_diff)
  have up: "map_of ?ups i = (if i \<in> set ?low then Some (bumped prev i) else map_option lot_entry (map_of (snap_lots snap) i))"
    by (simp only: map_of_dict_update_const snapshot_upserts_lookup)
  show "batch_lookup b (map_of prev) i = next_entry ?p snap i (map_of prev i)"
  proof (cases "map_of (snap_lots snap) i")
    case (Some l)
    then have "i \<in> set (snap_ids snap)" by (force simp: snap_ids_def dest: map_of_SomeD)
    then have "i \<notin> set ?low" "i \<notin> set (ripe_ids ?p prev snap)" by (auto simp: absent_ids_diff ripe_ids_def)
    then show ?thesis by (auto simp: b batch_lookup_def up next_entry_def Some)
  next
    case None
    then have out: "i \<notin> set (snap_ids snap)" by (simp add: snap_ids_def map_of_eq_None_iff)
    show ?thesis
    proof (cases "map_of prev i")
      case None': None
      then have "i \<notin> set (dict_keys prev)" by (simp add: map_of_eq_None_iff)
      then have "i \<notin> set ?low" "i \<notin> set (ripe_ids ?p prev snap)" by (auto simp: absent_ids_diff ripe_ids_def)
      then show ?thesis by (simp add: b batch_lookup_def up next_entry_def None None')
    next
      case (Some e)
      then have m: "misses prev i = miss_count e + 1" and bu: "bumped prev i = e\<lparr>miss_count := miss_count e + 1\<rparr>"
        by (simp_all add: misses_def bumped_def)
      have "i \<in> set (dict_keys prev)" using Some by (force dest: map_of_SomeD)
      then have "i \<in> set (ripe_ids ?p prev snap) \<longleftrightarrow> ?p \<le> miss_count e + 1"
        and "i \<in> set ?low \<longleftrightarrow> \<not> ?p \<le> miss_count e + 1"
        using out by (simp_all add: ripe_ids_def absent_ids_diff m)
      then show ?thesis using bu by (auto simp: b batch_lookup_def up next_entry_def None Some)
    qed
  qed
qed

text \<open>Aggregates are numerals of distinct ids: one event per lot, disappearances included.\<close>

lemma inj_str_int: "inj str_int"
  by (auto simp: inj_def str_int_inj)

lemma diff_plan_one_event_per_lot:
  assumes plan: "diff_plan cl src clk snap prev epoch = Inr (es, b)"
    and "dict_ok prev" "dict_ok (snap_lots snap)"
  shows "distinct (map aggregate_id es)"
proof -
  let ?p = "cs_disappear_polls src" and ?d = "diff_events (diff prev snap epoch (clk 0))"
  from diff_plan_cases [OF plan] obtain gone where es: "es = ?d @ gone"
    and g: "map aggregate_id gone = map str_int (ripe_ids ?p prev snap)" by metis
  have d: "distinct (map aggregate_id ?d)" "set (map aggregate_id ?d) \<subseteq> str_int ` set (snap_ids snap)"
    using diff_lots_one_per_lot [OF assms(3)] diff_lots_aggregates [of prev epoch "clk 0" "snap_lots snap"]
    by (simp_all add: diff_def snap_ids_def)
  have "distinct (ripe_ids ?p prev snap)" using assms(2) by (simp add: ripe_ids_def dict_ok_def)
  then have "distinct (map aggregate_id gone)" by (simp add: g distinct_map inj_on_subset [OF inj_str_int])
  moreover have "set (map aggregate_id ?d) \<inter> set (map aggregate_id gone) = {}"
    using d(2) by (auto simp: g ripe_ids_def str_int_inj simp del: set_map) (auto simp: str_int_inj)
  ultimately show ?thesis using d(1) by (simp add: es)
qed

text \<open>A lot whose state the baseline holds emits nothing, and with no lot absent the poll is silent.\<close>

lemma diff_plan_silent:
  assumes "diff_plan cl src clk snap prev epoch = Inr (es, b)"
    and "\<forall>(i, l)\<in>set (snap_lots snap). map_of prev i = Some (lot_entry l)"
    and "set (dict_keys prev) \<subseteq> set (snap_ids snap)"
  shows "es = []"
proof -
  from diff_plan_cases [OF assms(1)] obtain gone where es: "es = diff_events (diff prev snap epoch (clk 0)) @ gone"
    and g: "map aggregate_id gone = map str_int (ripe_ids (cs_disappear_polls src) prev snap)" by metis
  have "ripe_ids (cs_disappear_polls src) prev snap = []" using assms(3) by (auto simp: ripe_ids_def filter_empty_conv)
  moreover have "diff_lots prev epoch (clk 0) (snap_lots snap) = []"
    by (rule diff_lots_silent) (use assms(2) in \<open>auto simp: lot_entry_def\<close>)
  ultimately show ?thesis using g by (simp add: es diff_def)
qed

text \<open>Only the ripe lots are reported as gone.\<close>

definition reports_gone :: "item_id \<Rightarrow> domain_event list \<Rightarrow> bool" where
  "reports_gone i es \<longleftrightarrow> list_ex (\<lambda>e. ev_type e = LOT_DISAPPEARED \<and> aggregate_id e = str_int i) es"

lemma diff_events_not_gone: "e \<in> set (diff_events (diff prev snap epoch ts)) \<Longrightarrow> ev_type e \<noteq> LOT_DISAPPEARED"
  by (auto simp: diff_def diff_lots_set elim!: firesE)

lemma diff_plan_reports_gone:
  assumes "diff_plan cl src clk snap prev epoch = Inr (es, b)"
  shows "reports_gone i es \<longleftrightarrow> i \<in> set (ripe_ids (cs_disappear_polls src) prev snap)"
proof -
  let ?ripe = "ripe_ids (cs_disappear_polls src) prev snap"
  from diff_plan_cases [OF assms] obtain gone where es: "es = diff_events (diff prev snap epoch (clk 0)) @ gone"
    and g: "map aggregate_id gone = map str_int ?ripe"
    and all: "\<And>e. e \<in> set gone \<Longrightarrow> \<exists>i\<in>set ?ripe. \<exists>k rc. e = gone_event (cs_category src) epoch (clk k) i rc" by metis
  have gone: "ev_type e = LOT_DISAPPEARED" if "e \<in> set gone" for e
    using all [OF that] by (auto simp: gone_event_def)
  have "reports_gone i es \<longleftrightarrow> (\<exists>e\<in>set gone. aggregate_id e = str_int i)"
    unfolding reports_gone_def es list_ex_iff set_append using gone diff_events_not_gone by blast
  then have "reports_gone i es \<longleftrightarrow> str_int i \<in> set (map aggregate_id gone)"
    unfolding set_map by (metis image_iff)
  then show ?thesis by (auto simp: g str_int_inj simp del: set_map) (auto simp: str_int_inj)
qed

text \<open>An item that the client does not list.\<close>

definition absent_in :: "category_source \<Rightarrow> item_id \<Rightarrow> catalog_client \<times> (nat \<Rightarrow> datetime) \<Rightarrow> bool" where
  "absent_in src i p \<longleftrightarrow>
     (case list_lots (fst p) (cs_category src) (cs_limit src) of
        Inl x \<Rightarrow> False | Inr lots \<Rightarrow> i \<notin> lot_item_id ` set lots)"

context source_stores
begin

text \<open>A category with a baseline: what a poll that returns leaves.\<close>

lemma category_poll_done:
  assumes ok: "log_ok (ss_log s)" and has: "log_has (ss_log s) (cs_category src)"
    and poll: "category_poll sops cl src clk s = (Inr n, s')"
  obtains lots es b where "list_lots cl (cs_category src) (cs_limit src) = Inr lots"
    and "category_plan sops cl src clk (ss_log s) = Inr (es, b, n)"
    and "diff_plan cl src clk (from_lots (cs_category src) lots) (log_baseline (ss_log s) (cs_category src))
           (log_epoch (ss_log s) (cs_category src) + 1) = Inr (es, b)"
    and "n = int (length es)" and "log_ok (ss_log s')"
    and "event_id ` set (contents (ss_log s')) = event_id ` set (contents (ss_log s)) \<union> event_id ` set es"
    and "\<And>i. map_of (log_baseline (ss_log s') (cs_category src)) i
           = next_entry (cs_disappear_polls src) (from_lots (cs_category src) lots) i
               (map_of (log_baseline (ss_log s) (cs_category src)) i)"
    and "\<And>c. log_epoch (ss_log s') c = (if c = cs_category src then log_epoch (ss_log s) c + 1 else log_epoch (ss_log s) c)"
    and "\<And>c. log_has (ss_log s') c = log_has (ss_log s) c"
    and "\<And>c. c \<noteq> cs_category src \<Longrightarrow> map_of (log_baseline (ss_log s') c) = map_of (log_baseline (ss_log s) c)"
    and "ss_cursors s' = ss_cursors s" and "ss_seen s' = ss_seen s"
proof -
  let ?c = "cs_category src"
  obtain es b where plan: "category_plan sops cl src clk (ss_log s) = Inr (es, b, n)"
    and snd: "\<exists>k. send sops es b s = (Inr k, s')"
    using poll by (auto simp: category_poll_def split: sum.splits prod.splits)
  then obtain k where send: "send sops es b s = (Inr k, s')" by blast
  obtain lots where lots: "list_lots cl ?c (cs_limit src) = Inr lots"
    and dp: "diff_plan cl src clk (from_lots ?c lots) (log_baseline (ss_log s) ?c) (log_epoch (ss_log s) ?c + 1) = Inr (es, b)"
    and n: "n = int (length es)"
    using plan has by (auto simp: category_plan_def fetch_snapshot_def bind_result_Inr_iff Let_def)
  note batch = diff_plan_batch [OF dp log_dict [OF ok] from_lots_ok]
  note sd = send_done [OF send ok]
  show thesis
  proof (rule that [OF lots plan dp n sd(1) sd(3)])
    show "map_of (log_baseline (ss_log s') ?c) i = next_entry (cs_disappear_polls src) (from_lots ?c lots) i
               (map_of (log_baseline (ss_log s) ?c) i)" for i
      using sd(6) [OF batch(1), of ?c] batch(2,4) by simp
    show "log_epoch (ss_log s') c = (if c = ?c then log_epoch (ss_log s) c + 1 else log_epoch (ss_log s) c)" for c
      using sd(5) [of c] batch(2,3) by simp
    show "log_has (ss_log s') c = log_has (ss_log s) c" for c
      using sd(4) [of c] batch(2) has by auto
    show "c \<noteq> ?c \<Longrightarrow> map_of (log_baseline (ss_log s') c) = map_of (log_baseline (ss_log s) c)" for c
      using sd(6) [OF batch(1), of c] batch(2) by simp
    show "ss_cursors s' = ss_cursors s" "ss_seen s' = ss_seen s" using sd(8,9) .
  qed
qed

lemma absent_poll:
  assumes "log_ok (ss_log s)" "log_has (ss_log s) (cs_category src)" "absent_in src i (cl, clk)"
    and "category_plan sops cl src clk (ss_log s) = Inr (es, b, m)" "category_poll sops cl src clk s = (Inr n, s')"
  shows "log_ok (ss_log s')" "log_has (ss_log s') (cs_category src)"
    and "map_of (log_baseline (ss_log s') (cs_category src)) i =
       (case map_of (log_baseline (ss_log s) (cs_category src)) i of
          None \<Rightarrow> None
        | Some e \<Rightarrow> if cs_disappear_polls src \<le> miss_count e + 1 then None else Some (e\<lparr>miss_count := miss_count e + 1\<rparr>))"
    and "reports_gone i es \<longleftrightarrow>
       (\<exists>e. map_of (log_baseline (ss_log s) (cs_category src)) i = Some e \<and> cs_disappear_polls src \<le> miss_count e + 1)"
proof -
  let ?c = "cs_category src"
  obtain lots es' b' where lots: "list_lots cl ?c (cs_limit src) = Inr lots"
    and plan: "category_plan sops cl src clk (ss_log s) = Inr (es', b', n)"
    and dp: "diff_plan cl src clk (from_lots ?c lots) (log_baseline (ss_log s) ?c) (log_epoch (ss_log s) ?c + 1) = Inr (es', b')"
    and "log_ok (ss_log s')" "\<And>c. log_has (ss_log s') c = log_has (ss_log s) c"
    and new: "map_of (log_baseline (ss_log s') ?c) i
           = next_entry (cs_disappear_polls src) (from_lots ?c lots) i (map_of (log_baseline (ss_log s) ?c) i)"
    by (rule category_poll_done [OF assms(1,2,5)]) blast
  then show "log_ok (ss_log s')" "log_has (ss_log s') ?c" using assms(2) by simp_all
  have out: "i \<notin> set (snap_ids (from_lots ?c lots))"
    using assms(3) lots by (simp add: absent_in_def snap_ids_from_lots)
  then have "map_of (snap_lots (from_lots ?c lots)) i = None" by (simp add: snap_ids_def map_of_eq_None_iff)
  then show "map_of (log_baseline (ss_log s') ?c) i =
       (case map_of (log_baseline (ss_log s) ?c) i of
          None \<Rightarrow> None
        | Some e \<Rightarrow> if cs_disappear_polls src \<le> miss_count e + 1 then None else Some (e\<lparr>miss_count := miss_count e + 1\<rparr>))"
    by (simp add: new next_entry_def)
  have "es = es'" using assms(4) plan by simp
  then have "reports_gone i es \<longleftrightarrow> i \<in> set (ripe_ids (cs_disappear_polls src) (log_baseline (ss_log s) ?c) (from_lots ?c lots))"
    using diff_plan_reports_gone [OF dp] by simp
  also have "\<dots> \<longleftrightarrow> (\<exists>e. map_of (log_baseline (ss_log s) ?c) i = Some e \<and> cs_disappear_polls src \<le> miss_count e + 1)"
    using out by (cases "map_of (log_baseline (ss_log s) ?c) i")
      (auto simp: ripe_ids_def misses_def map_of_eq_None_iff dest: map_of_SomeD intro: rev_image_eqI)
  finally show "reports_gone i es \<longleftrightarrow>
       (\<exists>e. map_of (log_baseline (ss_log s) ?c) i = Some e \<and> cs_disappear_polls src \<le> miss_count e + 1)" .
qed

lemma category_run_Cons:
  assumes "category_run sops src (p # ps) s = Some (ess, s')"
  obtains es b m n s1 ess1 where "category_plan sops (fst p) src (snd p) (ss_log s) = Inr (es, b, m)"
    and "category_poll sops (fst p) src (snd p) s = (Inr n, s1)"
    and "category_run sops src ps s1 = Some (ess1, s')" "ess = es # ess1"
  using assms by (cases p) (auto split: sum.splits prod.splits)

lemma forgotten_run:
  assumes "log_ok (ss_log s)" "log_has (ss_log s) (cs_category src)" "list_all (absent_in src i) ps"
    and "category_run sops src ps s = Some (ess, s')"
    and "map_of (log_baseline (ss_log s) (cs_category src)) i = None"
  shows "map_of (log_baseline (ss_log s') (cs_category src)) i = None \<and> length ess = length ps
    \<and> (\<forall>es\<in>set ess. \<not> reports_gone i es)"
  using assms
proof (induction ps arbitrary: s ess)
  case (Cons p ps)
  obtain es b m n s1 ess1 where plan: "category_plan sops (fst p) src (snd p) (ss_log s) = Inr (es, b, m)"
    and poll: "category_poll sops (fst p) src (snd p) s = (Inr n, s1)"
    and run: "category_run sops src ps s1 = Some (ess1, s')" and ess: "ess = es # ess1"
    using category_run_Cons [OF Cons.prems(4)] by metis
  have "absent_in src i (fst p, snd p)" using Cons.prems(3) by simp
  note step = absent_poll [OF Cons.prems(1,2) this plan poll]
  from Cons.IH [OF step(1,2) _ run] step(3,4) Cons.prems(3,5) show ?case by (simp add: ess)
qed simp

text \<open>
  An item absent from every poll: the counter rises by one each time, and the poll that lets it reach
  the threshold is the one that reports the item.
\<close>

lemma absent_run:
  assumes "log_ok (ss_log s)" "log_has (ss_log s) (cs_category src)" "list_all (absent_in src i) ps"
    and "category_run sops src ps s = Some (ess, s')"
    and "map_of (log_baseline (ss_log s) (cs_category src)) i = Some b"
    and "miss_count b < cs_disappear_polls src"
  shows "map_of (log_baseline (ss_log s') (cs_category src)) i =
       (if miss_count b + int (length ps) < cs_disappear_polls src
        then Some (b\<lparr>miss_count := miss_count b + int (length ps)\<rparr>) else None)
    \<and> length ess = length ps
    \<and> (\<forall>k<length ps. reports_gone i (ess ! k) \<longleftrightarrow> miss_count b + int k + 1 = cs_disappear_polls src)"
  using assms
proof (induction ps arbitrary: s ess b)
  case (Cons p ps)
  obtain es bt m n s1 ess1 where plan: "category_plan sops (fst p) src (snd p) (ss_log s) = Inr (es, bt, m)"
    and poll: "category_poll sops (fst p) src (snd p) s = (Inr n, s1)"
    and run: "category_run sops src ps s1 = Some (ess1, s')" and ess: "ess = es # ess1"
    using category_run_Cons [OF Cons.prems(4)] by metis
  have ab: "absent_in src i (fst p, snd p)" "list_all (absent_in src i) ps" using Cons.prems(3) by simp_all
  note step = absent_poll [OF Cons.prems(1,2) ab(1) plan poll]
  show ?case
  proof (cases "cs_disappear_polls src \<le> miss_count b + 1")
    case True
    then have "miss_count b + 1 = cs_disappear_polls src" using Cons.prems(6) by simp
    moreover from True have "map_of (log_baseline (ss_log s1) (cs_category src)) i = None" "reports_gone i es"
      using step(3,4) Cons.prems(5) by simp_all
    ultimately show ?thesis using forgotten_run [OF step(1,2) ab(2) run]
      by (auto simp: ess nth_Cons' less_Suc_eq_0_disj)
  next
    case False
    let ?b = "b\<lparr>miss_count := miss_count b + 1\<rparr>"
    have "map_of (log_baseline (ss_log s1) (cs_category src)) i = Some ?b" "\<not> reports_gone i es"
      using step(3,4) Cons.prems(5) False by simp_all
    then show ?thesis using Cons.IH [OF step(1,2) ab(2) run, of ?b] False
      by (auto simp: ess nth_Cons' less_Suc_eq_0_disj add.assoc)
  qed
qed simp

text \<open>A cold start and the poll after it, when the client lists the same lots.\<close>

lemma bootstrap_then_quiet:
  assumes "log_ok (ss_log s)" "\<not> log_has (ss_log s) (cs_category src)" "log_baseline (ss_log s) (cs_category src) = []"
    and "list_lots cl (cs_category src) (cs_limit src) = Inr lots" "list_lots cl' (cs_category src) (cs_limit src) = Inr lots"
    and poll: "category_poll sops cl src clk s = (Inr n, s1)"
    and plan2: "category_plan sops cl' src clk' (ss_log s1) = Inr (es2, b2, m2)"
  shows "n = 0 \<and> es2 = [] \<and> log_epoch (ss_log s1) (cs_category src) = log_epoch (ss_log s) (cs_category src) + 1
    \<and> event_id ` set (contents (ss_log s1)) = event_id ` set (contents (ss_log s))
        \<union> {make_event_id (cs_category src) SNAPSHOT_INITIALIZED
             (''bootstrap:'' @ str_int (int (length (snap_ids (from_lots (cs_category src) lots)))))
             (log_epoch (ss_log s) (cs_category src) + 1)}"
proof -
  let ?c = "cs_category src" and ?snap = "from_lots (cs_category src) lots"
  obtain es b where bp: "bootstrap_plan src clk ?snap (log_epoch (ss_log s) ?c + 1) = (es, b)" by fastforce
  then obtain k where send: "send sops es b s = (Inr k, s1)" and n: "n = 0"
    using poll assms(2,4)
    by (auto simp: category_poll_def category_plan_def fetch_snapshot_def Let_def split: sum.splits prod.splits)
  have b: "b = \<lparr>lb_category = ?c, lb_epoch = log_epoch (ss_log s) ?c + 1, lb_upserts = snapshot_upserts ?snap, lb_drops = []\<rparr>"
    and es: "event_id ` set es = {make_event_id ?c SNAPSHOT_INITIALIZED (''bootstrap:'' @ str_int (int (length (snap_ids ?snap))))
             (log_epoch (ss_log s) ?c + 1)}"
    using bp by (auto simp: bootstrap_plan_def Let_def snapshot_upserts_def snap_ids_def)
  have bok: "batch_ok b"
    using from_lots_ok [of ?c lots] by (simp add: b batch_ok_def dict_ok_def snap_ids_def)
  note sd = send_done [OF send assms(1)]
  have base: "map_of (log_baseline (ss_log s1) ?c) i = map_option lot_entry (map_of (snap_lots ?snap) i)" for i
    using sd(6) [OF bok, of ?c] assms(3) by (simp add: b batch_lookup_def snapshot_upserts_lookup split: option.splits)
  have dp: "diff_plan cl' src clk' ?snap (log_baseline (ss_log s1) ?c) (log_epoch (ss_log s1) ?c + 1) = Inr (es2, b2)"
    using plan2 assms(5) sd(4) [of ?c]
    by (auto simp: category_plan_def fetch_snapshot_def Let_def bind_result_Inr_iff b)
  have "es2 = []"
  proof (rule diff_plan_silent [OF dp])
    show "\<forall>(i, l)\<in>set (snap_lots ?snap). map_of (log_baseline (ss_log s1) ?c) i = Some (lot_entry l)"
      using map_of_mem_dict [OF from_lots_ok [of ?c lots]] by (auto simp: base)
    show "set (dict_keys (log_baseline (ss_log s1) ?c)) \<subseteq> set (snap_ids ?snap)"
    proof
      fix i assume "i \<in> set (dict_keys (log_baseline (ss_log s1) ?c))"
      then have "map_of (log_baseline (ss_log s1) ?c) i \<noteq> None" unfolding map_of_eq_None_iff by simp
      then have "map_of (snap_lots ?snap) i \<noteq> None" by (simp add: base)
      then show "i \<in> set (snap_ids ?snap)" by (simp add: snap_ids_def map_of_eq_None_iff)
    qed
  qed
  then show ?thesis using sd(3) sd(5) [of ?c] n by (simp add: es b)
qed

end

subsection \<open>Properties\<close>

text \<open>C11: One poll of a category that has a baseline moves the durable baseline of every item as
  specified: a listed lot is stored with its price and hash and no miss, an absent one has its miss
  counter bumped, or is dropped when the counter reaches the threshold. The poll epoch advances by
  one, the sent events (one per lot at most) are in the log, and the other categories are untouched.\<close>

theorem category_poll_effect:
  assumes "el_ok (ss_log s)" "db_has_baseline (el_baseline (ss_log s)) (cs_category src)"
    and "list_lots cl (cs_category src) (cs_limit src) = Inr lots"
    and "category_poll sql_source_ops cl src clk s = (Inr n, s')"
  shows "map_of (db_get_baseline (el_baseline (ss_log s')) (cs_category src)) i
      = next_entry (cs_disappear_polls src) (from_lots (cs_category src) lots) i
          (map_of (db_get_baseline (el_baseline (ss_log s)) (cs_category src)) i)
    \<and> db_get_poll_epoch (el_baseline (ss_log s')) c
      = (if c = cs_category src then db_get_poll_epoch (el_baseline (ss_log s)) c + 1 else db_get_poll_epoch (el_baseline (ss_log s)) c)
    \<and> (\<exists>es b. category_plan sql_source_ops cl src clk (ss_log s) = Inr (es, b, n) \<and> n = int (length es)
         \<and> distinct (map aggregate_id es) \<and> batch_ok b
         \<and> event_id ` set (el_contents (ss_log s')) = event_id ` set (el_contents (ss_log s)) \<union> event_id ` set es)
    \<and> (c \<noteq> cs_category src \<longrightarrow> map_of (db_get_baseline (el_baseline (ss_log s')) c) = map_of (db_get_baseline (el_baseline (ss_log s)) c))"
proof -
  have d: "dict_ok (db_get_baseline (el_baseline (ss_log s)) (cs_category src))"
    using ssrc.log_dict [OF assms(1)] by simp
  show ?thesis
    by (rule ssrc.category_poll_done [OF assms(1,2) assms(4) [folded sql_source_ops_eq]])
      (use assms(3) in \<open>auto simp: sql_source_ops_eq dest: diff_plan_batch(1) [OF _ d from_lots_ok]
          diff_plan_one_event_per_lot [OF _ d from_lots_ok]\<close>)
qed

definition example_source :: category_source where
  "example_source = new_category_source ''steam'' 2 1 10 5"

definition example_state :: "(event_db, cursor_table, memory_seen) source_state" where
  "example_state = \<lparr>ss_log = el_init\<lparr>el_baseline :=
       \<lparr>db_last_seen = [((''steam'', 7), \<lparr>be_price = Decimal 5 0, be_hash = ''h'', miss_count = 0\<rparr>)],
        db_poll_epoch = [(''steam'', 4)]\<rparr>\<rparr>, ss_cursors = [], ss_seen = [], ss_notified = 0\<rparr>"

definition empty_client :: catalog_client where
  "empty_client = \<lparr>list_lots = (\<lambda>c n. Inr []), get_lots_batch = (\<lambda>ids. Inr [])\<rparr>"

lemma example_state_ok: "el_ok (ss_log example_state)"
  by (simp add: example_state_def el_ok_def el_init_def rows_ok_def db_ok_def dict_ok_def)

lemmas poll_eval = category_poll_def category_plan_def fetch_snapshot_def diff_plan_def
  resolve_disappearances_def send_def el_append_def db_apply_def db_has_baseline_def db_get_baseline_def
  db_get_poll_epoch_def snapshot_upserts_def from_lots_def diff_def snap_ids_def batch_fits_def rows_max_def
  confirm_resolve_def checked_reason_def lot_states_def Let_def

theorem category_poll_effect_witness:
  "\<exists>s'. category_poll sql_source_ops empty_client example_source (\<lambda>k. the (from_timestamp_utc 0)) example_state = (Inr 0, s')
     \<and> map_of (db_get_baseline (el_baseline (ss_log s')) ''steam'') 7
         = Some \<lparr>be_price = Decimal 5 0, be_hash = ''h'', miss_count = 1\<rparr>"
proof -
  have "\<exists>s'. category_poll sql_source_ops empty_client example_source (\<lambda>k. the (from_timestamp_utc 0)) example_state = (Inr 0, s')"
    by (simp add: poll_eval example_source_def new_category_source_def example_state_def empty_client_def el_init_def)
  then obtain s' where "category_poll sql_source_ops empty_client example_source (\<lambda>k. the (from_timestamp_utc 0)) example_state = (Inr 0, s')"
    by blast
  with category_poll_effect [OF example_state_ok _ _ this, of "[]" 7]
  show ?thesis
    by (simp add: example_state_def example_source_def new_category_source_def empty_client_def db_has_baseline_def
        next_entry_def from_lots_def db_get_baseline_def)
qed

text \<open>A lot that vanishes is reported once and at the right time: while every poll succeeds without
  listing it, its counter rises by one per poll, the poll with the configured number of misses is the
  only one that sends a \<open>LotDisappeared\<close> for it, and from then on the baseline has forgotten it.\<close>

theorem disappearance_reported_once:
  assumes "el_ok (ss_log s)" "db_has_baseline (el_baseline (ss_log s)) (cs_category src)"
    and "list_all (absent_in src i) ps" "category_run sql_source_ops src ps s = Some (ess, s')"
    and "map_of (db_get_baseline (el_baseline (ss_log s)) (cs_category src)) i = Some b"
    and "miss_count b = 0" "0 < cs_disappear_polls src"
  shows "map_of (db_get_baseline (el_baseline (ss_log s')) (cs_category src)) i
      = (if int (length ps) < cs_disappear_polls src then Some (b\<lparr>miss_count := int (length ps)\<rparr>) else None)
    \<and> length ess = length ps
    \<and> (\<forall>k<length ps. reports_gone i (ess ! k) \<longleftrightarrow> int k + 1 = cs_disappear_polls src)"
  using ssrc.absent_run [OF assms(1-3) assms(4) [folded sql_source_ops_eq] assms(5)] assms(6,7) by simp

theorem disappearance_reported_once_witness:
  "\<exists>ess s'. category_run sql_source_ops example_source
       [(empty_client, \<lambda>k. the (from_timestamp_utc 0)), (empty_client, \<lambda>k. the (from_timestamp_utc 0))] example_state = Some (ess, s')
     \<and> \<not> reports_gone 7 (ess ! 0) \<and> reports_gone 7 (ess ! 1)"
proof -
  let ?ps = "[(empty_client, \<lambda>k :: nat. the (from_timestamp_utc 0)), (empty_client, \<lambda>k. the (from_timestamp_utc 0))]"
  have "\<exists>ess s'. category_run sql_source_ops example_source ?ps example_state = Some (ess, s')"
    by (simp add: poll_eval example_source_def new_category_source_def example_state_def empty_client_def el_init_def
        gone_event_def event_fits_def str_int_def nat_digits.simps)
  then obtain ess s' where run: "category_run sql_source_ops example_source ?ps example_state = Some (ess, s')" by blast
  have "\<forall>k<length ?ps. reports_gone 7 (ess ! k) \<longleftrightarrow> int k + 1 = cs_disappear_polls example_source"
    using disappearance_reported_once [OF example_state_ok _ _ run, of 7]
    by (simp add: example_state_def example_source_def new_category_source_def empty_client_def db_has_baseline_def
        absent_in_def db_get_baseline_def)
  with run show ?thesis by (auto simp: example_source_def new_category_source_def)
qed

text \<open>A cold start does not flood: the first poll of a category with nothing stored sends the one
  marker event with the number of lots, stores the baseline and returns 0, and if the next poll lists
  the same lots it sends nothing.\<close>

theorem cold_start_then_quiet:
  assumes "el_ok (ss_log s)" "\<not> db_has_baseline (el_baseline (ss_log s)) (cs_category src)"
    and "db_get_baseline (el_baseline (ss_log s)) (cs_category src) = []"
    and "list_lots cl (cs_category src) (cs_limit src) = Inr lots" "list_lots cl' (cs_category src) (cs_limit src) = Inr lots"
    and "category_poll sql_source_ops cl src clk s = (Inr n, s1)"
    and "category_plan sql_source_ops cl' src clk' (ss_log s1) = Inr (es2, b2, m2)"
  shows "n = 0 \<and> es2 = []
    \<and> event_id ` set (el_contents (ss_log s1)) = event_id ` set (el_contents (ss_log s))
        \<union> {make_event_id (cs_category src) SNAPSHOT_INITIALIZED
             (''bootstrap:'' @ str_int (int (length (snap_ids (from_lots (cs_category src) lots)))))
             (db_get_poll_epoch (el_baseline (ss_log s)) (cs_category src) + 1)}"
  using ssrc.bootstrap_then_quiet [OF assms(1-5) assms(6,7) [folded sql_source_ops_eq]] by simp

theorem cold_start_then_quiet_witness:
  "\<exists>s1. category_poll sql_source_ops empty_client example_source (\<lambda>k. the (from_timestamp_utc 0))
        \<lparr>ss_log = el_init, ss_cursors = [], ss_seen = [], ss_notified = 0\<rparr> = (Inr 0, s1)
     \<and> el_contents (ss_log s1) \<noteq> []"
proof -
  let ?s = "\<lparr>ss_log = el_init, ss_cursors = [], ss_seen = [], ss_notified = 0\<rparr> :: (event_db, cursor_table, memory_seen) source_state"
  let ?clk = "\<lambda>k :: nat. the (from_timestamp_utc 0)"
  have "\<exists>s1 es b m. category_poll sql_source_ops empty_client example_source ?clk ?s = (Inr 0, s1)
      \<and> category_plan sql_source_ops empty_client example_source ?clk (ss_log s1) = Inr (es, b, m)"
    by (simp add: poll_eval bootstrap_plan_def example_source_def new_category_source_def empty_client_def el_init_def db_init_def
        event_fits_def str_int_def nat_digits.simps Let_def)
  then obtain s1 es b m where run: "category_poll sql_source_ops empty_client example_source ?clk ?s = (Inr 0, s1)"
    "category_plan sql_source_ops empty_client example_source ?clk (ss_log s1) = Inr (es, b, m)" by blast
  have "event_id ` set (el_contents (ss_log s1)) \<noteq> {}"
    using cold_start_then_quiet [OF _ _ _ _ _ run, of "[]"] el_ok_init
    by (simp add: el_init_def db_init_def db_has_baseline_def db_get_baseline_def empty_client_def)
  with run(1) show ?thesis by auto
qed

text \<open>The confirm queue answers for every id it is given and for no other, and a failing client
  degrades instead of stopping the poll: the first ids up to the cap get the reason of their listed
  state (unknown when the batch request failed or did not return them), the overflow is unknown with
  low confidence; an error of the client library is never raised.\<close>

theorem confirm_total:
  "case confirm_resolve get_lots cap ids of
     Inl x \<Rightarrow> get_lots (take cap ids) = Inl x \<and> \<not> is_lzt_error x
   | Inr r \<Rightarrow> set (dict_keys (cr_resolved r)) = set ids \<and> cr_deferred r = drop cap ids
       \<and> (\<forall>i. map_of (cr_resolved r) i =
            (if i \<in> set (drop cap ids) then Some (UnknownReason, LowConfidence)
             else if i \<in> set (take cap ids) then
               Some (case get_lots (take cap ids) of
                       Inl _ \<Rightarrow> (UnknownReason, LowConfidence)
                     | Inr lots \<Rightarrow> checked_reason (lot_states lots) i)
             else None))"
proof (cases "confirm_resolve get_lots cap ids")
  case (Inl x)
  then show ?thesis by (auto simp: confirm_resolve_def Let_def bind_result_def split: if_splits sum.splits)
next
  case (Inr r)
  have none: "checked_reason (lot_states []) i = (UnknownReason, LowConfidence)" for i
    by (simp add: checked_reason_def lot_states_def resolve_reason_def)
  have "map_of (cr_resolved r) i =
            (if i \<in> set (drop cap ids) then Some (UnknownReason, LowConfidence)
             else if i \<in> set (take cap ids) then
               Some (case get_lots (take cap ids) of
                       Inl _ \<Rightarrow> (UnknownReason, LowConfidence)
                     | Inr lots \<Rightarrow> checked_reason (lot_states lots) i)
             else None)" for i
  proof (rule confirm_resolve_lookup [OF Inr, of i])
    fix lots
    assume l: "map_of (cr_resolved r) i =
       (if i \<in> set (drop cap ids) then Some (UnknownReason, LowConfidence)
        else if i \<in> set (take cap ids) then Some (checked_reason (lot_states lots) i) else None)"
      and g: "take cap ids \<noteq> [] \<Longrightarrow> get_lots (take cap ids) = Inr lots
        \<or> (\<exists>x. get_lots (take cap ids) = Inl x \<and> is_lzt_error x \<and> lots = [])"
    have "i \<in> set (take cap ids) \<Longrightarrow> take cap ids \<noteq> []" by (auto simp del: take_eq_Nil)
    with l g show ?thesis by (auto simp: none simp del: take_eq_Nil)
  qed
  moreover have "cr_deferred r = drop cap ids"
    by (rule confirm_resolve_lookup [OF Inr])
  ultimately show ?thesis using confirm_resolve_total [OF Inr] by (simp add: Inr)
qed

end
