(* ===== verification/Payments_Source.thy ===== *)
theory Payments_Source
  imports Source_Base
begin

text \<open>
  The payments source (\<open>sources/payments.py\<close>): a tick pages backward from the newest operation down to
  the cursor's high-water mark, turns each operation not seen before into its event, sends them oldest
  first and commits the mark. The client is an argument, the \<open>k\<close>-th page request of the tick with its
  \<open>operation_id_lt\<close>; \<open>bucket\<close> is the category whose poll epoch these events share.
\<close>

record payments_page =
  pp_items :: "payment_op list"
  pp_has_more :: bool

type_synonym payments_client = "nat \<Rightarrow> int option \<Rightarrow> payments_page result"

definition max_pages_per_tick :: nat where
  "max_pages_per_tick = 20"

definition operation_hash :: "payment_op \<Rightarrow> string" where
  "operation_hash op =
     sha256_hex (str_int (po_operation_id op) @ '':'' @ po_operation_type op @ '':'' @ dec_str (po_amount op))"

text \<open>The page loop: page number \<open>k\<close>, \<open>left\<close> pages allowed.\<close>

fun collect_pages ::
  "payments_client \<Rightarrow> int \<Rightarrow> bool \<Rightarrow> nat \<Rightarrow> nat \<Rightarrow> int option \<Rightarrow> payment_op list \<Rightarrow> payment_op list result" where
  "collect_pages client low cold k 0 before new_ops = Inr new_ops"
| "collect_pages client low cold k (Suc left) before new_ops =
     bind_result (client k before) (\<lambda>page.
       if pp_items page = [] then Inr new_ops
       else
         (let fresh = takeWhile (\<lambda>op. low < po_operation_id op) (pp_items page);
              reached = (fresh \<noteq> pp_items page);
              new_ops' = new_ops @ fresh
          in if cold then Inr new_ops'
             else if reached \<or> \<not> pp_has_more page then Inr new_ops'
             else collect_pages client low cold (k + 1) left (Some (po_operation_id (last (pp_items page)))) new_ops'))"

definition collect_new_operations :: "payments_client \<Rightarrow> int \<Rightarrow> bool \<Rightarrow> payment_op list result" where
  "collect_new_operations client low cold = collect_pages client low cold 0 max_pages_per_tick None []"

definition highest_id :: "int \<Rightarrow> payment_op list \<Rightarrow> int" where
  "highest_id low ops = foldl max low (map po_operation_id ops)"

text \<open>The loop over the operations, oldest first, with the seen cache it marks.\<close>

fun payment_events ::
  "('l, 'c, 'e) source_ops \<Rightarrow> datetime \<Rightarrow> int \<Rightarrow> payment_op list \<Rightarrow> domain_event list \<Rightarrow> 'e
     \<Rightarrow> domain_event list result \<times> 'e" where
  "payment_events ops ts epoch [] events seen = (Inr events, seen)"
| "payment_events ops ts epoch (op # rest) events seen =
     (let i = po_operation_id op; h = operation_hash op in
      if so_is_seen ops seen i h then payment_events ops ts epoch rest events seen
      else case from_operation op ts h epoch of
             Inl x \<Rightarrow> (Inl x, seen)
           | Inr None \<Rightarrow> payment_events ops ts epoch rest events (so_mark ops i h seen)
           | Inr (Some e) \<Rightarrow> payment_events ops ts epoch rest (events @ [e]) (so_mark ops i h seen))"

definition payments_consumer :: "string \<Rightarrow> string" where
  "payments_consumer token_id = ''payments:'' @ token_id"

definition payments_poll ::
  "('l, 'c, 'e) source_ops \<Rightarrow> payments_client \<Rightarrow> string \<Rightarrow> category \<Rightarrow> datetime
     \<Rightarrow> ('l, 'c, 'e) source_state \<Rightarrow> int result \<times> ('l, 'c, 'e) source_state" where
  "payments_poll ops client token bucket ts s =
     (let st = so_get_cursor ops (ss_cursors s) (payments_consumer token);
          low = last_seq st; cold = (version st = 0) in
      case collect_new_operations client low cold of
        Inl x \<Rightarrow> (Inl x, s)
      | Inr new_ops \<Rightarrow>
          (let highest = highest_id low new_ops;
               epoch = so_poll_epoch ops (ss_log s) bucket + 1 in
           case payment_events ops ts epoch (rev new_ops) [] (ss_seen s) of
             (Inl x, seen) \<Rightarrow> (Inl x, s\<lparr>ss_seen := seen\<rparr>)
           | (Inr events, seen) \<Rightarrow>
               (case send_events ops events (marker_batch bucket epoch) (s\<lparr>ss_seen := seen\<rparr>) of
                  (Inl x, s2) \<Rightarrow> (Inl x, s2)
                | (Inr _, s2) \<Rightarrow>
                    (case commit_mark ops (payments_consumer token) st (low < highest) highest s2 of
                       (Inl x, s3) \<Rightarrow> (Inl x, s3)
                     | (Inr _, s3) \<Rightarrow> (Inr (int (length events)), s3)))))"

subsection \<open>Paging\<close>

lemma takeWhile_above: "op \<in> set (takeWhile (\<lambda>op. low < po_operation_id op) xs) \<Longrightarrow> low < po_operation_id op"
  by (auto dest: set_takeWhileD)

lemma collect_pages_above:
  assumes "collect_pages client low cold k left before acc = Inr ops" "\<forall>op\<in>set acc. low < po_operation_id op"
  shows "\<forall>op\<in>set ops. low < po_operation_id op"
  using assms
proof (induction left arbitrary: k before acc)
  case (Suc left)
  obtain page where page: "client k before = Inr page"
    using Suc.prems(1) by (cases "client k before") simp_all
  define fresh where "fresh = takeWhile (\<lambda>op. low < po_operation_id op) (pp_items page)"
  have above: "\<forall>op\<in>set (acc @ fresh). low < po_operation_id op"
    using Suc.prems(2) takeWhile_above by (auto simp: fresh_def)
  have eq: "collect_pages client low cold k (Suc left) before acc =
     (if pp_items page = [] then Inr acc
      else if cold then Inr (acc @ fresh)
      else if fresh \<noteq> pp_items page \<or> \<not> pp_has_more page then Inr (acc @ fresh)
      else collect_pages client low cold (k + 1) left (Some (po_operation_id (last (pp_items page)))) (acc @ fresh))"
    by (simp only: collect_pages.simps page bind_result_simps Let_def fresh_def)
  show ?case
  proof (cases "\<not> cold \<and> fresh = pp_items page \<and> pp_has_more page \<and> pp_items page \<noteq> []")
    case True
    then have "collect_pages client low cold (k + 1) left (Some (po_operation_id (last (pp_items page)))) (acc @ fresh) = Inr ops"
      using Suc.prems(1) unfolding eq by (simp only: if_True if_False simp_thms not_True_eq_False not_False_eq_True split: if_split_asm)
    from Suc.IH [OF this above] show ?thesis .
  next
    case False
    then have "Inr acc = (Inr ops :: payment_op list result) \<or> Inr (acc @ fresh) = (Inr ops :: payment_op list result)"
      using Suc.prems(1) unfolding eq by (simp only: if_True if_False simp_thms not_True_eq_False not_False_eq_True split: if_split_asm) blast+
    then show ?thesis using Suc.prems(2) above by (metis sum.inject(2))
  qed
qed simp

lemma collected_above: "collect_new_operations client low cold = Inr ops \<Longrightarrow> op \<in> set ops \<Longrightarrow> low < po_operation_id op"
  using collect_pages_above [of client low cold 0 max_pages_per_tick None "[]" ops]
  by (simp add: collect_new_operations_def)

lemma highest_id_props:
  "low \<le> highest_id low ops" "op \<in> set ops \<Longrightarrow> po_operation_id op \<le> highest_id low ops"
  unfolding highest_id_def
  by (induction ops arbitrary: low) (auto intro: order_trans [OF max.cobounded1] order_trans [OF max.cobounded2])

lemma highest_id_le: "low \<le> m \<Longrightarrow> \<forall>op\<in>set ops. po_operation_id op \<le> m \<Longrightarrow> highest_id low ops \<le> m"
  unfolding highest_id_def by (induction ops arbitrary: low) auto

subsection \<open>Events and marks\<close>

definition op_key :: "payment_op \<Rightarrow> int \<times> string" where
  "op_key op = (po_operation_id op, operation_hash op)"

text \<open>The specification of the loop: which operations are handled, and the event of each.\<close>

fun fresh_payments :: "(int \<times> string) set \<Rightarrow> payment_op list \<Rightarrow> payment_op list" where
  "fresh_payments known [] = []"
| "fresh_payments known (op # ops) =
     (if op_key op \<in> known then fresh_payments known ops
      else op # fresh_payments (insert (op_key op) known) ops)"

definition op_events :: "datetime \<Rightarrow> int \<Rightarrow> payment_op \<Rightarrow> domain_event list" where
  "op_events ts epoch op = (case from_operation op ts (operation_hash op) epoch of Inr (Some e) \<Rightarrow> [e] | _ \<Rightarrow> [])"

lemma fresh_payments_keys: "op_key ` set (fresh_payments known ops) = op_key ` set ops - known"
  by (induction known ops rule: fresh_payments.induct) auto

lemma fresh_payments_none: "op_key ` set ops \<subseteq> known \<Longrightarrow> fresh_payments known ops = []"
  by (induction known ops rule: fresh_payments.induct) auto

context source_stores
begin

definition seen_keys :: "'e \<Rightarrow> (int \<times> string) set" where
  "seen_keys e = {(i, h). is_seen e i h}"

lemma seen_keys_mark: "seen_keys (mark_seen i h e) = insert (i, h) (seen_keys e)"
  by (auto simp: seen_keys_def seen.seen_mark)

lemma payment_events_done:
  assumes "payment_events sops ts epoch ops acc e = (Inr events, e')"
  shows "events = acc @ concat (map (op_events ts epoch) (fresh_payments (seen_keys e) ops))
    \<and> seen_keys e' = seen_keys e \<union> op_key ` set ops"
  using assms
proof (induction ops arbitrary: acc e)
  case (Cons op ops)
  have seen: "is_seen e (po_operation_id op) (operation_hash op) \<longleftrightarrow> op_key op \<in> seen_keys e"
    by (simp add: seen_keys_def op_key_def)
  have key: "op_key op = (po_operation_id op, operation_hash op)" by (simp add: op_key_def)
  show ?case
  proof (cases "op_key op \<in> seen_keys e")
    case True
    then show ?thesis using Cons seen by (auto simp: Let_def)
  next
    case False
    let ?e = "mark_seen (po_operation_id op) (operation_hash op) e"
    obtain r where r: "from_operation op ts (operation_hash op) epoch = Inr r"
      and rest: "payment_events sops ts epoch ops (acc @ op_events ts epoch op) ?e = (Inr events, e')"
      using Cons.prems False seen by (auto simp: Let_def op_events_def split: sum.splits option.splits)
    from Cons.IH [OF rest] show ?thesis using False by (simp add: seen_keys_mark key)
  qed
qed simp

lemma payments_poll_done:
  assumes "log_ok (ss_log s)" "cursors_ok (ss_cursors s)" "payments_poll sops client token bucket ts s = (Inr n, s')"
  defines "st \<equiv> get_cursor (ss_cursors s) (payments_consumer token)"
  obtains new_ops events where
    "collect_new_operations client (last_seq st) (version st = 0) = Inr new_ops"
    and "events = concat (map (op_events ts (log_epoch (ss_log s) bucket + 1)) (fresh_payments (seen_keys (ss_seen s)) (rev new_ops)))"
    and "n = int (length events)" "log_ok (ss_log s')"
    and "event_id ` set (contents (ss_log s')) = event_id ` set (contents (ss_log s)) \<union> event_id ` set events"
    and "seen_keys (ss_seen s') = seen_keys (ss_seen s) \<union> op_key ` set new_ops"
    and "last_seq (get_cursor (ss_cursors s') (payments_consumer token)) = highest_id (last_seq st) new_ops"
    and "cursors_ok (ss_cursors s')"
proof -
  let ?b = "marker_batch bucket (log_epoch (ss_log s) bucket + 1)"
  obtain new_ops events e s2 where
    c: "collect_new_operations client (last_seq st) (version st = 0) = Inr new_ops"
    and ev: "payment_events sops ts (log_epoch (ss_log s) bucket + 1) (rev new_ops) [] (ss_seen s) = (Inr events, e)"
    and sd: "send_events sops events ?b (s\<lparr>ss_seen := e\<rparr>) = (Inr (), s2)"
    and cm: "commit_mark sops (payments_consumer token) st (last_seq st < highest_id (last_seq st) new_ops) (highest_id (last_seq st) new_ops) s2 = (Inr (), s')"
    and n: "n = int (length events)"
    using assms(3) by (auto simp: payments_poll_def Let_def st_def split: prod.splits sum.splits)
  have s2: "log_ok (ss_log s2)" "ss_cursors s2 = ss_cursors s" "ss_seen s2 = e"
    "event_id ` set (contents (ss_log s2)) = event_id ` set (contents (ss_log s)) \<union> event_id ` set events"
    using send_events_done [OF sd] assms(1) by simp_all
  have "cursors_ok (ss_cursors s2)" using s2(2) assms(2) by simp
  moreover have "\<not> last_seq st < highest_id (last_seq st) new_ops \<Longrightarrow>
      last_seq (get_cursor (ss_cursors s2) (payments_consumer token)) = highest_id (last_seq st) new_ops"
    using highest_id_props(1) [of "last_seq st" new_ops] by (simp add: s2(2) flip: st_def)
  ultimately obtain s3 where "commit_mark sops (payments_consumer token) st (last_seq st < highest_id (last_seq st) new_ops) (highest_id (last_seq st) new_ops) s2 = (Inr (), s3)"
    and "cursors_ok (ss_cursors s3)"
    and "last_seq (get_cursor (ss_cursors s3) (payments_consumer token)) = highest_id (last_seq st) new_ops"
    unfolding st_def s2(2) [symmetric] by (rule commit_mark_done) blast
  with cm commit_mark_keeps [OF cm] s2 payment_events_done [OF ev]
  show thesis by (intro that [OF c _ n]) auto
qed

end

subsection \<open>Properties\<close>

lemma ck_seen_keys: "ssrc.seen_keys e = set e"
  by (auto simp: ssrc.seen_keys_def ck_is_seen_def)

text \<open>C12: A payments tick that returns has handled each collected operation exactly once: the events
  it sends are those of the operations whose key (id and content hash) was not seen, oldest first, one
  per key; they are in the log, every collected key is marked seen, and the cursor stands on the
  highest operation id. A later tick that collects no new key therefore sends nothing.\<close>

theorem payments_tick_effect:
  assumes "el_ok (ss_log s)" "sc_ok (ss_cursors s)"
    and "payments_poll sql_source_ops client token bucket ts s = (Inr n, s')"
  shows "\<exists>new_ops events.
      collect_new_operations client (last_seq (sc_get (ss_cursors s) (payments_consumer token)))
        (version (sc_get (ss_cursors s) (payments_consumer token)) = 0) = Inr new_ops
    \<and> events = concat (map (op_events ts (db_get_poll_epoch (el_baseline (ss_log s)) bucket + 1))
                   (fresh_payments (set (ss_seen s)) (rev new_ops)))
    \<and> n = int (length events)
    \<and> event_id ` set (el_contents (ss_log s')) = event_id ` set (el_contents (ss_log s)) \<union> event_id ` set events
    \<and> set (ss_seen s') = set (ss_seen s) \<union> op_key ` set new_ops
    \<and> last_seq (sc_get (ss_cursors s') (payments_consumer token))
        = highest_id (last_seq (sc_get (ss_cursors s) (payments_consumer token))) new_ops"
  by (rule ssrc.payments_poll_done [OF assms(1,2) assms(3) [folded sql_source_ops_eq], unfolded ck_seen_keys]) blast

definition example_op :: "int \<Rightarrow> string \<Rightarrow> payment_op" where
  "example_op i t = \<lparr>po_operation_id = i, po_operation_type = t, po_amount = Decimal 5 0,
     po_currency = ''rub'', po_counterparty_id = None, po_counterparty_username = [], po_fee = 0,
     po_is_hold = False, po_hold_end_date = 0, po_comment = []\<rparr>"

definition payments_start :: "(event_db, cursor_table, memory_seen) source_state" where
  "payments_start = \<lparr>ss_log = el_init, ss_cursors = [(''payments:a'', \<lparr>cr_last_seq = 3, cr_version = 1\<rparr>)],
     ss_seen = [], ss_notified = 0\<rparr>"

lemma payments_start_ok: "el_ok (ss_log payments_start)" "sc_ok (ss_cursors payments_start)"
  by (simp_all add: payments_start_def el_ok_init sc_ok_def dict_ok_def)

lemmas payments_eval = payments_poll_def payments_consumer_def
  highest_id_def Let_def send_events_def commit_mark_def ck_is_seen_def ck_mark_def
  from_operation_def by_operation_type_def db_get_poll_epoch_def sc_get_def row_state_def

theorem payments_tick_effect_witness:
  "\<exists>s'. payments_poll sql_source_ops (\<lambda>k b. Inr \<lparr>pp_items = [example_op 7 ''new_kind'', example_op 2 ''income''], pp_has_more = True\<rparr>)
       ''a'' ''other'' (the (from_timestamp_utc 0)) payments_start = (Inr 0, s')
     \<and> last_seq (sc_get (ss_cursors s') ''payments:a'') = 7"
proof -
  let ?client = "\<lambda>k b. Inr \<lparr>pp_items = [example_op 7 ''new_kind'', example_op 2 ''income''], pp_has_more = True\<rparr>"
  have max: "max_pages_per_tick = Suc 19" by (simp add: max_pages_per_tick_def)
  have "collect_new_operations ?client 3 False = Inr [example_op 7 ''new_kind'']"
    by (simp only: collect_new_operations_def max collect_pages.simps) (simp add: example_op_def)
  moreover have "\<exists>s'. payments_poll sql_source_ops ?client ''a'' ''other'' (the (from_timestamp_utc 0)) payments_start = (Inr 0, s')"
    using calculation
    by (simp add: payments_eval payments_start_def el_init_def db_init_def example_op_def sc_commit_def sc_update_def)
  ultimately show ?thesis
    using payments_tick_effect [OF payments_start_ok, of ?client "''a''" "''other''" "the (from_timestamp_utc 0)" 0]
    by (auto simp: payments_start_def sc_get_def row_state_def payments_consumer_def highest_id_def example_op_def)
qed

lemma payment_events_failing: "payment_events (failing_append x ops) ts epoch pays acc e = payment_events ops ts epoch pays acc e"
  by (induction pays arbitrary: acc e) (simp_all add: Let_def split: sum.splits option.splits)

text \<open>A failing append loses payments: the operations are marked seen before the send, so when the
  append raises, the next tick over the same pages finds nothing new, sends nothing, and commits the
  cursor past them; the log is the same as before.\<close>

theorem failed_append_loses_payments:
  fixes s :: "(event_db, cursor_table, memory_seen) source_state" and token :: string
  defines "st \<equiv> sc_get (ss_cursors s) (payments_consumer token)"
  assumes ok: "sc_ok (ss_cursors s)"
    and coll: "collect_new_operations client (last_seq st) (version st = 0) = Inr new_ops"
    and evs: "payment_events sql_source_ops ts (db_get_poll_epoch (el_baseline (ss_log s)) bucket + 1) (rev new_ops) []
          (ss_seen s) = (Inr events, e)" "events \<noteq> []"
  shows "\<exists>s1 s2. payments_poll (failing_append x sql_source_ops) client token bucket ts s = (Inl x, s1)
      \<and> payments_poll sql_source_ops client token bucket ts' s1 = (Inr 0, s2)
      \<and> ss_log s2 = ss_log s
      \<and> last_seq (sc_get (ss_cursors s2) (payments_consumer token)) = highest_id (last_seq st) new_ops"
proof -
  let ?s1 = "s\<lparr>ss_seen := e\<rparr>"
  have one: "payments_poll (failing_append x sql_source_ops) client token bucket ts s = (Inl x, ?s1)"
    using coll evs
    by (simp add: payments_poll_def st_def payment_events_failing send_events_def send_def Let_def)
  have keys: "set e = set (ss_seen s) \<union> op_key ` set new_ops"
    using ssrc.payment_events_done [OF evs(1) [folded sql_source_ops_eq]] by (simp add: ck_seen_keys)
  have known: "payment_events sql_source_ops ts' epoch ops [] e = (Inr [], e)" if "op_key ` set ops \<subseteq> set e" for ops epoch
    using that
  proof (induction ops)
    case (Cons op ops)
    then have "ck_is_seen e (po_operation_id op) (operation_hash op)" by (simp add: ck_is_seen_def op_key_def)
    with Cons show ?case by simp
  qed simp
  have none: "payment_events sql_source_ops ts' epoch (rev new_ops) [] e = (Inr [], e)" for epoch
    by (rule known) (simp add: keys)
  have "\<not> last_seq st < highest_id (last_seq st) new_ops \<Longrightarrow> last_seq st = highest_id (last_seq st) new_ops"
    using highest_id_props(1) [of "last_seq st" new_ops] by simp
  then obtain s2 where "commit_mark sql_source_ops (payments_consumer token) st (last_seq st < highest_id (last_seq st) new_ops)
        (highest_id (last_seq st) new_ops) ?s1 = (Inr (), s2)"
    and "last_seq (sc_get (ss_cursors s2) (payments_consumer token)) = highest_id (last_seq st) new_ops" "ss_log s2 = ss_log ?s1"
    using ssrc.commit_mark_done [of ?s1 "last_seq st < highest_id (last_seq st) new_ops" "payments_consumer token" "highest_id (last_seq st) new_ops"]
      ok unfolding sql_source_ops_eq st_def by simp metis
  moreover have "so_get_cursor sql_source_ops (ss_cursors ?s1) (payments_consumer token) = st"
    by (simp add: st_def)
  ultimately have "payments_poll sql_source_ops client token bucket ts' ?s1 = (Inr 0, s2)"
    using coll none by (simp add: payments_poll_def Let_def send_events_def)
  then show ?thesis using one \<open>last_seq (sc_get (ss_cursors s2) (payments_consumer token)) = _\<close> \<open>ss_log s2 = ss_log ?s1\<close> by auto
qed

theorem failed_append_loses_payments_witness:
  "\<exists>s1 s2. payments_poll (failing_append (StoreError ''down'') sql_source_ops)
        (\<lambda>k b. Inr \<lparr>pp_items = [example_op 7 ''income''], pp_has_more = False\<rparr>) ''a'' ''other'' (the (from_timestamp_utc 0)) payments_start
        = (Inl (StoreError ''down''), s1)
      \<and> payments_poll sql_source_ops
        (\<lambda>k b. Inr \<lparr>pp_items = [example_op 7 ''income''], pp_has_more = False\<rparr>) ''a'' ''other'' (the (from_timestamp_utc 9)) s1 = (Inr 0, s2)
      \<and> el_contents (ss_log s2) = []"
proof -
  let ?client = "\<lambda>k b. Inr \<lparr>pp_items = [example_op 7 ''income''], pp_has_more = False\<rparr>"
  have max: "max_pages_per_tick = Suc 19" by (simp add: max_pages_per_tick_def)
  have coll: "collect_new_operations ?client 3 False = Inr [example_op 7 ''income'']"
    by (simp only: collect_new_operations_def max collect_pages.simps) (simp add: example_op_def)
  have "\<exists>ev e. payment_events sql_source_ops (the (from_timestamp_utc 0)) (db_get_poll_epoch (el_baseline (ss_log payments_start)) ''other'' + 1)
       (rev [example_op 7 ''income'']) [] (ss_seen payments_start) = (Inr [ev], e)"
    by (simp add: payments_start_def ck_is_seen_def from_operation_def by_operation_type_def hold_end_def example_op_def Let_def)
  then obtain ev e where evs: "payment_events sql_source_ops (the (from_timestamp_utc 0))
       (db_get_poll_epoch (el_baseline (ss_log payments_start)) ''other'' + 1)
       (rev [example_op 7 ''income'']) [] (ss_seen payments_start) = (Inr [ev], e)" by blast
  have "el_contents (ss_log payments_start) = []" by (simp add: payments_start_def el_init_def el_contents_def)
  with failed_append_loses_payments [OF payments_start_ok(2) _ evs, of ?client "''a''" "StoreError ''down''" "the (from_timestamp_utc 9)"] coll
  show ?thesis by (auto simp: payments_start_def sc_get_def row_state_def payments_consumer_def)
qed

text \<open>The page bound loses payments for good: a tick commits the highest id it collected, also when
  the bound stopped it before the old mark, and no later tick ever collects an operation at or below
  that id. Whatever lay between the old mark and the last page read is never emitted.\<close>

theorem page_bound_gap_never_closed:
  fixes s2 :: "(event_db, cursor_table, memory_seen) source_state"
  assumes "sc_ok (ss_cursors s)" "el_ok (ss_log s)" "payments_poll sql_source_ops client token bucket ts s = (Inr n, s1)"
    and "collect_new_operations client (last_seq (sc_get (ss_cursors s) (payments_consumer token)))
          (version (sc_get (ss_cursors s) (payments_consumer token)) = 0) = Inr ops1"
    and "last_seq (sc_get (ss_cursors s1) (payments_consumer token)) \<le> last_seq (sc_get (ss_cursors s2) (payments_consumer token))"
    and "collect_new_operations client2 (last_seq (sc_get (ss_cursors s2) (payments_consumer token))) cold2 = Inr ops2"
    and "newer \<in> set ops1" "po_operation_id gap \<le> po_operation_id newer"
  shows "gap \<notin> set ops2"
proof
  assume "gap \<in> set ops2"
  from collected_above [OF assms(6) this] assms(5)
  have "last_seq (sc_get (ss_cursors s1) (payments_consumer token)) < po_operation_id gap" by simp
  moreover have "last_seq (sc_get (ss_cursors s1) (payments_consumer token))
      = highest_id (last_seq (sc_get (ss_cursors s) (payments_consumer token))) ops1"
    by (rule ssrc.payments_poll_done [OF assms(2,1) assms(3) [folded sql_source_ops_eq]]) (use assms(4) in simp)
  moreover have "po_operation_id newer \<le> highest_id (last_seq (sc_get (ss_cursors s) (payments_consumer token))) ops1"
    by (rule highest_id_props(2) [OF assms(7)])
  ultimately show False using assms(8) by linarith
qed

definition backlog_client :: payments_client where
  "backlog_client k b = Inr \<lparr>pp_items = [example_op (100 - int k) ''new_kind''], pp_has_more = True\<rparr>"

lemma backlog_pages:
  "k + left \<le> 90 \<Longrightarrow> collect_pages backlog_client 3 False k left b acc
     = Inr (acc @ map (\<lambda>k. example_op (100 - int k) ''new_kind'') [k..<k + left])"
proof (induction left arbitrary: k b acc)
  case (Suc left)
  have "[k..<k + Suc left] = k # [k + 1..<k + 1 + left]" by (simp add: upt_conv_Cons del: upt_Suc)
  with Suc.IH [of "k + 1"] Suc.prems show ?case
    by (simp add: backlog_client_def example_op_def Let_def del: upt_Suc)
qed simp

theorem page_bound_gap_never_closed_witness:
  "\<exists>s1. payments_poll sql_source_ops backlog_client ''a'' ''other'' (the (from_timestamp_utc 0)) payments_start = (Inr 0, s1)
     \<and> (\<forall>(s2 :: (event_db, cursor_table, memory_seen) source_state) client2 cold2 ops2. sc_get (ss_cursors s2) ''payments:a'' = sc_get (ss_cursors s1) ''payments:a''
          \<longrightarrow> collect_new_operations client2 (last_seq (sc_get (ss_cursors s2) ''payments:a'')) cold2 = Inr ops2
          \<longrightarrow> example_op 50 ''new_kind'' \<notin> set ops2)"
proof -
  have coll: "collect_new_operations backlog_client 3 False = Inr (map (\<lambda>k. example_op (100 - int k) ''new_kind'') [0..<20])"
    using backlog_pages [of 0 20 None "[]"] by (simp add: collect_new_operations_def max_pages_per_tick_def)
  have un: "from_operation (example_op i ''new_kind'') ts h ep = Inr None" for i ts h ep
    by (simp add: from_operation_def by_operation_type_def example_op_def)
  have none: "\<exists>e. payment_events sql_source_ops ts ep (map (\<lambda>k. example_op (f k) ''new_kind'') ks) [] e0 = (Inr [], e)" for ts ep f ks e0
    by (induction ks arbitrary: e0) (simp_all add: Let_def un)
  obtain e where ev: "payment_events sql_source_ops (the (from_timestamp_utc 0)) 1
      (rev (map (\<lambda>k. example_op (100 - int k) ''new_kind'') [0..<20])) [] [] = (Inr [], e)"
    using none [of _ _ "\<lambda>k. 100 - int k" "rev [0..<20]"] unfolding rev_map by blast
  have hi: "highest_id 3 (map (\<lambda>k. example_op (100 - int k) ''new_kind'') [0..<20]) = 100"
  proof (rule antisym)
    show "highest_id 3 (map (\<lambda>k. example_op (100 - int k) ''new_kind'') [0..<20]) \<le> 100"
      by (rule highest_id_le) (auto simp: example_op_def)
    have "example_op (100 - int 0) ''new_kind'' \<in> set (map (\<lambda>k. example_op (100 - int k) ''new_kind'') [0..<20])"
      unfolding set_map by (rule imageI) simp
    from highest_id_props(2) [OF this, of 3]
    show "100 \<le> highest_id 3 (map (\<lambda>k. example_op (100 - int k) ''new_kind'') [0..<20])"
      by (simp add: example_op_def)
  qed
  have "\<exists>s1. payments_poll sql_source_ops backlog_client ''a'' ''other'' (the (from_timestamp_utc 0)) payments_start = (Inr 0, s1)"
    using coll ev hi
    by (simp add: payments_poll_def payments_consumer_def Let_def payments_start_def sc_get_def row_state_def send_events_def
        commit_mark_def sc_commit_def sc_update_def el_init_def db_init_def db_get_poll_epoch_def)
  then obtain s1 where s1: "payments_poll sql_source_ops backlog_client ''a'' ''other'' (the (from_timestamp_utc 0)) payments_start = (Inr 0, s1)"
    by blast
  have mem: "example_op 100 ''new_kind'' \<in> set (map (\<lambda>k. example_op (100 - int k) ''new_kind'') [0..<20])"
    by (rule image_eqI [of _ _ 0, THEN subst [of _ _ "\<lambda>A. _ \<in> A", OF set_map [symmetric]]]) simp_all
  have pc: "payments_consumer ''a'' = ''payments:a''" by (simp add: payments_consumer_def)
  have st: "sc_get (ss_cursors payments_start) ''payments:a'' = \<lparr>last_seq = 3, version = 1\<rparr>"
    by (simp add: payments_start_def sc_get_def row_state_def)
  show ?thesis
  proof (intro exI conjI allI impI)
    show "payments_poll sql_source_ops backlog_client ''a'' ''other'' (the (from_timestamp_utc 0)) payments_start = (Inr 0, s1)" by (rule s1)
    fix s2 :: "(event_db, cursor_table, memory_seen) source_state" and client2 cold2 ops2
    assume "sc_get (ss_cursors s2) ''payments:a'' = sc_get (ss_cursors s1) ''payments:a''"
      and c: "collect_new_operations client2 (last_seq (sc_get (ss_cursors s2) ''payments:a'')) cold2 = Inr ops2"
    then have le: "last_seq (sc_get (ss_cursors s1) ''payments:a'') \<le> last_seq (sc_get (ss_cursors s2) ''payments:a'')" by simp
    show "example_op 50 ''new_kind'' \<notin> set ops2"
      by (rule page_bound_gap_never_closed [OF payments_start_ok(2,1) s1 _ _ _ mem, unfolded pc st, OF _ le c])
        (use coll in \<open>simp_all add: example_op_def\<close>)
  qed
qed

end
