(* ===== verification/Notifications_Source.thy ===== *)
theory Notifications_Source
  imports Source_Base
begin

text \<open>
  The notifications source (\<open>sources/notifications.py\<close>) and the dispatch of a notification to its event
  (\<open>events/notification.py\<close>). The client is an argument, the feed it returns for a type and a limit;
  \<open>as_int\<close> is the validation library's coercion of a JSON value to an integer, None when it refuses.
\<close>

record notification =
  nt_id :: int
  nt_content_type :: string
  nt_created_at :: int
  nt_extra :: "(string \<times> json) list"

type_synonym notifications_client = "string \<Rightarrow> nat \<Rightarrow> notification list result"

subsection \<open>From a notification to its event\<close>

text \<open>A field of \<open>NotificationExtra\<close>: None when it was absent, \<open>Some None\<close> for an explicit null.\<close>

record notification_extra =
  ne_item_id :: "int option option"
  ne_claim_id :: "int option option"
  ne_buyer_id :: "int option option"

definition extra_field :: "(json \<Rightarrow> int option) \<Rightarrow> (string \<times> json) list \<Rightarrow> string \<Rightarrow> int option option option" where
  "extra_field as_int extra k =
     (case map_of extra k of
        None \<Rightarrow> Some None
      | Some JNull \<Rightarrow> Some (Some None)
      | Some v \<Rightarrow> (case as_int v of None \<Rightarrow> None | Some i \<Rightarrow> Some (Some (Some i))))"

definition parse_extra :: "(json \<Rightarrow> int option) \<Rightarrow> notification \<Rightarrow> notification_extra result" where
  "parse_extra as_int n =
     (case (extra_field as_int (nt_extra n) ''item_id'', extra_field as_int (nt_extra n) ''claim_id'',
            extra_field as_int (nt_extra n) ''buyer_id'') of
        (Some i, Some c, Some b) \<Rightarrow> Inr \<lparr>ne_item_id = i, ne_claim_id = c, ne_buyer_id = b\<rparr>
      | _ \<Rightarrow> Inl (Engine (NotificationExtraInvalid (nt_id n))))"

definition field_or_default :: "int option option \<Rightarrow> int option \<Rightarrow> int option" where
  "field_or_default f d = (case f of None \<Rightarrow> d | Some v \<Rightarrow> v)"

text \<open>The model of the event refuses a null in a required field.\<close>

definition required :: "int option \<Rightarrow> int result" where
  "required v = (case v of None \<Rightarrow> Inl ValidationError | Some i \<Rightarrow> Inr i)"

definition claim_body :: "(json \<Rightarrow> int option) \<Rightarrow> (int \<Rightarrow> int option \<Rightarrow> event_body) \<Rightarrow> notification \<Rightarrow> event_body result" where
  "claim_body as_int mk n =
     bind_result (parse_extra as_int n) (\<lambda>extra.
     bind_result (required (field_or_default (ne_claim_id extra) (Some (nt_id n)))) (\<lambda>c.
       Inr (mk c (field_or_default (ne_item_id extra) None))))"

definition item_buyer_body :: "(json \<Rightarrow> int option) \<Rightarrow> (item_id \<Rightarrow> int option \<Rightarrow> event_body) \<Rightarrow> notification \<Rightarrow> event_body result" where
  "item_buyer_body as_int mk n =
     bind_result (parse_extra as_int n) (\<lambda>extra.
     bind_result (required (field_or_default (ne_item_id extra) (Some (nt_id n)))) (\<lambda>i.
       Inr (mk i (field_or_default (ne_buyer_id extra) None))))"

definition content_type_events ::
  "(json \<Rightarrow> int option) \<Rightarrow> (string \<times> (notification \<Rightarrow> event_body result)) list" where
  "content_type_events as_int =
     [(''market_dispute_opened'', claim_body as_int DisputeOpened),
      (''market_claim_filed'', claim_body as_int ClaimFiled),
      (''market_lot_reserved'', item_buyer_body as_int LotReserved),
      (''market_purchase_confirmed'', item_buyer_body as_int PurchaseConfirmed)]"

definition notification_time :: "notification \<Rightarrow> datetime result" where
  "notification_time n = (case from_timestamp_utc (nt_created_at n) of None \<Rightarrow> Inl ValueError | Some d \<Rightarrow> Inr d)"

definition parse_notification ::
  "(json \<Rightarrow> int option) \<Rightarrow> notification \<Rightarrow> string \<Rightarrow> (int \<Rightarrow> string \<Rightarrow> datetime \<Rightarrow> event_body) \<Rightarrow> string \<Rightarrow> int
     \<Rightarrow> domain_event result" where
  "parse_notification as_int n kind fallback hash epoch =
     (let agg = ''notif:'' @ kind @ '':'' @ str_int (nt_id n) in
      bind_result (notification_time n) (\<lambda>ts.
        case map_of (content_type_events as_int) (nt_content_type n) of
          Some mk \<Rightarrow> bind_result (mk n) (\<lambda>b. Inr (build b agg ts hash epoch []))
        | None \<Rightarrow> Inr (build (fallback (nt_id n) (nt_content_type n) ts) agg ts hash epoch [])))"

subsection \<open>The source\<close>

definition cheap_check_limit :: nat where
  "cheap_check_limit = 1"

definition notification_page_limit :: nat where
  "notification_page_limit = 50"

definition notification_kinds :: "(string \<times> string \<times> (int \<Rightarrow> string \<Rightarrow> datetime \<Rightarrow> event_body)) list" where
  "notification_kinds =
     [(''market'', ''notif:market'', MarketNotificationReceived),
      (''nomarket'', ''notif:nomarket'', ForumNotificationReceived)]"

definition notification_hash :: "notification \<Rightarrow> string" where
  "notification_hash n = nt_content_type n @ '':'' @ str_int (nt_created_at n)"

text \<open>The loop over a page: the highest id, the events and the marks to set later.\<close>

fun notification_page ::
  "(json \<Rightarrow> int option) \<Rightarrow> ('l, 'c, 'e) source_ops \<Rightarrow> 'e \<Rightarrow> string \<Rightarrow> (int \<Rightarrow> string \<Rightarrow> datetime \<Rightarrow> event_body) \<Rightarrow> int
     \<Rightarrow> notification list \<Rightarrow> int \<Rightarrow> domain_event list \<Rightarrow> (int \<times> string) list
     \<Rightarrow> (int \<times> domain_event list \<times> (int \<times> string) list) result" where
  "notification_page as_int ops seen kind fallback epoch [] mx events marks = Inr (mx, events, marks)"
| "notification_page as_int ops seen kind fallback epoch (n # rest) mx events marks =
     (let mx' = max mx (nt_id n); h = notification_hash n in
      if so_is_seen ops seen (nt_id n) h then notification_page as_int ops seen kind fallback epoch rest mx' events marks
      else bind_result (parse_notification as_int n kind fallback h epoch) (\<lambda>e.
             notification_page as_int ops seen kind fallback epoch rest mx' (events @ [e]) (marks @ [(nt_id n, h)])))"

definition poll_kind ::
  "(json \<Rightarrow> int option) \<Rightarrow> ('l, 'c, 'e) source_ops \<Rightarrow> notifications_client \<Rightarrow> string \<Rightarrow> string
     \<Rightarrow> (int \<Rightarrow> string \<Rightarrow> datetime \<Rightarrow> event_body) \<Rightarrow> int \<Rightarrow> ('l, 'c, 'e) source_state
     \<Rightarrow> (domain_event list \<times> (int \<times> string) list) result \<times> ('l, 'c, 'e) source_state" where
  "poll_kind as_int ops client kind consumer fallback epoch s =
     (case client kind cheap_check_limit of
        Inl x \<Rightarrow> (Inl x, s)
      | Inr [] \<Rightarrow> (Inr ([], []), s)
      | Inr (newest # _) \<Rightarrow>
          (let st = so_get_cursor ops (ss_cursors s) consumer in
           if nt_id newest \<le> last_seq st then (Inr ([], []), s)
           else case client kind notification_page_limit of
                  Inl x \<Rightarrow> (Inl x, s)
                | Inr items \<Rightarrow>
                    (case notification_page as_int ops (ss_seen s) kind fallback epoch items (last_seq st) [] [] of
                       Inl x \<Rightarrow> (Inl x, s)
                     | Inr (mx, events, marks) \<Rightarrow>
                         (case commit_mark ops consumer st (mx \<noteq> last_seq st) mx s of
                            (Inl x, s') \<Rightarrow> (Inl x, s')
                          | (Inr _, s') \<Rightarrow> (Inr (events, marks), s')))))"

fun poll_kinds ::
  "(json \<Rightarrow> int option) \<Rightarrow> ('l, 'c, 'e) source_ops \<Rightarrow> notifications_client \<Rightarrow> int
     \<Rightarrow> (string \<times> string \<times> (int \<Rightarrow> string \<Rightarrow> datetime \<Rightarrow> event_body)) list
     \<Rightarrow> domain_event list \<Rightarrow> (int \<times> string) list \<Rightarrow> ('l, 'c, 'e) source_state
     \<Rightarrow> (domain_event list \<times> (int \<times> string) list) result \<times> ('l, 'c, 'e) source_state" where
  "poll_kinds as_int ops client epoch [] events marks s = (Inr (events, marks), s)"
| "poll_kinds as_int ops client epoch ((kind, consumer, fallback) # kinds) events marks s =
     (case poll_kind as_int ops client kind consumer fallback epoch s of
        (Inl x, s') \<Rightarrow> (Inl x, s')
      | (Inr (es, ms), s') \<Rightarrow> poll_kinds as_int ops client epoch kinds (events @ es) (marks @ ms) s')"

definition mark_all :: "('l, 'c, 'e) source_ops \<Rightarrow> (int \<times> string) list \<Rightarrow> 'e \<Rightarrow> 'e" where
  "mark_all ops marks e = foldl (\<lambda>e (i, h). so_mark ops i h e) e marks"

definition notifications_poll ::
  "(json \<Rightarrow> int option) \<Rightarrow> ('l, 'c, 'e) source_ops \<Rightarrow> notifications_client \<Rightarrow> category
     \<Rightarrow> ('l, 'c, 'e) source_state \<Rightarrow> int result \<times> ('l, 'c, 'e) source_state" where
  "notifications_poll as_int ops client bucket s =
     (let epoch = so_poll_epoch ops (ss_log s) bucket + 1 in
      case poll_kinds as_int ops client epoch notification_kinds [] [] s of
        (Inl x, s1) \<Rightarrow> (Inl x, s1)
      | (Inr (events, marks), s1) \<Rightarrow>
          if events = [] then (Inr 0, s1)
          else (case send ops events (marker_batch bucket epoch) s1 of
                  (Inl x, s2) \<Rightarrow> (Inl x, s2)
                | (Inr _, s2) \<Rightarrow> (Inr (int (length events)), s2\<lparr>ss_seen := mark_all ops marks (ss_seen s2)\<rparr>)))"

subsection \<open>Facts about a page\<close>

lemma notification_page_raises:
  assumes "n \<in> set items" "\<not> so_is_seen ops seen (nt_id n) (notification_hash n)"
    and "parse_notification as_int n kind fallback (notification_hash n) epoch = Inl x"
  shows "\<exists>y. notification_page as_int ops seen kind fallback epoch items mx events marks = Inl y"
  using assms(1)
proof (induction items arbitrary: mx events marks)
  case (Cons m items)
  show ?case
  proof (cases "m = n")
    case True
    then show ?thesis using assms(2,3) by (simp add: Let_def)
  next
    case False
    with Cons.prems have "n \<in> set items" by simp
    note IH = Cons.IH [OF this]
    show ?thesis
    proof (cases "parse_notification as_int m kind fallback (notification_hash m) epoch")
      case (Inl y)
      then show ?thesis using IH by (simp add: Let_def)
    next
      case (Inr e)
      then show ?thesis using IH by (simp add: Let_def)
    qed
  qed
qed simp

lemma notification_page_max:
  "notification_page as_int ops seen kind fallback epoch items mx events marks = Inr (mx', events', marks') \<Longrightarrow>
     mx \<le> mx' \<and> (\<forall>n\<in>set items. nt_id n \<le> mx')"
proof (induction items arbitrary: mx events marks)
  case (Cons m items)
  then obtain ev mk where "notification_page as_int ops seen kind fallback epoch items (max mx (nt_id m)) ev mk = Inr (mx', events', marks')"
    by (auto simp: Let_def bind_result_Inr_iff split: if_splits)
  from Cons.IH [OF this] show ?case by auto
qed simp

lemma notification_page_failing:
  "notification_page as_int (failing_append x ops) seen kind fallback epoch items mx events marks
     = notification_page as_int ops seen kind fallback epoch items mx events marks"
  by (induction items arbitrary: mx events marks) (simp_all add: Let_def bind_result_def split: sum.splits)

lemma poll_kind_failing:
  "poll_kind as_int (failing_append x ops) client kind consumer fallback epoch s = poll_kind as_int ops client kind consumer fallback epoch s"
proof (cases "client kind cheap_check_limit")
  case (Inr cheap)
  then show ?thesis
    by (cases cheap; cases "client kind notification_page_limit")
      (simp_all add: poll_kind_def Let_def notification_page_failing commit_mark_failing split: sum.split prod.split)
qed (simp add: poll_kind_def)

lemma poll_kinds_failing:
  "poll_kinds as_int (failing_append x ops) client epoch kinds events marks s = poll_kinds as_int ops client epoch kinds events marks s"
  by (induction kinds arbitrary: events marks s) (auto simp: poll_kind_failing split: prod.splits sum.splits)

text \<open>A client whose feeds do not change: the limit cuts the newest entries.\<close>

definition feed_client :: "(string \<Rightarrow> notification list) \<Rightarrow> notifications_client" where
  "feed_client f kind limit = Inr (take limit (f kind))"

text \<open>The cheap check passes over a feed whose newest entry is not above the cursor.\<close>

definition feed_read :: "('c \<Rightarrow> string \<Rightarrow> cursor_state) \<Rightarrow> (string \<Rightarrow> notification list) \<Rightarrow> string \<Rightarrow> string \<Rightarrow> 'c \<Rightarrow> bool" where
  "feed_read get f kind consumer c \<longleftrightarrow> (case f kind of [] \<Rightarrow> True | n # _ \<Rightarrow> nt_id n \<le> last_seq (get c consumer))"

lemma poll_kind_feed_read:
  "feed_read (so_get_cursor ops) f kind consumer (ss_cursors s) \<Longrightarrow>
     poll_kind as_int ops (feed_client f) kind consumer fallback epoch s = (Inr ([], []), s)"
  by (auto simp: poll_kind_def feed_client_def feed_read_def cheap_check_limit_def Let_def split: list.splits)

context source_stores
begin

lemma poll_kind_reads_feed:
  assumes "cursors_ok (ss_cursors s)"
    and "poll_kind as_int sops (feed_client f) kind consumer fallback epoch s = (Inr (es, ms), s')"
  shows "cursors_ok (ss_cursors s')" "ss_log s' = ss_log s" "ss_seen s' = ss_seen s"
    and "feed_read get_cursor f kind consumer (ss_cursors s')"
    and "other \<noteq> consumer \<Longrightarrow> get_cursor (ss_cursors s') other = get_cursor (ss_cursors s) other"
proof -
  have "cursors_ok (ss_cursors s') \<and> ss_log s' = ss_log s \<and> ss_seen s' = ss_seen s
    \<and> feed_read get_cursor f kind consumer (ss_cursors s')
    \<and> (\<forall>other. other \<noteq> consumer \<longrightarrow> get_cursor (ss_cursors s') other = get_cursor (ss_cursors s) other)"
  proof (cases "feed_read get_cursor f kind consumer (ss_cursors s)")
    case True
    then show ?thesis using assms poll_kind_feed_read [of sops f kind consumer s] by simp
  next
    case False
    then obtain n rest where f: "f kind = n # rest" and new: "\<not> nt_id n \<le> last_seq (get_cursor (ss_cursors s) consumer)"
      by (auto simp: feed_read_def split: list.splits)
    let ?st = "get_cursor (ss_cursors s) consumer"
    obtain mx where page: "notification_page as_int sops (ss_seen s) kind fallback epoch (take 50 (f kind)) (last_seq ?st) [] [] = Inr (mx, es, ms)"
      and cm: "commit_mark sops consumer ?st (mx \<noteq> last_seq ?st) mx s = (Inr (), s')"
      using assms(2) new
      by (auto simp: poll_kind_def feed_client_def f cheap_check_limit_def notification_page_limit_def Let_def
          split: sum.splits prod.splits)
    have "nt_id n \<le> mx" using notification_page_max [OF page] by (simp add: f)
    moreover obtain s2 where "commit_mark sops consumer ?st (mx \<noteq> last_seq ?st) mx s = (Inr (), s2)"
      and "cursors_ok (ss_cursors s2)" "last_seq (get_cursor (ss_cursors s2) consumer) = mx"
      and "\<And>other. other \<noteq> consumer \<Longrightarrow> get_cursor (ss_cursors s2) other = get_cursor (ss_cursors s) other"
      and "ss_log s2 = ss_log s" "ss_seen s2 = ss_seen s"
      by (rule commit_mark_done [OF assms(1), of "mx \<noteq> last_seq ?st" consumer mx]) auto
    ultimately show ?thesis using cm by (simp add: feed_read_def f)
  qed
  then show "cursors_ok (ss_cursors s')" "ss_log s' = ss_log s" "ss_seen s' = ss_seen s"
    "feed_read get_cursor f kind consumer (ss_cursors s')"
    "other \<noteq> consumer \<Longrightarrow> get_cursor (ss_cursors s') other = get_cursor (ss_cursors s) other" by blast+
qed

lemma poll_kinds_read_feeds:
  assumes "cursors_ok (ss_cursors s)"
    and "poll_kinds as_int sops (feed_client f) epoch notification_kinds [] [] s = (Inr (es, ms), s')"
  shows "ss_log s' = ss_log s" "ss_seen s' = ss_seen s"
    and "poll_kinds as_int sops (feed_client f) epoch' notification_kinds [] [] s' = (Inr ([], []), s')"
proof -
  obtain es1 ms1 s1 es2 ms2 where
    k1: "poll_kind as_int sops (feed_client f) ''market'' ''notif:market'' MarketNotificationReceived epoch s = (Inr (es1, ms1), s1)"
    and k2: "poll_kind as_int sops (feed_client f) ''nomarket'' ''notif:nomarket'' ForumNotificationReceived epoch s1 = (Inr (es2, ms2), s')"
    using assms(2) by (auto simp: notification_kinds_def split: prod.splits sum.splits)
  note r1 = poll_kind_reads_feed [OF assms(1) k1]
  note r2 = poll_kind_reads_feed [OF r1(1) k2]
  show "ss_log s' = ss_log s" "ss_seen s' = ss_seen s" using r1 r2 by simp_all
  have "feed_read get_cursor f ''market'' ''notif:market'' (ss_cursors s')"
    using r1(4) r2(5) [of "''notif:market''"] by (simp add: feed_read_def split: list.splits)
  then show "poll_kinds as_int sops (feed_client f) epoch' notification_kinds [] [] s' = (Inr ([], []), s')"
    using r2(4) by (simp add: notification_kinds_def poll_kind_feed_read)
qed

end

subsection \<open>Properties\<close>

text \<open>The cursors move before the append: when the append of a poll raises, the next poll over the
  same feeds sends nothing, although none of the notifications is in the log or marked seen. They wait
  until a newer notification lets the feed pass the cheap check again.\<close>

theorem failed_append_skips_notifications:
  fixes s :: "(event_db, cursor_table, memory_seen) source_state"
  assumes "sc_ok (ss_cursors s)"
    and "poll_kinds as_int sql_source_ops (feed_client f) (db_get_poll_epoch (el_baseline (ss_log s)) bucket + 1)
          notification_kinds [] [] s = (Inr (events, marks), s0)" "events \<noteq> []"
  shows "notifications_poll as_int (failing_append x sql_source_ops) (feed_client f) bucket s = (Inl x, s0)
    \<and> notifications_poll as_int sql_source_ops (feed_client f) bucket s0 = (Inr 0, s0)
    \<and> ss_log s0 = ss_log s \<and> ss_seen s0 = ss_seen s"
  using ssrc.poll_kinds_read_feeds [OF assms(1), of as_int f] assms(2,3)
  by (simp add: notifications_poll_def poll_kinds_failing send_def Let_def sql_source_ops_eq)

text \<open>One notification the parser refuses stops both feeds: as long as it is on the page and not
  marked seen, every poll raises and leaves the log, the cursors and the seen cache as they were. A
  null in the field a sub-event requires is such a notification.\<close>

theorem bad_notification_blocks_feeds:
  fixes ops :: "('l, 'c, 'e) source_ops"
  assumes "client ''market'' cheap_check_limit = Inr (newest # rest)"
    and "last_seq (so_get_cursor ops (ss_cursors s) ''notif:market'') < nt_id newest"
    and "client ''market'' notification_page_limit = Inr items" "n \<in> set items"
    and "\<not> so_is_seen ops (ss_seen s) (nt_id n) (notification_hash n)"
    and "nt_content_type n = ''market_dispute_opened''" "map_of (nt_extra n) ''claim_id'' = Some JNull"
  shows "\<exists>x. notifications_poll as_int ops client bucket s = (Inl x, s)"
proof -
  have "\<exists>y. claim_body as_int DisputeOpened n = Inl y"
    using assms(7)
    by (auto simp: claim_body_def parse_extra_def extra_field_def field_or_default_def required_def split: option.splits json.splits)
  then have "\<exists>y. parse_notification as_int n ''market'' MarketNotificationReceived (notification_hash n) epoch = Inl y" for epoch
    using assms(6) by (auto simp: parse_notification_def content_type_events_def notification_time_def bind_result_def Let_def split: option.splits sum.splits)
  then obtain y where y: "parse_notification as_int n ''market'' MarketNotificationReceived (notification_hash n)
      (so_poll_epoch ops (ss_log s) bucket + 1) = Inl y" by blast
  obtain z where z: "notification_page as_int ops (ss_seen s) ''market'' MarketNotificationReceived
      (so_poll_epoch ops (ss_log s) bucket + 1) items (last_seq (so_get_cursor ops (ss_cursors s) ''notif:market'')) [] [] = Inl z"
    using notification_page_raises [OF assms(4,5) y] by blast
  have "poll_kind as_int ops client ''market'' ''notif:market'' MarketNotificationReceived
      (so_poll_epoch ops (ss_log s) bucket + 1) s = (Inl z, s)"
    using assms(1-3) z by (simp add: poll_kind_def Let_def)
  then show ?thesis by (simp add: notifications_poll_def notification_kinds_def Let_def)
qed

definition example_notification :: "string \<Rightarrow> (string \<times> json) list \<Rightarrow> notification" where
  "example_notification t extra = \<lparr>nt_id = 7, nt_content_type = t, nt_created_at = 0, nt_extra = extra\<rparr>"

definition sources_start :: "(event_db, cursor_table, memory_seen) source_state" where
  "sources_start = \<lparr>ss_log = el_init, ss_cursors = [], ss_seen = [], ss_notified = 0\<rparr>"

theorem bad_notification_blocks_feeds_witness:
  "\<exists>x. notifications_poll (\<lambda>j. case j of JInt i \<Rightarrow> Some i | _ \<Rightarrow> None) sql_source_ops
        (\<lambda>kind limit. Inr [example_notification ''market_dispute_opened'' [(''claim_id'', JNull)]]) ''other'' sources_start
      = (Inl x, sources_start)"
  by (rule bad_notification_blocks_feeds [of _ "example_notification ''market_dispute_opened'' [(''claim_id'', JNull)]" "[]" _ _
        "[example_notification ''market_dispute_opened'' [(''claim_id'', JNull)]]"
        "example_notification ''market_dispute_opened'' [(''claim_id'', JNull)]"])
    (simp_all add: example_notification_def sources_start_def sc_get_def cursor0_def ck_is_seen_def)

theorem failed_append_skips_notifications_witness:
  "\<exists>s0. notifications_poll (\<lambda>j. None) (failing_append (StoreError ''down'') sql_source_ops)
          (feed_client (\<lambda>kind. [example_notification ''like'' []])) ''other'' sources_start = (Inl (StoreError ''down''), s0)
      \<and> notifications_poll (\<lambda>j. None) sql_source_ops (feed_client (\<lambda>kind. [example_notification ''like'' []])) ''other'' s0 = (Inr 0, s0)
      \<and> el_contents (ss_log s0) = []"
proof -
  let ?f = "\<lambda>kind :: string. [example_notification ''like'' []]"
  have "\<exists>es ms s0. poll_kinds (\<lambda>j. None) sql_source_ops (feed_client ?f) (db_get_poll_epoch (el_baseline (ss_log sources_start)) ''other'' + 1)
          notification_kinds [] [] sources_start = (Inr (es, ms), s0) \<and> es \<noteq> []"
    by (simp add: notification_kinds_def poll_kind_def feed_client_def cheap_check_limit_def notification_page_limit_def Let_def
        example_notification_def sources_start_def sc_get_def cursor0_def ck_is_seen_def parse_notification_def
        content_type_events_def notification_time_def commit_mark_def sc_commit_def sc_insert_def
        epoch_time)
  then obtain es ms s0 where pk: "poll_kinds (\<lambda>j. None) sql_source_ops (feed_client ?f) (db_get_poll_epoch (el_baseline (ss_log sources_start)) ''other'' + 1)
          notification_kinds [] [] sources_start = (Inr (es, ms), s0)" "es \<noteq> []" by blast
  have "sc_ok (ss_cursors sources_start)" "el_contents (ss_log sources_start) = []"
    by (simp_all add: sources_start_def sc_ok_def dict_ok_def el_init_def el_contents_def)
  with failed_append_skips_notifications [OF _ pk, of "StoreError ''down''"] show ?thesis by auto
qed

end
