(* ===== verification/Conversations_Source.thy ===== *)
theory Conversations_Source
  imports Source_Base
begin

text \<open>
  The conversations source (\<open>sources/conversations.py\<close>): the unread conversations of a tick, one event
  for a conversation never seen, and one for each message above the conversation's cursor. The client
  is an argument; the message page of a conversation may come in any order.
\<close>

record conversation =
  cv_id :: int
  cv_title :: string
  cv_creator_id :: int
  cv_creator_name :: string
  cv_folder :: string
  cv_update_date :: int
  cv_unread :: bool

record chat_message =
  mg_id :: int
  mg_conversation_id :: int
  mg_author_id :: int
  mg_text :: string
  mg_system :: bool

record conversations_client =
  list_conversations :: "string \<Rightarrow> conversation list result"
  list_messages :: "int \<Rightarrow> chat_message list result"

definition conversation_key :: "int \<Rightarrow> item_id" where
  "conversation_key i = i + 3 * 10 ^ 15"

definition update_mark :: "int \<Rightarrow> string" where
  "update_mark d = ''touched-at:'' @ str_int d"

definition messages_consumer :: "int \<Rightarrow> string" where
  "messages_consumer i = ''conv:'' @ str_int i"

definition message_event :: "conversation \<Rightarrow> int \<Rightarrow> datetime \<Rightarrow> chat_message \<Rightarrow> domain_event" where
  "message_event c epoch ts m =
     build (NewMessage (mg_id m) (mg_conversation_id m) (mg_author_id m) (mg_text m) (mg_system m) (cv_folder c))
       (str_int (mg_id m)) ts (''message:'' @ str_int (mg_id m)) epoch []"

definition conversation_event :: "conversation \<Rightarrow> int \<Rightarrow> datetime \<Rightarrow> domain_event" where
  "conversation_event c epoch ts =
     build (NewConversation (cv_id c) (cv_title c) (cv_creator_id c) (cv_creator_name c) (cv_folder c))
       (str_int (cv_id c)) ts (''conversation:'' @ str_int (cv_id c)) epoch []"

definition unread_messages :: "int \<Rightarrow> chat_message list \<Rightarrow> chat_message list" where
  "unread_messages q items = sort_key mg_id (filter (\<lambda>m. q < mg_id m) items)"

definition new_messages ::
  "('l, 'c, 'e) source_ops \<Rightarrow> conversations_client \<Rightarrow> conversation \<Rightarrow> int \<Rightarrow> datetime \<Rightarrow> ('l, 'c, 'e) source_state
     \<Rightarrow> domain_event list result \<times> ('l, 'c, 'e) source_state" where
  "new_messages ops client c epoch ts s =
     (let consumer = messages_consumer (cv_id c);
          st = so_get_cursor ops (ss_cursors s) consumer in
      case list_messages client (cv_id c) of
        Inl x \<Rightarrow> (Inl x, s)
      | Inr items \<Rightarrow>
          (let fresh = unread_messages (last_seq st) items in
           if fresh = [] then (Inr [], s)
           else case commit_mark ops consumer st True (mg_id (last fresh)) s of
                  (Inl (Engine (CursorConflict n e a)), s') \<Rightarrow> (Inr [], s')
                | (Inl x, s') \<Rightarrow> (Inl x, s')
                | (Inr _, s') \<Rightarrow> (Inr (map (message_event c epoch ts) fresh), s')))"

text \<open>The loop over the conversations; the marks are set as it goes.\<close>

fun conversation_events ::
  "('l, 'c, 'e) source_ops \<Rightarrow> conversations_client \<Rightarrow> int \<Rightarrow> datetime \<Rightarrow> conversation list \<Rightarrow> domain_event list
     \<Rightarrow> ('l, 'c, 'e) source_state \<Rightarrow> domain_event list result \<times> ('l, 'c, 'e) source_state" where
  "conversation_events ops client epoch ts [] events s = (Inr events, s)"
| "conversation_events ops client epoch ts (c # rest) events s =
     (let key = conversation_key (cv_id c);
          is_new = (\<not> so_is_seen ops (ss_seen s) key ''exists'');
          (events1, s1) = (if is_new then (events @ [conversation_event c epoch ts],
                                           s\<lparr>ss_seen := so_mark ops key ''exists'' (ss_seen s)\<rparr>)
                           else (events, s));
          unchanged = (\<not> is_new \<and> so_is_seen ops (ss_seen s1) key (update_mark (cv_update_date c)))
      in if unchanged \<and> \<not> cv_unread c then conversation_events ops client epoch ts rest events1 s1
         else case new_messages ops client c epoch ts s1 of
                (Inl x, s2) \<Rightarrow> (Inl x, s2)
              | (Inr es, s2) \<Rightarrow>
                  conversation_events ops client epoch ts rest (events1 @ es)
                    (s2\<lparr>ss_seen := so_mark ops key (update_mark (cv_update_date c)) (ss_seen s2)\<rparr>))"

definition conversations_poll ::
  "('l, 'c, 'e) source_ops \<Rightarrow> conversations_client \<Rightarrow> category \<Rightarrow> datetime \<Rightarrow> ('l, 'c, 'e) source_state
     \<Rightarrow> int result \<times> ('l, 'c, 'e) source_state" where
  "conversations_poll ops client bucket ts s =
     (case list_conversations client ''unread'' of
        Inl x \<Rightarrow> (Inl x, s)
      | Inr convs \<Rightarrow>
          (let epoch = so_poll_epoch ops (ss_log s) bucket + 1 in
           case conversation_events ops client epoch ts convs [] s of
             (Inl x, s1) \<Rightarrow> (Inl x, s1)
           | (Inr events, s1) \<Rightarrow>
               (case send_events ops events (marker_batch bucket epoch) s1 of
                  (Inl x, s2) \<Rightarrow> (Inl x, s2)
                | (Inr _, s2) \<Rightarrow> (Inr (int (length events)), s2))))"

subsection \<open>Messages\<close>

lemma unread_messages_set: "set (unread_messages q items) = {m \<in> set items. q < mg_id m}"
  by (auto simp: unread_messages_def)

lemma unread_messages_sorted: "sorted (map mg_id (unread_messages q items))"
  by (simp add: unread_messages_def)

lemma last_unread_highest:
  "m \<in> set (unread_messages q items) \<Longrightarrow> mg_id m \<le> mg_id (last (unread_messages q items))"
  using unread_messages_sorted [of q items]
  by (cases "unread_messages q items" rule: rev_cases) (auto simp: sorted_append)

context source_stores
begin

text \<open>Without a rival the events are the messages above the cursor in order, and the next call has none.\<close>

lemma new_messages_done:
  assumes ok: "cursors_ok (ss_cursors s)" and items: "list_messages client (cv_id c) = Inr items"
  defines "st \<equiv> get_cursor (ss_cursors s) (messages_consumer (cv_id c))"
  obtains s' where "new_messages sops client c epoch ts s = (Inr (map (message_event c epoch ts) (unread_messages (last_seq st) items)), s')"
    and "cursors_ok (ss_cursors s')" "ss_log s' = ss_log s" "ss_seen s' = ss_seen s"
    and "unread_messages (last_seq (get_cursor (ss_cursors s') (messages_consumer (cv_id c)))) items = []"
    and "\<And>other. other \<noteq> messages_consumer (cv_id c) \<Longrightarrow> get_cursor (ss_cursors s') other = get_cursor (ss_cursors s) other"
proof (cases "unread_messages (last_seq st) items = []")
  case True
  then have "new_messages sops client c epoch ts s = (Inr [], s)"
    using items by (simp add: new_messages_def st_def Let_def)
  then show thesis using that [of s] True ok by (simp add: st_def)
next
  case False
  let ?last = "mg_id (last (unread_messages (last_seq st) items))"
  obtain s' where cm: "commit_mark sops (messages_consumer (cv_id c)) st True ?last s = (Inr (), s')"
    and s': "cursors_ok (ss_cursors s')" "last_seq (get_cursor (ss_cursors s') (messages_consumer (cv_id c))) = ?last"
      "\<And>other. other \<noteq> messages_consumer (cv_id c) \<Longrightarrow> get_cursor (ss_cursors s') other = get_cursor (ss_cursors s) other"
      "ss_log s' = ss_log s" "ss_seen s' = ss_seen s"
    unfolding st_def by (rule commit_mark_done [OF ok, of True "messages_consumer (cv_id c)"]) auto
  have run: "new_messages sops client c epoch ts s = (Inr (map (message_event c epoch ts) (unread_messages (last_seq st) items)), s')"
    using items cm False by (simp add: new_messages_def st_def Let_def)
  have above: "last_seq st < ?last"
    using last_in_set [OF False] by (simp add: unread_messages_set)
  have "mg_id m \<le> ?last" if "m \<in> set items" for m
  proof (cases "last_seq st < mg_id m")
    case True
    with that show ?thesis by (intro last_unread_highest) (simp add: unread_messages_set)
  next
    case False
    with above show ?thesis by simp
  qed
  then have "set (unread_messages ?last items) = {}"
    by (auto simp: unread_messages_set not_less)
  then show thesis using that [OF run] s' by simp
qed

end

subsection \<open>Properties\<close>

text \<open>The messages of a conversation come out once and in order: without a rival writer the events are
  exactly the listed messages above the conversation's cursor, ascending by id, and a second look at
  the same page has none.\<close>

theorem messages_emitted_once:
  assumes "sc_ok (ss_cursors s)" "list_messages client (cv_id c) = Inr items"
  shows "\<exists>es s1. new_messages sql_source_ops client c epoch ts s = (Inr es, s1)
    \<and> es = map (message_event c epoch ts) (unread_messages (last_seq (sc_get (ss_cursors s) (messages_consumer (cv_id c)))) items)
    \<and> sorted (map mg_id (unread_messages (last_seq (sc_get (ss_cursors s) (messages_consumer (cv_id c)))) items))
    \<and> new_messages sql_source_ops client c epoch' ts' s1 = (Inr [], s1)"
  by (rule ssrc.new_messages_done [OF assms, unfolded sql_source_ops_eq, of epoch ts])
    (use assms(2) in \<open>auto simp: unread_messages_sorted new_messages_def Let_def\<close>)

theorem messages_emitted_once_witness:
  "\<exists>es s1. new_messages sql_source_ops
       \<lparr>list_conversations = (\<lambda>f. Inr []), list_messages = (\<lambda>i. Inr [\<lparr>mg_id = 9, mg_conversation_id = i, mg_author_id = 1, mg_text = ''b'', mg_system = False\<rparr>,
          \<lparr>mg_id = 4, mg_conversation_id = i, mg_author_id = 1, mg_text = ''a'', mg_system = False\<rparr>])\<rparr>
       \<lparr>cv_id = 5, cv_title = ''t'', cv_creator_id = 1, cv_creator_name = ''n'', cv_folder = ''unread'', cv_update_date = 0, cv_unread = True\<rparr>
       1 (the (from_timestamp_utc 0)) \<lparr>ss_log = el_init, ss_cursors = [], ss_seen = [], ss_notified = 0\<rparr> = (Inr es, s1)
     \<and> map aggregate_id es = [''4'', ''9'']"
proof -
  let ?client = "\<lparr>list_conversations = (\<lambda>f. Inr []), list_messages = (\<lambda>i. Inr [\<lparr>mg_id = 9, mg_conversation_id = i, mg_author_id = 1, mg_text = ''b'', mg_system = False\<rparr>,
          \<lparr>mg_id = 4, mg_conversation_id = i, mg_author_id = 1, mg_text = ''a'', mg_system = False\<rparr>])\<rparr>"
  let ?c = "\<lparr>cv_id = 5, cv_title = ''t'', cv_creator_id = 1, cv_creator_name = ''n'', cv_folder = ''unread'', cv_update_date = 0, cv_unread = True\<rparr>"
  let ?s = "\<lparr>ss_log = el_init, ss_cursors = [], ss_seen = [], ss_notified = 0\<rparr> :: (event_db, cursor_table, memory_seen) source_state"
  have "sc_ok (ss_cursors ?s)" by (simp add: sc_ok_def dict_ok_def)
  from messages_emitted_once [OF this, of ?client ?c _ 1 "the (from_timestamp_utc 0)" 2 "the (from_timestamp_utc 0)"]
  show ?thesis
    by (fastforce simp: sc_get_def cursor0_def unread_messages_def message_event_def str_int_def nat_digits.simps digit_char_def char_of_code)
qed

end
