(* ===== verification/Rating_Source.thy ===== *)
theory Rating_Source
  imports Source_Base
begin

text \<open>
  The rating source (\<open>sources/rating.py\<close>): one account's like and dislike counters, kept between polls
  as JSON in the content hash of a baseline row of the shared bucket, and an event for every change.
  The profile the client returns is an argument; \<open>trunc\<close> is \<open>int()\<close> of a float literal's value.
\<close>

record profile =
  pr_user_id :: int
  pr_likes :: int
  pr_dislikes :: int

definition rating_key :: "int \<Rightarrow> item_id" where
  "rating_key u = u + 2 * 10 ^ 15"

definition encode_rating :: "int \<Rightarrow> int \<Rightarrow> string" where
  "encode_rating l d = json_dumps default_style (JObj [(''likes'', JInt l), (''dislikes'', JInt d)])"

text \<open>\<open>int(x)\<close> of a JSON value: None is its \<open>TypeError\<close> or \<open>ValueError\<close>.\<close>

definition int_of_json :: "(string \<Rightarrow> int option) \<Rightarrow> json \<Rightarrow> int option" where
  "int_of_json trunc j =
     (case j of
        JInt i \<Rightarrow> Some i
      | JBool b \<Rightarrow> Some (if b then 1 else 0)
      | JFloat t \<Rightarrow> trunc t
      | JStr s \<Rightarrow> py_int s
      | _ \<Rightarrow> None)"

definition decode_rating :: "(string \<Rightarrow> int option) \<Rightarrow> string \<Rightarrow> (int \<times> int) option" where
  "decode_rating trunc raw =
     Option.bind (json_loads raw) (\<lambda>data.
     Option.bind (Option.bind (json_item data ''likes'') (int_of_json trunc)) (\<lambda>l.
     Option.bind (Option.bind (json_item data ''dislikes'') (int_of_json trunc)) (\<lambda>d.
       Some (l, d))))"

definition rating_event :: "profile \<Rightarrow> int \<Rightarrow> int \<Rightarrow> string option \<Rightarrow> int \<Rightarrow> datetime \<Rightarrow> domain_event" where
  "rating_event p dl dd alias epoch ts =
     build (RatingChanged (pr_likes p) (pr_dislikes p) dl dd) (str_int (pr_user_id p)) ts
       (''rating:'' @ str_int (pr_user_id p) @ '':'' @ str_int (pr_likes p) @ '':'' @ str_int (pr_dislikes p)) epoch
       (case alias of None \<Rightarrow> [] | Some a \<Rightarrow> if a = [] then [] else [(''account_alias'', JStr a)])"

definition rating_entry :: "profile \<Rightarrow> baseline_entry" where
  "rating_entry p = \<lparr>be_price = dec_of_int 0, be_hash = encode_rating (pr_likes p) (pr_dislikes p), miss_count = 0\<rparr>"

definition rating_plan ::
  "(string \<Rightarrow> int option) \<Rightarrow> ('l, 'c, 'e) source_ops \<Rightarrow> profile \<Rightarrow> string option \<Rightarrow> category \<Rightarrow> datetime \<Rightarrow> 'l
     \<Rightarrow> domain_event list \<times> last_seen_batch" where
  "rating_plan trunc ops p alias bucket ts l =
     (let key = rating_key (pr_user_id p);
          prior_entry = map_of (so_get_baseline ops l bucket) key;
          prior = (case prior_entry of None \<Rightarrow> None | Some e \<Rightarrow> decode_rating trunc (be_hash e));
          epoch = so_poll_epoch ops l bucket + 1;
          batch = \<lparr>lb_category = bucket, lb_epoch = epoch, lb_upserts = [(key, rating_entry p)], lb_drops = []\<rparr>
      in case prior of
           None \<Rightarrow> ([], batch)
         | Some (likes, dislikes) \<Rightarrow>
             (let dl = pr_likes p - likes; dd = pr_dislikes p - dislikes in
              if dl = 0 \<and> dd = 0 then ([], batch)
              else ([rating_event p dl dd alias epoch ts], batch)))"

definition rating_poll ::
  "(string \<Rightarrow> int option) \<Rightarrow> ('l, 'c, 'e) source_ops \<Rightarrow> profile result \<Rightarrow> string option \<Rightarrow> category \<Rightarrow> datetime
     \<Rightarrow> ('l, 'c, 'e) source_state \<Rightarrow> int result \<times> ('l, 'c, 'e) source_state" where
  "rating_poll trunc ops prof alias bucket ts s =
     (case prof of
        Inl x \<Rightarrow> (Inl x, s)
      | Inr p \<Rightarrow>
          (case rating_plan trunc ops p alias bucket ts (ss_log s) of
             (es, b) \<Rightarrow> (case send ops es b s of
                           (Inl x, s') \<Rightarrow> (Inl x, s')
                         | (Inr _, s') \<Rightarrow> (Inr (int (length es)), s'))))"

text \<open>Successive polls of one account: the events each sent, None once one raises.\<close>

fun rating_run ::
  "(string \<Rightarrow> int option) \<Rightarrow> ('l, 'c, 'e) source_ops \<Rightarrow> string option \<Rightarrow> category \<Rightarrow> (profile \<times> datetime) list
     \<Rightarrow> ('l, 'c, 'e) source_state \<Rightarrow> (domain_event list list \<times> ('l, 'c, 'e) source_state) option" where
  "rating_run trunc ops alias bucket [] s = Some ([], s)"
| "rating_run trunc ops alias bucket ((p, ts) # ps) s =
     (case rating_poll trunc ops (Inr p) alias bucket ts s of
        (Inl _, _) \<Rightarrow> None
      | (Inr _, s1) \<Rightarrow>
          map_option (\<lambda>(ess, s2). (fst (rating_plan trunc ops p alias bucket ts (ss_log s)) # ess, s2))
            (rating_run trunc ops alias bucket ps s1))"

fun rating_delta :: "domain_event \<Rightarrow> int \<times> int" where
  "rating_delta e = (case body e of RatingChanged l d dl dd \<Rightarrow> (dl, dd) | _ \<Rightarrow> (0, 0))"

definition total_deltas :: "domain_event list list \<Rightarrow> int \<times> int" where
  "total_deltas ess =
     (sum_list (map (\<lambda>e. fst (rating_delta e)) (concat ess)), sum_list (map (\<lambda>e. snd (rating_delta e)) (concat ess)))"

subsection \<open>Round trip\<close>

lemma decode_encode_rating: "decode_rating trunc (encode_rating l d) = Some (l, d)"
proof -
  have "json_loads (encode_rating l d) = Some (JObj [(''likes'', JInt l), (''dislikes'', JInt d)])"
    unfolding encode_rating_def by (rule loads_dumps_text) (simp_all add: styles_ok dict_ok_def)
  then show ?thesis by (simp add: decode_rating_def json_item_def int_of_json_def)
qed

context source_stores
begin

definition stored_rating :: "(string \<Rightarrow> int option) \<Rightarrow> category \<Rightarrow> int \<Rightarrow> 'l \<Rightarrow> (int \<times> int) option" where
  "stored_rating trunc bucket u l =
     (case map_of (log_baseline l bucket) (rating_key u) of None \<Rightarrow> None | Some e \<Rightarrow> decode_rating trunc (be_hash e))"

lemma rating_poll_done:
  assumes "log_ok (ss_log s)" "rating_poll trunc sops (Inr p) alias bucket ts s = (Inr n, s')"
  shows "log_ok (ss_log s')"
    and "stored_rating trunc bucket (pr_user_id p) (ss_log s') = Some (pr_likes p, pr_dislikes p)"
    and "stored_rating trunc bucket (pr_user_id p) (ss_log s) = Some (l, d) \<Longrightarrow>
       total_deltas [fst (rating_plan trunc sops p alias bucket ts (ss_log s))] = (pr_likes p - l, pr_dislikes p - d)"
    and "stored_rating trunc bucket (pr_user_id p) (ss_log s) = None \<Longrightarrow> fst (rating_plan trunc sops p alias bucket ts (ss_log s)) = []"
proof -
  obtain es b where plan: "rating_plan trunc sops p alias bucket ts (ss_log s) = (es, b)" by fastforce
  then obtain k where send: "send sops es b s = (Inr k, s')"
    using assms(2) by (auto simp: rating_poll_def split: prod.splits sum.splits)
  have b: "b = \<lparr>lb_category = bucket, lb_epoch = log_epoch (ss_log s) bucket + 1,
                lb_upserts = [(rating_key (pr_user_id p), rating_entry p)], lb_drops = []\<rparr>"
    using plan by (auto simp: rating_plan_def Let_def split: option.splits prod.splits if_splits)
  have bok: "batch_ok b" by (simp add: b batch_ok_def dict_ok_def)
  note sd = send_done [OF send assms(1)]
  show "log_ok (ss_log s')" by (rule sd(1))
  show "stored_rating trunc bucket (pr_user_id p) (ss_log s') = Some (pr_likes p, pr_dislikes p)"
    using sd(6) [OF bok, of bucket]
    by (simp add: stored_rating_def b batch_lookup_def rating_entry_def decode_encode_rating)
  show "stored_rating trunc bucket (pr_user_id p) (ss_log s) = Some (l, d) \<Longrightarrow>
       total_deltas [fst (rating_plan trunc sops p alias bucket ts (ss_log s))] = (pr_likes p - l, pr_dislikes p - d)"
    by (simp add: stored_rating_def rating_plan_def Let_def total_deltas_def rating_event_def split: option.splits)
  show "stored_rating trunc bucket (pr_user_id p) (ss_log s) = None \<Longrightarrow> fst (rating_plan trunc sops p alias bucket ts (ss_log s)) = []"
    by (simp add: stored_rating_def rating_plan_def Let_def split: option.splits)
qed

lemma total_deltas_Cons: "total_deltas (es # ess) = (fst (total_deltas [es]) + fst (total_deltas ess), snd (total_deltas [es]) + snd (total_deltas ess))"
  by (simp add: total_deltas_def)

lemma rating_run_telescopes:
  assumes "log_ok (ss_log s)" "list_all (\<lambda>(p, ts). pr_user_id p = u) ps"
    and "rating_run trunc sops alias bucket ps s = Some (ess, s')"
    and "stored_rating trunc bucket u (ss_log s) = Some (l, d)"
  shows "\<exists>l' d'. stored_rating trunc bucket u (ss_log s') = Some (l', d') \<and> total_deltas ess = (l' - l, d' - d)
    \<and> (l', d') = (if ps = [] then (l, d) else (pr_likes (fst (last ps)), pr_dislikes (fst (last ps))))"
  using assms
proof (induction ps arbitrary: s ess l d)
  case (Cons pt ps)
  obtain p ts where pt: "pt = (p, ts)" by (cases pt)
  obtain n s1 ess1 where poll: "rating_poll trunc sops (Inr p) alias bucket ts s = (Inr n, s1)"
    and run: "rating_run trunc sops alias bucket ps s1 = Some (ess1, s')"
    and ess: "ess = fst (rating_plan trunc sops p alias bucket ts (ss_log s)) # ess1"
    using Cons.prems(3) by (auto simp: pt split: prod.splits sum.splits)
  have u: "pr_user_id p = u" and us: "list_all (\<lambda>(p, ts). pr_user_id p = u) ps"
    using Cons.prems(2) by (simp_all add: pt)
  note step = rating_poll_done [OF Cons.prems(1) poll, unfolded u]
  from Cons.IH [OF step(1) us run step(2)] step(3) [OF Cons.prems(4)] show ?case
    by (auto simp: ess pt total_deltas_Cons [of _ ess1])
qed (simp add: total_deltas_def)

end

subsection \<open>Properties\<close>

text \<open>C14: The rating deltas telescope: over any run of polls of one account, each of which returns, the
  deltas of the events sent add up to the difference between the last counters and the first ones
  stored: no change is counted twice or lost, and the row of the account stays in the baseline.\<close>

theorem rating_deltas_telescope:
  assumes "el_ok (ss_log s)" "rating_poll trunc sql_source_ops (Inr p0) alias bucket ts0 s = (Inr n, s1)"
    and "list_all (\<lambda>(p, ts). pr_user_id p = pr_user_id p0) ps" "ps \<noteq> []"
    and "rating_run trunc sql_source_ops alias bucket ps s1 = Some (ess, s')"
  shows "total_deltas ess = (pr_likes (fst (last ps)) - pr_likes p0, pr_dislikes (fst (last ps)) - pr_dislikes p0)
    \<and> map_of (db_get_baseline (el_baseline (ss_log s')) bucket) (rating_key (pr_user_id p0)) \<noteq> None"
proof -
  note one = ssrc.rating_poll_done [OF assms(1) assms(2) [folded sql_source_ops_eq]]
  from ssrc.rating_run_telescopes [OF one(1) assms(3) assms(5) [folded sql_source_ops_eq] one(2)] assms(4)
  show ?thesis by (auto simp: ssrc.stored_rating_def split: option.splits)
qed

theorem rating_deltas_telescope_witness:
  "\<exists>s1 ess s'. rating_run (\<lambda>t. None) sql_source_ops None ''other''
       [(\<lparr>pr_user_id = 4, pr_likes = 12, pr_dislikes = 1\<rparr>, the (from_timestamp_utc 0))] s1 = Some (ess, s')
     \<and> total_deltas ess = (2, 1)"
proof -
  let ?p0 = "\<lparr>pr_user_id = 4, pr_likes = 10, pr_dislikes = 0\<rparr>" and ?p1 = "\<lparr>pr_user_id = 4, pr_likes = 12, pr_dislikes = 1\<rparr>"
  let ?t = "the (from_timestamp_utc 0)"
  let ?s = "\<lparr>ss_log = el_init, ss_cursors = [], ss_seen = [], ss_notified = 0\<rparr> :: (event_db, cursor_table, memory_seen) source_state"
  have fits: "length (encode_rating 10 0) \<le> 128" "length (encode_rating 12 1) \<le> 128"
    by (simp_all add: encode_rating_def default_style_def quote_str_def escape_char_def str_int_def nat_digits.simps)
  have "\<exists>s1. rating_poll (\<lambda>t. None) sql_source_ops (Inr ?p0) None ''other'' ?t ?s = (Inr 0, s1)
      \<and> el_rows (ss_log s1) = [] \<and> db_last_seen (el_baseline (ss_log s1)) = [((''other'', rating_key 4), rating_entry ?p0)]"
    using fits(1) by (simp add: rating_poll_def rating_plan_def Let_def send_def el_append_def el_init_def db_init_def
        db_get_baseline_def db_get_poll_epoch_def db_apply_def batch_fits_def rows_max_def rating_entry_def)
  then obtain s1 where s1: "rating_poll (\<lambda>t. None) sql_source_ops (Inr ?p0) None ''other'' ?t ?s = (Inr 0, s1)"
    "el_rows (ss_log s1) = []" "db_last_seen (el_baseline (ss_log s1)) = [((''other'', rating_key 4), rating_entry ?p0)]" by blast
  have "\<exists>ess s'. rating_run (\<lambda>t. None) sql_source_ops None ''other'' [(?p1, ?t)] s1 = Some (ess, s')"
    using fits(2) s1(2,3)
    by (simp add: rating_poll_def rating_plan_def Let_def send_def el_append_def db_get_baseline_def db_apply_def batch_fits_def
        rating_entry_def decode_encode_rating event_fits_def rating_event_def str_int_def nat_digits.simps)
  then obtain ess s' where run: "rating_run (\<lambda>t. None) sql_source_ops None ''other'' [(?p1, ?t)] s1 = Some (ess, s')" by blast
  with rating_deltas_telescope [OF _ s1(1) _ _ run] el_ok_init show ?thesis by auto
qed

end
