(* ===== verification/Guarantee_Source.thy ===== *)
theory Guarantee_Source
  imports Source_Base
begin

text \<open>
  The guarantee seeder and watcher (\<open>sources/guarantee.py\<close>): watch records kept as JSON in the content
  hash of rows of the shared bucket, the thresholds of the remaining time, the tick that re-fetches
  every watched lot, and the consumer that starts a watch. The client's \<open>get_lot\<close> is an argument; a
  time difference is in microseconds; a comparison of a naive and an aware datetime raises.
\<close>

record watch_record =
  wr_guarantee_end :: datetime
  wr_fired :: "string list"

definition item_key_offset :: int where
  "item_key_offset = 10 ^ 15"

definition guarantee_key :: "item_id \<Rightarrow> item_id" where
  "guarantee_key i = i + item_key_offset"

definition hour_micros :: int where
  "hour_micros = 3600 * 1000000"

definition thresholds :: "(string \<times> int) list" where
  "thresholds = [(''1h'', hour_micros), (''6h'', 6 * hour_micros), (''24h'', 24 * hour_micros)]"

definition parse_guarantee_end :: "string \<Rightarrow> datetime option" where
  "parse_guarantee_end raw = from_isoformat raw"

definition encode_watch :: "watch_record \<Rightarrow> string" where
  "encode_watch r =
     json_dumps default_style
       (JObj [(''guarantee_end'', JStr (isoformat (wr_guarantee_end r))),
              (''fired'', JArr (map JStr (sort (remdups (wr_fired r)))))])"

text \<open>
  \<open>frozenset(data["fired"])\<close>: of a list of strings, of a string or of the keys of an object; None is
  the \<open>TypeError\<close> of anything else. A list with other elements, which this program never writes, is
  read as a foreign row.
\<close>

definition fired_of_json :: "json \<Rightarrow> string list option" where
  "fired_of_json j =
     (case j of
        JArr js \<Rightarrow> those (map (\<lambda>x. case x of JStr s \<Rightarrow> Some s | _ \<Rightarrow> None) js)
      | JStr s \<Rightarrow> Some (map (\<lambda>c. [c]) s)
      | JObj kvs \<Rightarrow> Some (map fst kvs)
      | _ \<Rightarrow> None)"

definition decode_watch :: "string \<Rightarrow> watch_record option" where
  "decode_watch raw =
     Option.bind (json_loads raw) (\<lambda>data.
     Option.bind (Option.bind (json_item data ''guarantee_end'') (\<lambda>j. case j of JStr s \<Rightarrow> from_isoformat s | _ \<Rightarrow> None)) (\<lambda>d.
     Option.bind (Option.bind (json_item data ''fired'') fired_of_json) (\<lambda>f.
       Some \<lparr>wr_guarantee_end = d, wr_fired = f\<rparr>)))"

definition due_thresholds :: "int \<Rightarrow> string list \<Rightarrow> string list" where
  "due_thresholds remaining fired =
     map fst (filter (\<lambda>(label, window). label \<notin> set fired \<and> remaining \<le> window) thresholds)"

subsection \<open>The watcher\<close>

fun watched_items :: "(item_id, baseline_entry) dict \<Rightarrow> (item_id, watch_record) dict" where
  "watched_items [] = []"
| "watched_items ((i, e) # rest) =
     (if i < item_key_offset then watched_items rest
      else case decode_watch (be_hash e) of
             None \<Rightarrow> watched_items rest
           | Some r \<Rightarrow> (i - item_key_offset, r) # watched_items rest)"

definition watch_entry :: "watch_record \<Rightarrow> baseline_entry" where
  "watch_entry r = \<lparr>be_price = dec_of_int 0, be_hash = encode_watch r, miss_count = 0\<rparr>"

definition expiring_event :: "item_id \<Rightarrow> datetime \<Rightarrow> string \<Rightarrow> int \<Rightarrow> datetime \<Rightarrow> domain_event" where
  "expiring_event i gend label epoch ts =
     build (GuaranteeExpiring i gend) (str_int i) ts (''guarantee:'' @ str_int i @ '':'' @ label) epoch []"

text \<open>What a tick does with one watched item whose lot was fetched: drop it, or an event and its new record.\<close>

datatype watch_outcome = DropWatch | KeepWatch "domain_event option" watch_record

definition watch_step ::
  "datetime \<Rightarrow> int \<Rightarrow> item_id \<Rightarrow> watch_record \<Rightarrow> lot \<Rightarrow> watch_outcome result" where
  "watch_step ts epoch i r l =
     (let gend = (case parse_guarantee_end (lot_guarantee l) of None \<Rightarrow> wr_guarantee_end r | Some d \<Rightarrow> d) in
      case dt_le gend ts of
        None \<Rightarrow> Inl TypeError
      | Some True \<Rightarrow> Inr DropWatch
      | Some False \<Rightarrow>
          (case dt_minus gend ts of
             None \<Rightarrow> Inl TypeError
           | Some remaining \<Rightarrow>
               (let due = due_thresholds remaining (wr_fired r) in
                Inr (KeepWatch (case due of [] \<Rightarrow> None | label # _ \<Rightarrow> Some (expiring_event i gend label epoch ts))
                       \<lparr>wr_guarantee_end = gend, wr_fired = wr_fired r @ due\<rparr>))))"

fun watch_loop ::
  "(item_id \<Rightarrow> lot result) \<Rightarrow> datetime \<Rightarrow> int \<Rightarrow> (item_id, watch_record) dict \<Rightarrow> domain_event list
     \<Rightarrow> (item_id, baseline_entry) dict \<Rightarrow> item_id list
     \<Rightarrow> (domain_event list \<times> (item_id, baseline_entry) dict \<times> item_id list) result" where
  "watch_loop get_lot ts epoch [] events ups drops = Inr (events, ups, drops)"
| "watch_loop get_lot ts epoch ((i, r) # rest) events ups drops =
     (case get_lot i of
        Inl UpstreamNotFound \<Rightarrow> watch_loop get_lot ts epoch rest events ups (drops @ [guarantee_key i])
      | Inl x \<Rightarrow> Inl x
      | Inr l \<Rightarrow>
          bind_result (watch_step ts epoch i r l) (\<lambda>outcome.
            case outcome of
              DropWatch \<Rightarrow> watch_loop get_lot ts epoch rest events ups (drops @ [guarantee_key i])
            | KeepWatch e r' \<Rightarrow>
                watch_loop get_lot ts epoch rest (events @ (case e of None \<Rightarrow> [] | Some e \<Rightarrow> [e]))
                  (AList.update (guarantee_key i) (watch_entry r') ups) drops))"

definition guarantee_poll ::
  "('l, 'c, 'e) source_ops \<Rightarrow> (item_id \<Rightarrow> lot result) \<Rightarrow> category \<Rightarrow> datetime \<Rightarrow> ('l, 'c, 'e) source_state
     \<Rightarrow> int result \<times> ('l, 'c, 'e) source_state" where
  "guarantee_poll ops get_lot bucket ts s =
     (let watched = watched_items (so_get_baseline ops (ss_log s) bucket) in
      if watched = [] then (Inr 0, s)
      else
        (let epoch = so_poll_epoch ops (ss_log s) bucket + 1 in
         case watch_loop get_lot ts epoch watched [] [] [] of
           Inl x \<Rightarrow> (Inl x, s)
         | Inr (events, ups, drops) \<Rightarrow>
             (case send ops events \<lparr>lb_category = bucket, lb_epoch = epoch, lb_upserts = ups, lb_drops = drops\<rparr> s of
                (Inl x, s') \<Rightarrow> (Inl x, s')
              | (Inr _, s') \<Rightarrow> (Inr (int (length events)), s'))))"

subsection \<open>The seeder\<close>

text \<open>Its world is the baseline store, with the epoch it reads and the batch it applies.\<close>

definition seeder_handle ::
  "(item_id \<Rightarrow> lot result) \<Rightarrow> ('b \<Rightarrow> category \<Rightarrow> int) \<Rightarrow> (last_seen_batch \<Rightarrow> 'b \<Rightarrow> 'b) \<Rightarrow> category
     \<Rightarrow> domain_event \<Rightarrow> 'b \<Rightarrow> unit result \<times> 'b" where
  "seeder_handle get_lot epoch_of apply_batch bucket e b =
     (case py_int (aggregate_id e) of
        None \<Rightarrow> (Inr (), b)
      | Some i \<Rightarrow>
          (case get_lot i of
             Inl UpstreamNotFound \<Rightarrow> (Inr (), b)
           | Inl x \<Rightarrow> (Inl x, b)
           | Inr l \<Rightarrow>
               (case parse_guarantee_end (lot_guarantee l) of
                  None \<Rightarrow> (Inr (), b)
                | Some gend \<Rightarrow>
                    (Inr (), apply_batch \<lparr>lb_category = bucket, lb_epoch = epoch_of b bucket + 1,
                       lb_upserts = [(guarantee_key i, watch_entry \<lparr>wr_guarantee_end = gend, wr_fired = []\<rparr>)],
                       lb_drops = []\<rparr> b))))"

subsection \<open>Records\<close>

lemma those_JStr: "those (map (\<lambda>x. case x of JStr s \<Rightarrow> Some s | _ \<Rightarrow> None) (map JStr xs)) = Some xs"
  by (induction xs) simp_all

lemma decode_encode_watch:
  assumes "valid_dt (wr_guarantee_end r)"
  shows "decode_watch (encode_watch r) = Some (r\<lparr>wr_fired := sort (remdups (wr_fired r))\<rparr>)"
proof -
  have "json_loads (encode_watch r) = Some (JObj [(''guarantee_end'', JStr (isoformat (wr_guarantee_end r))),
              (''fired'', JArr (map JStr (sort (remdups (wr_fired r)))))])"
    unfolding encode_watch_def by (rule loads_dumps_text) (simp_all add: styles_ok dict_ok_def list_all_iff)
  then show ?thesis
    using from_isoformat_isoformat [OF assms] those_JStr [of "sort (remdups (wr_fired r))"]
    by (simp add: decode_watch_def json_item_def fired_of_json_def)
qed

text \<open>The labels due are new ones; afterwards every threshold the remaining time is within has fired.\<close>

lemma due_not_fired: "label \<in> set (due_thresholds remaining fired) \<Longrightarrow> label \<notin> set fired"
  by (auto simp: due_thresholds_def)

lemma due_then_fired:
  "(label, window) \<in> set thresholds \<Longrightarrow> remaining \<le> window \<Longrightarrow> label \<in> set (fired @ due_thresholds remaining fired)"
  by (force simp: due_thresholds_def)

lemma due_labels: "set (due_thresholds remaining fired) \<subseteq> fst ` set thresholds"
  by (auto simp: due_thresholds_def)

lemma watch_loop_raises:
  assumes "(i, r) \<in> set ws" "get_lot i = Inr l" "watch_step ts epoch i r l = Inl x"
  shows "\<exists>y. watch_loop get_lot ts epoch ws events ups drops = Inl y"
  using assms(1)
proof (induction ws arbitrary: events ups drops)
  case (Cons w ws)
  obtain j q where w: "w = (j, q)" by (cases w)
  show ?case
  proof (cases "w = (i, r)")
    case True
    then show ?thesis using assms(2,3) by simp
  next
    case False
    with Cons.prems have "(i, r) \<in> set ws" by simp
    note IH = Cons.IH [OF this]
    show ?thesis
    proof (cases "get_lot j")
      case (Inl e)
      then show ?thesis using IH by (cases e) (simp_all add: w)
    next
      case (Inr m)
      then show ?thesis
        using IH by (cases "watch_step ts epoch j q m") (auto simp: w split: watch_outcome.splits)
    qed
  qed
qed simp

text \<open>The ticks of one watched item, each with its time, epoch and lot: the events, None once one raises.\<close>

fun watch_run :: "item_id \<Rightarrow> (datetime \<times> int \<times> lot) list \<Rightarrow> watch_record \<Rightarrow> domain_event list option" where
  "watch_run i [] r = Some []"
| "watch_run i ((ts, epoch, l) # ticks) r =
     (case watch_step ts epoch i r l of
        Inl _ \<Rightarrow> None
      | Inr DropWatch \<Rightarrow> Some []
      | Inr (KeepWatch e r') \<Rightarrow>
          map_option ((@) (case e of None \<Rightarrow> [] | Some e \<Rightarrow> [e])) (watch_run i ticks r'))"

definition guarantee_hash :: "item_id \<Rightarrow> string \<Rightarrow> string" where
  "guarantee_hash i label = ''guarantee:'' @ str_int i @ '':'' @ label"

lemma guarantee_hash_inj: "guarantee_hash i a = guarantee_hash i b \<longleftrightarrow> a = b"
  by (simp add: guarantee_hash_def)

lemma watch_step_keep:
  assumes "watch_step ts epoch i r l = Inr (KeepWatch e r')"
  obtains due where "wr_fired r' = wr_fired r @ due" "set due \<subseteq> fst ` set thresholds - set (wr_fired r)"
    and "e = None \<and> due = [] \<or> (\<exists>label rest ev. due = label # rest \<and> e = Some ev \<and> content_hash ev = guarantee_hash i label)"
proof -
  let ?g = "case parse_guarantee_end (lot_guarantee l) of None \<Rightarrow> wr_guarantee_end r | Some d \<Rightarrow> d"
  have "\<exists>remaining. wr_fired r' = wr_fired r @ due_thresholds remaining (wr_fired r)
      \<and> e = (case due_thresholds remaining (wr_fired r) of [] \<Rightarrow> None | label # _ \<Rightarrow> Some (expiring_event i ?g label epoch ts))"
    using assms unfolding watch_step_def Let_def
    by (cases "dt_le ?g ts"; cases "dt_minus ?g ts") (auto split: if_splits bool.splits)
  then obtain remaining where
    "wr_fired r' = wr_fired r @ due_thresholds remaining (wr_fired r)"
    "e = (case due_thresholds remaining (wr_fired r) of [] \<Rightarrow> None | label # _ \<Rightarrow> Some (expiring_event i ?g label epoch ts))"
    by blast
  then show thesis
    using that [of "due_thresholds remaining (wr_fired r)"] due_labels [of remaining "wr_fired r"] due_not_fired [of _ remaining "wr_fired r"]
    by (cases "due_thresholds remaining (wr_fired r)") (auto simp: expiring_event_def guarantee_hash_def)
qed

lemma watch_run_labels:
  assumes "watch_run i ticks r = Some es"
  shows "\<exists>labels. map content_hash es = map (guarantee_hash i) labels \<and> distinct labels
    \<and> set labels \<subseteq> fst ` set thresholds - set (wr_fired r)"
  using assms
proof (induction ticks arbitrary: r es)
  case (Cons tick ticks)
  obtain ts epoch l where tick: "tick = (ts, epoch, l)" by (cases tick)
  show ?case
  proof (cases "watch_step ts epoch i r l")
    case (Inl x)
    then show ?thesis using Cons.prems by (simp add: tick)
  next
    case (Inr outcome)
    show ?thesis
    proof (cases outcome)
      case DropWatch
      then show ?thesis using Cons.prems Inr by (auto simp: tick)
    next
      case (KeepWatch e r')
      then obtain es1 where run: "watch_run i ticks r' = Some es1" and es: "es = (case e of None \<Rightarrow> [] | Some e \<Rightarrow> [e]) @ es1"
        using Cons.prems Inr by (auto simp: tick)
      obtain labels where labels: "map content_hash es1 = map (guarantee_hash i) labels" "distinct labels"
        "set labels \<subseteq> fst ` set thresholds - set (wr_fired r')" using Cons.IH [OF run] by blast
      obtain due where due: "wr_fired r' = wr_fired r @ due" "set due \<subseteq> fst ` set thresholds - set (wr_fired r)"
        "e = None \<and> due = [] \<or> (\<exists>label rest ev. due = label # rest \<and> e = Some ev \<and> content_hash ev = guarantee_hash i label)"
        using watch_step_keep Inr KeepWatch by metis
      show ?thesis
      proof (cases e)
        case None
        then show ?thesis using labels due by (intro exI [of _ labels]) (auto simp: es)
      next
        case (Some ev)
        then obtain label rest where "due = label # rest" "content_hash ev = guarantee_hash i label" using due(3) by auto
        then show ?thesis using labels due(1,2) Some by (intro exI [of _ "label # labels"]) (auto simp: es)
      qed
    qed
  qed
qed simp

subsection \<open>Properties\<close>


text \<open>One naive guarantee date stops the whole watcher: when a watched lot's guarantee parses to a
  datetime without an offset, every tick with an aware clock raises before it sends anything, and no
  watched item is checked, reported or dropped any more.\<close>

theorem naive_guarantee_blocks_watcher:
  assumes "(i, r) \<in> set (watched_items (so_get_baseline ops (ss_log s) bucket))"
    and "get_lot i = Inr l" "parse_guarantee_end (lot_guarantee l) = Some d" "utc_offset d = None" "utc_offset ts = Some 0"
  shows "\<exists>x. guarantee_poll ops get_lot bucket ts s = (Inl x, s)"
proof -
  have "watch_step ts epoch i r l = Inl TypeError" for epoch
    using assms(3-5) by (simp add: watch_step_def dt_le_mixed)
  from watch_loop_raises [where get_lot = get_lot, OF assms(1,2) this]
  obtain y where "watch_loop get_lot ts (so_poll_epoch ops (ss_log s) bucket + 1)
      (watched_items (so_get_baseline ops (ss_log s) bucket)) [] [] [] = Inl y" by blast
  moreover have "watched_items (so_get_baseline ops (ss_log s) bucket) \<noteq> []" using assms(1) by auto
  ultimately show ?thesis by (simp add: guarantee_poll_def Let_def)
qed

text \<open>The seeder looks up the wrong lot: a purchase event built from a payment operation has the
  operation's id as its aggregate, and the seeder takes that number for the item's id. What it does is
  determined by the lot that happens to have the operation's number, and what it watches is that lot.\<close>

theorem seeder_watches_operation_id:
  assumes "from_operation op ts h ep = Inr (Some e)" "ev_type e = ITEM_PURCHASED"
  shows "seeder_handle get_lot epoch_of apply_batch bucket e b
      = (case get_lot (po_operation_id op) of
           Inl x \<Rightarrow> (if x = UpstreamNotFound then (Inr (), b) else (Inl x, b))
         | Inr l \<Rightarrow>
             (case parse_guarantee_end (lot_guarantee l) of
                None \<Rightarrow> (Inr (), b)
              | Some gend \<Rightarrow>
                  (Inr (), apply_batch \<lparr>lb_category = bucket, lb_epoch = epoch_of b bucket + 1,
                     lb_upserts = [(guarantee_key (po_operation_id op), watch_entry \<lparr>wr_guarantee_end = gend, wr_fired = []\<rparr>)],
                     lb_drops = []\<rparr> b)))"
  by (rule from_operation_build [OF assms(1)])
    (simp add: seeder_handle_def split: sum.splits exn.splits option.splits)

definition example_time :: "int \<Rightarrow> int option \<Rightarrow> datetime" where
  "example_time h off = \<lparr>dt_year = 2024, dt_month = 5, dt_day = 1, dt_hour = h, dt_minute = 0, dt_second = 0,
     dt_micro = 0, utc_offset = off\<rparr>"

definition example_lot :: "string \<Rightarrow> lot" where
  "example_lot g = \<lparr>lot_item_id = 7, lot_category = ''steam'', lot_price = Decimal 5 0, lot_hash = ''h'',
     lot_item_state = ''active'', lot_guarantee = g, lot_dump = JNull\<rparr>"


theorem naive_guarantee_blocks_watcher_witness:
  "\<exists>x. guarantee_poll (mem_source_ops\<lparr>so_get_baseline := (\<lambda>l c. [(guarantee_key 7, watch_entry \<lparr>wr_guarantee_end = example_time 6 None, wr_fired = []\<rparr>)])\<rparr>)
        (\<lambda>i. Inr (example_lot ''2024-05-01T06:00:00'')) ''other'' (example_time 1 (Some 0))
        \<lparr>ss_log = ml_init, ss_cursors = [], ss_seen = [], ss_notified = 0\<rparr>
      = (Inl x, \<lparr>ss_log = ml_init, ss_cursors = [], ss_seen = [], ss_notified = 0\<rparr>)"
proof -
  have d: "parse_guarantee_end ''2024-05-01T06:00:00'' = Some (example_time 6 None)" by code_simp
  have v: "valid_dt (example_time 6 None)" by code_simp
  show ?thesis
    by (rule naive_guarantee_blocks_watcher [of 7 "\<lparr>wr_guarantee_end = example_time 6 None, wr_fired = []\<rparr>" _ _ _ _
          "example_lot ''2024-05-01T06:00:00''" "example_time 6 None"])
      (use d v in \<open>simp_all add: guarantee_key_def item_key_offset_def watch_entry_def decode_encode_watch example_lot_def example_time_def\<close>)
qed

theorem seeder_watches_operation_id_witness:
  "\<exists>e. from_operation \<lparr>po_operation_id = 5, po_operation_type = ''paid_item'', po_amount = Decimal 5 0,
          po_currency = ''rub'', po_counterparty_id = None, po_counterparty_username = [], po_fee = 0,
          po_is_hold = False, po_hold_end_date = 0, po_comment = []\<rparr> (the (from_timestamp_utc 0)) ''h'' 1 = Inr (Some e)
     \<and> seeder_handle (\<lambda>i. if i = 5 then Inl UpstreamNotFound else Inr (example_lot ''2024-05-01T06:00:00'')) ms_get_poll_epoch ms_apply ''other'' e ms_init
        = (Inr (), ms_init)"
proof -
  let ?op = "\<lparr>po_operation_id = 5, po_operation_type = ''paid_item'', po_amount = Decimal 5 0,
          po_currency = ''rub'', po_counterparty_id = None, po_counterparty_username = [], po_fee = 0,
          po_is_hold = False, po_hold_end_date = 0, po_comment = []\<rparr>"
  have "\<exists>e. from_operation ?op (the (from_timestamp_utc 0)) ''h'' 1 = Inr (Some e) \<and> ev_type e = ITEM_PURCHASED"
    by (simp add: from_operation_def hold_end_def by_operation_type_def Let_def ev_type_def payment_event_type_def)
  then obtain e where e: "from_operation ?op (the (from_timestamp_utc 0)) ''h'' 1 = Inr (Some e)" "ev_type e = ITEM_PURCHASED" by blast
  from seeder_watches_operation_id [OF e, of "\<lambda>i. if i = 5 then Inl UpstreamNotFound else Inr (example_lot ''2024-05-01T06:00:00'')"] e(1)
  show ?thesis by simp
qed

end
