(* ===== verification/Source_Manager.thy ===== *)
theory Source_Manager
  imports Source_Cadence Eventus_Prelude
begin

text \<open>
  The source manager (\<open>sources/manager.py\<close>): the desired sources, the table of their tasks and the
  supervisor that reconciles the two, restarts a task that ended by itself after a backoff, and drains
  the tasks at the end. The operations are functions; the supervisor is a step relation whose steps are
  the code between two awaits, so that additions, removals, the stop request and the ends of tasks may
  fall between any two of them. A source object is its identity and its cadence.
\<close>

subsection \<open>State and operations\<close>

record source_ref =
  sr_name :: string
  sr_id :: nat
  sr_cadence :: cadence

datatype task_end = Returned | Cancelled | Raised exn

record source_task =
  tk_source :: nat
  tk_stop :: bool
  tk_end :: "task_end option"

record manager_config =
  mc_max_restart_attempts :: int
  mc_backoff_base :: rat
  mc_backoff_max :: rat

text \<open>
  Where the supervisor is: before its first reconciliation, stopping tasks, awaiting one of them (which has left the
  table), waiting for an event, woken with the tasks found done, handling them one by one, backing off
  before a restart, draining with the exception on its way out, or finished.
\<close>

datatype supervisor_pc =
    Reconcile
  | StopTasks "string list"
  | AwaitTask source_task "string list"
  | WaitEvent
  | Woken "string list"
  | HandleDone "string list"
  | BackOff string rat "string list"
  | Draining "exn option" "string list"
  | Finished "exn option"

text \<open>\<open>sm_starts\<close> counts the starts under a name since it was last registered or removed; the program
  does not keep it.\<close>

record manager =
  sm_sources :: "(string, source_ref) dict"
  sm_tasks :: "(string, source_task) dict"
  sm_restart_attempts :: "(string, int) dict"
  sm_changed :: bool
  sm_stop :: bool
  sm_starts :: "string \<Rightarrow> nat"
  sm_pc :: supervisor_pc

definition register_source :: "source_ref \<Rightarrow> manager \<Rightarrow> manager result" where
  "register_source src m =
     (if sr_name src \<in> set (dict_keys (sm_sources m)) then Inl (Engine (DuplicateSource (sr_name src)))
      else Inr (m\<lparr>sm_sources := AList.update (sr_name src) src (sm_sources m),
                  sm_starts := (sm_starts m)(sr_name src := 0)\<rparr>))"

fun register_sources :: "source_ref list \<Rightarrow> manager \<Rightarrow> manager result" where
  "register_sources [] m = Inr m"
| "register_sources (src # srcs) m = bind_result (register_source src m) (register_sources srcs)"

definition new_manager :: "source_ref list \<Rightarrow> manager result" where
  "new_manager srcs = register_sources srcs
     \<lparr>sm_sources = [], sm_tasks = [], sm_restart_attempts = [], sm_changed = False, sm_stop = False,
      sm_starts = (\<lambda>_. 0), sm_pc = Reconcile\<rparr>"

definition source_names :: "manager \<Rightarrow> string list" where
  "source_names m = dict_keys (sm_sources m)"

definition add_source :: "source_ref \<Rightarrow> manager \<Rightarrow> manager result" where
  "add_source src m =
     bind_result (register_source src m) (\<lambda>m1.
       Inr (m1\<lparr>sm_restart_attempts := AList.delete (sr_name src) (sm_restart_attempts m1), sm_changed := True\<rparr>))"

definition remove_source :: "string \<Rightarrow> manager \<Rightarrow> manager result" where
  "remove_source name m =
     (if name \<notin> set (dict_keys (sm_sources m)) then Inl (Engine (SourceNotFound name))
      else Inr (m\<lparr>sm_sources := AList.delete name (sm_sources m),
                  sm_restart_attempts := AList.delete name (sm_restart_attempts m),
                  sm_starts := (sm_starts m)(name := 0), sm_changed := True\<rparr>))"

definition update_source_cadence :: "string \<Rightarrow> rat option \<Rightarrow> rat option \<Rightarrow> rat option \<Rightarrow> manager \<Rightarrow> manager result" where
  "update_source_cadence name mn mx c m =
     (case map_of (sm_sources m) name of
        None \<Rightarrow> Inl (Engine (SourceNotFound name))
      | Some src \<Rightarrow>
          Inr (m\<lparr>sm_sources := AList.update name (src\<lparr>sr_cadence := update_cadence mn mx c (sr_cadence src)\<rparr>) (sm_sources m)\<rparr>))"

definition start_task :: "string \<Rightarrow> source_ref \<Rightarrow> manager \<Rightarrow> manager" where
  "start_task name src m =
     m\<lparr>sm_tasks := AList.update name \<lparr>tk_source = sr_id src, tk_stop = False, tk_end = None\<rparr> (sm_tasks m),
       sm_starts := (sm_starts m)(name := sm_starts m name + 1)\<rparr>"

subsection \<open>The supervisor\<close>

fun start_tasks :: "(string, source_ref) dict \<Rightarrow> manager \<Rightarrow> manager" where
  "start_tasks [] m = m"
| "start_tasks ((name, src) # rest) m =
     start_tasks rest (if name \<in> set (dict_keys (sm_tasks m)) then m else start_task name src m)"

definition reconcile :: "manager \<Rightarrow> manager" where
  "reconcile m =
     (let m1 = start_tasks (sm_sources m) m
      in m1\<lparr>sm_pc := StopTasks (filter (\<lambda>n. n \<notin> set (dict_keys (sm_sources m))) (dict_keys (sm_tasks m1)))\<rparr>)"

definition begin_drain :: "exn option \<Rightarrow> manager \<Rightarrow> manager" where
  "begin_drain x m =
     m\<lparr>sm_tasks := map (\<lambda>(n, t). (n, t\<lparr>tk_stop := True\<rparr>)) (sm_tasks m), sm_pc := Draining x (dict_keys (sm_tasks m))\<rparr>"

definition done_names :: "manager \<Rightarrow> string list" where
  "done_names m = map fst (filter (\<lambda>(n, t). tk_end t \<noteq> None) (sm_tasks m))"

definition restart_backoff :: "manager_config \<Rightarrow> int \<Rightarrow> rat" where
  "restart_backoff cfg attempts = min (mc_backoff_base cfg * 2 ^ nat (attempts - 1)) (mc_backoff_max cfg)"

text \<open>\<open>_handle_unexpected_completion\<close> up to its wait, and from the end of the wait on.\<close>

definition completion_first :: "manager_config \<Rightarrow> string \<Rightarrow> string list \<Rightarrow> manager \<Rightarrow> manager" where
  "completion_first cfg name rest m =
     (let m1 = m\<lparr>sm_tasks := AList.delete name (sm_tasks m)\<rparr> in
      if name \<notin> set (dict_keys (sm_sources m)) then m1\<lparr>sm_pc := HandleDone rest\<rparr>
      else
        (let attempts = (case map_of (sm_restart_attempts m) name of None \<Rightarrow> 0 | Some k \<Rightarrow> k) + 1;
             m2 = m1\<lparr>sm_restart_attempts := AList.update name attempts (sm_restart_attempts m)\<rparr>
         in if mc_max_restart_attempts cfg < attempts
            then begin_drain (Some (Engine (SourceExhausted name attempts))) m2
            else m2\<lparr>sm_pc := BackOff name (restart_backoff cfg attempts) rest\<rparr>))"

definition completion_rest :: "string \<Rightarrow> string list \<Rightarrow> manager \<Rightarrow> manager" where
  "completion_rest name rest m =
     (if sm_stop m then m\<lparr>sm_pc := HandleDone rest\<rparr>
      else case map_of (sm_sources m) name of
             None \<Rightarrow> m\<lparr>sm_pc := HandleDone rest\<rparr>
           | Some src \<Rightarrow> (start_task name src m)\<lparr>sm_pc := HandleDone rest\<rparr>)"

text \<open>An awaited task's end: its exception comes out of the await, a cancellation is suppressed.\<close>

definition end_error :: "task_end \<Rightarrow> exn option" where
  "end_error e = (case e of Raised x \<Rightarrow> Some x | _ \<Rightarrow> None)"

inductive manager_step :: "manager_config \<Rightarrow> manager \<Rightarrow> manager \<Rightarrow> bool" for cfg where
  ms_add: "add_source src m = Inr m' \<Longrightarrow> manager_step cfg m m'"
| ms_remove: "remove_source name m = Inr m' \<Longrightarrow> manager_step cfg m m'"
| ms_cadence: "update_source_cadence name mn mx c m = Inr m' \<Longrightarrow> manager_step cfg m m'"
| ms_request_stop: "manager_step cfg m (m\<lparr>sm_stop := True\<rparr>)"
| ms_task_end: "map_of (sm_tasks m) name = Some t \<Longrightarrow> tk_end t = None \<Longrightarrow>
     manager_step cfg m (m\<lparr>sm_tasks := AList.update name (t\<lparr>tk_end := Some e\<rparr>) (sm_tasks m)\<rparr>)"
| ms_awaited_end: "sm_pc m = AwaitTask t ns \<Longrightarrow> tk_end t = None \<Longrightarrow>
     manager_step cfg m (m\<lparr>sm_pc := AwaitTask (t\<lparr>tk_end := Some e\<rparr>) ns\<rparr>)"
| ms_reconcile: "sm_pc m = Reconcile \<Longrightarrow> manager_step cfg m (reconcile m)"
| ms_stop_task: "sm_pc m = StopTasks (n # ns) \<Longrightarrow> map_of (sm_tasks m) n = Some t \<Longrightarrow>
     manager_step cfg m (m\<lparr>sm_tasks := AList.delete n (sm_tasks m), sm_pc := AwaitTask (t\<lparr>tk_stop := True\<rparr>) ns\<rparr>)"
| ms_awaited: "sm_pc m = AwaitTask t ns \<Longrightarrow> tk_end t = Some e \<Longrightarrow> end_error e = None \<Longrightarrow>
     manager_step cfg m (m\<lparr>sm_pc := StopTasks ns\<rparr>)"
| ms_await_raises: "sm_pc m = AwaitTask t ns \<Longrightarrow> tk_end t = Some e \<Longrightarrow> end_error e = Some x \<Longrightarrow>
     manager_step cfg m (begin_drain (Some x) m)"
| ms_loop: "sm_pc m = StopTasks [] \<Longrightarrow> \<not> sm_stop m \<Longrightarrow> manager_step cfg m (m\<lparr>sm_pc := WaitEvent\<rparr>)"
| ms_loop_exit: "sm_pc m = StopTasks [] \<Longrightarrow> sm_stop m \<Longrightarrow> manager_step cfg m (begin_drain None m)"
| ms_wake: "sm_pc m = WaitEvent \<Longrightarrow> sm_stop m \<or> sm_changed m \<or> done_names m \<noteq> [] \<Longrightarrow>
     manager_step cfg m (m\<lparr>sm_pc := Woken (done_names m)\<rparr>)"
| ms_woken: "sm_pc m = Woken ns \<Longrightarrow> \<not> sm_stop m \<Longrightarrow> manager_step cfg m (m\<lparr>sm_pc := HandleDone ns\<rparr>)"
| ms_woken_exit: "sm_pc m = Woken ns \<Longrightarrow> sm_stop m \<Longrightarrow> manager_step cfg m (begin_drain None m)"
| ms_handle: "sm_pc m = HandleDone (n # ns) \<Longrightarrow> manager_step cfg m (completion_first cfg n ns m)"
| ms_backed_off: "sm_pc m = BackOff n w ns \<Longrightarrow> manager_step cfg m (completion_rest n ns m)"
| ms_handled: "sm_pc m = HandleDone [] \<Longrightarrow> \<not> sm_stop m \<Longrightarrow>
     manager_step cfg m (reconcile (m\<lparr>sm_changed := False\<rparr>))"
| ms_handled_exit: "sm_pc m = HandleDone [] \<Longrightarrow> sm_stop m \<Longrightarrow> manager_step cfg m (begin_drain None m)"
| ms_drain: "sm_pc m = Draining x (n # ns) \<Longrightarrow> map_of (sm_tasks m) n = Some t \<Longrightarrow> tk_end t = Some e \<Longrightarrow> end_error e = None \<Longrightarrow>
     manager_step cfg m (m\<lparr>sm_pc := Draining x ns\<rparr>)"
| ms_drain_raises: "sm_pc m = Draining x (n # ns) \<Longrightarrow> map_of (sm_tasks m) n = Some t \<Longrightarrow> tk_end t = Some e \<Longrightarrow> end_error e = Some y \<Longrightarrow>
     manager_step cfg m (m\<lparr>sm_pc := Finished (Some y)\<rparr>)"
| ms_drained: "sm_pc m = Draining x [] \<Longrightarrow> manager_step cfg m (m\<lparr>sm_tasks := [], sm_pc := Finished x\<rparr>)"

inductive manager_reaches :: "manager_config \<Rightarrow> manager \<Rightarrow> manager \<Rightarrow> bool" for cfg m where
  mr_refl: "manager_reaches cfg m m"
| mr_step: "manager_reaches cfg m m' \<Longrightarrow> manager_step cfg m' m'' \<Longrightarrow> manager_reaches cfg m m''"

subsection \<open>Invariants\<close>

definition attempts_of :: "manager \<Rightarrow> string \<Rightarrow> int" where
  "attempts_of m n = (case map_of (sm_restart_attempts m) n of None \<Rightarrow> 0 | Some k \<Rightarrow> k)"

abbreviation desired :: "manager \<Rightarrow> string set" where
  "desired m \<equiv> set (dict_keys (sm_sources m))"

abbreviation tasked :: "manager \<Rightarrow> string set" where
  "tasked m \<equiv> set (dict_keys (sm_tasks m))"

definition exiting :: "manager \<Rightarrow> bool" where
  "exiting m \<longleftrightarrow> (case sm_pc m of Draining x ns \<Rightarrow> True | Finished x \<Rightarrow> True | _ \<Rightarrow> False)"

definition to_stop :: "manager \<Rightarrow> string list" where
  "to_stop m = (case sm_pc m of StopTasks ns \<Rightarrow> ns | AwaitTask t ns \<Rightarrow> ns | _ \<Rightarrow> [])"

fun member_pc :: "supervisor_pc \<Rightarrow> bool \<Rightarrow> string set \<Rightarrow> string set \<Rightarrow> bool" where
  "member_pc (StopTasks ns) changed D T \<longleftrightarrow> changed \<or> T = D \<union> set ns \<and> set ns \<inter> D = {} \<and> distinct ns"
| "member_pc (AwaitTask t ns) changed D T \<longleftrightarrow> changed \<or> T = D \<union> set ns \<and> set ns \<inter> D = {} \<and> distinct ns"
| "member_pc WaitEvent changed D T \<longleftrightarrow> changed \<or> T = D"
| "member_pc pc changed D T \<longleftrightarrow> True"

definition member_inv :: "manager \<Rightarrow> bool" where
  "member_inv m \<longleftrightarrow> dict_ok (sm_sources m) \<and> dict_ok (sm_tasks m)
   \<and> member_pc (sm_pc m) (sm_changed m) (desired m) (tasked m)"

lemma member_pc_changed [simp]: "member_pc pc True D T"
  by (cases pc) simp_all

definition starts_inv :: "manager_config \<Rightarrow> manager \<Rightarrow> bool" where
  "starts_inv cfg m \<longleftrightarrow>
     (\<forall>n. int (sm_starts m n) \<le> attempts_of m n + 1 \<and> 0 \<le> attempts_of m n
          \<and> int (sm_starts m n) \<le> mc_max_restart_attempts cfg + 1
          \<and> attempts_of m n \<le> mc_max_restart_attempts cfg + (if exiting m then 1 else 0))
   \<and> (\<forall>n. n \<in> desired m \<longrightarrow> n \<notin> tasked m \<longrightarrow> \<not> exiting m \<longrightarrow> \<not> sm_stop m \<or> sm_pc m = Reconcile \<longrightarrow>
          (\<forall>w ns. sm_pc m \<noteq> BackOff n w ns) \<longrightarrow> sm_starts m n = 0)
   \<and> (\<forall>n w ns. sm_pc m = BackOff n w ns \<longrightarrow> n \<in> desired m \<longrightarrow> int (sm_starts m n) \<le> attempts_of m n)
   \<and> (\<forall>n. n \<in> set (to_stop m) \<longrightarrow> n \<in> desired m \<longrightarrow> sm_starts m n = 0)
   \<and> (\<forall>n w ns. sm_pc m = BackOff n w ns \<longrightarrow> (\<exists>k. 1 \<le> k \<and> k \<le> mc_max_restart_attempts cfg \<and> w = restart_backoff cfg k))"

lemma start_tasks_fields [simp]:
  "sm_sources (start_tasks srcs m) = sm_sources m"
  "sm_restart_attempts (start_tasks srcs m) = sm_restart_attempts m"
  "sm_changed (start_tasks srcs m) = sm_changed m"
  "sm_stop (start_tasks srcs m) = sm_stop m"
  by (induction srcs m rule: start_tasks.induct) (auto simp: start_task_def)

lemma start_tasks_keys: "tasked (start_tasks srcs m) = tasked m \<union> set (dict_keys srcs)"
  by (induction srcs m rule: start_tasks.induct) (auto simp: start_task_def)

lemma start_tasks_ok: "dict_ok (sm_tasks m) \<Longrightarrow> dict_ok (sm_tasks (start_tasks srcs m))"
  by (induction srcs m rule: start_tasks.induct) (auto simp: start_task_def)

lemma start_tasks_starts:
  "dict_ok srcs \<Longrightarrow> sm_starts (start_tasks srcs m) n
     = sm_starts m n + (if n \<in> set (dict_keys srcs) \<and> n \<notin> tasked m then 1 else 0)"
proof (induction srcs m rule: start_tasks.induct)
  case (2 name src rest m)
  then have "dict_ok rest" "name \<notin> set (dict_keys rest)" by (simp_all add: dict_ok_Cons)
  with 2 show ?case by (auto simp: start_task_def split: if_splits)
qed simp

lemma start_tasks_keeps:
  "map_of (sm_tasks m) n = Some t \<Longrightarrow> map_of (sm_tasks (start_tasks srcs m)) n = Some t"
proof (induction srcs m rule: start_tasks.induct)
  case (2 name src rest m)
  show ?case
  proof (cases "name \<in> tasked m")
    case False
    then have none: "map_of (sm_tasks m) name = None" by (simp add: map_of_eq_None_iff)
    with 2(2) have "n \<noteq> name" by auto
    then have "map_of (sm_tasks (start_task name src m)) n = Some t" using 2(2) by (simp add: start_task_def dict_simps)
    with 2(1) False show ?thesis by simp
  qed (use 2 in simp)
qed simp

lemmas manager_ops = register_source_def add_source_def remove_source_def update_source_cadence_def

lemma begin_drain_fields [simp]:
  "sm_sources (begin_drain x m) = sm_sources m" "sm_starts (begin_drain x m) = sm_starts m"
  "sm_restart_attempts (begin_drain x m) = sm_restart_attempts m" "tasked (begin_drain x m) = tasked m"
  "dict_ok (sm_tasks (begin_drain x m)) = dict_ok (sm_tasks m)" "sm_pc (begin_drain x m) = Draining x (dict_keys (sm_tasks m))"
  by (simp_all add: begin_drain_def dict_ok_def comp_def case_prod_beta image_image)

lemma tasked_update [simp]: "map_of (sm_tasks m) n = Some t \<Longrightarrow> insert n (fst ` set (sm_tasks m)) = fst ` set (sm_tasks m)"
  by (metis insert_absorb map_of_SomeD fst_conv image_eqI)

lemma member_inv_reconcile:
  assumes "dict_ok (sm_sources m)" "dict_ok (sm_tasks m)"
  shows "member_inv (reconcile m)"
proof -
  have "distinct (dict_keys (sm_tasks (start_tasks (sm_sources m) m)))"
    using start_tasks_ok [OF assms(2)] by (simp add: dict_ok_def)
  then show ?thesis
    using assms start_tasks_ok [OF assms(2)] start_tasks_keys [of "sm_sources m" m]
    by (auto simp: member_inv_def reconcile_def Let_def)
qed

lemma add_source_fields:
  assumes "add_source src m = Inr m'"
  shows "desired m' = insert (sr_name src) (desired m)" "tasked m' = tasked m" "sm_pc m' = sm_pc m" "sm_stop m' = sm_stop m"
    "sm_changed m'" "dict_ok (sm_sources m) \<Longrightarrow> dict_ok (sm_sources m')" "sm_tasks m' = sm_tasks m"
    "sm_starts m' = (sm_starts m)(sr_name src := 0)" "attempts_of m' = (attempts_of m)(sr_name src := 0)"
proof -
  have m: "m' = m\<lparr>sm_sources := AList.update (sr_name src) src (sm_sources m), sm_starts := (sm_starts m)(sr_name src := 0),
      sm_restart_attempts := AList.delete (sr_name src) (sm_restart_attempts m), sm_changed := True\<rparr>"
    using assms by (auto simp: manager_ops split: if_splits)
  show "desired m' = insert (sr_name src) (desired m)" by (simp add: m)
qed (use assms in \<open>auto simp: manager_ops attempts_of_def dict_simps fun_eq_iff split: if_splits\<close>)

lemma remove_source_fields:
  assumes "remove_source name m = Inr m'"
  shows "desired m' = desired m - {name}" "tasked m' = tasked m" "sm_pc m' = sm_pc m" "sm_stop m' = sm_stop m"
    "sm_changed m'" "dict_ok (sm_sources m) \<Longrightarrow> dict_ok (sm_sources m')" "sm_tasks m' = sm_tasks m"
    "sm_starts m' = (sm_starts m)(name := 0)" "attempts_of m' = (attempts_of m)(name := 0)"
proof -
  have m: "m' = m\<lparr>sm_sources := AList.delete name (sm_sources m), sm_restart_attempts := AList.delete name (sm_restart_attempts m),
      sm_starts := (sm_starts m)(name := 0), sm_changed := True\<rparr>"
    using assms by (auto simp: manager_ops split: if_splits)
  show "desired m' = desired m - {name}" by (simp add: m)
qed (use assms in \<open>auto simp: manager_ops attempts_of_def dict_simps fun_eq_iff split: if_splits\<close>)

lemma update_source_cadence_fields:
  assumes "update_source_cadence name mn mx c m = Inr m'"
  shows "desired m' = desired m" "dict_ok (sm_sources m) \<Longrightarrow> dict_ok (sm_sources m')"
    "sm_changed m' = sm_changed m" "sm_tasks m' = sm_tasks m" "sm_pc m' = sm_pc m" "sm_stop m' = sm_stop m"
    "sm_starts m' = sm_starts m" "attempts_of m' = attempts_of m"
proof -
  obtain src where src: "map_of (sm_sources m) name = Some src"
    and m: "m' = m\<lparr>sm_sources := AList.update name (src\<lparr>sr_cadence := update_cadence mn mx c (sr_cadence src)\<rparr>) (sm_sources m)\<rparr>"
    using assms by (auto simp: manager_ops split: option.splits)
  have "name \<in> desired m" using src by (metis map_of_SomeD fst_conv image_eqI list.set_map)
  then show "desired m' = desired m" by (simp add: m insert_absorb)
qed (use assms in \<open>auto simp: manager_ops attempts_of_def fun_eq_iff split: option.splits\<close>)

lemma member_inv_step:
  assumes "manager_step cfg m m'" "member_inv m"
  shows "member_inv m'"
  using assms
proof (induction rule: manager_step.induct)
  case (ms_add src m m')
  then show ?case using add_source_fields [OF ms_add(1)] by (simp add: member_inv_def)
next
  case (ms_remove name m m')
  then show ?case using remove_source_fields [OF ms_remove(1)] by (simp add: member_inv_def)
next
  case (ms_cadence name mn mx c m m')
  then show ?case using update_source_cadence_fields [OF ms_cadence(1)] by (simp add: member_inv_def)
next
  case (ms_reconcile m)
  then show ?case by (intro member_inv_reconcile) (simp_all add: member_inv_def)
next
  case (ms_handled m)
  then show ?case by (intro member_inv_reconcile) (simp_all add: member_inv_def)
next
  case (ms_handle m n ns)
  then show ?case by (auto simp: member_inv_def completion_first_def Let_def)
next
  case (ms_backed_off m n w ns)
  then show ?case by (auto simp: member_inv_def completion_rest_def start_task_def split: option.splits)
next
  case (ms_stop_task m n ns t)
  then show ?case by (auto simp: member_inv_def)
qed (auto simp: member_inv_def)

lemma starts_inv_reconcile:
  assumes "starts_inv cfg m" "dict_ok (sm_sources m)" "\<not> exiting m" "\<not> sm_stop m \<or> sm_pc m = Reconcile"
    "\<forall>n w ns. sm_pc m \<noteq> BackOff n w ns"
  shows "starts_inv cfg (reconcile m)"
proof -
  let ?m = "start_tasks (sm_sources m) m"
  have st: "sm_starts ?m n = sm_starts m n + (if n \<in> desired m \<and> n \<notin> tasked m then 1 else 0)" for n
    using start_tasks_starts [OF assms(2)] by simp
  have keys: "tasked ?m = tasked m \<union> desired m" using start_tasks_keys [of "sm_sources m" m] by simp
  have z: "n \<in> desired m \<Longrightarrow> n \<notin> tasked m \<Longrightarrow> sm_starts m n = 0" for n
    using assms by (auto simp: starts_inv_def)
  have b: "int (sm_starts m n) \<le> attempts_of m n + 1 \<and> 0 \<le> attempts_of m n \<and> attempts_of m n \<le> mc_max_restart_attempts cfg" for n
    using assms(1,3) by (simp add: starts_inv_def)
  have a: "attempts_of (reconcile m) n = attempts_of m n" for n by (simp add: attempts_of_def reconcile_def Let_def)
  have e: "\<not> exiting (reconcile m)" by (simp add: exiting_def reconcile_def Let_def)
  show ?thesis
    unfolding starts_inv_def
  proof (intro conjI allI impI)
    fix n
    show "int (sm_starts (reconcile m) n) \<le> attempts_of (reconcile m) n + 1"
      using st [of n] z [of n] b [of n] a [of n] by (auto simp: reconcile_def Let_def)
    then show "int (sm_starts (reconcile m) n) \<le> mc_max_restart_attempts cfg + 1"
      using b [of n] a [of n] by simp
  qed (use b a e keys in \<open>auto simp: reconcile_def Let_def to_stop_def\<close>)
qed

lemma starts_inv_drain:
  assumes "starts_inv cfg m"
  shows "starts_inv cfg (begin_drain x m)"
proof -
  have "exiting (begin_drain x m)" "to_stop (begin_drain x m) = []" by (simp_all add: exiting_def to_stop_def)
  moreover have "attempts_of (begin_drain x m) = attempts_of m" by (simp add: attempts_of_def fun_eq_iff)
  moreover have "int (sm_starts m n) \<le> attempts_of m n + 1 \<and> 0 \<le> attempts_of m n
      \<and> int (sm_starts m n) \<le> mc_max_restart_attempts cfg + 1 \<and> attempts_of m n \<le> mc_max_restart_attempts cfg + 1" for n
    using assms by (auto simp: starts_inv_def split: if_splits intro: order_trans)
  ultimately show ?thesis by (simp add: starts_inv_def)
qed

lemma starts_inv_step:
  assumes "manager_step cfg m m'" "member_inv m" "starts_inv cfg m" "0 \<le> mc_max_restart_attempts cfg"
  shows "starts_inv cfg m'"
  using assms
proof (induction rule: manager_step.induct)
  case (ms_add src m m')
  note f = add_source_fields [OF ms_add(1)]
  have "exiting m' = exiting m" "to_stop m' = to_stop m" using f by (simp_all add: exiting_def to_stop_def)
  with f ms_add show ?case by (auto simp: starts_inv_def)
next
  case (ms_remove name m m')
  note f = remove_source_fields [OF ms_remove(1)]
  have "exiting m' = exiting m" "to_stop m' = to_stop m" using f by (simp_all add: exiting_def to_stop_def)
  with f ms_remove show ?case by (auto simp: starts_inv_def)
next
  case (ms_cadence name mn mx c m m')
  note f = update_source_cadence_fields [OF ms_cadence(1)]
  have "exiting m' = exiting m" "to_stop m' = to_stop m" using f by (simp_all add: exiting_def to_stop_def)
  with f ms_cadence show ?case by (simp add: starts_inv_def)
next
  case (ms_reconcile m)
  then show ?case by (intro starts_inv_reconcile) (simp_all add: member_inv_def exiting_def)
next
  case (ms_handled m)
  then have "starts_inv cfg (m\<lparr>sm_changed := False\<rparr>)"
    by (simp add: starts_inv_def attempts_of_def exiting_def to_stop_def)
  with ms_handled show ?case by (intro starts_inv_reconcile) (simp_all add: member_inv_def exiting_def)
next
  case (ms_request_stop m)
  then show ?case by (auto simp: starts_inv_def attempts_of_def exiting_def to_stop_def)
next
  case (ms_task_end m name t e)
  then show ?case by (auto simp: starts_inv_def attempts_of_def exiting_def to_stop_def)
next
  case (ms_handle m n ns)
  then have inv: "starts_inv cfg m" and pc: "sm_pc m = HandleDone (n # ns)" by simp_all
  have b: "int (sm_starts m k) \<le> attempts_of m k + 1 \<and> 0 \<le> attempts_of m k \<and> attempts_of m k \<le> mc_max_restart_attempts cfg
      \<and> int (sm_starts m k) \<le> mc_max_restart_attempts cfg + 1" for k
    using inv pc by (simp add: starts_inv_def exiting_def)
  have z: "k \<in> desired m \<Longrightarrow> k \<notin> tasked m \<Longrightarrow> \<not> sm_stop m \<Longrightarrow> sm_starts m k = 0" for k
    using inv pc by (simp add: starts_inv_def exiting_def)
  show ?case
  proof (cases "n \<in> desired m")
    case False
    then show ?thesis
      using b z pc by (auto simp: completion_first_def starts_inv_def attempts_of_def exiting_def to_stop_def)
  next
    case True
    let ?k = "attempts_of m n + 1"
    let ?m2 = "m\<lparr>sm_tasks := AList.delete n (sm_tasks m), sm_restart_attempts := AList.update n ?k (sm_restart_attempts m)\<rparr>"
    have c: "completion_first cfg n ns m = (if mc_max_restart_attempts cfg < ?k
        then begin_drain (Some (Engine (SourceExhausted n ?k))) ?m2 else ?m2\<lparr>sm_pc := BackOff n (restart_backoff cfg ?k) ns\<rparr>)"
      using True by (simp add: completion_first_def attempts_of_def Let_def)
    have a: "attempts_of (completion_first cfg n ns m) = (attempts_of m)(n := ?k)"
      by (simp add: c attempts_of_def fun_eq_iff dict_simps)
    show ?thesis
    proof (cases "mc_max_restart_attempts cfg < ?k")
      case True
      then have "exiting (completion_first cfg n ns m)" "sm_starts (completion_first cfg n ns m) = sm_starts m"
        "to_stop (completion_first cfg n ns m) = []" "\<forall>k w ns'. sm_pc (completion_first cfg n ns m) \<noteq> BackOff k w ns'"
        by (simp_all add: c exiting_def to_stop_def)
      moreover have "int (sm_starts m k) \<le> ((attempts_of m)(n := ?k)) k + 1 \<and> 0 \<le> ((attempts_of m)(n := ?k)) k
          \<and> ((attempts_of m)(n := ?k)) k \<le> mc_max_restart_attempts cfg + 1" for k
        using b [of k] by auto
      moreover have "int (sm_starts m k) \<le> mc_max_restart_attempts cfg + 1" for k using b [of k] by simp
      ultimately show ?thesis by (simp add: starts_inv_def a del: fun_upd_apply)
    next
      case False
      then have f: "\<not> exiting (completion_first cfg n ns m)" "sm_starts (completion_first cfg n ns m) = sm_starts m"
        "to_stop (completion_first cfg n ns m) = []" "sm_pc (completion_first cfg n ns m) = BackOff n (restart_backoff cfg ?k) ns"
        "desired (completion_first cfg n ns m) = desired m" "tasked (completion_first cfg n ns m) = tasked m - {n}"
        "sm_stop (completion_first cfg n ns m) = sm_stop m"
        by (simp_all add: c exiting_def to_stop_def)
      have "1 \<le> ?k \<and> ?k \<le> mc_max_restart_attempts cfg" using b [of n] False by simp
      then have w: "\<exists>k. 1 \<le> k \<and> k \<le> mc_max_restart_attempts cfg \<and> restart_backoff cfg ?k = restart_backoff cfg k" by blast
      have u: "int (sm_starts m k) \<le> mc_max_restart_attempts cfg + 1" for k using b [of k] by simp
      have n: "int (sm_starts m n) \<le> ?k + 1 \<and> 0 \<le> ?k \<and> ?k \<le> mc_max_restart_attempts cfg \<and> int (sm_starts m n) \<le> ?k"
        using b [of n] False by simp
      show ?thesis
        unfolding starts_inv_def a f using b z w n u f(1) by auto
    qed
  qed
next
  case (ms_backed_off m n w ns)
  then have inv: "starts_inv cfg m" and pc: "sm_pc m = BackOff n w ns" by simp_all
  have b: "int (sm_starts m k) \<le> attempts_of m k + 1 \<and> 0 \<le> attempts_of m k \<and> attempts_of m k \<le> mc_max_restart_attempts cfg
      \<and> int (sm_starts m k) \<le> mc_max_restart_attempts cfg + 1" for k
    using inv pc by (simp add: starts_inv_def exiting_def)
  have n: "n \<in> desired m \<Longrightarrow> int (sm_starts m n) \<le> attempts_of m n" using inv pc by (simp add: starts_inv_def)
  have z: "k \<in> desired m \<Longrightarrow> k \<notin> tasked m \<Longrightarrow> \<not> sm_stop m \<Longrightarrow> k \<noteq> n \<Longrightarrow> sm_starts m k = 0" for k
    using inv pc by (auto simp: starts_inv_def exiting_def)
  show ?case
  proof (cases "sm_stop m \<or> n \<notin> desired m")
    case True
    then have "completion_rest n ns m = m\<lparr>sm_pc := HandleDone ns\<rparr>"
      by (auto simp: completion_rest_def split: option.splits dest!: map_of_SomeD intro: rev_image_eqI)
    then show ?thesis
      using True b z by (auto simp: starts_inv_def attempts_of_def exiting_def to_stop_def)
  next
    case False
    then obtain src where "map_of (sm_sources m) n = Some src" by (auto simp: map_of_eq_None_iff [symmetric])
    with False have c: "completion_rest n ns m = (start_task n src m)\<lparr>sm_pc := HandleDone ns\<rparr>" by (simp add: completion_rest_def)
    have f: "\<not> exiting (completion_rest n ns m)" "attempts_of (completion_rest n ns m) = attempts_of m"
      "to_stop (completion_rest n ns m) = []" "sm_pc (completion_rest n ns m) = HandleDone ns"
      "desired (completion_rest n ns m) = desired m" "tasked (completion_rest n ns m) = insert n (tasked m)"
      "sm_starts (completion_rest n ns m) = (sm_starts m)(n := sm_starts m n + 1)" "sm_stop (completion_rest n ns m) = sm_stop m"
      by (simp_all add: c start_task_def exiting_def to_stop_def attempts_of_def fun_eq_iff)
    have u: "int (sm_starts m k) \<le> mc_max_restart_attempts cfg + 1" "attempts_of m k \<le> mc_max_restart_attempts cfg" for k
      using b [of k] by simp_all
    have nn: "int (sm_starts m n) + 1 \<le> mc_max_restart_attempts cfg + 1" using n u(2) [of n] False by simp
    show ?thesis unfolding starts_inv_def f using b z n False u nn f(1) by auto
  qed
next
  case (ms_await_raises m t ns e x)
  then show ?case by (simp add: starts_inv_drain)
next
  case (ms_loop_exit m)
  then show ?case by (simp add: starts_inv_drain)
next
  case (ms_woken_exit m ns)
  then show ?case by (simp add: starts_inv_drain)
next
  case (ms_handled_exit m)
  then show ?case by (simp add: starts_inv_drain)
qed (auto simp: starts_inv_def attempts_of_def exiting_def to_stop_def)

lemma register_sources_ok:
  "register_sources srcs m = Inr m' \<Longrightarrow> dict_ok (sm_sources m) \<Longrightarrow>
     dict_ok (sm_sources m') \<and> m' = m\<lparr>sm_sources := sm_sources m', sm_starts := sm_starts m'\<rparr>
     \<and> (\<forall>n. sm_starts m n = 0 \<longrightarrow> sm_starts m' n = 0)"
proof (induction srcs arbitrary: m)
  case (Cons src srcs)
  then obtain m1 where r: "register_source src m = Inr m1" "register_sources srcs m1 = Inr m'"
    by (auto simp: bind_result_Inr_iff)
  then have m1: "dict_ok (sm_sources m1)" "m1 = m\<lparr>sm_sources := sm_sources m1, sm_starts := sm_starts m1\<rparr>"
    "\<forall>n. sm_starts m n = 0 \<longrightarrow> sm_starts m1 n = 0"
    using Cons.prems(2) by (auto simp: register_source_def split: if_splits)
  have m': "dict_ok (sm_sources m')" "m' = m1\<lparr>sm_sources := sm_sources m', sm_starts := sm_starts m'\<rparr>"
    "\<forall>n. sm_starts m1 n = 0 \<longrightarrow> sm_starts m' n = 0" using Cons.IH [OF r(2) m1(1)] by blast+
  have "m' = m\<lparr>sm_sources := sm_sources m', sm_starts := sm_starts m'\<rparr>"
    by (subst m'(2), subst m1(2)) simp
  with m1(3) m'(1,3) show ?case by blast
qed simp

lemma new_manager_invs:
  assumes "new_manager srcs = Inr m" "0 \<le> mc_max_restart_attempts cfg"
  shows "member_inv m \<and> starts_inv cfg m"
proof -
  have r: "dict_ok (sm_sources m)" "\<forall>n. sm_starts m n = 0" "sm_tasks m = []" "sm_pc m = Reconcile" "sm_restart_attempts m = []"
    using register_sources_ok [OF assms(1) [unfolded new_manager_def]] by (auto dest: arg_cong [of m _ sm_tasks]
      arg_cong [of m _ sm_pc] arg_cong [of m _ sm_restart_attempts])
  then show ?thesis
    using assms(2) by (simp add: member_inv_def starts_inv_def attempts_of_def exiting_def to_stop_def)
qed

lemma manager_reaches_member: "manager_reaches cfg m m' \<Longrightarrow> member_inv m \<Longrightarrow> member_inv m'"
  by (induction rule: manager_reaches.induct) (auto dest: member_inv_step)

lemma manager_reaches_starts:
  assumes "manager_reaches cfg m m'" "member_inv m" "starts_inv cfg m" "0 \<le> mc_max_restart_attempts cfg"
  shows "starts_inv cfg m'"
  using assms
proof (induction rule: manager_reaches.induct)
  case (mr_step m' m'')
  then show ?case using starts_inv_step [OF mr_step(2)] manager_reaches_member [OF mr_step(1)] by blast
qed simp

lemma start_tasks_none: "fst ` set srcs \<subseteq> tasked m \<Longrightarrow> start_tasks srcs m = m"
  by (induction srcs m rule: start_tasks.induct) auto

subsection \<open>Properties\<close>

text \<open>C15: No membership change is lost. Whatever additions, removals, ends of tasks and restarts fall between
  its steps, when the supervisor waits and no change is flagged, the names with a task are exactly the
  desired ones, with one task each.\<close>

theorem supervisor_no_lost_change:
  assumes "new_manager srcs = Inr m0" "manager_reaches cfg m0 m" "sm_pc m = WaitEvent" "\<not> sm_changed m"
  shows "fst ` set (sm_tasks m) = set (source_names m) \<and> distinct (map fst (sm_tasks m))"
proof -
  have "member_inv m0" using new_manager_invs [OF assms(1), of "\<lparr>mc_max_restart_attempts = 0, mc_backoff_base = 0, mc_backoff_max = 0\<rparr>"] by simp
  from manager_reaches_member [OF assms(2) this] show ?thesis
    using assms(3,4) by (simp add: member_inv_def source_names_def dict_ok_def)
qed

text \<open>Restarts are bounded: while a source stays registered its task is started at most one time more than
  \<open>max_restart_attempts\<close>, and every backoff before a restart is the base doubled per attempt, under
  the cap.\<close>

theorem restarts_bounded:
  assumes "new_manager srcs = Inr m0" "manager_reaches cfg m0 m" "0 \<le> mc_max_restart_attempts cfg"
  shows "int (sm_starts m n) \<le> mc_max_restart_attempts cfg + 1
    \<and> (sm_pc m = BackOff n w ns \<longrightarrow> w \<le> mc_backoff_max cfg
         \<and> (\<exists>k. 1 \<le> k \<and> k \<le> mc_max_restart_attempts cfg \<and> w = min (mc_backoff_base cfg * 2 ^ nat (k - 1)) (mc_backoff_max cfg)))"
proof -
  have inv: "starts_inv cfg m"
    using manager_reaches_starts [OF assms(2)] new_manager_invs [OF assms(1,3)] assms(3) by blast
  then have a: "int (sm_starts m n) \<le> mc_max_restart_attempts cfg + 1" by (simp add: starts_inv_def)
  have "sm_pc m = BackOff n w ns \<Longrightarrow> \<exists>k. 1 \<le> k \<and> k \<le> mc_max_restart_attempts cfg \<and> w = restart_backoff cfg k"
    using inv by (simp add: starts_inv_def)
  with a show ?thesis by (auto simp: restart_backoff_def split: if_splits)
qed

text \<open>A source that is replaced between two reconciliations never runs: when a name whose task runs is
  removed and registered again with another source while the supervisor waits, the supervisor wakes,
  finds the name in the task table, and waits again with no change flagged, the new source registered
  and the old source's task still running and not asked to stop.\<close>

theorem replaced_source_never_runs:
  assumes "new_manager srcs = Inr m0" "manager_reaches cfg m0 m"
    and "sm_pc m = WaitEvent" "\<not> sm_changed m" "\<not> sm_stop m" "done_names m = []"
    and "map_of (sm_tasks m) (sr_name src) = Some t"
  shows "\<exists>m1 m2 m3. remove_source (sr_name src) m = Inr m1 \<and> add_source src m1 = Inr m2
    \<and> manager_reaches cfg m2 m3 \<and> sm_pc m3 = WaitEvent \<and> \<not> sm_changed m3
    \<and> map_of (sm_sources m3) (sr_name src) = Some src \<and> map_of (sm_tasks m3) (sr_name src) = Some t"
proof -
  let ?n = "sr_name src"
  have "member_inv m0" using new_manager_invs [OF assms(1), of "\<lparr>mc_max_restart_attempts = 0, mc_backoff_base = 0, mc_backoff_max = 0\<rparr>"] by simp
  from manager_reaches_member [OF assms(2) this] have TD: "tasked m = desired m" using assms(3,4) by (simp add: member_inv_def)
  have n: "?n \<in> desired m" using TD map_of_SomeD [OF assms(7)] by force
  obtain m1 where m1: "remove_source ?n m = Inr m1" using n by (simp add: remove_source_def)
  note f1 = remove_source_fields [OF m1]
  have "?n \<notin> desired m1" using f1(1) by blast
  then obtain m2 where m2: "add_source src m1 = Inr m2" by (simp add: add_source_def register_source_def)
  note f2 = add_source_fields [OF m2]
  have src: "map_of (sm_sources m2) ?n = Some src"
    using m2 by (auto simp: add_source_def register_source_def dict_simps split: if_splits)
  have d2: "desired m2 = tasked m2" "sm_tasks m2 = sm_tasks m" "sm_pc m2 = WaitEvent" "sm_changed m2" "\<not> sm_stop m2" "done_names m2 = []"
    using f1 f2 n TD assms(3,5,6) by (auto simp: done_names_def insert_absorb)
  let ?w = "m2\<lparr>sm_pc := HandleDone []\<rparr>"
  let ?m3 = "m2\<lparr>sm_changed := False, sm_pc := WaitEvent\<rparr>"
  have "manager_reaches cfg m2 (m2\<lparr>sm_pc := Woken (done_names m2)\<rparr>)"
    by (rule mr_step [OF mr_refl ms_wake]) (simp_all add: d2)
  then have "manager_reaches cfg m2 (m2\<lparr>sm_pc := Woken (done_names m2)\<rparr>\<lparr>sm_pc := HandleDone []\<rparr>)"
    by (rule mr_step [OF _ ms_woken]) (simp_all add: d2)
  then have r: "manager_reaches cfg m2 ?w" by simp
  have "reconcile (?w\<lparr>sm_changed := False\<rparr>) = m2\<lparr>sm_changed := False, sm_pc := StopTasks []\<rparr>"
    using d2(1) by (simp add: reconcile_def Let_def start_tasks_none)
  then have "manager_reaches cfg m2 (m2\<lparr>sm_changed := False, sm_pc := StopTasks []\<rparr>)"
    using mr_step [OF r ms_handled] d2 by simp
  then have "manager_reaches cfg m2 (m2\<lparr>sm_changed := False, sm_pc := StopTasks []\<rparr>\<lparr>sm_pc := WaitEvent\<rparr>)"
    by (rule mr_step [OF _ ms_loop]) (simp_all add: d2)
  then have "manager_reaches cfg m2 ?m3" by simp
  with m1 m2 src d2 assms(7) show ?thesis by (intro exI [of _ m1] exI [of _ m2] exI [of _ ?m3]) simp
qed

subsection \<open>Witnesses\<close>

abbreviation example_cadence :: cadence where
  "example_cadence \<equiv> \<lparr>cad_min = 1, cad_max = 10, cad_now = 4\<rparr>"

definition one_source :: source_ref where
  "one_source = \<lparr>sr_name = ''a'', sr_id = 1, sr_cadence = example_cadence\<rparr>"

definition one_config :: manager_config where
  "one_config = \<lparr>mc_max_restart_attempts = 5, mc_backoff_base = 1, mc_backoff_max = 30\<rparr>"

definition one_start :: manager where
  "one_start = \<lparr>sm_sources = [(''a'', one_source)], sm_tasks = [], sm_restart_attempts = [], sm_changed = False,
     sm_stop = False, sm_starts = (\<lambda>_. 0), sm_pc = Reconcile\<rparr>"

definition one_running :: manager where
  "one_running = \<lparr>sm_sources = [(''a'', one_source)], sm_tasks = [(''a'', \<lparr>tk_source = 1, tk_stop = False, tk_end = None\<rparr>)],
     sm_restart_attempts = [], sm_changed = False, sm_stop = False, sm_starts = (\<lambda>_. 0)(''a'' := 1), sm_pc = WaitEvent\<rparr>"

lemma one_new: "new_manager [one_source] = Inr one_start"
  by (simp add: new_manager_def register_source_def one_start_def one_source_def fun_eq_iff)

lemma one_reaches: "manager_reaches one_config one_start one_running"
proof -
  have rec: "reconcile one_start = one_running\<lparr>sm_pc := StopTasks []\<rparr>"
    by (simp add: reconcile_def one_start_def one_running_def start_task_def one_source_def)
  have "manager_reaches one_config one_start (one_running\<lparr>sm_pc := StopTasks []\<rparr>)"
    using mr_step [OF mr_refl ms_reconcile, of one_start] by (simp add: rec) (simp add: one_start_def)
  then have "manager_reaches one_config one_start (one_running\<lparr>sm_pc := StopTasks []\<rparr>\<lparr>sm_pc := WaitEvent\<rparr>)"
    by (rule mr_step [OF _ ms_loop]) (simp_all add: one_running_def)
  then show ?thesis by (simp add: one_running_def)
qed

theorem supervisor_no_lost_change_witness: "fst ` set (sm_tasks one_running) = set (source_names one_running)"
  using supervisor_no_lost_change [OF one_new one_reaches] by (simp add: one_running_def)

theorem restarts_bounded_witness: "int (sm_starts one_running ''a'') \<le> 6 \<and> sm_starts one_running ''a'' = 1"
  using restarts_bounded [OF one_new one_reaches, of "''a''"] by (simp add: one_config_def) (simp add: one_running_def)

theorem replaced_source_never_runs_witness:
  "\<exists>m1 m2 m3. remove_source ''a'' one_running = Inr m1 \<and> add_source (one_source\<lparr>sr_id := 2\<rparr>) m1 = Inr m2
    \<and> manager_reaches one_config m2 m3 \<and> sm_pc m3 = WaitEvent \<and> \<not> sm_changed m3
    \<and> map_of (sm_sources m3) ''a'' = Some (one_source\<lparr>sr_id := 2\<rparr>)
    \<and> map_of (sm_tasks m3) ''a'' = Some \<lparr>tk_source = 1, tk_stop = False, tk_end = None\<rparr>"
  using replaced_source_never_runs [OF one_new one_reaches, of "one_source\<lparr>sr_id := 2\<rparr>"]
  by (simp add: one_running_def one_source_def done_names_def)

end
