(* ===== verification/Url_Safety.thy ===== *)
theory Url_Safety
  imports Json_Text Errors "HOL-Library.Word"
begin

text \<open>
  The guard against requests to internal hosts (\<open>libs/webhook_engine/url_safety.py\<close>), with what it uses
  of the standard library: \<open>urlsplit\<close> (scheme, network location, host name), \<open>ipaddress.ip_address\<close>
  and membership in a network. An address is a word; the scope of an IPv6 address, which membership
  ignores, is dropped. \<open>getaddrinfo\<close> is an argument: the addresses it returns, its \<open>OSError\<close>, or
  another exception, such as the \<open>UnicodeError\<close> for a label the idna codec refuses.
\<close>

subsection \<open>Splitting text\<close>

definition before_char :: "char \<Rightarrow> string \<Rightarrow> string" where
  "before_char c s = takeWhile (\<lambda>d. d \<noteq> c) s"

definition after_char :: "char \<Rightarrow> string \<Rightarrow> string" where
  "after_char c s = drop 1 (dropWhile (\<lambda>d. d \<noteq> c) s)"

definition after_last :: "char \<Rightarrow> string \<Rightarrow> string" where
  "after_last c s = rev (takeWhile (\<lambda>d. d \<noteq> c) (rev s))"

fun split_char :: "char \<Rightarrow> string \<Rightarrow> string list" where
  "split_char c [] = [[]]"
| "split_char c (d # s) = (if d = c then [] # split_char c s
     else case split_char c s of [] \<Rightarrow> [[d]] | w # ws \<Rightarrow> (d # w) # ws)"

subsection \<open>Addresses\<close>

datatype ip_addr = V4 "32 word" | V6 "128 word"

datatype ip_net = Net4 "32 word" nat | Net6 "128 word" nat

definition parse_octet :: "string \<Rightarrow> int option" where
  "parse_octet s =
     (if s = [] \<or> \<not> list_all is_digit s \<or> 3 < length s \<or> (s \<noteq> ''0'' \<and> hd s = CHR ''0'') then None
      else if 255 < int (digits_value s) then None else Some (int (digits_value s)))"

definition parse_ipv4 :: "string \<Rightarrow> int option" where
  "parse_ipv4 s =
     (case map parse_octet (split_char (CHR ''.'') s) of
        [Some a, Some b, Some c, Some d] \<Rightarrow> Some (((a * 256 + b) * 256 + c) * 256 + d)
      | _ \<Rightarrow> None)"

definition parse_hextet :: "string \<Rightarrow> int option" where
  "parse_hextet s =
     (if s = [] \<or> 4 < length s then None
      else map_option (foldl (\<lambda>n d. 16 * n + int d) 0) (those (map hex_value s)))"

definition hextets_value :: "int list \<Rightarrow> int" where
  "hextets_value hs = foldl (\<lambda>n h. 65536 * n + h) 0 hs"

text \<open>The last part may be a dotted quad, which stands for two hextets of decimal value.\<close>

definition ipv6_parts :: "string \<Rightarrow> int option list option" where
  "ipv6_parts s =
     (let parts = split_char (CHR '':'') s in
      if length parts < 3 then None
      else if CHR ''.'' \<in> set (last parts) then
        map_option (\<lambda>n. map parse_hextet (butlast parts) @ [Some (n div 65536), Some (n mod 65536)])
          (parse_ipv4 (last parts))
      else Some (map parse_hextet parts))"

text \<open>
  The empty parts decide: at most one in the middle, which stands for the zeros left out; one at an end
  only next to it. \<open>None\<close> inside a part list is an empty or a malformed hextet.
\<close>

definition empty_parts :: "string \<Rightarrow> bool list option" where
  "empty_parts s =
     (let parts = split_char (CHR '':'') s in
      if length parts < 3 then None
      else if CHR ''.'' \<in> set (last parts) then Some (map (\<lambda>p. p = []) (butlast parts) @ [False, False])
      else Some (map (\<lambda>p. p = []) parts))"

definition middle_gaps :: "bool list \<Rightarrow> nat list" where
  "middle_gaps es = filter (\<lambda>i. es ! i) [1..<length es - 1]"

definition parse_ipv6_num :: "string \<Rightarrow> int option" where
  "parse_ipv6_num s =
     (case (ipv6_parts s, empty_parts s) of
        (Some hs, Some es) \<Rightarrow>
          if 9 < length hs then None
          else
            (case middle_gaps es of
               [] \<Rightarrow> if length hs = 8 then map_option hextets_value (those hs) else None
             | [k] \<Rightarrow>
                 (let hi = (if es ! 0 then k - 1 else k);
                      lo = (if last es then length hs - k - 2 else length hs - k - 1)
                  in if es ! 0 \<and> hi \<noteq> 0 then None
                     else if last es \<and> lo \<noteq> 0 then None
                     else if 8 \<le> hi + lo then None
                     else
                       map_option (\<lambda>(a, b). hextets_value (a @ replicate (8 - (hi + lo)) 0 @ b))
                         (case (those (take hi hs), those (drop (length hs - lo) hs)) of
                            (Some a, Some b) \<Rightarrow> Some (a, b) | _ \<Rightarrow> None))
             | _ \<Rightarrow> None)
      | _ \<Rightarrow> None)"

definition split_scope :: "string \<Rightarrow> string option" where
  "split_scope s =
     (if CHR ''%'' \<notin> set s then Some s
      else let zone = after_char (CHR ''%'') s in
        if zone = [] \<or> CHR ''%'' \<in> set zone then None else Some (before_char (CHR ''%'') s))"

definition ip_address :: "string \<Rightarrow> ip_addr option" where
  "ip_address s =
     (if CHR ''/'' \<in> set s then None
      else case parse_ipv4 s of
             Some n \<Rightarrow> Some (V4 (word_of_int n))
           | None \<Rightarrow> map_option (\<lambda>n. V6 (word_of_int n)) (Option.bind (split_scope s) parse_ipv6_num))"

fun in_network :: "ip_addr \<Rightarrow> ip_net \<Rightarrow> bool" where
  "in_network (V4 a) (Net4 n p) \<longleftrightarrow> drop_bit (32 - p) a = drop_bit (32 - p) n"
| "in_network (V6 a) (Net6 n p) \<longleftrightarrow> drop_bit (128 - p) a = drop_bit (128 - p) n"
| "in_network _ _ \<longleftrightarrow> False"

definition quad :: "int \<Rightarrow> int \<Rightarrow> int \<Rightarrow> int \<Rightarrow> 32 word" where
  "quad a b c d = word_of_int (((a * 256 + b) * 256 + c) * 256 + d)"

definition blocked_networks :: "ip_net list" where
  "blocked_networks = [Net4 (quad 127 0 0 0) 8, Net4 (quad 10 0 0 0) 8, Net4 (quad 172 16 0 0) 12,
     Net4 (quad 192 168 0 0) 16, Net4 (quad 169 254 0 0) 16, Net6 1 128, Net6 (push_bit 120 0xfc) 7]"

definition is_blocked :: "ip_addr \<Rightarrow> bool" where
  "is_blocked a \<longleftrightarrow> list_ex (in_network a) blocked_networks"

subsection \<open>The parts of a URL\<close>

definition is_alpha :: "char \<Rightarrow> bool" where
  "is_alpha c \<longleftrightarrow> (65 \<le> code c \<and> code c \<le> 90) \<or> (97 \<le> code c \<and> code c \<le> 122)"

definition scheme_char :: "char \<Rightarrow> bool" where
  "scheme_char c \<longleftrightarrow> is_alpha c \<or> is_digit c \<or> c \<in> {CHR ''+'', CHR ''-'', CHR ''.''}"

definition url_clean :: "string \<Rightarrow> string" where
  "url_clean url = filter (\<lambda>c. code c \<noteq> 9 \<and> code c \<noteq> 10 \<and> code c \<noteq> 13) (dropWhile (\<lambda>c. code c \<le> 32) url)"

definition split_scheme :: "string \<Rightarrow> string \<times> string" where
  "split_scheme url =
     (let pre = before_char (CHR '':'') url in
      if CHR '':'' \<in> set url \<and> pre \<noteq> [] \<and> is_alpha (hd pre) \<and> list_all scheme_char pre
      then (py_lower pre, after_char (CHR '':'') url) else ('''', url))"

definition netloc_of :: "string \<Rightarrow> string" where
  "netloc_of rest = (if starts_with rest ''//''
     then takeWhile (\<lambda>c. c \<noteq> CHR ''/'' \<and> c \<noteq> CHR ''?'' \<and> c \<noteq> CHR ''#'') (drop 2 rest) else '''')"

definition is_hex :: "char \<Rightarrow> bool" where
  "is_hex c \<longleftrightarrow> hex_value c \<noteq> None"

definition bracketed_host_ok :: "string \<Rightarrow> bool" where
  "bracketed_host_ok h =
     (if starts_with h ''v''
      then (let r = drop 1 h; d = dropWhile is_hex r in
            r \<noteq> [] \<and> is_hex (hd r) \<and> starts_with d ''.'' \<and> drop 1 d \<noteq> [])
      else case ip_address h of Some (V6 a) \<Rightarrow> True | _ \<Rightarrow> False)"

text \<open>The checks of a network location with brackets; \<open>False\<close> is the \<open>ValueError\<close> of \<open>urlsplit\<close>.\<close>

definition netloc_ok :: "string \<Rightarrow> bool" where
  "netloc_ok netloc =
     (let has_open = CHR ''['' \<in> set netloc; has_close = CHR '']'' \<in> set netloc in
      if has_open \<noteq> has_close then False
      else if \<not> has_open then True
      else
        (let hp = after_last (CHR ''@'') netloc in
         if CHR ''['' \<in> set hp then
           (let br = after_char (CHR ''['') hp; port = after_char (CHR '']'') br in
            before_char (CHR ''['') hp = [] \<and> (port = [] \<or> starts_with port '':'')
            \<and> bracketed_host_ok (before_char (CHR '']'') br))
         else bracketed_host_ok (before_char (CHR '':'') hp)))"

definition hostname_of :: "string \<Rightarrow> string option" where
  "hostname_of netloc =
     (let hp = after_last (CHR ''@'') netloc;
          host = (if CHR ''['' \<in> set hp then before_char (CHR '']'') (after_char (CHR ''['') hp)
                  else before_char (CHR '':'') hp)
      in if host = [] then None
         else Some (py_lower (before_char (CHR ''%'') host) @ dropWhile (\<lambda>c. c \<noteq> CHR ''%'') host))"

definition urlsplit :: "string \<Rightarrow> (string \<times> string option) result" where
  "urlsplit url =
     (case split_scheme (url_clean url) of
        (scheme, rest) \<Rightarrow> if netloc_ok (netloc_of rest) then Inr (scheme, hostname_of (netloc_of rest)) else Inl ValueError)"

subsection \<open>The guard\<close>

datatype resolution = Resolved "string list" | OsError string | LookupRaised exn

datatype unsafe_reason =
    BadScheme string
  | MissingHostname
  | BlockedRange ip_addr
  | DnsFailed string
  | ResolvedBlocked ip_addr

datatype guard = Safe | Unsafe unsafe_reason | GuardRaised exn

definition strip_brackets :: "string \<Rightarrow> string" where
  "strip_brackets s = (let br = (\<lambda>c. c = CHR ''['' \<or> c = CHR '']'') in rev (dropWhile br (rev (dropWhile br s))))"

fun check_resolved :: "string list \<Rightarrow> guard" where
  "check_resolved [] = Safe"
| "check_resolved (s # rest) =
     (case ip_address s of
        None \<Rightarrow> GuardRaised ValueError
      | Some a \<Rightarrow> if is_blocked a then Unsafe (ResolvedBlocked a) else check_resolved rest)"

definition assert_safe_webhook_url :: "(string \<Rightarrow> resolution) \<Rightarrow> string \<Rightarrow> guard" where
  "assert_safe_webhook_url resolve url =
     (case urlsplit url of
        Inl x \<Rightarrow> GuardRaised x
      | Inr (scheme, hostname) \<Rightarrow>
          (if scheme \<noteq> ''https'' then Unsafe (BadScheme scheme)
           else
             (case hostname of
                None \<Rightarrow> Unsafe MissingHostname
              | Some h \<Rightarrow>
                  (case ip_address (strip_brackets h) of
                     Some a \<Rightarrow> (if is_blocked a then Unsafe (BlockedRange a) else Safe)
                   | None \<Rightarrow>
                       (case resolve h of
                          OsError m \<Rightarrow> Unsafe (DnsFailed m)
                        | LookupRaised x \<Rightarrow> GuardRaised x
                        | Resolved addrs \<Rightarrow> check_resolved addrs)))))"

subsection \<open>Networks as ranges\<close>

lemma drop_bit_word_eq_iff:
  fixes a n :: "'a::len word"
  shows "drop_bit k a = drop_bit k n
     \<longleftrightarrow> unat n div 2 ^ k * 2 ^ k \<le> unat a \<and> unat a < (unat n div 2 ^ k + 1) * 2 ^ k"
proof -
  have "drop_bit k a = drop_bit k n \<longleftrightarrow> unat a div 2 ^ k = unat n div 2 ^ k"
    by (simp add: unat_drop_bit_eq drop_bit_eq_div flip: word_unat_eq_iff [of "drop_bit k a"])
      (metis drop_bit_eq_div unat_drop_bit_eq word_unat_eq_iff)
  also have "\<dots> \<longleftrightarrow> unat n div 2 ^ k * 2 ^ k \<le> unat a \<and> unat a < (unat n div 2 ^ k + 1) * 2 ^ k"
    by (metis div_less_iff_less_mult le_antisym less_Suc_eq_le less_eq_div_iff_mult_less_eq
        zero_less_numeral zero_less_power Suc_eq_plus1 order_refl)
  finally show ?thesis .
qed

text \<open>What the guard blocks, as ranges of addresses: loopback, the three private ranges and link-local for
  IPv4, loopback and the unique local addresses for IPv6.\<close>

fun internal :: "ip_addr \<Rightarrow> bool" where
  "internal (V4 a) \<longleftrightarrow>
     quad 127 0 0 0 \<le> a \<and> a \<le> quad 127 255 255 255
   \<or> quad 10 0 0 0 \<le> a \<and> a \<le> quad 10 255 255 255
   \<or> quad 172 16 0 0 \<le> a \<and> a \<le> quad 172 31 255 255
   \<or> quad 192 168 0 0 \<le> a \<and> a \<le> quad 192 168 255 255
   \<or> quad 169 254 0 0 \<le> a \<and> a \<le> quad 169 254 255 255"
| "internal (V6 a) \<longleftrightarrow> a = 1 \<or> 0xFC000000000000000000000000000000 \<le> a \<and> a \<le> 0xFDFFFFFFFFFFFFFFFFFFFFFFFFFFFFFF"

lemma unat_quad [simp]:
  "0 \<le> a \<Longrightarrow> a < 256 \<Longrightarrow> 0 \<le> b \<Longrightarrow> b < 256 \<Longrightarrow> 0 \<le> c \<Longrightarrow> c < 256 \<Longrightarrow> 0 \<le> d \<Longrightarrow> d < 256 \<Longrightarrow>
     unat (quad a b c d) = nat (((a * 256 + b) * 256 + c) * 256 + d)"
proof -
  assume h: "0 \<le> a" "a < 256" "0 \<le> b" "b < 256" "0 \<le> c" "c < 256" "0 \<le> d" "d < 256"
  let ?n = "((a * 256 + b) * 256 + c) * 256 + d"
  have n: "0 \<le> ?n" "?n < 2 ^ 32" using h by simp_all
  then have "uint (word_of_int ?n :: 32 word) = ?n" by (simp only: uint_word_of_int) (simp add: take_bit_eq_mod)
  then show ?thesis by (simp only: quad_def nat_uint_eq [symmetric])
qed

lemma is_blocked_internal: "is_blocked a = internal a"
proof (cases a)
  case (V4 w)
  then show ?thesis
    by (simp add: is_blocked_def blocked_networks_def drop_bit_word_eq_iff word_le_nat_alt less_Suc_eq_le) linarith
next
  case (V6 w)
  have "drop_bit 121 w = 126 \<longleftrightarrow> 0xFC000000000000000000000000000000 \<le> w \<and> w \<le> 0xFDFFFFFFFFFFFFFFFFFFFFFFFFFFFFFF"
    using drop_bit_word_eq_iff [of 121 w "push_bit 121 126"] by (simp add: word_le_nat_alt) linarith
  then show ?thesis by (simp add: V6 is_blocked_def blocked_networks_def)
qed

subsection \<open>Properties\<close>

lemma check_resolved_safe:
  "check_resolved addrs = Safe \<longleftrightarrow> (\<forall>s\<in>set addrs. \<exists>a. ip_address s = Some a \<and> \<not> internal a)"
  by (induction addrs) (auto simp: is_blocked_internal split: option.splits if_splits)

text \<open>C16: The guard lets a URL through exactly when it is an https URL with a host name that is an address
  outside the internal ranges or a name all of whose resolved addresses are outside them; the ranges
  are those of the reference definition, given by their first and last address.\<close>

theorem guard_exact:
  "assert_safe_webhook_url resolve url = Safe \<longleftrightarrow>
     (\<exists>h. urlsplit url = Inr (''https'', Some h)
        \<and> (case ip_address (strip_brackets h) of
             Some a \<Rightarrow> \<not> internal a
           | None \<Rightarrow> \<exists>addrs. resolve h = Resolved addrs
               \<and> list_all (\<lambda>s. case ip_address s of None \<Rightarrow> False | Some a \<Rightarrow> \<not> internal a) addrs))"
  by (auto simp: assert_safe_webhook_url_def is_blocked_internal check_resolved_safe list_all_iff
      split: sum.splits option.splits resolution.splits if_splits)

text \<open>The ranges leave internal hosts reachable: whatever names resolve to, the guard lets through an IPv6
  URL of the mapped IPv4 loopback address, the unspecified addresses of both families, which reach
  the local host, an IPv6 link-local address and an address of the shared carrier range.\<close>

theorem guard_lets_local_hosts_through:
  "assert_safe_webhook_url resolve ''https://[::ffff:127.0.0.1]/hook'' = Safe
   \<and> assert_safe_webhook_url resolve ''https://0.0.0.0/hook'' = Safe
   \<and> assert_safe_webhook_url resolve ''https://[::]/hook'' = Safe
   \<and> assert_safe_webhook_url resolve ''https://[fe80::1]/hook'' = Safe
   \<and> assert_safe_webhook_url resolve ''https://100.64.0.1/hook'' = Safe"
  by code_simp

end
