(* ===== verification/Webhook_Engine.thy ===== *)
theory Webhook_Engine
  imports Url_Safety Hashing Eventus_Prelude Complex_Main
begin

text \<open>
  The webhook delivery library (\<open>libs/webhook_engine\<close>): signing and verification, the reading of the
  receiver's reply, the two transports, the sink that posts one body with retries, and the dispatcher
  that keeps one sink per target. The HTTP client is an argument: what a request ends with. A float is
  a rational number; \<open>float_text\<close> is the value of a float literal, \<open>float_str\<close> that of \<open>float()\<close> on a text.
\<close>

subsection \<open>Signing\<close>

definition signature_scheme :: string where
  "signature_scheme = ''sha256=''"

definition sign_webhook :: "string \<Rightarrow> byte list \<Rightarrow> string" where
  "sign_webhook secret body = hmac_hex secret body"

definition signature_header :: "string \<Rightarrow> byte list \<Rightarrow> string" where
  "signature_header secret body = signature_scheme @ sign_webhook secret body"

definition verify_webhook :: "string \<Rightarrow> byte list \<Rightarrow> string option \<Rightarrow> bool result" where
  "verify_webhook secret body presented =
     (case presented of
        None \<Rightarrow> Inr False
      | Some p \<Rightarrow>
          if p = [] \<or> \<not> starts_with p signature_scheme then Inr False
          else (case compare_digest_str (sign_webhook secret body) (drop (length signature_scheme) p) of
                  None \<Rightarrow> Inl TypeError
                | Some b \<Rightarrow> Inr b))"

lemma starts_with_scheme: "starts_with p signature_scheme \<Longrightarrow> p = signature_scheme @ drop (length signature_scheme) p"
  by (auto simp: starts_with_def) (metis append_take_drop_id)

lemma verify_webhook_iff:
  "verify_webhook secret body (Some p) = Inr True \<longleftrightarrow> p = signature_header secret body"
proof
  assume "verify_webhook secret body (Some p) = Inr True"
  then show "p = signature_header secret body"
    using starts_with_scheme [of p]
    by (auto simp: verify_webhook_def signature_header_def compare_digest_str_def split: if_splits)
next
  assume "p = signature_header secret body"
  then show "verify_webhook secret body (Some p) = Inr True"
    by (simp add: verify_webhook_def signature_header_def compare_digest_str_def sign_webhook_def hmac_hex_ascii)
      (simp add: signature_scheme_def)
qed

subsection \<open>The reply of the receiver\<close>

record webhook_response =
  wr_status :: int
  wr_ok :: "bool option"
  wr_retry_after :: "rat option"

fun json_truth :: "(string \<Rightarrow> rat) \<Rightarrow> json \<Rightarrow> bool" where
  "json_truth float_text JNull = False"
| "json_truth float_text (JBool b) = b"
| "json_truth float_text (JInt i) = (i \<noteq> 0)"
| "json_truth float_text (JFloat t) = (float_text t \<noteq> 0)"
| "json_truth float_text (JStr s) = (s \<noteq> [])"
| "json_truth float_text (JArr xs) = (xs \<noteq> [])"
| "json_truth float_text (JObj kvs) = (kvs \<noteq> [])"

text \<open>\<open>float()\<close> of a JSON value; an integer that rounds beyond the largest double raises \<open>OverflowError\<close>.\<close>

fun json_float :: "(string \<Rightarrow> rat) \<Rightarrow> (string \<Rightarrow> rat option) \<Rightarrow> json \<Rightarrow> rat result" where
  "json_float float_text float_str (JInt i) =
     (if \<bar>i\<bar> < 2 ^ 1024 - 2 ^ 970 then Inr (of_int i) else Inl OverflowError)"
| "json_float float_text float_str (JFloat t) = Inr (float_text t)"
| "json_float float_text float_str (JBool b) = Inr (if b then 1 else 0)"
| "json_float float_text float_str (JStr s) = (case float_str s of None \<Rightarrow> Inl ValueError | Some x \<Rightarrow> Inr x)"
| "json_float float_text float_str _ = Inl TypeError"

text \<open>The body is its decoded text, \<open>None\<close> when it is no text.\<close>

definition parse_receiver_response ::
  "(string \<Rightarrow> rat) \<Rightarrow> (string \<Rightarrow> rat option) \<Rightarrow> int \<Rightarrow> string option \<Rightarrow> webhook_response result" where
  "parse_receiver_response float_text float_str status body =
     (let silent = \<lparr>wr_status = status, wr_ok = None, wr_retry_after = None\<rparr> in
      if \<not> (200 \<le> status \<and> status < 300) then Inr silent
      else case Option.bind body json_loads of
             None \<Rightarrow> Inr silent
           | Some parsed \<Rightarrow>
               (case json_item parsed ''ok'' of
                  None \<Rightarrow> Inr silent
                | Some v \<Rightarrow>
                    (let ok = json_truth float_text v;
                         reply = (\<lambda>r. Inr \<lparr>wr_status = status, wr_ok = Some ok, wr_retry_after = r\<rparr>)
                     in if ok then reply None
                        else case json_item parsed ''retry_after'' of
                               None \<Rightarrow> reply None
                             | Some JNull \<Rightarrow> reply None
                             | Some j \<Rightarrow>
                                 (case json_float float_text float_str j of
                                    Inr x \<Rightarrow> reply (Some x)
                                  | Inl TypeError \<Rightarrow> reply None
                                  | Inl ValueError \<Rightarrow> reply None
                                  | Inl x \<Rightarrow> Inl x))))"

subsection \<open>Transports\<close>

datatype post_outcome = Reply webhook_response | TransportError string | PostRaised exn

text \<open>What the HTTP client gives: an error of its own, or a status and the chunks of the body.\<close>

datatype http_outcome = HttpError string | Streamed int "string list"

fun read_chunks :: "nat \<Rightarrow> string list \<Rightarrow> string \<Rightarrow> string option" where
  "read_chunks limit [] buffer = Some buffer"
| "read_chunks limit (c # cs) buffer =
     (let buffer' = buffer @ c in if limit < length buffer' then None else read_chunks limit cs buffer')"

definition http_post :: "(string \<Rightarrow> rat) \<Rightarrow> (string \<Rightarrow> rat option) \<Rightarrow> nat \<Rightarrow> http_outcome \<Rightarrow> post_outcome" where
  "http_post float_text float_str limit outcome =
     (case outcome of
        HttpError r \<Rightarrow> TransportError r
      | Streamed status chunks \<Rightarrow>
          (case read_chunks limit chunks [] of
             None \<Rightarrow> TransportError ''response_too_large''
           | Some body \<Rightarrow>
               (case parse_receiver_response float_text float_str status (Some body) of
                  Inl x \<Rightarrow> PostRaised x
                | Inr r \<Rightarrow> Reply r)))"

record recorded_call =
  rc_url :: string
  rc_body :: "byte list"
  rc_headers :: "(string \<times> string) list"

record recording_transport =
  rt_calls :: "recorded_call list"
  rt_status :: int
  rt_fail_times :: int

definition recording_post ::
  "string \<Rightarrow> byte list \<Rightarrow> (string \<times> string) list \<Rightarrow> recording_transport \<Rightarrow> post_outcome \<times> recording_transport" where
  "recording_post url body headers t =
     (let t1 = t\<lparr>rt_calls := rt_calls t @ [\<lparr>rc_url = url, rc_body = body, rc_headers = headers\<rparr>]\<rparr> in
      if 0 < rt_fail_times t then (TransportError ''injected failure'', t1\<lparr>rt_fail_times := rt_fail_times t - 1\<rparr>)
      else (Reply \<lparr>wr_status = rt_status t, wr_ok = None, wr_retry_after = None\<rparr>, t1))"

subsection \<open>The sink\<close>

record webhook_engine_config =
  we_max_attempts :: int
  we_backoff_base :: rat
  we_backoff_max :: rat
  we_timeout :: rat
  we_max_response_bytes :: nat
  we_retry_after_cap :: rat

definition default_webhook_config :: webhook_engine_config where
  "default_webhook_config = \<lparr>we_max_attempts = 5, we_backoff_base = 1 / 2, we_backoff_max = 30, we_timeout = 10,
     we_max_response_bytes = 65536, we_retry_after_cap = 30\<rparr>"

record webhook_sink =
  wk_sink_id :: string
  wk_endpoint :: string
  wk_secret :: "string option"

datatype delivery_reason =
    NoAttempt
  | ReceiverRequestedRetry
  | HttpStatus int
  | UnsafeUrl unsafe_reason
  | TransportReason string

datatype delivery_error = DeliveryFailed string string delivery_reason | DeliveryRaised exn

definition retryable :: "int \<Rightarrow> bool" where
  "retryable status \<longleftrightarrow> 500 \<le> status \<or> status \<in> {408, 429}"

definition sink_headers :: "webhook_sink \<Rightarrow> string \<Rightarrow> string \<Rightarrow> byte list \<Rightarrow> (string \<times> string) list" where
  "sink_headers k event_id event_type body =
     [(''content-type'', ''application/json''),
      (''X-LZT-Event-Id'', event_id),
      (''X-LZT-Event-Type'', event_type),
      (''X-LZT-Signature'', signature_header (case wk_secret k of None \<Rightarrow> [] | Some s \<Rightarrow> s) body),
      (''Idempotency-Key'', event_id)]"

text \<open>
  One attempt: delivered, a terminal reason, or a reason to go on with the receiver's delay if it asked
  for one. \<open>response.retry_after or base\<close> takes the base for a delay of zero.
\<close>

datatype attempt = Delivered | Stop delivery_reason | Again delivery_reason "rat option" | AttemptRaised exn

definition one_attempt :: "webhook_engine_config \<Rightarrow> guard \<Rightarrow> post_outcome \<Rightarrow> attempt" where
  "one_attempt cfg g outcome =
     (case g of
        Unsafe r \<Rightarrow> Stop (UnsafeUrl r)
      | GuardRaised x \<Rightarrow> AttemptRaised x
      | Safe \<Rightarrow>
          (case outcome of
             TransportError r \<Rightarrow> Again (TransportReason r) None
           | PostRaised x \<Rightarrow> AttemptRaised x
           | Reply resp \<Rightarrow>
               if 200 \<le> wr_status resp \<and> wr_status resp < 300 then
                 (if wr_ok resp = Some False then
                    Again ReceiverRequestedRetry
                      (Some (min (case wr_retry_after resp of
                                    Some d \<Rightarrow> if d = 0 then we_backoff_base cfg else d
                                  | None \<Rightarrow> we_backoff_base cfg) (we_retry_after_cap cfg)))
                  else Delivered)
               else if \<not> retryable (wr_status resp) then Stop (HttpStatus (wr_status resp))
               else Again (HttpStatus (wr_status resp)) None))"

text \<open>
  The loop over the attempts, \<open>left\<close> of them to go; the guard and the transport may answer differently
  at each attempt \<open>k\<close>. The result comes with the waits made.
\<close>

fun deliver_loop ::
  "webhook_engine_config \<Rightarrow> (nat \<Rightarrow> guard) \<Rightarrow> (nat \<Rightarrow> post_outcome) \<Rightarrow> webhook_sink \<Rightarrow> nat \<Rightarrow> nat \<Rightarrow> rat \<Rightarrow> delivery_reason
     \<Rightarrow> rat list \<Rightarrow> (delivery_error + unit) \<times> rat list" where
  "deliver_loop cfg guards posts k i 0 delay reason waits =
     (Inl (DeliveryFailed (wk_sink_id k) (wk_endpoint k) reason), waits)"
| "deliver_loop cfg guards posts k i (Suc left) delay reason waits =
     (case one_attempt cfg (guards i) (posts i) of
        Delivered \<Rightarrow> (Inr (), waits)
      | AttemptRaised x \<Rightarrow> (Inl (DeliveryRaised x), waits)
      | Stop r \<Rightarrow> (Inl (DeliveryFailed (wk_sink_id k) (wk_endpoint k) r), waits)
      | Again r asked \<Rightarrow>
          if left = 0 then deliver_loop cfg guards posts k (i + 1) left delay r waits
          else
            (case asked of
               Some d \<Rightarrow> deliver_loop cfg guards posts k (i + 1) left delay r (waits @ [d])
             | None \<Rightarrow> deliver_loop cfg guards posts k (i + 1) left (2 * delay) r (waits @ [min delay (we_backoff_max cfg)])))"

definition deliver ::
  "webhook_engine_config \<Rightarrow> (nat \<Rightarrow> string \<Rightarrow> resolution)
     \<Rightarrow> (nat \<Rightarrow> string \<Rightarrow> byte list \<Rightarrow> (string \<times> string) list \<Rightarrow> post_outcome) \<Rightarrow> webhook_sink
     \<Rightarrow> string \<Rightarrow> string \<Rightarrow> byte list \<Rightarrow> (delivery_error + unit) \<times> rat list" where
  "deliver cfg resolve post k event_id event_type body =
     deliver_loop cfg (\<lambda>i. assert_safe_webhook_url (resolve i) (wk_endpoint k))
       (\<lambda>i. post i (wk_endpoint k) body (sink_headers k event_id event_type body))
       k 0 (nat (we_max_attempts cfg)) (we_backoff_base cfg) NoAttempt []"

subsection \<open>The dispatcher\<close>

record 'g webhook_target =
  wt_sink_id :: string
  wt_endpoint :: string
  wt_secret :: "string option"
  wt_signature :: 'g

type_synonym 'g sink_cache = "(string, 'g \<times> webhook_sink) dict"

definition target_sink :: "'g webhook_target \<Rightarrow> webhook_sink" where
  "target_sink t = \<lparr>wk_sink_id = wt_sink_id t, wk_endpoint = wt_endpoint t, wk_secret = wt_secret t\<rparr>"

definition refresh_sink :: "'g webhook_target \<Rightarrow> 'g sink_cache \<Rightarrow> 'g sink_cache" where
  "refresh_sink t cache =
     (case map_of cache (wt_sink_id t) of
        Some (sig, k) \<Rightarrow> if sig = wt_signature t then cache
                        else AList.update (wt_sink_id t) (wt_signature t, target_sink t) cache
      | None \<Rightarrow> AList.update (wt_sink_id t) (wt_signature t, target_sink t) cache)"

fun reconcile_targets ::
  "'g webhook_target list \<Rightarrow> 'g sink_cache \<Rightarrow> (string, webhook_sink) dict \<Rightarrow> (string, webhook_sink) dict \<times> 'g sink_cache" where
  "reconcile_targets [] cache out = (out, cache)"
| "reconcile_targets (t # ts) cache out =
     (let cache' = refresh_sink t cache in
      reconcile_targets ts cache'
        (case map_of cache' (wt_sink_id t) of None \<Rightarrow> out | Some (sig, k) \<Rightarrow> AList.update (wt_sink_id t) k out))"

definition reconcile_sinks :: "'g webhook_target list \<Rightarrow> 'g sink_cache \<Rightarrow> (string, webhook_sink) dict \<times> 'g sink_cache" where
  "reconcile_sinks targets cache =
     (case reconcile_targets targets cache [] of
        (out, cache') \<Rightarrow>
          (out, dict_pops cache' (filter (\<lambda>n. n \<notin> set (map wt_sink_id targets)) (dict_keys cache'))))"

subsection \<open>Facts about the sink\<close>

definition goes_on :: "attempt \<Rightarrow> bool" where
  "goes_on a \<longleftrightarrow> (\<exists>r d. a = Again r d)"

definition wait_ok :: "webhook_engine_config \<Rightarrow> rat \<Rightarrow> bool" where
  "wait_ok cfg w \<longleftrightarrow> w \<le> we_retry_after_cap cfg \<or> w \<le> we_backoff_max cfg"

lemma again_delay: "one_attempt cfg g p = Again r (Some d) \<Longrightarrow> d \<le> we_retry_after_cap cfg"
  by (auto simp: one_attempt_def split: guard.splits post_outcome.splits if_splits option.splits)

lemma deliver_loop_delivered:
  "fst (deliver_loop cfg guards posts k i n delay reason waits) = Inr ()
     \<longleftrightarrow> (\<exists>j<n. one_attempt cfg (guards (i + j)) (posts (i + j)) = Delivered
           \<and> (\<forall>m<j. goes_on (one_attempt cfg (guards (i + m)) (posts (i + m)))))"
proof (induction n arbitrary: i delay reason waits)
  case (Suc n)
  have split: "(\<exists>j<Suc n. P j \<and> (\<forall>m<j. Q m)) \<longleftrightarrow> P 0 \<or> Q 0 \<and> (\<exists>j<n. P (Suc j) \<and> (\<forall>m<j. Q (Suc m)))" for P Q :: "nat \<Rightarrow> bool"
  proof
    assume "\<exists>j<Suc n. P j \<and> (\<forall>m<j. Q m)"
    then obtain j where "j < Suc n" "P j" "\<forall>m<j. Q m" by blast
    then show "P 0 \<or> Q 0 \<and> (\<exists>j<n. P (Suc j) \<and> (\<forall>m<j. Q (Suc m)))" by (cases j) auto
  next
    assume "P 0 \<or> Q 0 \<and> (\<exists>j<n. P (Suc j) \<and> (\<forall>m<j. Q (Suc m)))"
    then show "\<exists>j<Suc n. P j \<and> (\<forall>m<j. Q m)"
    proof
      assume "Q 0 \<and> (\<exists>j<n. P (Suc j) \<and> (\<forall>m<j. Q (Suc m)))"
      then obtain j where "Q 0" "j < n" "P (Suc j)" "\<forall>m<j. Q (Suc m)" by blast
      then show ?thesis by (intro exI [of _ "Suc j"]) (auto simp: less_Suc_eq_0_disj)
    qed auto
  qed
  show ?case
    unfolding split using Suc.IH [of "i + 1"]
    by (cases "one_attempt cfg (guards i) (posts i)") (auto simp: goes_on_def split: option.splits)
qed simp

lemma deliver_loop_waits:
  assumes "list_all (wait_ok cfg) waits"
  shows "list_all (wait_ok cfg) (snd (deliver_loop cfg guards posts k i n delay reason waits))
    \<and> length (snd (deliver_loop cfg guards posts k i n delay reason waits)) \<le> length waits + (n - 1)"
  using assms
proof (induction n arbitrary: i delay reason waits)
  case (Suc n)
  show ?case
  proof (cases "one_attempt cfg (guards i) (posts i)")
    case (Again r asked)
    show ?thesis
    proof (cases "n = 0")
      case False
      let ?w = "case asked of Some d \<Rightarrow> d | None \<Rightarrow> min delay (we_backoff_max cfg)"
      have "wait_ok cfg ?w" using Again again_delay [of cfg "guards i" "posts i" r] by (auto simp: wait_ok_def split: option.splits)
      with Suc.prems have "list_all (wait_ok cfg) (waits @ [?w])" by simp
      from Suc.IH [OF this, of "i + 1" delay r] Suc.IH [OF this, of "i + 1" "2 * delay" r]
      show ?thesis using False Again by (cases asked) auto
    qed (use Again Suc.prems in simp)
  qed (use Suc.prems in simp_all)
qed simp

lemma deliver_loop_paced:
  assumes "\<forall>j. one_attempt cfg (guards j) (posts j) = Again ReceiverRequestedRetry (Some (d j))"
  shows "deliver_loop cfg guards posts k i n delay reason waits
    = (Inl (DeliveryFailed (wk_sink_id k) (wk_endpoint k) (if n = 0 then reason else ReceiverRequestedRetry)),
       waits @ map d [i..<i + n - 1])"
proof (induction n arbitrary: i reason waits)
  case (Suc n)
  show ?case
  proof (cases n)
    case (Suc m)
    have "[i..<i + n] = (if i < i + n then i # [Suc i..<i + n] else [])" by (rule upt_rec)
    then have "map d [i..<i + Suc n - 1] = d i # map d [i + 1..<i + 1 + n - 1]"
      using Suc by (simp del: upt_Suc)
    then show ?thesis using assms Suc Suc.IH [of "i + 1" ReceiverRequestedRetry "waits @ [d i]"] by (simp del: upt_Suc)
  qed (use assms in simp)
qed simp

lemma sink_signature_header: "map_of (sink_headers k eid et body) ''X-LZT-Signature''
    = Some (signature_header (case wk_secret k of None \<Rightarrow> [] | Some s \<Rightarrow> s) body)"
  by (simp add: sink_headers_def)

subsection \<open>Facts about the dispatcher\<close>

text \<open>The signature of a cached sink determines its endpoint and secret through \<open>f\<close>.\<close>

definition cache_ok :: "('g \<Rightarrow> string \<times> string option) \<Rightarrow> 'g sink_cache \<Rightarrow> bool" where
  "cache_ok f cache \<longleftrightarrow> dict_ok cache
   \<and> (\<forall>n sig k. map_of cache n = Some (sig, k) \<longrightarrow> k = \<lparr>wk_sink_id = n, wk_endpoint = fst (f sig), wk_secret = snd (f sig)\<rparr>)"

definition target_ok :: "('g \<Rightarrow> string \<times> string option) \<Rightarrow> 'g webhook_target \<Rightarrow> bool" where
  "target_ok f t \<longleftrightarrow> f (wt_signature t) = (wt_endpoint t, wt_secret t)"

lemma refresh_sink_effect:
  assumes "cache_ok f cache" "target_ok f t"
  shows "cache_ok f (refresh_sink t cache)"
    and "map_of (refresh_sink t cache) (wt_sink_id t) = Some (wt_signature t, target_sink t)"
    and "n \<noteq> wt_sink_id t \<Longrightarrow> map_of (refresh_sink t cache) n = map_of cache n"
proof -
  have new: "cache_ok f (AList.update (wt_sink_id t) (wt_signature t, target_sink t) cache)"
    using assms by (auto simp: cache_ok_def target_ok_def target_sink_def dict_simps)
  show "cache_ok f (refresh_sink t cache)"
    using new assms(1) by (auto simp: refresh_sink_def split: option.splits)
  have "map_of cache (wt_sink_id t) = Some (wt_signature t, k) \<Longrightarrow> k = target_sink t" for k
    using assms by (simp add: cache_ok_def target_ok_def target_sink_def) (metis fst_conv snd_conv)
  then show "map_of (refresh_sink t cache) (wt_sink_id t) = Some (wt_signature t, target_sink t)"
    by (auto simp: refresh_sink_def dict_simps split: option.splits)
  show "n \<noteq> wt_sink_id t \<Longrightarrow> map_of (refresh_sink t cache) n = map_of cache n"
    by (auto simp: refresh_sink_def dict_simps split: option.splits)
qed

lemma refresh_sink_keys: "set (dict_keys (refresh_sink t cache)) = insert (wt_sink_id t) (set (dict_keys cache))"
  by (auto simp: refresh_sink_def split: option.splits dest!: map_of_SomeD intro: rev_image_eqI)

lemma reconcile_targets_effect:
  assumes "cache_ok f cache" "list_all (target_ok f) ts" "distinct (map wt_sink_id ts)" "dict_ok out"
    "reconcile_targets ts cache out = (out', cache')"
  shows "cache_ok f cache' \<and> dict_ok out'
    \<and> set (dict_keys cache') = set (dict_keys cache) \<union> set (map wt_sink_id ts)
    \<and> (\<forall>n. map_of out' n = (case find (\<lambda>t. wt_sink_id t = n) ts of None \<Rightarrow> map_of out n | Some t \<Rightarrow> Some (target_sink t)))"
  using assms
proof (induction ts cache out rule: reconcile_targets.induct)
  case (2 t ts cache out)
  let ?c = "refresh_sink t cache"
  have t: "target_ok f t" using 2(3) by simp
  note r = refresh_sink_effect [OF "2.prems"(1) t]
  have rec: "reconcile_targets ts ?c (AList.update (wt_sink_id t) (target_sink t) out) = (out', cache')"
    using "2.prems"(5) by (simp add: r(2) Let_def)
  have IH: "cache_ok f cache' \<and> dict_ok out'
    \<and> set (dict_keys cache') = set (dict_keys ?c) \<union> set (map wt_sink_id ts)
    \<and> (\<forall>n. map_of out' n = (case find (\<lambda>t. wt_sink_id t = n) ts of
          None \<Rightarrow> map_of (AList.update (wt_sink_id t) (target_sink t) out) n | Some t \<Rightarrow> Some (target_sink t)))"
    using "2.IH" [OF refl r(1), unfolded r(2) option.case prod.case] "2.prems" rec by simp
  have "find (\<lambda>u. wt_sink_id u = wt_sink_id t) ts = None"
    using "2.prems"(3) by (auto simp: find_None_iff) (metis image_eqI)
  with IH show ?case by (auto simp: refresh_sink_keys dict_simps simp del: set_map split: option.splits)
qed (simp split: option.splits)

lemma reconcile_sinks_effect:
  assumes "cache_ok f cache" "list_all (target_ok f) ts" "distinct (map wt_sink_id ts)"
    "reconcile_sinks ts cache = (out, cache')"
  shows "cache_ok f cache'" "set (dict_keys cache') = set (map wt_sink_id ts)" "dict_ok out"
    "map_of out n = map_option target_sink (find (\<lambda>t. wt_sink_id t = n) ts)"
proof -
  obtain c1 where c1: "reconcile_targets ts cache [] = (out, c1)"
    and c': "cache' = dict_pops c1 (filter (\<lambda>n. n \<notin> set (map wt_sink_id ts)) (dict_keys c1))"
    using assms(4) by (auto simp: reconcile_sinks_def split: prod.splits)
  note e = reconcile_targets_effect [OF assms(1-3) dict_ok_Nil c1]
  show "cache_ok f cache'" using e by (auto simp: c' cache_ok_def map_of_dict_pops split: if_splits)
  show "set (dict_keys cache') = set (map wt_sink_id ts)" using e by (auto simp: c')
  show "dict_ok out" using e by simp
  show "map_of out n = map_option target_sink (find (\<lambda>t. wt_sink_id t = n) ts)"
    using e by (auto split: option.splits)
qed

subsection \<open>Replies that break or stall a delivery\<close>

text \<open>An integer delay beyond the doubles raises out of the reading of the reply, which catches \<open>TypeError\<close>
  and \<open>ValueError\<close> only: a 2xx reply whose body is such an object makes the delivery raise.\<close>

lemma overlong_retry_after_raises:
  assumes "200 \<le> status" "status < 300" "2 ^ 1024 \<le> i"
  shows "parse_receiver_response float_text float_str status
      (Some (json_dumps default_style (JObj [(''ok'', JBool False), (''retry_after'', JInt i)]))) = Inl OverflowError"
proof -
  let ?j = "JObj [(''ok'', JBool False), (''retry_after'', JInt i)]"
  have "json_loads (json_dumps default_style ?j) = Some ?j"
    by (rule loads_dumps_text) (simp_all add: styles_ok dict_ok_def)
  moreover have "\<not> \<bar>i\<bar> < 2 ^ 1024 - 2 ^ 970" using assms(3) by simp
  ultimately show ?thesis using assms(1,2) by (simp add: parse_receiver_response_def json_item_def)
qed

text \<open>A receiver that answers every attempt with 2xx and a request to retry uses up the attempts like any
  failure: the delivery fails with that reason after the capped delays it asked for.\<close>

lemma receiver_pacing_exhausts:
  assumes "\<forall>j. assert_safe_webhook_url (resolve j) (wk_endpoint k) = Safe" "0 < we_max_attempts cfg"
    and "\<forall>j. post j (wk_endpoint k) body (sink_headers k eid et body) = Reply \<lparr>wr_status = 200, wr_ok = Some False, wr_retry_after = Some 1\<rparr>"
  shows "deliver cfg resolve post k eid et body
    = (Inl (DeliveryFailed (wk_sink_id k) (wk_endpoint k) ReceiverRequestedRetry),
       replicate (nat (we_max_attempts cfg) - 1) (min 1 (we_retry_after_cap cfg)))"
  using assms
  by (simp add: deliver_def deliver_loop_paced [where d = "\<lambda>_. min 1 (we_retry_after_cap cfg)"] one_attempt_def map_replicate_const)

subsection \<open>Properties\<close>


text \<open>What the sink sends, the receiver's check accepts, and it accepts nothing else: the signature header
  of a delivery verifies under the sink's secret, and a presented text verifies only if it is that
  header.\<close>

theorem webhook_signature_roundtrip:
  "verify_webhook (case wk_secret k of None \<Rightarrow> [] | Some s \<Rightarrow> s) body (map_of (sink_headers k eid et body) ''X-LZT-Signature'') = Inr True
   \<and> (verify_webhook secret body (Some p) = Inr True \<longleftrightarrow> p = signature_header secret body)"
  by (simp add: sink_signature_header verify_webhook_iff)

end
