(* ===== verification/Web_Errors.thy ===== *)
theory Web_Errors
  imports Json_Text Errors Events
begin

text \<open>
  The error tree of the web layer (\<open>web/base/errors.py\<close>, \<open>web/base/error_codes.py\<close>), its single mapping to
  a response (\<open>web/middlewares/errors.py\<close>), the validation of the \<open>limit\<close> parameter
  (\<open>web/middlewares/limits.py\<close>), the request id (\<open>web/middlewares/request_id.py\<close>) and the parsing of
  event type names (\<open>web/shared/event_types.py\<close>). An error carries the arguments it was raised with.
\<close>

datatype error_code =
    EC_ERROR | EC_BAD_REQUEST | EC_UNAUTHORIZED | EC_FORBIDDEN | EC_NOT_FOUND | EC_CONFLICT | EC_SERVICE_UNAVAILABLE
  | EC_UNKNOWN_EVENT_TYPE | EC_INVALID_LIMIT | EC_LIMIT_TOO_LARGE | EC_UNSAFE_WEBHOOK_ENDPOINT
  | EC_WEBHOOK_HANDSHAKE_FAILED | EC_TOKEN_INVALID_UPSTREAM | EC_TOKEN_ACCOUNT_CAP_EXCEEDED | EC_SIGNATURE_INVALID
  | EC_SUBSCRIPTION_NOT_FOUND | EC_ALIAS_NOT_FOUND | EC_TOKEN_ACCOUNT_NOT_FOUND | EC_ALIAS_ALREADY_EXISTS
  | EC_NOT_A_POLLING_SUBSCRIPTION | EC_SUBSCRIPTION_CTX_MISMATCH | EC_SUBSCRIPTION_SCOPE_MISMATCH

fun code_value :: "error_code \<Rightarrow> string" where
  "code_value EC_ERROR = ''error''"
| "code_value EC_BAD_REQUEST = ''bad_request''"
| "code_value EC_UNAUTHORIZED = ''unauthorized''"
| "code_value EC_FORBIDDEN = ''forbidden''"
| "code_value EC_NOT_FOUND = ''not_found''"
| "code_value EC_CONFLICT = ''conflict''"
| "code_value EC_SERVICE_UNAVAILABLE = ''service_unavailable''"
| "code_value EC_UNKNOWN_EVENT_TYPE = ''unknown_event_type''"
| "code_value EC_INVALID_LIMIT = ''invalid_limit''"
| "code_value EC_LIMIT_TOO_LARGE = ''limit_too_large''"
| "code_value EC_UNSAFE_WEBHOOK_ENDPOINT = ''unsafe_webhook_endpoint''"
| "code_value EC_WEBHOOK_HANDSHAKE_FAILED = ''webhook_handshake_failed''"
| "code_value EC_TOKEN_INVALID_UPSTREAM = ''token_invalid_upstream''"
| "code_value EC_TOKEN_ACCOUNT_CAP_EXCEEDED = ''token_account_cap_exceeded''"
| "code_value EC_SIGNATURE_INVALID = ''signature_invalid''"
| "code_value EC_SUBSCRIPTION_NOT_FOUND = ''subscription_not_found''"
| "code_value EC_ALIAS_NOT_FOUND = ''alias_not_found''"
| "code_value EC_TOKEN_ACCOUNT_NOT_FOUND = ''token_account_not_found''"
| "code_value EC_ALIAS_ALREADY_EXISTS = ''alias_already_exists''"
| "code_value EC_NOT_A_POLLING_SUBSCRIPTION = ''not_a_polling_subscription''"
| "code_value EC_SUBSCRIPTION_CTX_MISMATCH = ''subscription_ctx_mismatch''"
| "code_value EC_SUBSCRIPTION_SCOPE_MISMATCH = ''subscription_scope_mismatch''"

datatype web_error =
    BadRequest string
  | Unauthorized string
  | Forbidden
  | NotFound
  | Conflict string int
  | ServiceUnavailable string
  | UnknownEventType string
  | InvalidLimit string "int option"
  | LimitTooLarge int int
  | SubscriptionNotFound string
  | UnsafeWebhookEndpoint string string
  | SubscriptionCtxMismatch string string
  | SubscriptionScopeMismatch string "string list"
  | WebhookHandshakeFailed
  | WebhookSignatureInvalid string
  | AliasAlreadyExists string
  | AliasNotFound string
  | TokenAccountNotFound string
  | TokenInvalidUpstream string string
  | TokenAccountCapExceeded int int
  | NotAPollingSubscription string string

text \<open>Each class with its code and the class it extends for its status.\<close>

fun web_code :: "web_error \<Rightarrow> error_code" where
  "web_code (BadRequest r) = EC_BAD_REQUEST"
| "web_code (Unauthorized r) = EC_UNAUTHORIZED"
| "web_code Forbidden = EC_FORBIDDEN"
| "web_code NotFound = EC_NOT_FOUND"
| "web_code (Conflict s n) = EC_CONFLICT"
| "web_code (ServiceUnavailable r) = EC_SERVICE_UNAVAILABLE"
| "web_code (UnknownEventType t) = EC_UNKNOWN_EVENT_TYPE"
| "web_code (InvalidLimit l m) = EC_INVALID_LIMIT"
| "web_code (LimitTooLarge l m) = EC_LIMIT_TOO_LARGE"
| "web_code (SubscriptionNotFound s) = EC_SUBSCRIPTION_NOT_FOUND"
| "web_code (UnsafeWebhookEndpoint e r) = EC_UNSAFE_WEBHOOK_ENDPOINT"
| "web_code (SubscriptionCtxMismatch t c) = EC_SUBSCRIPTION_CTX_MISMATCH"
| "web_code (SubscriptionScopeMismatch s u) = EC_SUBSCRIPTION_SCOPE_MISMATCH"
| "web_code WebhookHandshakeFailed = EC_WEBHOOK_HANDSHAKE_FAILED"
| "web_code (WebhookSignatureInvalid r) = EC_SIGNATURE_INVALID"
| "web_code (AliasAlreadyExists a) = EC_ALIAS_ALREADY_EXISTS"
| "web_code (AliasNotFound a) = EC_ALIAS_NOT_FOUND"
| "web_code (TokenAccountNotFound a) = EC_TOKEN_ACCOUNT_NOT_FOUND"
| "web_code (TokenInvalidUpstream a r) = EC_TOKEN_INVALID_UPSTREAM"
| "web_code (TokenAccountCapExceeded l c) = EC_TOKEN_ACCOUNT_CAP_EXCEEDED"
| "web_code (NotAPollingSubscription s t) = EC_NOT_A_POLLING_SUBSCRIPTION"

fun status_code :: "web_error \<Rightarrow> int" where
  "status_code (Unauthorized r) = 401"
| "status_code (WebhookSignatureInvalid r) = 401"
| "status_code Forbidden = 403"
| "status_code NotFound = 404"
| "status_code (SubscriptionNotFound s) = 404"
| "status_code (AliasNotFound a) = 404"
| "status_code (TokenAccountNotFound a) = 404"
| "status_code (Conflict s n) = 409"
| "status_code (AliasAlreadyExists a) = 409"
| "status_code (ServiceUnavailable r) = 503"
| "status_code e = 400"

fun error_fields :: "web_error \<Rightarrow> (string \<times> json) list" where
  "error_fields (BadRequest r) = [(''reason'', JStr r)]"
| "error_fields (Unauthorized r) = [(''reason'', JStr r)]"
| "error_fields Forbidden = []"
| "error_fields NotFound = []"
| "error_fields (Conflict s n) = [(''subscription_id'', JStr s), (''up_to_seq'', JInt n)]"
| "error_fields (ServiceUnavailable r) = [(''reason'', JStr r)]"
| "error_fields (UnknownEventType t) = [(''event_type'', JStr t)]"
| "error_fields (InvalidLimit l None) = [(''limit'', JStr l)]"
| "error_fields (InvalidLimit l (Some n)) = [(''limit'', JInt n), (''min_limit'', JInt 1)]"
| "error_fields (LimitTooLarge l m) = [(''limit'', JInt l), (''max_limit'', JInt m)]"
| "error_fields (SubscriptionNotFound s) = [(''subscription_id'', JStr s)]"
| "error_fields (UnsafeWebhookEndpoint e r) = [(''endpoint'', JStr e), (''reason'', JStr r)]"
| "error_fields (SubscriptionCtxMismatch t c) = [(''transport'', JStr t), (''ctx_kind'', JStr c)]"
| "error_fields (SubscriptionScopeMismatch s u) = [(''scope_kind'', JStr s), (''unsupported'', JArr (map JStr u))]"
| "error_fields WebhookHandshakeFailed = []"
| "error_fields (WebhookSignatureInvalid r) = [(''reason'', JStr r)]"
| "error_fields (AliasAlreadyExists a) = [(''alias'', JStr a)]"
| "error_fields (AliasNotFound a) = [(''alias'', JStr a)]"
| "error_fields (TokenAccountNotFound a) = [(''account_id'', JStr a)]"
| "error_fields (TokenInvalidUpstream a r) = [(''alias'', JStr a), (''reason'', JStr r)]"
| "error_fields (TokenAccountCapExceeded l c) = [(''limit'', JInt l), (''current'', JInt c)]"
| "error_fields (NotAPollingSubscription s t) = [(''subscription_id'', JStr s), (''transport'', JStr t)]"

text \<open>What a handler raises: a typed web error, or any other exception. The mapping hides the latter.\<close>

datatype web_exn = Web web_error | Unhandled exn

type_synonym 'a web_result = "web_exn + 'a"

definition bind_web :: "('e + 'a) \<Rightarrow> ('a \<Rightarrow> 'e + 'b) \<Rightarrow> 'e + 'b" where
  "bind_web r f = (case r of Inl e \<Rightarrow> Inl e | Inr x \<Rightarrow> f x)"

lemma bind_web_simps [simp]:
  "bind_web (Inl e) f = Inl e"
  "bind_web (Inr x) f = f x"
  by (simp_all add: bind_web_def)

lemma bind_web_Inr_iff: "bind_web r f = Inr y \<longleftrightarrow> (\<exists>x. r = Inr x \<and> f x = Inr y)"
  by (cases r) auto

definition lift_result :: "'a result \<Rightarrow> 'a web_result" where
  "lift_result r = (case r of Inl x \<Rightarrow> Inl (Unhandled x) | Inr a \<Rightarrow> Inr a)"

definition json_opt_str :: "string option \<Rightarrow> json" where
  "json_opt_str s = (case s of None \<Rightarrow> JNull | Some t \<Rightarrow> JStr t)"

fun error_response :: "string option \<Rightarrow> web_exn \<Rightarrow> int \<times> json" where
  "error_response rid (Web e) =
     (status_code e, JObj [(''error'', JStr (code_value (web_code e))), (''detail'', JObj (error_fields e)),
                           (''request_id'', json_opt_str rid)])"
| "error_response rid (Unhandled x) =
     (500, JObj [(''error'', JStr ''internal_error''), (''request_id'', json_opt_str rid)])"

text \<open>The request id: the header's when it is there and not empty, otherwise a new one.\<close>

definition request_id :: "string option \<Rightarrow> string \<Rightarrow> string" where
  "request_id header fresh = (case header of Some h \<Rightarrow> if h = [] then fresh else h | None \<Rightarrow> fresh)"

definition min_limit :: int where
  "min_limit = 1"

definition check_limit :: "int \<Rightarrow> string \<Rightarrow> unit web_result" where
  "check_limit max_limit raw =
     (case py_int raw of
        None \<Rightarrow> Inl (Web (InvalidLimit raw None))
      | Some n \<Rightarrow>
          if n < min_limit then Inl (Web (InvalidLimit raw (Some n)))
          else if max_limit < n then Inl (Web (LimitTooLarge n max_limit))
          else Inr ())"

text \<open>The middleware in front of a handler; the query parameter is absent or a text.\<close>

definition limit_dispatch :: "int \<Rightarrow> string option \<Rightarrow> (unit \<Rightarrow> 'a web_result) \<Rightarrow> 'a web_result" where
  "limit_dispatch max_limit param call_next =
     (case param of
        None \<Rightarrow> call_next ()
      | Some raw \<Rightarrow> bind_web (check_limit max_limit raw) call_next)"

fun parse_event_types :: "string list \<Rightarrow> event_type list web_result" where
  "parse_event_types [] = Inr []"
| "parse_event_types (name # names) =
     (case parse_event_type name of
        None \<Rightarrow> Inl (Web (UnknownEventType name))
      | Some t \<Rightarrow> bind_web (parse_event_types names) (\<lambda>ts. Inr (List.insert t ts)))"

subsection \<open>Facts\<close>

lemma status_codes: "status_code e \<in> {400, 401, 403, 404, 409, 503}"
  by (cases e) simp_all

lemma code_value_inj: "code_value a = code_value b \<longleftrightarrow> a = b"
  by (cases a; cases b) simp_all

lemma unhandled_hides: "error_response rid (Unhandled x) = error_response rid (Unhandled y)"
  by simp

lemma check_limit_ok: "check_limit m raw = Inr () \<longleftrightarrow> (\<exists>n. py_int raw = Some n \<and> 1 \<le> n \<and> n \<le> m)"
  by (auto simp: check_limit_def min_limit_def split: option.splits)

lemma parse_event_types_error:
  "(\<exists>n. n \<in> set names \<and> parse_event_type n = None) \<longleftrightarrow> (\<exists>n. parse_event_types names = Inl (Web (UnknownEventType n)))"
  by (induction names) (auto simp: bind_web_def split: option.splits sum.splits)

lemma parse_event_types_set:
  "parse_event_types names = Inr ts \<Longrightarrow> set ts = {t. \<exists>n\<in>set names. parse_event_type n = Some t} \<and> distinct ts"
  by (induction names arbitrary: ts) (auto simp: bind_web_Inr_iff split: option.splits)

end
