(* ===== verification/Subscriptions.thy ===== *)
theory Subscriptions
  imports Web_Errors Url_Safety Consumers Cursors Event_Log
begin

text \<open>
  Webhook, stream and polling subscriptions: the domain record with its transport, scope and context
  (\<open>delivery/subscription.py\<close>, \<open>subscription_scope.py\<close>, \<open>subscription_ctx.py\<close>), the in-memory and the SQL
  repository (\<open>web/base/repo.py\<close>, \<open>web/repos/subscription_repo.py\<close>, \<open>web/orm/subscription.py\<close>) and the
  admin service (\<open>web/services/subscriptions.py\<close>). Fresh identifiers and secrets are arguments.
\<close>

subsection \<open>The subscription\<close>

datatype transport_kind = WEBHOOK | WEBSOCKET | SSE | POLLING

fun transport_value :: "transport_kind \<Rightarrow> string" where
  "transport_value WEBHOOK = ''webhook''"
| "transport_value WEBSOCKET = ''websocket''"
| "transport_value SSE = ''sse''"
| "transport_value POLLING = ''polling''"

datatype sub_ctx = WebhookCtx | WebSocketCtx | SseCtx | PollingCtx rat

fun ctx_kind :: "sub_ctx \<Rightarrow> string" where
  "ctx_kind WebhookCtx = ''webhook''"
| "ctx_kind WebSocketCtx = ''websocket''"
| "ctx_kind SseCtx = ''sse''"
| "ctx_kind (PollingCtx d) = ''polling''"

fun default_ctx_for :: "transport_kind \<Rightarrow> sub_ctx" where
  "default_ctx_for WEBHOOK = WebhookCtx"
| "default_ctx_for WEBSOCKET = WebSocketCtx"
| "default_ctx_for SSE = SseCtx"
| "default_ctx_for POLLING = PollingCtx 0"

datatype sub_scope = NoScope | CategoryScope category | AccountScope string

fun scope_kind :: "sub_scope \<Rightarrow> string" where
  "scope_kind NoScope = ''none''"
| "scope_kind (CategoryScope c) = ''category''"
| "scope_kind (AccountScope a) = ''account''"

definition catalog_event_types :: "event_type list" where
  "catalog_event_types = [NEW_LOT, PRICE_DROPPED, LOT_UPDATED, LOT_DISAPPEARED, SNAPSHOT_INITIALIZED]"

definition account_event_types :: "event_type list" where
  "account_event_types = [RATING_CHANGED]"

text \<open>\<open>_SUPPORTED_EVENT_TYPES\<close>: None is no restriction.\<close>

fun supported_event_types :: "sub_scope \<Rightarrow> event_type list option" where
  "supported_event_types NoScope = None"
| "supported_event_types (CategoryScope c) = Some catalog_event_types"
| "supported_event_types (AccountScope a) = Some account_event_types"

fun to_filters :: "sub_scope \<Rightarrow> (string \<times> string) list" where
  "to_filters (CategoryScope c) = [(''category'', c)]"
| "to_filters (AccountScope a) = [(''account_alias'', a)]"
| "to_filters NoScope = []"

definition unsupported_event_types :: "sub_scope \<Rightarrow> event_type list \<Rightarrow> event_type list" where
  "unsupported_event_types scope types =
     (case supported_event_types scope of None \<Rightarrow> [] | Some ok \<Rightarrow> filter (\<lambda>t. t \<notin> set ok) types)"

record sink_sub =
  su_id :: string
  su_transport :: transport_kind
  su_endpoint :: string
  su_event_types :: "event_type list"
  su_created_at :: datetime
  su_ctx :: sub_ctx
  su_scope :: sub_scope
  su_secret :: "string option"
  su_token_hash :: "string option"
  su_active :: bool

definition sink_consumer_name :: "sink_sub \<Rightarrow> string" where
  "sink_consumer_name s = ''sink:'' @ su_id s"

subsection \<open>The repositories\<close>

text \<open>A Python slice of a list, with its treatment of negative bounds.\<close>

definition slice_bound :: "nat \<Rightarrow> int \<Rightarrow> nat" where
  "slice_bound n i = nat (if i < 0 then max 0 (int n + i) else min i (int n))"

definition py_slice :: "'a list \<Rightarrow> int \<Rightarrow> int \<Rightarrow> 'a list" where
  "py_slice xs i j = drop (slice_bound (length xs) i) (take (slice_bound (length xs) j) xs)"

text \<open>The order of creation times; the clock gives aware ones.\<close>

definition created_key :: "datetime \<Rightarrow> int" where
  "created_key d = instant (case utc_offset d of None \<Rightarrow> 0 | Some z \<Rightarrow> z) d"

definition repo_filtered :: "('m \<Rightarrow> datetime) \<Rightarrow> ('m \<Rightarrow> bool) \<Rightarrow> bool \<Rightarrow> (string, 'm) dict \<Rightarrow> 'm list" where
  "repo_filtered created active active_only items =
     (let rows = sort_key (\<lambda>m. created_key (created m)) (map snd items)
      in if active_only then filter active rows else rows)"

definition repo_list :: "('m \<Rightarrow> datetime) \<Rightarrow> ('m \<Rightarrow> bool) \<Rightarrow> int \<Rightarrow> int \<Rightarrow> bool \<Rightarrow> (string, 'm) dict \<Rightarrow> 'm list" where
  "repo_list created active limit offset active_only items =
     py_slice (repo_filtered created active active_only items) offset (offset + limit)"

definition repo_count :: "('m \<Rightarrow> datetime) \<Rightarrow> ('m \<Rightarrow> bool) \<Rightarrow> bool \<Rightarrow> (string, 'm) dict \<Rightarrow> int" where
  "repo_count created active active_only items = int (length (repo_filtered created active active_only items))"

type_synonym memory_subs = "(string, sink_sub) dict"

definition mr_get :: "memory_subs \<Rightarrow> string \<Rightarrow> sink_sub option result" where
  "mr_get r i = Inr (map_of r i)"

definition mr_put :: "sink_sub \<Rightarrow> memory_subs \<Rightarrow> unit result \<times> memory_subs" where
  "mr_put s r = (Inr (), AList.update (su_id s) s r)"

text \<open>
  The row: the types as sorted values, scope and context as JSON with the discriminator first, a text
  longer than its column refused. \<open>rat_text\<close> and \<open>text_rat\<close> are the float literal of a delay and its
  value, \<open>rat_num\<close> the check that a delay is between 0 and 300.
\<close>

record sub_row =
  sr_subscription_id :: string
  sr_transport :: string
  sr_endpoint :: string
  sr_event_types :: "string list"
  sr_scope :: json
  sr_ctx :: json
  sr_secret :: "string option"
  sr_token_hash :: "string option"
  sr_active :: bool
  sr_created_at :: datetime

fun scope_json :: "sub_scope \<Rightarrow> json" where
  "scope_json NoScope = JObj [(''kind'', JStr ''none'')]"
| "scope_json (CategoryScope c) = JObj [(''kind'', JStr ''category''), (''category'', JStr c)]"
| "scope_json (AccountScope a) = JObj [(''kind'', JStr ''account''), (''account_alias'', JStr a)]"

fun ctx_json :: "(rat \<Rightarrow> string) \<Rightarrow> sub_ctx \<Rightarrow> json" where
  "ctx_json rat_text (PollingCtx d) = JObj [(''kind'', JStr ''polling''), (''poll_delay_seconds'', JFloat (rat_text d))]"
| "ctx_json rat_text c = JObj [(''kind'', JStr (ctx_kind c))]"

definition json_text :: "json \<Rightarrow> string \<Rightarrow> string option" where
  "json_text j k = (case json_item j k of Some (JStr s) \<Rightarrow> Some s | _ \<Rightarrow> None)"

text \<open>The validation library's reading of the two; \<open>known\<close> are the categories of the client library.\<close>

definition scope_of_json :: "(category \<Rightarrow> bool) \<Rightarrow> json \<Rightarrow> sub_scope result" where
  "scope_of_json known j =
     (case json_text j ''kind'' of
        None \<Rightarrow> Inl ValidationError
      | Some k \<Rightarrow>
          if k = ''none'' then Inr NoScope
          else if k = ''category'' then
            (case json_text j ''category'' of
               Some c \<Rightarrow> if known c then Inr (CategoryScope c) else Inl ValidationError | None \<Rightarrow> Inl ValidationError)
          else if k = ''account'' then
            (case json_text j ''account_alias'' of Some a \<Rightarrow> Inr (AccountScope a) | None \<Rightarrow> Inl ValidationError)
          else Inl ValidationError)"

definition delay_of_json :: "(string \<Rightarrow> rat) \<Rightarrow> json \<Rightarrow> rat result" where
  "delay_of_json text_rat j =
     (let check = (\<lambda>d :: rat. if 0 \<le> d \<and> d \<le> 300 then Inr d else Inl ValidationError) in
      case json_item j ''poll_delay_seconds'' of
        None \<Rightarrow> Inr 0
      | Some (JFloat t) \<Rightarrow> check (text_rat t)
      | Some (JInt i) \<Rightarrow> check (of_int i)
      | Some _ \<Rightarrow> Inl ValidationError)"

definition ctx_of_json :: "(string \<Rightarrow> rat) \<Rightarrow> json \<Rightarrow> sub_ctx result" where
  "ctx_of_json text_rat j =
     (case json_text j ''kind'' of
        None \<Rightarrow> Inl ValidationError
      | Some k \<Rightarrow>
          if k = ''webhook'' then Inr WebhookCtx
          else if k = ''websocket'' then Inr WebSocketCtx
          else if k = ''sse'' then Inr SseCtx
          else if k = ''polling'' then bind_result (delay_of_json text_rat j) (\<lambda>d. Inr (PollingCtx d))
          else Inl ValidationError)"

definition transport_of_value :: "string \<Rightarrow> transport_kind result" where
  "transport_of_value v =
     (if v = ''webhook'' then Inr WEBHOOK else if v = ''websocket'' then Inr WEBSOCKET
      else if v = ''sse'' then Inr SSE else if v = ''polling'' then Inr POLLING else Inl ValueError)"

definition sub_to_row :: "(rat \<Rightarrow> string) \<Rightarrow> sink_sub \<Rightarrow> sub_row" where
  "sub_to_row rat_text s = \<lparr>sr_subscription_id = su_id s, sr_transport = transport_value (su_transport s),
     sr_endpoint = su_endpoint s, sr_event_types = sort (map et_value (su_event_types s)),
     sr_scope = scope_json (su_scope s), sr_ctx = ctx_json rat_text (su_ctx s), sr_secret = su_secret s,
     sr_token_hash = su_token_hash s, sr_active = su_active s, sr_created_at = su_created_at s\<rparr>"

definition types_of_values :: "string list \<Rightarrow> event_type list result" where
  "types_of_values vs = (case those (map parse_event_type vs) of None \<Rightarrow> Inl ValueError | Some ts \<Rightarrow> Inr (remdups ts))"

definition sub_of_row :: "(string \<Rightarrow> rat) \<Rightarrow> (category \<Rightarrow> bool) \<Rightarrow> sub_row \<Rightarrow> sink_sub result" where
  "sub_of_row text_rat known row =
     bind_result (transport_of_value (sr_transport row)) (\<lambda>tr.
     bind_result (types_of_values (sr_event_types row)) (\<lambda>ts.
     bind_result (ctx_of_json text_rat (sr_ctx row)) (\<lambda>c.
     bind_result (scope_of_json known (sr_scope row)) (\<lambda>sc.
       Inr \<lparr>su_id = sr_subscription_id row, su_transport = tr, su_endpoint = sr_endpoint row,
            su_event_types = ts, su_created_at = sr_created_at row, su_ctx = c, su_scope = sc,
            su_secret = sr_secret row, su_token_hash = sr_token_hash row, su_active = sr_active row\<rparr>))))"

definition row_fits :: "sub_row \<Rightarrow> bool" where
  "row_fits row \<longleftrightarrow> length (sr_subscription_id row) \<le> 64 \<and> length (sr_transport row) \<le> 32
     \<and> length (sr_endpoint row) \<le> 1024 \<and> (\<forall>s\<in>set_option (sr_secret row). length s \<le> 128)
     \<and> (\<forall>s\<in>set_option (sr_token_hash row). length s \<le> 128)"

type_synonym sub_table = "(string, sub_row) dict"

definition qr_get :: "(string \<Rightarrow> rat) \<Rightarrow> (category \<Rightarrow> bool) \<Rightarrow> sub_table \<Rightarrow> string \<Rightarrow> sink_sub option result" where
  "qr_get text_rat known t i =
     (case map_of t i of None \<Rightarrow> Inr None | Some row \<Rightarrow> bind_result (sub_of_row text_rat known row) (\<lambda>s. Inr (Some s)))"

definition qr_add :: "(rat \<Rightarrow> string) \<Rightarrow> sink_sub \<Rightarrow> sub_table \<Rightarrow> unit result \<times> sub_table" where
  "qr_add rat_text s t =
     (let row = sub_to_row rat_text s in
      if \<not> row_fits row then (Inl (StoreError ''DataError''), t)
      else if su_id s \<in> set (dict_keys t) then (Inl (StoreError ''IntegrityError''), t)
      else (Inr (), t @ [(su_id s, row)]))"

definition qr_replace :: "(rat \<Rightarrow> string) \<Rightarrow> sink_sub \<Rightarrow> sub_table \<Rightarrow> unit result \<times> sub_table" where
  "qr_replace rat_text s t =
     (let row = sub_to_row rat_text s in
      if \<not> row_fits row then (Inl (StoreError ''DataError''), t) else (Inr (), AList.update (su_id s) row t))"

text \<open>The query of \<open>list\<close>: filtered, ordered, then a page of it; rows are then read one by one.\<close>

definition qr_rows :: "bool \<Rightarrow> sub_table \<Rightarrow> sub_row list" where
  "qr_rows active_only t =
     sort_key (\<lambda>r. created_key (sr_created_at r)) (filter (\<lambda>r. active_only \<longrightarrow> sr_active r) (map snd t))"

fun read_rows :: "(string \<Rightarrow> rat) \<Rightarrow> (category \<Rightarrow> bool) \<Rightarrow> sub_row list \<Rightarrow> sink_sub list result" where
  "read_rows text_rat known [] = Inr []"
| "read_rows text_rat known (row # rows) =
     bind_result (sub_of_row text_rat known row) (\<lambda>s. bind_result (read_rows text_rat known rows) (\<lambda>ss. Inr (s # ss)))"

definition qr_list :: "(string \<Rightarrow> rat) \<Rightarrow> (category \<Rightarrow> bool) \<Rightarrow> nat \<Rightarrow> nat \<Rightarrow> bool \<Rightarrow> sub_table \<Rightarrow> sink_sub list result" where
  "qr_list text_rat known limit offset active_only t =
     read_rows text_rat known (take limit (drop offset (qr_rows active_only t)))"

definition qr_count :: "bool \<Rightarrow> sub_table \<Rightarrow> int" where
  "qr_count active_only t = int (length (filter (\<lambda>r. active_only \<longrightarrow> sr_active r) (map snd t)))"

subsection \<open>Rows read back\<close>

text \<open>What storage keeps: the types as a set, here as the sorted list of their values.\<close>

definition canon_types :: "event_type list \<Rightarrow> event_type list" where
  "canon_types ts = map (\<lambda>v. the (parse_event_type v)) (remdups (sort (map et_value ts)))"

definition canon_sub :: "sink_sub \<Rightarrow> sink_sub" where
  "canon_sub s = s\<lparr>su_event_types := canon_types (su_event_types s)\<rparr>"

definition ctx_ok :: "(rat \<Rightarrow> string) \<Rightarrow> (string \<Rightarrow> rat) \<Rightarrow> sub_ctx \<Rightarrow> bool" where
  "ctx_ok rat_text text_rat c = (case c of PollingCtx d \<Rightarrow> 0 \<le> d \<and> d \<le> 300 \<and> text_rat (rat_text d) = d | _ \<Rightarrow> True)"

definition scope_ok :: "(category \<Rightarrow> bool) \<Rightarrow> sub_scope \<Rightarrow> bool" where
  "scope_ok known sc = (case sc of CategoryScope c \<Rightarrow> known c | _ \<Rightarrow> True)"

definition sub_fits :: "(rat \<Rightarrow> string) \<Rightarrow> (string \<Rightarrow> rat) \<Rightarrow> (category \<Rightarrow> bool) \<Rightarrow> sink_sub \<Rightarrow> bool" where
  "sub_fits rat_text text_rat known s \<longleftrightarrow> row_fits (sub_to_row rat_text s) \<and> ctx_ok rat_text text_rat (su_ctx s)
     \<and> scope_ok known (su_scope s)"

lemma transport_roundtrip: "transport_of_value (transport_value t) = Inr t"
  by (cases t) (simp_all add: transport_of_value_def)

lemma scope_roundtrip: "scope_ok known sc \<Longrightarrow> scope_of_json known (scope_json sc) = Inr sc"
  by (cases sc) (simp_all add: scope_of_json_def json_text_def json_item_def scope_ok_def)

lemma ctx_roundtrip: "ctx_ok rat_text text_rat c \<Longrightarrow> ctx_of_json text_rat (ctx_json rat_text c) = Inr c"
  by (cases c) (simp_all add: ctx_of_json_def json_text_def json_item_def ctx_ok_def delay_of_json_def)

lemma those_parsed: "(\<forall>v\<in>set vs. \<exists>t. v = et_value t) \<Longrightarrow> those (map parse_event_type vs) = Some (map (\<lambda>v. the (parse_event_type v)) vs)"
  by (induction vs) (auto simp: parse_et_value)

lemma remdups_map_inj: "inj_on f (set xs) \<Longrightarrow> remdups (map f xs) = map f (remdups xs)"
  by (induction xs) (auto simp: inj_on_def)

lemma types_roundtrip: "types_of_values (sort (map et_value ts)) = Inr (canon_types ts)"
proof -
  let ?f = "\<lambda>v. the (parse_event_type v)" and ?vs = "sort (map et_value ts)"
  have "inj_on ?f (set ?vs)" by (auto simp: inj_on_def parse_et_value)
  then have "remdups (map ?f ?vs) = canon_types ts" by (simp only: remdups_map_inj canon_types_def)
  moreover have "those (map parse_event_type ?vs) = Some (map ?f ?vs)" by (rule those_parsed) auto
  ultimately show ?thesis by (simp add: types_of_values_def)
qed

lemma sub_roundtrip:
  "ctx_ok rat_text text_rat (su_ctx s) \<Longrightarrow> scope_ok known (su_scope s)
     \<Longrightarrow> sub_of_row text_rat known (sub_to_row rat_text s) = Inr (canon_sub s)"
  by (simp add: sub_of_row_def sub_to_row_def transport_roundtrip types_roundtrip ctx_roundtrip scope_roundtrip canon_sub_def)

lemma canon_types_set: "set (canon_types ts) = set ts"
  by (force simp: canon_types_def parse_et_value)

lemma sort_remdups: "sort (remdups (sort xs)) = remdups (sort xs)"
  by (simp add: sorted_remdups sorted_sort_id)

lemma values_of_canon: "map et_value (canon_types ts) = remdups (sort (map et_value ts))"
  unfolding canon_types_def map_map by (rule map_idI) (auto simp: parse_et_value)

lemma canon_types_idem: "canon_types (canon_types ts) = canon_types ts"
  by (simp only: canon_types_def [of "canon_types ts"] values_of_canon sort_remdups remdups_remdups)
    (simp only: canon_types_def)

lemma canon_sub_idem: "canon_sub (canon_sub s) = canon_sub s"
  by (simp add: canon_sub_def canon_types_idem)

lemma canon_sub_fields [simp]:
  "su_id (canon_sub s) = su_id s" "su_active (canon_sub s) = su_active s" "su_transport (canon_sub s) = su_transport s"
  "su_endpoint (canon_sub s) = su_endpoint s" "su_scope (canon_sub s) = su_scope s" "su_ctx (canon_sub s) = su_ctx s"
  "su_secret (canon_sub s) = su_secret s" "su_token_hash (canon_sub s) = su_token_hash s"
  "su_created_at (canon_sub s) = su_created_at s"
  by (simp_all add: canon_sub_def)

lemma canon_sub_types: "set (su_event_types (canon_sub s)) = set (su_event_types s)"
  by (simp add: canon_sub_def canon_types_set)

subsection \<open>The contract of the repositories\<close>

text \<open>
  What the service relies on (\<open>delivery/repo.py\<close>): a subscription that fits is stored under its id and
  read back as the same subscription, its types as a set; other subscriptions stay.
\<close>

locale subscription_repo =
  fixes get :: "'r \<Rightarrow> string \<Rightarrow> sink_sub option result"
    and add :: "sink_sub \<Rightarrow> 'r \<Rightarrow> unit result \<times> 'r"
    and replace :: "sink_sub \<Rightarrow> 'r \<Rightarrow> unit result \<times> 'r"
    and ids :: "'r \<Rightarrow> string list"
    and fits :: "sink_sub \<Rightarrow> bool"
    and repo_ok :: "'r \<Rightarrow> bool"
  assumes fits_active: "fits s \<Longrightarrow> fits (s\<lparr>su_active := b\<rparr>)"
    and get_absent: "i \<notin> set (ids r) \<Longrightarrow> get r i = Inr None"
    and get_present: "repo_ok r \<Longrightarrow> i \<in> set (ids r) \<Longrightarrow> \<exists>s. get r i = Inr (Some s) \<and> su_id s = i \<and> fits s"
    and add_new: "repo_ok r \<Longrightarrow> fits s \<Longrightarrow> su_id s \<notin> set (ids r) \<Longrightarrow>
          \<exists>r' t. add s r = (Inr (), r') \<and> repo_ok r' \<and> get r' (su_id s) = Inr (Some t) \<and> canon_sub t = canon_sub s
             \<and> set (ids r') = insert (su_id s) (set (ids r)) \<and> (\<forall>j. j \<noteq> su_id s \<longrightarrow> get r' j = get r j)"
    and replace_effect: "repo_ok r \<Longrightarrow> fits s \<Longrightarrow>
          \<exists>r' t. replace s r = (Inr (), r') \<and> repo_ok r' \<and> get r' (su_id s) = Inr (Some t) \<and> canon_sub t = canon_sub s
             \<and> set (ids r') = insert (su_id s) (set (ids r)) \<and> (\<forall>j. j \<noteq> su_id s \<longrightarrow> get r' j = get r j)"

text \<open>
  With the listing: one sequence per state holds the stored subscriptions, or the active ones, and a page
  is a part of it.
\<close>

locale listed_repo = subscription_repo +
  fixes list_page :: "nat \<Rightarrow> nat \<Rightarrow> bool \<Rightarrow> 'r \<Rightarrow> sink_sub list result"
    and count :: "bool \<Rightarrow> 'r \<Rightarrow> int"
    and listed :: "bool \<Rightarrow> 'r \<Rightarrow> sink_sub list"
  assumes list_part: "repo_ok r \<Longrightarrow> list_page limit offset act r = Inr (take limit (drop offset (listed act r)))"
    and listed_set: "repo_ok r \<Longrightarrow> set (listed act r)
          = {s. \<exists>i\<in>set (ids r). get r i = Inr (Some s) \<and> (act \<longrightarrow> su_active s)}"
    and listed_distinct: "repo_ok r \<Longrightarrow> distinct (map su_id (listed act r))"
    and count_listed: "repo_ok r \<Longrightarrow> count act r = int (length (listed act r))"
begin

lemma page_bound: "repo_ok r \<Longrightarrow> list_page limit offset act r = Inr rows \<Longrightarrow> length rows \<le> limit"
  by (auto simp: list_part)

lemma page_member:
  "repo_ok r \<Longrightarrow> list_page limit offset act r = Inr rows \<Longrightarrow> s \<in> set rows \<Longrightarrow> get r (su_id s) = Inr (Some s)"
  using listed_set [of r act] get_present [of r]
  by (fastforce simp: list_part dest: in_set_takeD in_set_dropD)

end

definition mr_ok :: "memory_subs \<Rightarrow> bool" where
  "mr_ok r \<longleftrightarrow> dict_ok r \<and> (\<forall>(i, s)\<in>set r. su_id s = i)"

definition mr_list :: "nat \<Rightarrow> nat \<Rightarrow> bool \<Rightarrow> memory_subs \<Rightarrow> sink_sub list result" where
  "mr_list limit offset active_only r =
     Inr (repo_list su_created_at su_active (int limit) (int offset) active_only r)"

definition mr_count :: "bool \<Rightarrow> memory_subs \<Rightarrow> int" where
  "mr_count active_only r = repo_count su_created_at su_active active_only r"

definition mr_listed :: "bool \<Rightarrow> memory_subs \<Rightarrow> sink_sub list" where
  "mr_listed act r = repo_filtered su_created_at su_active act r"

lemma py_slice_page: "py_slice xs (int k) (int k + int n) = take n (drop k xs)"
  by (auto simp: py_slice_def slice_bound_def min_def drop_take nat_add_distrib not_le)

lemma dict_get: "dict_ok r \<Longrightarrow> i \<in> set (dict_keys r) \<Longrightarrow> \<exists>v. map_of r i = Some v \<and> (i, v) \<in> set r"
  using map_of_eq_None_iff [of r i] map_of_SomeD [of r i] by fastforce

lemma set_dict_put: "dict_ok c \<Longrightarrow> set (AList.update k v c) = insert (k, v) {p \<in> set c. fst p \<noteq> k}"
  by (rule set_dict_set)

lemma keyed_ids: "\<forall>(i, s)\<in>set r. su_id s = i \<Longrightarrow> map su_id (map snd r) = dict_keys r"
  by (induction r) auto

lemma sort_key_ids: "distinct (map f xs) \<Longrightarrow> distinct (map f (sort_key k xs))"
  by (simp add: distinct_map)

lemma distinct_map_filter_ids: "distinct (map f xs) \<Longrightarrow> distinct (map f (filter P xs))"
  by (simp add: distinct_map inj_on_def)

interpretation mrepo: listed_repo mr_get mr_put mr_put dict_keys "\<lambda>s. True" mr_ok mr_list mr_count mr_listed
proof (unfold_locales, goal_cases)
  case (1 s b)
  show ?case by simp
next
  case (2 i r)
  then show ?case by (simp add: mr_get_def map_of_eq_None_iff)
next
  case (3 r i)
  then show ?case using dict_get [of r i] by (fastforce simp: mr_ok_def mr_get_def)
next
  case (4 r s)
  then show ?case by (auto simp: mr_ok_def mr_put_def mr_get_def update_conv' set_dict_put)
next
  case (5 r s)
  then show ?case by (auto simp: mr_ok_def mr_put_def mr_get_def update_conv' set_dict_put)
next
  case (6 r limit offset act)
  then show ?case by (simp add: mr_list_def repo_list_def mr_listed_def py_slice_page)
next
  case (7 r act)
  have "set (mr_listed act r) = {s \<in> snd ` set r. act \<longrightarrow> su_active s}"
    by (auto simp: mr_listed_def repo_filtered_def Let_def)
  moreover have "s \<in> snd ` set r \<longleftrightarrow> (\<exists>i\<in>set (dict_keys r). map_of r i = Some s)" for s
    using 7 map_of_mem_dict [of r] by (force simp: mr_ok_def image_iff)
  ultimately show ?case by (auto simp: mr_get_def)
next
  case (8 r act)
  then have "distinct (map su_id (map snd r))" using keyed_ids [of r] by (simp add: mr_ok_def dict_ok_def del: map_map)
  then show ?case
    by (simp add: mr_listed_def repo_filtered_def Let_def sort_key_ids distinct_map_filter_ids del: map_map)
next
  case (9 r act)
  then show ?case by (simp add: mr_count_def repo_count_def mr_listed_def)
qed

text \<open>
  The SQL repository keeps rows that fit and read back; its limits are those of the query. The float
  literals are fixed for the interpretation.
\<close>

definition row_ok :: "(rat \<Rightarrow> string) \<Rightarrow> (string \<Rightarrow> rat) \<Rightarrow> (category \<Rightarrow> bool) \<Rightarrow> string \<Rightarrow> sub_row \<Rightarrow> bool" where
  "row_ok rat_text text_rat known i row \<longleftrightarrow>
     (\<exists>s. su_id s = i \<and> sub_fits rat_text text_rat known s \<and> row = sub_to_row rat_text s)"

definition qr_ok :: "(rat \<Rightarrow> string) \<Rightarrow> (string \<Rightarrow> rat) \<Rightarrow> (category \<Rightarrow> bool) \<Rightarrow> sub_table \<Rightarrow> bool" where
  "qr_ok rat_text text_rat known t \<longleftrightarrow> dict_ok t \<and> (\<forall>(i, row)\<in>set t. row_ok rat_text text_rat known i row)"

definition row_sub :: "(string \<Rightarrow> rat) \<Rightarrow> (category \<Rightarrow> bool) \<Rightarrow> sub_row \<Rightarrow> sink_sub" where
  "row_sub text_rat known row = projr (sub_of_row text_rat known row)"

definition qr_listed :: "(string \<Rightarrow> rat) \<Rightarrow> (category \<Rightarrow> bool) \<Rightarrow> bool \<Rightarrow> sub_table \<Rightarrow> sink_sub list" where
  "qr_listed text_rat known act t = map (row_sub text_rat known) (qr_rows act t)"

lemma canon_to_row: "sub_to_row rat_text (canon_sub s) = (sub_to_row rat_text s)\<lparr>sr_event_types := remdups (sort (map et_value (su_event_types s)))\<rparr>"
  by (simp add: sub_to_row_def canon_sub_def values_of_canon sort_remdups)

lemma row_ok_reads: "row_ok rat_text text_rat known i row
     \<Longrightarrow> sub_of_row text_rat known row = Inr (row_sub text_rat known row)
       \<and> su_id (row_sub text_rat known row) = i \<and> su_active (row_sub text_rat known row) = sr_active row
       \<and> sub_fits rat_text text_rat known (row_sub text_rat known row)"
  by (auto simp: row_ok_def row_sub_def sub_fits_def sub_roundtrip canon_to_row row_fits_def)
    (simp_all add: sub_to_row_def)

lemma qr_ok_row: "qr_ok rat_text text_rat known t \<Longrightarrow> (i, row) \<in> set t \<Longrightarrow> row_ok rat_text text_rat known i row"
  by (auto simp: qr_ok_def)

lemma qr_get_row:
  "qr_ok rat_text text_rat known t \<Longrightarrow> (i, row) \<in> set t \<Longrightarrow> qr_get text_rat known t i = Inr (Some (row_sub text_rat known row))"
  using row_ok_reads [OF qr_ok_row] map_of_mem_dict [of t i row]
  by (simp add: qr_get_def qr_ok_def)

lemma read_rows_all:
  "\<forall>row\<in>set rows. \<exists>i. row_ok rat_text text_rat known i row \<Longrightarrow> read_rows text_rat known rows = Inr (map (row_sub text_rat known) rows)"
  using row_ok_reads by (induction rows) fastforce+

lemma fresh_row: "sub_fits rat_text text_rat known s \<Longrightarrow> row_ok rat_text text_rat known (su_id s) (sub_to_row rat_text s)"
  by (auto simp: row_ok_def)

lemma fresh_row_sub: "sub_fits rat_text text_rat known s \<Longrightarrow> row_sub text_rat known (sub_to_row rat_text s) = canon_sub s"
  by (simp add: row_sub_def sub_fits_def sub_roundtrip)

lemma qr_get_absent: "i \<notin> set (dict_keys t) \<Longrightarrow> qr_get text_rat known t i = Inr None"
  by (simp add: qr_get_def map_of_eq_None_iff [symmetric])

lemma qr_get_other: "map_of t' i = map_of t i \<Longrightarrow> qr_get text_rat known t' i = qr_get text_rat known t i"
  by (simp add: qr_get_def)

lemma qr_rows_mem: "row \<in> set (qr_rows act t) \<Longrightarrow> \<exists>i. (i, row) \<in> set t"
  by (auto simp: qr_rows_def)

lemma qr_rows_keyed:
  "\<exists>ps. qr_rows act t = map snd ps \<and> distinct (map fst ps) = distinct (map fst (filter (\<lambda>(i, r). act \<longrightarrow> sr_active r) t))
      \<and> set ps = {(i, r) \<in> set t. act \<longrightarrow> sr_active r}"
proof -
  let ?f = "\<lambda>r. created_key (sr_created_at r)" and ?X = "filter (\<lambda>(i, r). act \<longrightarrow> sr_active r) t"
  have ins: "map snd (insort_key (f \<circ> snd) x ys) = insort_key f (snd x) (map snd ys)"
    for f :: "sub_row \<Rightarrow> int" and x and ys :: "(string \<times> sub_row) list"
    by (induction ys) auto
  have sorted_snd: "map snd (sort_key (f \<circ> snd) xs) = sort_key f (map snd xs)"
    for f :: "sub_row \<Rightarrow> int" and xs :: "(string \<times> sub_row) list"
    by (induction xs) (simp_all add: ins [unfolded comp_def] comp_def)
  have "filter (\<lambda>r. act \<longrightarrow> sr_active r) (map snd t) = map snd ?X" by (induction t) auto
  then have "qr_rows act t = map snd (sort_key (?f \<circ> snd) ?X)" by (simp only: qr_rows_def sorted_snd)
  moreover have "distinct (map fst (sort_key (?f \<circ> snd) ?X)) = distinct (map fst ?X)"
    by (simp add: distinct_map)
  ultimately show ?thesis by (intro exI [of _ "sort_key (?f \<circ> snd) ?X"]) auto
qed

interpretation qrepo: listed_repo "qr_get text_rat known" "qr_add rat_text" "qr_replace rat_text" dict_keys
  "sub_fits rat_text text_rat known" "qr_ok rat_text text_rat known" "qr_list text_rat known" qr_count
  "qr_listed text_rat known"
  for rat_text text_rat known
proof (unfold_locales, goal_cases)
  case (1 s b)
  then show ?case by (simp add: sub_fits_def row_fits_def sub_to_row_def)
next
  case (2 i r)
  then show ?case by (rule qr_get_absent)
next
  case (3 r i)
  then obtain row where "(i, row) \<in> set r" by auto
  with 3 qr_get_row [of rat_text text_rat known r i row] qr_ok_row row_ok_reads show ?case by metis
next
  case (4 r s)
  have add: "qr_add rat_text s r = (Inr (), r @ [(su_id s, sub_to_row rat_text s)])"
    using 4 by (simp add: qr_add_def Let_def sub_fits_def)
  have ok: "qr_ok rat_text text_rat known (r @ [(su_id s, sub_to_row rat_text s)])"
    using 4 fresh_row [of rat_text text_rat known s] by (auto simp: qr_ok_def dict_ok_def)
  have "qr_get text_rat known (r @ [(su_id s, sub_to_row rat_text s)]) j = qr_get text_rat known r j" if "j \<noteq> su_id s" for j
    using that by (intro qr_get_other) (simp add: map_add_def split: option.split)
  with add ok qr_get_row [OF ok, of "su_id s" "sub_to_row rat_text s"] fresh_row_sub [OF 4(2)] show ?case
    by (auto simp: canon_sub_idem)
next
  case (5 r s)
  let ?t = "AList.update (su_id s) (sub_to_row rat_text s) r"
  have ok: "qr_ok rat_text text_rat known ?t"
    using 5 fresh_row [of rat_text text_rat known s] by (auto simp: qr_ok_def set_dict_put)
  have mem: "(su_id s, sub_to_row rat_text s) \<in> set ?t" using 5 by (simp add: qr_ok_def set_dict_put)
  have "qr_get text_rat known ?t j = qr_get text_rat known r j" if "j \<noteq> su_id s" for j
    using that by (intro qr_get_other) (simp add: update_conv')
  moreover have "qr_replace rat_text s r = (Inr (), ?t)" using 5 by (simp add: qr_replace_def Let_def sub_fits_def)
  ultimately show ?case using ok qr_get_row [OF ok mem] fresh_row_sub [OF 5(2)]
    by (auto simp: canon_sub_idem)
next
  case (6 r limit offset act)
  have "\<forall>row\<in>set (take limit (drop offset (qr_rows act r))). \<exists>i. row_ok rat_text text_rat known i row"
    using qr_rows_mem qr_ok_row [OF 6] by (metis in_set_dropD in_set_takeD)
  from read_rows_all [OF this] show ?case by (simp add: qr_list_def qr_listed_def take_map drop_map)
next
  case (7 r act)
  show ?case
  proof (intro equalityI subsetI)
    fix s assume "s \<in> set (qr_listed text_rat known act r)"
    then obtain i row where "s = row_sub text_rat known row" "(i, row) \<in> set r" "act \<longrightarrow> sr_active row"
      by (auto simp: qr_listed_def qr_rows_def)
    with qr_get_row [OF 7] row_ok_reads [OF qr_ok_row [OF 7]]
    show "s \<in> {s. \<exists>i\<in>set (dict_keys r). qr_get text_rat known r i = Inr (Some s) \<and> (act \<longrightarrow> su_active s)}" by force
  next
    fix s assume "s \<in> {s. \<exists>i\<in>set (dict_keys r). qr_get text_rat known r i = Inr (Some s) \<and> (act \<longrightarrow> su_active s)}"
    then obtain i row where r: "(i, row) \<in> set r" "qr_get text_rat known r i = Inr (Some s)" "act \<longrightarrow> su_active s" by auto
    with qr_get_row [OF 7 r(1)] row_ok_reads [OF qr_ok_row [OF 7 r(1)]]
    have "s = row_sub text_rat known row" "act \<longrightarrow> sr_active row" by auto
    moreover have "row \<in> snd ` set r" using r(1) by force
    ultimately have "s = row_sub text_rat known row" "row \<in> set (qr_rows act r)" by (simp_all add: qr_rows_def)
    then show "s \<in> set (qr_listed text_rat known act r)" by (simp add: qr_listed_def)
  qed
next
  case (8 r act)
  obtain ps where ps: "qr_rows act r = map snd ps" "distinct (map fst ps)" "set ps \<subseteq> set r"
  proof -
    from qr_rows_keyed [of act r] obtain ps where ps: "qr_rows act r = map snd ps"
      "distinct (map fst ps) = distinct (map fst (filter (\<lambda>(i, r). act \<longrightarrow> sr_active r) r))"
      "set ps = {(i, r') \<in> set r. act \<longrightarrow> sr_active r'}" by blast
    with 8 distinct_map_filter_ids [of fst r] show thesis by (intro that [of ps]) (auto simp: qr_ok_def dict_ok_def)
  qed
  have "map su_id (qr_listed text_rat known act r) = map fst ps"
    using ps(3) row_ok_reads [OF qr_ok_row [OF 8]] by (auto simp: qr_listed_def ps(1))
  with ps(2) show ?case by simp
next
  case (9 r act)
  then show ?case by (simp add: qr_count_def qr_listed_def qr_rows_def)
qed

end
