(* ===== verification/Web_Security.thy ===== *)
theory Web_Security
  imports Web_Errors Hashing
begin

text \<open>
  Keys of the web layer (\<open>web/shared/security.py\<close>, and \<open>require_admin\<close> of \<open>web/shared/deps.py\<close>): the
  comparison of encoded texts, the admin key, the stored hash of a stream token, and where a key is read
  from. Header values are texts; an absent header is None.
\<close>

definition ct_equal :: "string \<Rightarrow> string \<Rightarrow> bool" where
  "ct_equal a b = compare_digest (utf8 a) (utf8 b)"

definition verify_admin_key :: "string option \<Rightarrow> string \<Rightarrow> unit web_result" where
  "verify_admin_key presented expected =
     (if expected = [] then Inl (Web (Unauthorized ''admin key not configured''))
      else (case presented of
              None \<Rightarrow> Inl (Web (Unauthorized ''invalid admin key''))
            | Some p \<Rightarrow> if p = [] \<or> \<not> ct_equal p expected then Inl (Web (Unauthorized ''invalid admin key''))
                        else Inr ()))"

definition hash_stream_token :: "string \<Rightarrow> string" where
  "hash_stream_token token = sha256_hex token"

definition verify_stream_token :: "string option \<Rightarrow> string \<Rightarrow> unit web_result" where
  "verify_stream_token presented expected_hash =
     (case presented of
        None \<Rightarrow> Inl (Web (Unauthorized ''invalid stream token''))
      | Some p \<Rightarrow> if p = [] \<or> \<not> ct_equal (hash_stream_token p) expected_hash
                  then Inl (Web (Unauthorized ''invalid stream token'')) else Inr ())"

definition extract_bearer :: "string option \<Rightarrow> string option \<Rightarrow> string option" where
  "extract_bearer authorization x_api_key =
     (case x_api_key of
        Some (c # cs) \<Rightarrow> Some (c # cs)
      | _ \<Rightarrow> (case authorization of
                None \<Rightarrow> None
              | Some a \<Rightarrow> if starts_with (py_lower a) ''bearer '' then Some (py_strip (drop 7 a)) else None))"

definition require_admin :: "string \<Rightarrow> string option \<Rightarrow> string option \<Rightarrow> unit web_result" where
  "require_admin admin_key authorization x_api_key = verify_admin_key (extract_bearer authorization x_api_key) admin_key"

subsection \<open>Facts\<close>

lemma byte_of_nat_eq: "m < 256 \<Longrightarrow> n < 256 \<Longrightarrow> (of_nat m :: 8 word) = of_nat n \<longleftrightarrow> m = n"
  by (auto simp: word_of_nat_eq_iff take_bit_eq_mod)

lemma char_of_code_eq: "code c = code d \<longleftrightarrow> c = d"
  by (simp add: of_char_eq_iff)

text \<open>UTF-8 is a prefix code: equal encodings are equal texts.\<close>

lemma utf8_char_bytes:
  "utf8_char c = map of_nat (if code c < 128 then [code c] else [192 + code c div 64, 128 + code c mod 64])"
  by (simp add: utf8_char_def)

lemma utf8_char_bounds: "192 + code c div 64 < 256" "128 + code c mod 64 < 256"
proof -
  show "192 + code c div 64 < 256"
    using less_mult_imp_div_less [of "code c" 4 64] nat_of_char_less_256 [of c] by simp
  show "128 + code c mod 64 < 256"
    using mod_less_divisor [of 64 "code c"] by simp
qed

lemma code_split_eq:
  assumes "code c div 64 = code d div 64" "code c mod 64 = code d mod 64"
  shows "c = d"
proof -
  have "code c = code d"
    using assms div_mult_mod_eq [of "code c" 64] div_mult_mod_eq [of "code d" 64] by linarith
  then show ?thesis by simp
qed

lemmas utf8_char_prefix_simps = utf8_char_bytes if_True if_False list.map append.simps list.inject byte_of_nat_eq

lemma utf8_char_prefix: "utf8_char c @ s = utf8_char d @ t \<longleftrightarrow> c = d \<and> s = t"
proof (cases "code c < 128")
  case c: True
  show ?thesis
  proof (cases "code d < 128")
    case True
    with c show ?thesis by (simp only: utf8_char_prefix_simps) (simp add: byte_of_nat_eq)
  next
    case False
    with c have "utf8_char c @ s = utf8_char d @ t \<longleftrightarrow> code c = 192 + code d div 64 \<and> s = of_nat (128 + code d mod 64) # t"
      using utf8_char_bounds [of d] by (simp only: utf8_char_prefix_simps)
    with c False show ?thesis by auto
  qed
next
  case c: False
  show ?thesis
  proof (cases "code d < 128")
    case True
    with c have "utf8_char c @ s = utf8_char d @ t \<longleftrightarrow> 192 + code c div 64 = code d \<and> of_nat (128 + code c mod 64) # s = t"
      using utf8_char_bounds [of c] by (simp only: utf8_char_prefix_simps)
    with c True show ?thesis by auto
  next
    case False
    with c have "utf8_char c @ s = utf8_char d @ t \<longleftrightarrow>
        192 + code c div 64 = 192 + code d div 64 \<and> 128 + code c mod 64 = 128 + code d mod 64 \<and> s = t"
      using utf8_char_bounds [of c] utf8_char_bounds [of d] by (simp only: utf8_char_prefix_simps)
    with code_split_eq [of c d] show ?thesis by auto
  qed
qed

lemma utf8_inj: "utf8 a = utf8 b \<longleftrightarrow> a = b"
proof (induction a arbitrary: b)
  case Nil
  show ?case by (cases b) (auto simp: utf8_def utf8_char_def)
next
  case (Cons c a)
  show ?case
  proof (cases b)
    case Nil
    then show ?thesis by (simp add: utf8_def utf8_char_def)
  next
    case (Cons d b')
    then show ?thesis using Cons.IH [of b'] utf8_char_prefix [of c "utf8 a" d "utf8 b'"]
      by (simp add: utf8_def)
  qed
qed

lemma ct_equal_iff: "ct_equal a b \<longleftrightarrow> a = b"
  by (simp add: ct_equal_def compare_digest_def utf8_inj)

lemma verify_admin_key_iff: "verify_admin_key presented expected = Inr () \<longleftrightarrow> expected \<noteq> [] \<and> presented = Some expected"
  by (auto simp: verify_admin_key_def ct_equal_iff split: option.splits)

lemma verify_stream_token_iff:
  "verify_stream_token presented h = Inr () \<longleftrightarrow> (\<exists>p. presented = Some p \<and> p \<noteq> [] \<and> hash_stream_token p = h)"
  by (auto simp: verify_stream_token_def ct_equal_iff split: option.splits)

lemma verify_error: "verify_admin_key p k = Inl e \<Longrightarrow> \<exists>r. e = Web (Unauthorized r)"
  "verify_stream_token p h = Inl e \<Longrightarrow> \<exists>r. e = Web (Unauthorized r)"
  by (auto simp: verify_admin_key_def verify_stream_token_def split: option.splits if_splits)

text \<open>A request is let through the admin gate exactly when the configured key is not empty and it
  presents that key itself: in the API-key header, or, when that header is absent or empty, after the
  bearer scheme of the authorization header. Every other request gets a typed 401.\<close>

theorem admin_gate_exact:
  "(require_admin key authorization api_key = Inr ()
      \<longleftrightarrow> key \<noteq> [] \<and> (api_key = Some key
          \<or> (api_key = None \<or> api_key = Some [])
             \<and> (\<exists>a. authorization = Some a \<and> starts_with (py_lower a) ''bearer '' \<and> py_strip (drop 7 a) = key)))
   \<and> (require_admin key authorization api_key = Inr ()
      \<or> (\<exists>r. require_admin key authorization api_key = Inl (Web (Unauthorized r))
             \<and> fst (error_response rid (Web (Unauthorized r))) = 401))"
proof -
  have "require_admin key authorization api_key = Inr ()
      \<longleftrightarrow> key \<noteq> [] \<and> extract_bearer authorization api_key = Some key"
    by (simp add: require_admin_def verify_admin_key_iff)
  moreover have "extract_bearer authorization api_key = Some key \<and> key \<noteq> []
      \<longleftrightarrow> key \<noteq> [] \<and> (api_key = Some key
          \<or> (api_key = None \<or> api_key = Some [])
             \<and> (\<exists>a. authorization = Some a \<and> starts_with (py_lower a) ''bearer '' \<and> py_strip (drop 7 a) = key))"
    by (auto simp: extract_bearer_def split: option.splits list.splits)
  moreover have "require_admin key authorization api_key = Inr ()
      \<or> (\<exists>r. require_admin key authorization api_key = Inl (Web (Unauthorized r)))"
    using verify_error(1) [of "extract_bearer authorization api_key" key]
    by (cases "require_admin key authorization api_key") (auto simp: require_admin_def)
  ultimately show ?thesis by auto
qed

end
