(* ===== verification/Subscription_Admin.thy ===== *)
theory Subscription_Admin
  imports Subscriptions Web_Security
begin

text \<open>
  The admin service of subscriptions (\<open>web/services/subscriptions.py\<close>): registration, listing, update and
  deactivation over a repository and a cursor store. Its reads without effect come first (a plan), the
  effects follow in the code's order. The clock, the fresh id and the fresh secret are arguments, as are the
  resolver of host names and the test for an account alias (None when no account store is wired).
\<close>

record ('r, 'c) admin_ops =
  ao_get :: "'r \<Rightarrow> string \<Rightarrow> sink_sub option result"
  ao_add :: "sink_sub \<Rightarrow> 'r \<Rightarrow> unit result \<times> 'r"
  ao_replace :: "sink_sub \<Rightarrow> 'r \<Rightarrow> unit result \<times> 'r"
  ao_list :: "nat \<Rightarrow> nat \<Rightarrow> bool \<Rightarrow> 'r \<Rightarrow> sink_sub list result"
  ao_count :: "bool \<Rightarrow> 'r \<Rightarrow> int"
  ao_cursor :: "'c \<Rightarrow> string \<Rightarrow> cursor_state"
  ao_commit :: "string \<Rightarrow> int \<Rightarrow> int \<Rightarrow> 'c \<Rightarrow> unit result \<times> 'c"
  ao_delete :: "string \<Rightarrow> 'c \<Rightarrow> 'c"

record ('r, 'c) admin_state =
  as_repo :: 'r
  as_cursors :: 'c

record sub_create =
  cr_transport :: transport_kind
  cr_endpoint :: string
  cr_event_types :: "string list"
  cr_ctx :: "sub_ctx option"
  cr_scope :: sub_scope
  cr_backfill :: bool

record sub_update =
  up_subscription_id :: string
  up_event_types :: "string list option"
  up_scope :: "sub_scope option"
  up_active :: "bool option"

record register_result =
  rr_subscription :: sink_sub
  rr_secret :: "string option"
  rr_stream_token :: "string option"

definition option_list :: "'a option \<Rightarrow> 'a list" where
  "option_list x = (case x of None \<Rightarrow> [] | Some a \<Rightarrow> [a])"

text \<open>The message of a refused endpoint; \<open>ip_text\<close> is the text of an address.\<close>

fun reason_text :: "(ip_addr \<Rightarrow> string) \<Rightarrow> unsafe_reason \<Rightarrow> string" where
  "reason_text ip_text (BadScheme s) = ''scheme must be https, got '' @ py_repr_str s"
| "reason_text ip_text MissingHostname = ''missing hostname''"
| "reason_text ip_text (BlockedRange a) = ''blocked IP range: '' @ ip_text a"
| "reason_text ip_text (DnsFailed m) = ''DNS resolution failed: '' @ m"
| "reason_text ip_text (ResolvedBlocked a) = ''resolved to blocked IP range: '' @ ip_text a"

definition resolve_scope :: "(string \<Rightarrow> bool result) option \<Rightarrow> sub_scope \<Rightarrow> event_type list \<Rightarrow> sub_scope web_result" where
  "resolve_scope alias_exists scope types =
     (let bad = unsupported_event_types scope types in
      if bad \<noteq> [] then Inl (Web (SubscriptionScopeMismatch (scope_kind scope) (sort (map et_value bad))))
      else (case scope of
              AccountScope a \<Rightarrow>
                (case alias_exists of
                   None \<Rightarrow> Inl (Web (AliasNotFound a))
                 | Some ex \<Rightarrow> bind_web (lift_result (ex a)) (\<lambda>found.
                                if found then Inr scope else Inl (Web (AliasNotFound a))))
            | _ \<Rightarrow> Inr scope))"

definition resolve_ctx :: "transport_kind \<Rightarrow> sub_ctx option \<Rightarrow> sub_ctx web_result" where
  "resolve_ctx tr ctx =
     (case ctx of
        None \<Rightarrow> Inr (default_ctx_for tr)
      | Some c \<Rightarrow> if ctx_kind c \<noteq> transport_value tr then Inl (Web (SubscriptionCtxMismatch (transport_value tr) (ctx_kind c)))
                  else Inr c)"

text \<open>The secret of a webhook or the token of a stream, from one fresh text.\<close>

definition mint_secrets ::
  "(ip_addr \<Rightarrow> string) \<Rightarrow> (string \<Rightarrow> resolution) \<Rightarrow> transport_kind \<Rightarrow> string \<Rightarrow> string
     \<Rightarrow> (string option \<times> string option) web_result" where
  "mint_secrets ip_text resolve tr endpoint fresh =
     (case tr of
        WEBHOOK \<Rightarrow>
          (case assert_safe_webhook_url resolve endpoint of
             Unsafe r \<Rightarrow> Inl (Web (UnsafeWebhookEndpoint endpoint (reason_text ip_text r)))
           | GuardRaised x \<Rightarrow> Inl (Unhandled x)
           | Safe \<Rightarrow> Inr (Some fresh, None))
      | POLLING \<Rightarrow> Inr (None, None)
      | _ \<Rightarrow> Inr (None, Some fresh))"

definition register_plan ::
  "(ip_addr \<Rightarrow> string) \<Rightarrow> (string \<Rightarrow> resolution) \<Rightarrow> (string \<Rightarrow> bool result) option \<Rightarrow> datetime \<Rightarrow> string \<Rightarrow> string
     \<Rightarrow> sub_create \<Rightarrow> register_result web_result" where
  "register_plan ip_text resolve alias_exists now fresh_id fresh spec =
     bind_web (parse_event_types (cr_event_types spec)) (\<lambda>types.
     bind_web (resolve_scope alias_exists (cr_scope spec) types) (\<lambda>scope.
     bind_web (resolve_ctx (cr_transport spec) (cr_ctx spec)) (\<lambda>ctx.
     bind_web (mint_secrets ip_text resolve (cr_transport spec) (cr_endpoint spec) fresh) (\<lambda>(secret, token).
       Inr \<lparr>rr_subscription =
              \<lparr>su_id = fresh_id, su_transport = cr_transport spec, su_endpoint = cr_endpoint spec,
               su_event_types = types, su_created_at = now, su_ctx = ctx, su_scope = scope, su_secret = secret,
               su_token_hash = map_option hash_stream_token token, su_active = True\<rparr>,
            rr_secret = secret, rr_stream_token = token\<rparr>))))"

text \<open>The cursor of a webhook or polling subscription is put at the log's head first.\<close>

definition seed_cursor :: "('r, 'c) admin_ops \<Rightarrow> int \<Rightarrow> sub_create \<Rightarrow> sink_sub \<Rightarrow> 'c \<Rightarrow> unit result \<times> 'c" where
  "seed_cursor ao head spec sub c =
     (if cr_transport spec \<in> {WEBHOOK, POLLING} \<and> \<not> cr_backfill spec \<and> 0 < head
      then ao_commit ao (sink_consumer_name sub) head (version (ao_cursor ao c (sink_consumer_name sub))) c
      else (Inr (), c))"

definition register_sub ::
  "('r, 'c) admin_ops \<Rightarrow> int \<Rightarrow> sub_create \<Rightarrow> register_result web_result
     \<Rightarrow> ('r, 'c) admin_state \<Rightarrow> register_result web_result \<times> ('r, 'c) admin_state" where
  "register_sub ao head spec plan st =
     (case plan of
        Inl e \<Rightarrow> (Inl e, st)
      | Inr rr \<Rightarrow>
          (case seed_cursor ao head spec (rr_subscription rr) (as_cursors st) of
             (Inl x, c) \<Rightarrow> (Inl (Unhandled x), st\<lparr>as_cursors := c\<rparr>)
           | (Inr _, c) \<Rightarrow>
               (case ao_add ao (rr_subscription rr) (as_repo st) of
                  (Inl x, r) \<Rightarrow> (Inl (Unhandled x), st\<lparr>as_cursors := c, as_repo := r\<rparr>)
                | (Inr _, r) \<Rightarrow> (Inr rr, st\<lparr>as_cursors := c, as_repo := r\<rparr>))))"

definition get_sub :: "('r, 'c) admin_ops \<Rightarrow> string \<Rightarrow> ('r, 'c) admin_state \<Rightarrow> sink_sub web_result" where
  "get_sub ao i st =
     bind_web (lift_result (ao_get ao (as_repo st) i)) (\<lambda>s.
       case s of None \<Rightarrow> Inl (Web (SubscriptionNotFound i)) | Some sub \<Rightarrow> Inr sub)"

definition list_subs ::
  "('r, 'c) admin_ops \<Rightarrow> nat \<Rightarrow> nat \<Rightarrow> bool \<Rightarrow> ('r, 'c) admin_state \<Rightarrow> (sink_sub list \<times> int) web_result" where
  "list_subs ao limit offset active_only st =
     bind_web (lift_result (ao_list ao limit offset active_only (as_repo st))) (\<lambda>rows.
       Inr (rows, ao_count ao active_only (as_repo st)))"

definition update_plan :: "(string \<Rightarrow> bool result) option \<Rightarrow> sub_update \<Rightarrow> sink_sub \<Rightarrow> sink_sub web_result" where
  "update_plan alias_exists spec current =
     bind_web (case up_event_types spec of None \<Rightarrow> Inr (su_event_types current) | Some ns \<Rightarrow> parse_event_types ns) (\<lambda>types.
     bind_web (case up_scope spec of None \<Rightarrow> Inr (su_scope current) | Some sc \<Rightarrow> resolve_scope alias_exists sc types) (\<lambda>scope.
       Inr (current\<lparr>su_event_types := types, su_scope := scope,
                    su_active := (case up_active spec of None \<Rightarrow> su_active current | Some b \<Rightarrow> b)\<rparr>)))"

definition put_sub :: "('r, 'c) admin_ops \<Rightarrow> sink_sub \<Rightarrow> ('r, 'c) admin_state \<Rightarrow> sink_sub web_result \<times> ('r, 'c) admin_state" where
  "put_sub ao sub st =
     (case ao_replace ao sub (as_repo st) of
        (Inl x, r) \<Rightarrow> (Inl (Unhandled x), st\<lparr>as_repo := r\<rparr>)
      | (Inr _, r) \<Rightarrow> (Inr sub, st\<lparr>as_repo := r\<rparr>))"

definition update_sub ::
  "('r, 'c) admin_ops \<Rightarrow> (string \<Rightarrow> bool result) option \<Rightarrow> sub_update
     \<Rightarrow> ('r, 'c) admin_state \<Rightarrow> sink_sub web_result \<times> ('r, 'c) admin_state" where
  "update_sub ao alias_exists spec st =
     (case bind_web (get_sub ao (up_subscription_id spec) st) (update_plan alias_exists spec) of
        Inl e \<Rightarrow> (Inl e, st)
      | Inr updated \<Rightarrow> put_sub ao updated st)"

definition deactivate_sub ::
  "('r, 'c) admin_ops \<Rightarrow> string \<Rightarrow> ('r, 'c) admin_state \<Rightarrow> unit web_result \<times> ('r, 'c) admin_state" where
  "deactivate_sub ao i st =
     (case get_sub ao i st of
        Inl e \<Rightarrow> (Inl e, st)
      | Inr sub \<Rightarrow>
          (case put_sub ao (sub\<lparr>su_active := False\<rparr>) st of
             (Inl e, st') \<Rightarrow> (Inl e, st')
           | (Inr _, st') \<Rightarrow> (Inr (), st'\<lparr>as_cursors := ao_delete ao (sink_consumer_name sub) (as_cursors st')\<rparr>)))"

subsection \<open>The routes\<close>

text \<open>
  The thin handlers (\<open>web/routes/subscriptions.py\<close>) behind the admin key, with the response records
  (\<open>web/schemas/dtos.py\<close>, \<open>web/schemas/envelopes.py\<close>). The environment of a request holds what the
  handler takes from outside the stores.
\<close>

record web_env =
  env_admin_key :: string
  env_ip_text :: "ip_addr \<Rightarrow> string"
  env_resolve :: "string \<Rightarrow> resolution"
  env_alias_exists :: "(string \<Rightarrow> bool result) option"
  env_now :: datetime
  env_fresh_id :: string
  env_fresh :: string
  env_head :: int

record subscription_out =
  so_subscription_id :: string
  so_transport :: transport_kind
  so_endpoint :: string
  so_event_types :: "string list"
  so_scope :: sub_scope
  so_ctx :: sub_ctx
  so_active :: bool
  so_created_at :: datetime
  so_secret :: "string option"
  so_stream_token :: "string option"

definition sub_out :: "sink_sub \<Rightarrow> string option \<Rightarrow> string option \<Rightarrow> subscription_out" where
  "sub_out s secret stream_token =
     \<lparr>so_subscription_id = su_id s, so_transport = su_transport s, so_endpoint = su_endpoint s,
      so_event_types = sort (map et_value (su_event_types s)), so_scope = su_scope s, so_ctx = su_ctx s,
      so_active = su_active s, so_created_at = su_created_at s, so_secret = secret, so_stream_token = stream_token\<rparr>"

datatype sub_request =
    CreateSub sub_create
  | ListSubs nat nat bool
  | GetSub string
  | UpdateSub sub_update
  | DeactivateSub string
  | TestSub string

datatype sub_response =
    SubData subscription_out
  | SubPage "subscription_out list" int nat nat
  | SubOk
  | SubTest bool string

definition sub_test_result :: "sink_sub \<Rightarrow> sub_response" where
  "sub_test_result s =
     SubTest True (transport_value (su_transport s) @ '' active='' @ (if su_active s then ''True'' else ''False''))"

definition map_web :: "('a \<Rightarrow> 'b) \<Rightarrow> 'a web_result \<times> 's \<Rightarrow> 'b web_result \<times> 's" where
  "map_web f r = (bind_web (fst r) (\<lambda>x. Inr (f x)), snd r)"

fun handle_sub ::
  "('r, 'c) admin_ops \<Rightarrow> web_env \<Rightarrow> sub_request \<Rightarrow> ('r, 'c) admin_state
     \<Rightarrow> sub_response web_result \<times> ('r, 'c) admin_state" where
  "handle_sub ao env (CreateSub spec) st =
     map_web (\<lambda>rr. SubData (sub_out (rr_subscription rr) (rr_secret rr) (rr_stream_token rr)))
       (register_sub ao (env_head env) spec
          (register_plan (env_ip_text env) (env_resolve env) (env_alias_exists env) (env_now env) (env_fresh_id env)
             (env_fresh env) spec) st)"
| "handle_sub ao env (ListSubs limit offset active_only) st =
     map_web (\<lambda>(rows, total). SubPage (map (\<lambda>s. sub_out s None None) rows) total limit offset)
       (list_subs ao limit offset active_only st, st)"
| "handle_sub ao env (GetSub i) st = map_web (\<lambda>s. SubData (sub_out s None None)) (get_sub ao i st, st)"
| "handle_sub ao env (UpdateSub spec) st =
     map_web (\<lambda>s. SubData (sub_out s None None)) (update_sub ao (env_alias_exists env) spec st)"
| "handle_sub ao env (DeactivateSub i) st = map_web (\<lambda>u. SubOk) (deactivate_sub ao i st)"
| "handle_sub ao env (TestSub i) st = map_web sub_test_result (get_sub ao i st, st)"

definition sub_route ::
  "('r, 'c) admin_ops \<Rightarrow> web_env \<Rightarrow> string option \<Rightarrow> string option \<Rightarrow> sub_request \<Rightarrow> ('r, 'c) admin_state
     \<Rightarrow> sub_response web_result \<times> ('r, 'c) admin_state" where
  "sub_route ao env authorization api_key req st =
     (case require_admin (env_admin_key env) authorization api_key of
        Inl e \<Rightarrow> (Inl e, st)
      | Inr _ \<Rightarrow> handle_sub ao env req st)"

text \<open>The secrets a response shows: only the creation of a subscription has any.\<close>

fun shown_secrets :: "sub_response \<Rightarrow> string list" where
  "shown_secrets (SubData s) = option_list (so_secret s) @ option_list (so_stream_token s)"
| "shown_secrets (SubPage ss t l n) = concat (map (\<lambda>s. option_list (so_secret s) @ option_list (so_stream_token s)) ss)"
| "shown_secrets r = []"

lemma secrets_only_on_create:
  "fst (handle_sub ao env req st) = Inr resp \<Longrightarrow> shown_secrets resp \<noteq> [] \<Longrightarrow> \<exists>spec. req = CreateSub spec"
  by (cases req) (auto simp: map_web_def bind_web_Inr_iff sub_out_def option_list_def sub_test_result_def)

text \<open>The test route reports a delivery whatever the subscription's state, and makes none.\<close>

lemma test_route_delivers_nothing:
  "get_sub ao i st = Inr s \<Longrightarrow> \<exists>d. handle_sub ao env (TestSub i) st = (Inr (SubTest True d), st)"
  by (simp add: map_web_def sub_test_result_def)

subsection \<open>The plan\<close>

lemma resolve_scope_ok: "resolve_scope ex sc types = Inr sc' \<Longrightarrow> sc' = sc \<and> unsupported_event_types sc types = []"
  by (auto simp: resolve_scope_def Let_def bind_web_Inr_iff split: if_splits sub_scope.splits option.splits)

lemma resolve_scope_supported: "resolve_scope ex sc types = Inr sc' \<Longrightarrow> unsupported_event_types sc' types = []"
  using resolve_scope_ok by blast

lemma resolve_ctx_kind: "resolve_ctx tr c = Inr ctx \<Longrightarrow> ctx_kind ctx = transport_value tr"
  by (cases tr) (auto simp: resolve_ctx_def split: option.splits if_splits)

lemma mint_secrets_webhook:
  "mint_secrets ip_text resolve WEBHOOK endpoint fresh = Inr (s, t)
     \<Longrightarrow> assert_safe_webhook_url resolve endpoint = Safe \<and> s = Some fresh \<and> t = None"
  by (auto simp: mint_secrets_def split: guard.splits)

lemma register_plan_facts:
  assumes "register_plan ip_text resolve alias_exists now fresh_id fresh spec = Inr rr"
  shows "su_id (rr_subscription rr) = fresh_id" "su_active (rr_subscription rr)"
    "su_transport (rr_subscription rr) = cr_transport spec" "su_endpoint (rr_subscription rr) = cr_endpoint spec"
    "unsupported_event_types (su_scope (rr_subscription rr)) (su_event_types (rr_subscription rr)) = []"
    "ctx_kind (su_ctx (rr_subscription rr)) = transport_value (cr_transport spec)"
    "cr_transport spec = WEBHOOK \<Longrightarrow> assert_safe_webhook_url resolve (cr_endpoint spec) = Safe \<and> su_secret (rr_subscription rr) = Some fresh"
  using assms by (auto simp: register_plan_def bind_web_Inr_iff
      dest: resolve_scope_supported resolve_ctx_kind mint_secrets_webhook)

subsection \<open>Over any stores\<close>

locale admin_stores =
  listed_repo get add replace ids fits repo_ok list_page count listed +
  cursor_store get_cursor commit_cursor delete_cursor watermark cursor_names cursors_ok
  for get :: "'r \<Rightarrow> string \<Rightarrow> sink_sub option result"
    and add :: "sink_sub \<Rightarrow> 'r \<Rightarrow> unit result \<times> 'r"
    and replace :: "sink_sub \<Rightarrow> 'r \<Rightarrow> unit result \<times> 'r"
    and ids fits repo_ok list_page count listed
    and get_cursor :: "'c \<Rightarrow> string \<Rightarrow> cursor_state"
    and commit_cursor :: "string \<Rightarrow> int \<Rightarrow> int \<Rightarrow> 'c \<Rightarrow> unit result \<times> 'c"
    and delete_cursor :: "string \<Rightarrow> 'c \<Rightarrow> 'c"
    and watermark cursor_names cursors_ok
begin

definition aops :: "('r, 'c) admin_ops" where
  "aops = \<lparr>ao_get = get, ao_add = add, ao_replace = replace, ao_list = list_page, ao_count = count,
           ao_cursor = get_cursor, ao_commit = commit_cursor, ao_delete = delete_cursor\<rparr>"

lemma aops_simps [simp]:
  "ao_get aops = get" "ao_add aops = add" "ao_replace aops = replace" "ao_list aops = list_page" "ao_count aops = count"
  "ao_cursor aops = get_cursor" "ao_commit aops = commit_cursor" "ao_delete aops = delete_cursor"
  by (simp_all add: aops_def)

definition admin_ok :: "('r, 'c) admin_state \<Rightarrow> bool" where
  "admin_ok st \<longleftrightarrow> repo_ok (as_repo st) \<and> cursors_ok (as_cursors st)"

lemma seed_effect:
  assumes "cursors_ok c" "sink_consumer_name sub \<notin> set (cursor_names c)"
  shows "\<exists>c'. seed_cursor aops head spec sub c = (Inr (), c') \<and> cursors_ok c'
      \<and> get_cursor c' (sink_consumer_name sub)
          = (if cr_transport spec \<in> {WEBHOOK, POLLING} \<and> \<not> cr_backfill spec \<and> 0 < head
             then \<lparr>last_seq = head, version = 1\<rparr> else cursor0)
      \<and> (\<forall>n. n \<noteq> sink_consumer_name sub \<longrightarrow> get_cursor c' n = get_cursor c n)
      \<and> set (cursor_names c') \<subseteq> insert (sink_consumer_name sub) (set (cursor_names c))"
proof (cases "cr_transport spec \<in> {WEBHOOK, POLLING} \<and> \<not> cr_backfill spec \<and> 0 < head")
  case True
  have "version (get_cursor c (sink_consumer_name sub)) = 0"
    using absent_cursor [OF assms(2)] by (simp add: cursor0_def)
  from commit_matching [OF assms(1) this, of head] True this show ?thesis
    by (auto simp: seed_cursor_def)
next
  case False
  then show ?thesis using assms absent_cursor [OF assms(2)] by (auto simp: seed_cursor_def)
qed

lemma register_effect:
  assumes ok: "admin_ok st" and plan: "plan = Inr rr" and fits: "fits (rr_subscription rr)"
    and fresh: "su_id (rr_subscription rr) \<notin> set (ids (as_repo st))"
      "sink_consumer_name (rr_subscription rr) \<notin> set (cursor_names (as_cursors st))"
  shows "\<exists>st' sub. register_sub aops head spec plan st = (Inr rr, st') \<and> admin_ok st'
      \<and> get_sub aops (su_id (rr_subscription rr)) st' = Inr sub \<and> canon_sub sub = canon_sub (rr_subscription rr)
      \<and> get_cursor (as_cursors st') (sink_consumer_name (rr_subscription rr))
          = (if cr_transport spec \<in> {WEBHOOK, POLLING} \<and> \<not> cr_backfill spec \<and> 0 < head
             then \<lparr>last_seq = head, version = 1\<rparr> else cursor0)
      \<and> (\<forall>i. i \<noteq> su_id (rr_subscription rr) \<longrightarrow> get_sub aops i st' = get_sub aops i st)
      \<and> (\<forall>n. n \<noteq> sink_consumer_name (rr_subscription rr) \<longrightarrow> get_cursor (as_cursors st') n = get_cursor (as_cursors st) n)"
proof -
  obtain c where c: "seed_cursor aops head spec (rr_subscription rr) (as_cursors st) = (Inr (), c)" "cursors_ok c"
    "get_cursor c (sink_consumer_name (rr_subscription rr))
       = (if cr_transport spec \<in> {WEBHOOK, POLLING} \<and> \<not> cr_backfill spec \<and> 0 < head
          then \<lparr>last_seq = head, version = 1\<rparr> else cursor0)"
    "\<forall>n. n \<noteq> sink_consumer_name (rr_subscription rr) \<longrightarrow> get_cursor c n = get_cursor (as_cursors st) n"
    using seed_effect [of "as_cursors st" "rr_subscription rr" head spec] ok fresh(2) by (auto simp: admin_ok_def)
  obtain r t where r: "add (rr_subscription rr) (as_repo st) = (Inr (), r)" "repo_ok r"
    "get r (su_id (rr_subscription rr)) = Inr (Some t)" "canon_sub t = canon_sub (rr_subscription rr)"
    "\<forall>j. j \<noteq> su_id (rr_subscription rr) \<longrightarrow> get r j = get (as_repo st) j"
    using add_new [of "as_repo st" "rr_subscription rr"] ok fits fresh(1) by (auto simp: admin_ok_def)
  show ?thesis
    using c r plan by (intro exI [of _ "st\<lparr>as_cursors := c, as_repo := r\<rparr>"] exI [of _ t])
      (simp add: register_sub_def admin_ok_def get_sub_def lift_result_def)
qed

lemma put_effect:
  assumes "admin_ok st" "fits sub"
  shows "\<exists>st' t. put_sub aops sub st = (Inr sub, st') \<and> admin_ok st' \<and> get_sub aops (su_id sub) st' = Inr t
      \<and> canon_sub t = canon_sub sub \<and> as_cursors st' = as_cursors st
      \<and> (\<forall>i. i \<noteq> su_id sub \<longrightarrow> get_sub aops i st' = get_sub aops i st)"
proof -
  obtain r t where "replace sub (as_repo st) = (Inr (), r)" "repo_ok r" "get r (su_id sub) = Inr (Some t)"
    "canon_sub t = canon_sub sub" "\<forall>j. j \<noteq> su_id sub \<longrightarrow> get r j = get (as_repo st) j"
    using replace_effect [of "as_repo st" sub] assms by (auto simp: admin_ok_def)
  then show ?thesis using assms(1)
    by (intro exI [of _ "st\<lparr>as_repo := r\<rparr>"] exI [of _ t]) (simp add: put_sub_def admin_ok_def get_sub_def lift_result_def)
qed

lemma get_sub_id: "admin_ok st \<Longrightarrow> get_sub aops i st = Inr sub \<Longrightarrow> su_id sub = i \<and> fits sub"
  using get_present [of "as_repo st" i] get_absent [of i "as_repo st"]
  by (cases "i \<in> set (ids (as_repo st))") (auto simp: admin_ok_def get_sub_def lift_result_def)

lemma deactivate_effect:
  assumes ok: "admin_ok st" and sub: "get_sub aops i st = Inr sub"
  shows "\<exists>st' t. deactivate_sub aops i st = (Inr (), st') \<and> admin_ok st' \<and> get_sub aops i st' = Inr t
      \<and> canon_sub t = canon_sub (sub\<lparr>su_active := False\<rparr>)
      \<and> get_cursor (as_cursors st') (sink_consumer_name sub) = cursor0
      \<and> set (cursor_names (as_cursors st')) = set (cursor_names (as_cursors st)) - {sink_consumer_name sub}
      \<and> (\<forall>n. n \<noteq> sink_consumer_name sub \<longrightarrow> get_cursor (as_cursors st') n = get_cursor (as_cursors st) n)
      \<and> (\<forall>j. j \<noteq> i \<longrightarrow> get_sub aops j st' = get_sub aops j st)"
proof -
  note id = get_sub_id [OF ok sub]
  obtain st1 t where st1: "put_sub aops (sub\<lparr>su_active := False\<rparr>) st = (Inr (sub\<lparr>su_active := False\<rparr>), st1)" "admin_ok st1"
    "get_sub aops i st1 = Inr t" "canon_sub t = canon_sub (sub\<lparr>su_active := False\<rparr>)" "as_cursors st1 = as_cursors st"
    "\<forall>j. j \<noteq> i \<longrightarrow> get_sub aops j st1 = get_sub aops j st"
    using put_effect [OF ok, of "sub\<lparr>su_active := False\<rparr>"] id fits_active [of sub False] by auto
  let ?st' = "st1\<lparr>as_cursors := delete_cursor (sink_consumer_name sub) (as_cursors st1)\<rparr>"
  have "get_sub aops j ?st' = get_sub aops j st1" for j by (simp add: get_sub_def)
  with st1 sub ok show ?thesis
    by (intro exI [of _ ?st'] exI [of _ t]) (auto simp: deactivate_sub_def admin_ok_def delete_effect)
qed

lemma activity_effect:
  assumes ok: "admin_ok st" and sub: "get_sub aops i st = Inr sub"
  shows "\<exists>st' t. update_sub aops ex \<lparr>up_subscription_id = i, up_event_types = None, up_scope = None, up_active = Some b\<rparr> st
        = (Inr (sub\<lparr>su_active := b\<rparr>), st') \<and> admin_ok st' \<and> get_sub aops i st' = Inr t
      \<and> canon_sub t = canon_sub (sub\<lparr>su_active := b\<rparr>) \<and> as_cursors st' = as_cursors st
      \<and> (\<forall>j. j \<noteq> i \<longrightarrow> get_sub aops j st' = get_sub aops j st)"
  using put_effect [OF ok, of "sub\<lparr>su_active := b\<rparr>"] get_sub_id [OF ok sub] fits_active [of sub b] sub
  by (auto simp: update_sub_def update_plan_def)

end

subsection \<open>Over the SQL stores\<close>

definition sql_admin_ops ::
  "(rat \<Rightarrow> string) \<Rightarrow> (string \<Rightarrow> rat) \<Rightarrow> (category \<Rightarrow> bool) \<Rightarrow> (sub_table, cursor_table) admin_ops" where
  "sql_admin_ops rat_text text_rat known =
     \<lparr>ao_get = qr_get text_rat known, ao_add = qr_add rat_text, ao_replace = qr_replace rat_text,
      ao_list = qr_list text_rat known, ao_count = qr_count, ao_cursor = sc_get, ao_commit = sc_commit, ao_delete = sc_delete\<rparr>"

interpretation sadm: admin_stores "qr_get text_rat known" "qr_add rat_text" "qr_replace rat_text" dict_keys
  "sub_fits rat_text text_rat known" "qr_ok rat_text text_rat known" "qr_list text_rat known" qr_count
  "qr_listed text_rat known" sc_get sc_commit sc_delete sc_watermark dict_keys sc_ok
  for rat_text text_rat known
  by (intro admin_stores.intro qrepo.listed_repo_axioms scur.cursor_store_axioms)

lemma sql_admin_ops_eq: "sadm.aops text_rat known rat_text = sql_admin_ops rat_text text_rat known"
  by (simp add: sadm.aops_def sql_admin_ops_def)

definition sql_admin_ok :: "(rat \<Rightarrow> string) \<Rightarrow> (string \<Rightarrow> rat) \<Rightarrow> (category \<Rightarrow> bool) \<Rightarrow> (sub_table, cursor_table) admin_state \<Rightarrow> bool" where
  "sql_admin_ok rat_text text_rat known st \<longleftrightarrow> qr_ok rat_text text_rat known (as_repo st) \<and> sc_ok (as_cursors st)"

lemma sql_admin_ok_eq: "sadm.admin_ok rat_text text_rat known st = sql_admin_ok rat_text text_rat known st"
  by (simp add: sadm.admin_ok_def sql_admin_ok_def)

definition example_create :: sub_create where
  "example_create = \<lparr>cr_transport = POLLING, cr_endpoint = ''client'', cr_event_types = [''new_lot''], cr_ctx = Some SseCtx,
     cr_scope = CategoryScope ''steam'', cr_backfill = False\<rparr>"

definition example_now :: datetime where
  "example_now = \<lparr>dt_year = 2024, dt_month = 5, dt_day = 17, dt_hour = 12, dt_minute = 0, dt_second = 0, dt_micro = 0,
     utc_offset = Some 0\<rparr>"

definition example_plan :: "sub_create \<Rightarrow> register_result web_result" where
  "example_plan spec = register_plan (\<lambda>a. ''ip'') (\<lambda>h. Resolved []) None example_now ''s1'' ''tok'' spec"

lemmas sql_admin_facts = sql_admin_ops_eq sql_admin_ok_eq

lemma example_admin_init_ok: "sql_admin_ok (\<lambda>d. ''0.0'') (\<lambda>t. 0) (\<lambda>c. True) \<lparr>as_repo = [], as_cursors = []\<rparr>"
  by (simp add: sql_admin_ok_def qr_ok_def dict_ok_def sc_ok_def)

text \<open>C18: A successful registration stores exactly the planned subscription, readable under its id. Its cursor
  is at the head of the log with version 1 for a webhook or polling subscription without backfill over a
  log that is not empty, so nothing older is delivered, and untouched otherwise; every other subscription
  and cursor stays.\<close>

theorem register_starts_at_head:
  assumes "sql_admin_ok rat_text text_rat known st"
    and "register_plan ip_text resolve alias_exists now fresh_id fresh spec = Inr rr"
    and "sub_fits rat_text text_rat known (rr_subscription rr)"
    and "fresh_id \<notin> set (dict_keys (as_repo st))" "''sink:'' @ fresh_id \<notin> set (dict_keys (as_cursors st))"
  shows "\<exists>st' sub. register_sub (sql_admin_ops rat_text text_rat known) head spec
          (register_plan ip_text resolve alias_exists now fresh_id fresh spec) st = (Inr rr, st')
      \<and> sql_admin_ok rat_text text_rat known st'
      \<and> get_sub (sql_admin_ops rat_text text_rat known) fresh_id st' = Inr sub \<and> canon_sub sub = canon_sub (rr_subscription rr)
      \<and> su_active sub \<and> unsupported_event_types (su_scope (rr_subscription rr)) (su_event_types (rr_subscription rr)) = []
      \<and> sc_get (as_cursors st') (''sink:'' @ fresh_id)
          = (if cr_transport spec \<in> {WEBHOOK, POLLING} \<and> \<not> cr_backfill spec \<and> 0 < head
             then \<lparr>last_seq = head, version = 1\<rparr> else cursor0)
      \<and> (\<forall>i. i \<noteq> fresh_id \<longrightarrow> get_sub (sql_admin_ops rat_text text_rat known) i st'
            = get_sub (sql_admin_ops rat_text text_rat known) i st)
      \<and> (\<forall>n. n \<noteq> ''sink:'' @ fresh_id \<longrightarrow> sc_get (as_cursors st') n = sc_get (as_cursors st) n)"
proof -
  note p = register_plan_facts [OF assms(2)]
  have "su_active sub" if "canon_sub sub = canon_sub (rr_subscription rr)" for sub
    using that p(2) canon_sub_fields(2) by metis
  with sadm.register_effect [of rat_text text_rat known st _ rr head spec, unfolded sql_admin_facts, OF assms(1) assms(2) assms(3)]
    assms(4,5) p(1,5)
  show ?thesis by (fastforce simp: sink_consumer_name_def)
qed

theorem register_starts_at_head_witness:
  "\<exists>rr st'. register_sub (sql_admin_ops (\<lambda>d. ''0.0'') (\<lambda>t. 0) (\<lambda>c. True)) 7 (example_create\<lparr>cr_ctx := None\<rparr>)
       (example_plan (example_create\<lparr>cr_ctx := None\<rparr>)) \<lparr>as_repo = [], as_cursors = []\<rparr> = (Inr rr, st')
     \<and> sc_get (as_cursors st') ''sink:s1'' = \<lparr>last_seq = 7, version = 1\<rparr>"
proof -
  let ?spec = "example_create\<lparr>cr_ctx := None\<rparr>"
  obtain rr where rr: "example_plan ?spec = Inr rr" "sub_fits (\<lambda>d. ''0.0'') (\<lambda>t. 0) (\<lambda>c. True) (rr_subscription rr)"
  proof (rule that)
    show "example_plan ?spec = Inr (projr (example_plan ?spec))" by code_simp
    show "sub_fits (\<lambda>d. ''0.0'') (\<lambda>t. 0) (\<lambda>c. True) (rr_subscription (projr (example_plan ?spec)))" by code_simp
  qed
  from register_starts_at_head [OF example_admin_init_ok rr(1) [unfolded example_plan_def] rr(2), of 7] show ?thesis
    by (auto simp: example_plan_def example_create_def)
qed

text \<open>The cursor is committed before the subscription is added. When the database refuses the row (an
  endpoint longer than its column), the registration fails, but its cursor row stays: no operation on
  that id finds a subscription, deactivation included, so nothing removes the row, and the retention
  watermark stays at or below the head of that moment.\<close>

theorem failed_register_pins_watermark:
  assumes "sql_admin_ok rat_text text_rat known st"
    and "register_plan ip_text resolve alias_exists now fresh_id fresh spec = Inr rr"
    and "\<not> row_fits (sub_to_row rat_text (rr_subscription rr))"
    and "fresh_id \<notin> set (dict_keys (as_repo st))" "''sink:'' @ fresh_id \<notin> set (dict_keys (as_cursors st))"
    and "cr_transport spec \<in> {WEBHOOK, POLLING}" "\<not> cr_backfill spec" "0 < head"
  shows "\<exists>st' w. register_sub (sql_admin_ops rat_text text_rat known) head spec
          (register_plan ip_text resolve alias_exists now fresh_id fresh spec) st = (Inl (Unhandled (StoreError ''DataError'')), st')
      \<and> as_repo st' = as_repo st \<and> ''sink:'' @ fresh_id \<in> set (dict_keys (as_cursors st'))
      \<and> deactivate_sub (sql_admin_ops rat_text text_rat known) fresh_id st' = (Inl (Web (SubscriptionNotFound fresh_id)), st')
      \<and> sc_watermark (as_cursors st') = Some w \<and> w \<le> head"
proof -
  have name: "sink_consumer_name (rr_subscription rr) = ''sink:'' @ fresh_id"
    using register_plan_facts(1) [OF assms(2)] by (simp add: sink_consumer_name_def)
  have c: "sc_ok (as_cursors st)" using assms(1) by (simp add: sql_admin_ok_def)
  have v: "version (sc_get (as_cursors st) (''sink:'' @ fresh_id)) = 0"
    using scur.absent_cursor [OF assms(5)] by (simp add: cursor0_def)
  from scur.commit_matching [OF c v, of head] obtain c' where c':
    "sc_commit (''sink:'' @ fresh_id) head 0 (as_cursors st) = (Inr (), c')" "sc_ok c'"
    "sc_get c' (''sink:'' @ fresh_id) = \<lparr>last_seq = head, version = 1\<rparr>" "''sink:'' @ fresh_id \<in> set (dict_keys c')"
    by auto
  from scur.watermark_min [OF c'(2)] c'(4) obtain w where w: "sc_watermark c' = Some w" by (cases c') auto
  moreover have "w \<le> head" using scur.watermark_below [OF c'(2) w c'(4)] c'(3) by simp
  moreover have "qr_get text_rat known (as_repo st) fresh_id = Inr None" by (rule qrepo.get_absent [OF assms(4)])
  ultimately show ?thesis using assms(2,3,6-8) c' v name
    by (intro exI [of _ "st\<lparr>as_cursors := c'\<rparr>"] exI [of _ w])
      (auto simp: register_sub_def seed_cursor_def sql_admin_ops_def qr_add_def Let_def deactivate_sub_def get_sub_def lift_result_def)
qed

theorem failed_register_pins_watermark_witness:
  "\<exists>rr st' w. example_plan (example_create\<lparr>cr_ctx := None, cr_endpoint := replicate 1025 CHR ''e''\<rparr>) = Inr rr
     \<and> ''sink:s1'' \<in> set (dict_keys (as_cursors (st' :: (sub_table, cursor_table) admin_state))) \<and> as_repo st' = []
     \<and> sc_watermark (as_cursors st') = Some w \<and> w \<le> 7"
proof -
  let ?spec = "example_create\<lparr>cr_ctx := None, cr_endpoint := replicate 1025 CHR ''e''\<rparr>"
  obtain rr where rr: "example_plan ?spec = Inr rr" "\<not> row_fits (sub_to_row (\<lambda>d. ''0.0'') (rr_subscription rr))"
  proof (rule that)
    show p: "example_plan ?spec = Inr (projr (example_plan ?spec))"
      by (simp add: example_plan_def register_plan_def example_create_def resolve_scope_def unsupported_event_types_def
          resolve_ctx_def mint_secrets_def parse_et_value) code_simp
    then show "\<not> row_fits (sub_to_row (\<lambda>d. ''0.0'') (rr_subscription (projr (example_plan ?spec))))"
      using register_plan_facts(4) [OF p [unfolded example_plan_def]]
      by (simp add: row_fits_def sub_to_row_def example_plan_def)
  qed
  let ?st = "\<lparr>as_repo = [], as_cursors = []\<rparr> :: (sub_table, cursor_table) admin_state"
  have side: "''s1'' \<notin> set (dict_keys (as_repo ?st))" "''sink:'' @ ''s1'' \<notin> set (dict_keys (as_cursors ?st))"
    "cr_transport ?spec \<in> {WEBHOOK, POLLING}" "\<not> cr_backfill ?spec" "(0 :: int) < 7"
    by (simp_all add: example_create_def)
  from failed_register_pins_watermark [OF example_admin_init_ok rr(1) [unfolded example_plan_def] rr(2) side]
  obtain st' :: "(sub_table, cursor_table) admin_state" and w where "as_repo st' = as_repo ?st" "''sink:'' @ ''s1'' \<in> set (dict_keys (as_cursors st'))"
    "sc_watermark (as_cursors st') = Some w" "w \<le> 7" by blast
  with rr(1) show ?thesis by (intro exI [of _ rr] exI [of _ st'] exI [of _ w]) simp
qed

text \<open>Pausing keeps the position and deleting forgets it. An update to inactive leaves the cursor where it
  is, still counted in the watermark. Deactivation removes it, so an update back to active leaves an active
  subscription at position zero: its next read starts with the oldest event the log retains, the backlog
  registration is written to skip.\<close>

theorem reactivation_replays_log:
  assumes "sql_admin_ok rat_text text_rat known st"
    and "get_sub (sql_admin_ops rat_text text_rat known) i st = Inr sub"
  shows "\<exists>off gone resumed su. deactivate_sub (sql_admin_ops rat_text text_rat known) i st = (Inr (), gone)
      \<and> update_sub (sql_admin_ops rat_text text_rat known) ex
           \<lparr>up_subscription_id = i, up_event_types = None, up_scope = None, up_active = Some True\<rparr> gone = (Inr su, resumed)
      \<and> su_active su \<and> su_id su = i \<and> sql_admin_ok rat_text text_rat known resumed
      \<and> sc_get (as_cursors resumed) (sink_consumer_name su) = cursor0
      \<and> snd (update_sub (sql_admin_ops rat_text text_rat known) ex
           \<lparr>up_subscription_id = i, up_event_types = None, up_scope = None, up_active = Some False\<rparr> st) = off
      \<and> as_cursors off = as_cursors st"
proof -
  note ops = sadm.activity_effect [unfolded sql_admin_facts]
  obtain gone t where gone: "deactivate_sub (sql_admin_ops rat_text text_rat known) i st = (Inr (), gone)"
    "sql_admin_ok rat_text text_rat known gone" "get_sub (sql_admin_ops rat_text text_rat known) i gone = Inr t"
    "canon_sub t = canon_sub (sub\<lparr>su_active := False\<rparr>)" "sc_get (as_cursors gone) (sink_consumer_name sub) = cursor0"
    using sadm.deactivate_effect [unfolded sql_admin_facts, OF assms] by blast
  obtain resumed where resumed: "update_sub (sql_admin_ops rat_text text_rat known) ex
      \<lparr>up_subscription_id = i, up_event_types = None, up_scope = None, up_active = Some True\<rparr> gone
        = (Inr (t\<lparr>su_active := True\<rparr>), resumed)" "sql_admin_ok rat_text text_rat known resumed" "as_cursors resumed = as_cursors gone"
    using ops [OF gone(2,3)] by blast
  obtain off where "update_sub (sql_admin_ops rat_text text_rat known) ex
      \<lparr>up_subscription_id = i, up_event_types = None, up_scope = None, up_active = Some False\<rparr> st
        = (Inr (sub\<lparr>su_active := False\<rparr>), off)" "as_cursors off = as_cursors st"
    using ops [OF assms] by blast
  moreover have "su_id t = i" "su_id sub = i"
    using sadm.get_sub_id [unfolded sql_admin_facts] gone(2,3) assms by blast+
  ultimately show ?thesis using gone resumed
    by (intro exI [of _ off] exI [of _ gone] exI [of _ resumed] exI [of _ "t\<lparr>su_active := True\<rparr>"])
      (simp add: sink_consumer_name_def)
qed

definition example_admin :: "(sub_table, cursor_table) admin_state" where
  "example_admin = snd (register_sub (sql_admin_ops (\<lambda>d. ''0.0'') (\<lambda>t. 0) (\<lambda>c. True)) 7 (example_create\<lparr>cr_ctx := None\<rparr>)
     (example_plan (example_create\<lparr>cr_ctx := None\<rparr>)) \<lparr>as_repo = [], as_cursors = []\<rparr>)"

lemma example_admin_ok: "sql_admin_ok (\<lambda>d. ''0.0'') (\<lambda>t. 0) (\<lambda>c. True) example_admin"
  and example_admin_sub: "\<exists>sub. get_sub (sql_admin_ops (\<lambda>d. ''0.0'') (\<lambda>t. 0) (\<lambda>c. True)) ''s1'' example_admin = Inr sub"
proof -
  let ?spec = "example_create\<lparr>cr_ctx := None\<rparr>" and ?rr = "projr (example_plan (example_create\<lparr>cr_ctx := None\<rparr>))"
  have rr: "example_plan ?spec = Inr ?rr" "su_id (rr_subscription ?rr) = ''s1''" by code_simp+
  moreover have "sub_fits (\<lambda>d. ''0.0'') (\<lambda>t. 0) (\<lambda>c. True) (rr_subscription ?rr)" by code_simp
  ultimately obtain st' sub where "register_sub (sql_admin_ops (\<lambda>d. ''0.0'') (\<lambda>t. 0) (\<lambda>c. True)) 7 ?spec (example_plan ?spec)
      \<lparr>as_repo = [], as_cursors = []\<rparr> = (Inr ?rr, st')" "sql_admin_ok (\<lambda>d. ''0.0'') (\<lambda>t. 0) (\<lambda>c. True) st'"
    "get_sub (sql_admin_ops (\<lambda>d. ''0.0'') (\<lambda>t. 0) (\<lambda>c. True)) ''s1'' st' = Inr sub"
    using sadm.register_effect [of "\<lambda>d. ''0.0''" "\<lambda>t. 0" "\<lambda>c. True" "\<lparr>as_repo = [], as_cursors = []\<rparr>"
        "example_plan ?spec" ?rr 7 ?spec, unfolded sql_admin_facts, OF example_admin_init_ok rr(1)] by auto
  then show "sql_admin_ok (\<lambda>d. ''0.0'') (\<lambda>t. 0) (\<lambda>c. True) example_admin"
    "\<exists>sub. get_sub (sql_admin_ops (\<lambda>d. ''0.0'') (\<lambda>t. 0) (\<lambda>c. True)) ''s1'' example_admin = Inr sub"
    by (auto simp: example_admin_def)
qed

theorem reactivation_replays_log_witness:
  "\<exists>su resumed. update_sub (sql_admin_ops (\<lambda>d. ''0.0'') (\<lambda>t. 0) (\<lambda>c. True)) None
       \<lparr>up_subscription_id = ''s1'', up_event_types = None, up_scope = None, up_active = Some True\<rparr>
       (snd (deactivate_sub (sql_admin_ops (\<lambda>d. ''0.0'') (\<lambda>t. 0) (\<lambda>c. True)) ''s1'' example_admin)) = (Inr su, resumed)
     \<and> sc_get (as_cursors resumed) (sink_consumer_name su) = cursor0"
proof -
  obtain sub where "get_sub (sql_admin_ops (\<lambda>d. ''0.0'') (\<lambda>t. 0) (\<lambda>c. True)) ''s1'' example_admin = Inr sub"
    using example_admin_sub by blast
  from reactivation_replays_log [OF example_admin_ok this, of None] show ?thesis by auto
qed

text \<open>An update of the types alone is not checked against the scope the subscription has.\<close>

lemma types_change_unchecked:
  "up_event_types spec = Some ns \<Longrightarrow> up_scope spec = None \<Longrightarrow> parse_event_types ns = Inr ts
     \<Longrightarrow> \<exists>sub. update_plan ex spec cur = Inr sub \<and> su_scope sub = su_scope cur \<and> su_event_types sub = ts"
  by (simp add: update_plan_def)

end
