(* ===== verification/Delivery.thy ===== *)
theory Delivery
  imports Catch_Up_Bus Webhook_Engine Subscriptions Engine_Config
begin

text \<open>
  Webhook delivery (\<open>delivery/dispatcher.py\<close>, \<open>delivery/sink.py\<close>, \<open>delivery/delivery.py\<close>,
  \<open>delivery/errors.py\<close>): the active webhook subscriptions read page by page, one sink per subscription
  kept by the delivery library, each rendered as a consumer of a bus that handles an event once and parks
  it. The world of the handlers is the list of deliveries made; the network is a function of it. The text
  of an exception is an argument.
\<close>

type_synonym signature = "string \<times> string option \<times> string list \<times> (string \<times> string) list \<times> bool"

type_synonym delivery_log = "(string \<times> domain_event \<times> (delivery_error + unit)) list"

text \<open>What guard and transport answer at each attempt of the next delivery.\<close>

type_synonym network =
  "delivery_log \<Rightarrow> (nat \<Rightarrow> string \<Rightarrow> resolution) \<times> (nat \<Rightarrow> string \<Rightarrow> byte list \<Rightarrow> (string \<times> string) list \<Rightarrow> post_outcome)"

definition lib_config :: "engine_config \<Rightarrow> webhook_engine_config" where
  "lib_config cfg = default_webhook_config
     \<lparr>we_max_attempts := wc_max_attempts (webhook_view cfg), we_backoff_base := wc_backoff_base (webhook_view cfg),
      we_backoff_max := wc_backoff_max (webhook_view cfg), we_timeout := wc_timeout (webhook_view cfg)\<rparr>"

subsection \<open>The sink as a consumer\<close>

definition sink_signature :: "sink_sub \<Rightarrow> signature" where
  "sink_signature s =
     (su_endpoint s, su_secret s, map et_value (canon_types (su_event_types s)), sort_key fst (to_filters (su_scope s)), su_active s)"

text \<open>The library's error under the subscription's id.\<close>

fun wrap_error :: "sink_sub \<Rightarrow> delivery_error \<Rightarrow> delivery_error" where
  "wrap_error s (DeliveryFailed i endpoint reason) = DeliveryFailed (su_id s) endpoint reason"
| "wrap_error s (DeliveryRaised x) = DeliveryRaised x"

definition sink_handle ::
  "webhook_engine_config \<Rightarrow> network \<Rightarrow> (delivery_error \<Rightarrow> string) \<Rightarrow> sink_sub \<Rightarrow> webhook_sink \<Rightarrow> delivery_log handler" where
  "sink_handle cfg net exn_repr s k e w =
     (let r = fst (Webhook_Engine.deliver cfg (fst (net w)) (snd (net w)) k (uuid_str (event_id e)) (et_value (ev_type e))
                     (canonical_bytes (event_envelope e)))
      in (case r of Inr _ \<Rightarrow> None | Inl err \<Rightarrow> Some (exn_repr (wrap_error s err)), w @ [(su_id s, e, r)]))"

definition sink_consumer ::
  "webhook_engine_config \<Rightarrow> network \<Rightarrow> (delivery_error \<Rightarrow> string) \<Rightarrow> sink_sub \<Rightarrow> webhook_sink \<Rightarrow> delivery_log consumer" where
  "sink_consumer cfg net exn_repr s k =
     \<lparr>con_name = sink_consumer_name s,
      con_subs = [\<lparr>sub_types = su_event_types s, sub_filters = to_filters (su_scope s), sub_class = None\<rparr>],
      con_handle = sink_handle cfg net exn_repr s k\<rparr>"

subsection \<open>The dispatcher\<close>

text \<open>The pages of active subscriptions; a page shorter than asked for ends the loop.\<close>

partial_function (option) active_webhooks ::
  "(nat \<Rightarrow> nat \<Rightarrow> bool \<Rightarrow> 'r \<Rightarrow> sink_sub list result) \<Rightarrow> nat \<Rightarrow> nat \<Rightarrow> sink_sub list \<Rightarrow> 'r \<Rightarrow> sink_sub list result option" where
  "active_webhooks list_page page offset out r =
     (case list_page page offset True r of
        Inl x \<Rightarrow> Some (Inl x)
      | Inr rows \<Rightarrow>
          let out' = out @ filter (\<lambda>s. su_transport s = WEBHOOK) rows in
          if length rows < page then Some (Inr out') else active_webhooks list_page page (offset + page) out' r)"

definition sub_target :: "sink_sub \<Rightarrow> signature webhook_target" where
  "sub_target s = \<lparr>wt_sink_id = su_id s, wt_endpoint = su_endpoint s, wt_secret = su_secret s, wt_signature = sink_signature s\<rparr>"

text \<open>
  \<open>consumers\<close>: the subscriptions are kept by id while the library reconciles, then each of its sinks is
  wrapped with its subscription.
\<close>

definition delivery_consumers ::
  "(nat \<Rightarrow> nat \<Rightarrow> bool \<Rightarrow> 'r \<Rightarrow> sink_sub list result) \<Rightarrow> engine_config \<Rightarrow> network \<Rightarrow> (delivery_error \<Rightarrow> string)
     \<Rightarrow> 'r \<Rightarrow> signature sink_cache \<Rightarrow> (delivery_log consumer list result \<times> signature sink_cache) option" where
  "delivery_consumers list_page cfg net exn_repr r cache =
     (case active_webhooks list_page (nat (wc_max_subscriptions (webhook_view cfg))) 0 [] r of
        None \<Rightarrow> None
      | Some (Inl x) \<Rightarrow> Some (Inl x, cache)
      | Some (Inr subs) \<Rightarrow>
          (case reconcile_sinks (map sub_target subs) cache of
             (sinks, cache') \<Rightarrow>
               Some (case those (map (\<lambda>(i, k). map_option (\<lambda>s. sink_consumer (lib_config cfg) net exn_repr s k)
                                (map_of (rev (map (\<lambda>s. (su_id s, s)) subs)) i)) sinks) of
                       None \<Rightarrow> Inl KeyError | Some cons \<Rightarrow> Inr cons, cache')))"

text \<open>The bus of the deliveries: one attempt, since the sink has its own.\<close>

definition delivery_bus_config :: bus_config where
  "delivery_bus_config = default_bus_config\<lparr>bc_max_attempts := 1\<rparr>"

subsection \<open>Facts about the dispatcher\<close>

lemma active_webhooks_all:
  assumes "\<And>limit offset. list_page limit offset True r = Inr (take limit (drop offset xs))" "0 < page"
  shows "active_webhooks list_page page offset out r = Some (Inr (out @ filter (\<lambda>s. su_transport s = WEBHOOK) (drop offset xs)))"
proof (induction "length xs - offset" arbitrary: offset out rule: less_induct)
  case less
  show ?case
  proof (cases "length (take page (drop offset xs)) < page")
    case True
    then show ?thesis by (subst active_webhooks.simps) (simp add: assms(1) min_def split: if_splits)
  next
    case False
    then have "length xs - (offset + page) < length xs - offset" using assms(2) by auto
    from less [OF this] have "active_webhooks list_page page (offset + page) out' r
        = Some (Inr (out' @ filter (\<lambda>s. su_transport s = WEBHOOK) (drop (offset + page) xs)))" for out' .
    moreover have "filter P (take page (drop offset xs)) @ filter P (drop (offset + page) xs) = filter P (drop offset xs)" for P
      by (metis append_take_drop_id drop_drop filter_append add.commute)
    ultimately show ?thesis using False
      by (subst active_webhooks.simps) (simp only: assms(1) sum.case Let_def if_False append.assoc)
  qed
qed

lemma active_webhooks_zero:
  assumes "\<And>offset. list_page 0 offset True r = Inr []"
  shows "active_webhooks list_page 0 offset out r = None"
proof -
  have never: "lp = list_page \<longrightarrow> n = 0 \<longrightarrow> r' = r \<longrightarrow> False" if "active_webhooks lp n off o' r' = Some y" for lp n off o' r' y
    using that
  proof (rule active_webhooks.raw_induct [where P = "\<lambda>lp n off o' r' y. lp = list_page \<longrightarrow> n = 0 \<longrightarrow> r' = r \<longrightarrow> False", rotated],
      goal_cases)
    case (1 f lp n off o' r' y)
    then show ?case using assms 1(1) [of list_page 0 off o' r y] by (auto simp: Let_def)
  qed
  then show ?thesis using never [of list_page 0 offset out r] by (cases "active_webhooks list_page 0 offset out r") auto
qed

lemma sub_target_ok: "list_all (target_ok (\<lambda>g. (fst g, fst (snd g)))) (map sub_target subs)"
  by (simp add: list_all_iff target_ok_def sub_target_def sink_signature_def)

lemma reconcile_targets_list:
  assumes "cache_ok f cache" "list_all (target_ok f) ts" "distinct (map wt_sink_id ts)"
    "set (map wt_sink_id ts) \<inter> set (dict_keys out) = {}"
  shows "fst (reconcile_targets ts cache out) = out @ map (\<lambda>t. (wt_sink_id t, target_sink t)) ts"
  using assms
proof (induction ts arbitrary: cache out)
  case (Cons t ts)
  have t: "target_ok f t" using Cons.prems(2) by simp
  note r = refresh_sink_effect [OF Cons.prems(1) t]
  have "AList.update (wt_sink_id t) (target_sink t) out = out @ [(wt_sink_id t, target_sink t)]"
    using Cons.prems(4) by (intro update_absent) auto
  moreover have "fst (reconcile_targets ts (refresh_sink t cache) (out @ [(wt_sink_id t, target_sink t)]))
      = (out @ [(wt_sink_id t, target_sink t)]) @ map (\<lambda>t. (wt_sink_id t, target_sink t)) ts"
    using Cons.prems by (intro Cons.IH [OF r(1)]) auto
  ultimately show ?case by (simp add: r(2) Let_def)
qed simp

lemma map_of_self: "distinct (map f xs) \<Longrightarrow> x \<in> set xs \<Longrightarrow> map_of (rev (map (\<lambda>s. (f s, s)) xs)) (f x) = Some x"
  by (rule map_of_is_SomeI) (auto simp: rev_map [symmetric] comp_def distinct_rev)

lemma those_map_Some: "(\<forall>x\<in>set xs. f x = Some (g x)) \<Longrightarrow> those (map f xs) = Some (map g xs)"
  by (induction xs) auto

lemma consumers_of_subs:
  assumes "cache_ok (\<lambda>g. (fst g, fst (snd g))) cache" "distinct (map su_id subs)"
    "active_webhooks list_page (nat (wc_max_subscriptions (webhook_view cfg))) 0 [] r = Some (Inr subs)"
  shows "\<exists>cache'. delivery_consumers list_page cfg net exn_repr r cache
      = Some (Inr (map (\<lambda>s. sink_consumer (lib_config cfg) net exn_repr s
                     \<lparr>wk_sink_id = su_id s, wk_endpoint = su_endpoint s, wk_secret = su_secret s\<rparr>) subs), cache')
    \<and> cache_ok (\<lambda>g. (fst g, fst (snd g))) cache' \<and> set (dict_keys cache') = set (map su_id subs)"
proof -
  let ?ts = "map sub_target subs"
  have ids: "map wt_sink_id ?ts = map su_id subs" by (simp add: sub_target_def)
  obtain sinks cache' where rs: "reconcile_sinks ?ts cache = (sinks, cache')" by fastforce
  note e = reconcile_sinks_effect [OF assms(1) sub_target_ok _ rs, unfolded ids, OF assms(2)]
  have "sinks = map (\<lambda>t. (wt_sink_id t, target_sink t)) ?ts"
    using reconcile_targets_list [OF assms(1) sub_target_ok, of subs "[]"] assms(2) ids rs
    by (auto simp: reconcile_sinks_def simp del: map_map split: prod.splits)
  then have "sinks = map (\<lambda>s. (su_id s, \<lparr>wk_sink_id = su_id s, wk_endpoint = su_endpoint s, wk_secret = su_secret s\<rparr>)) subs"
    by (simp add: sub_target_def target_sink_def)
  moreover have "those (map (\<lambda>s. map_option (\<lambda>s'. h s' s) (map_of (rev (map (\<lambda>s. (su_id s, s)) subs)) (su_id s))) subs)
      = Some (map (\<lambda>s. h s s) subs)" for h :: "sink_sub \<Rightarrow> sink_sub \<Rightarrow> delivery_log consumer"
    using map_of_self [OF assms(2)] by (intro those_map_Some) simp
  ultimately show ?thesis using assms(3) rs e by (simp add: delivery_consumers_def comp_def)
qed

subsection \<open>Facts about the sink\<close>

definition delivery_letter :: "(delivery_error \<Rightarrow> string) \<Rightarrow> sink_sub \<Rightarrow> domain_event \<times> (delivery_error + unit) \<Rightarrow> (domain_event \<times> string) option" where
  "delivery_letter exn_repr s er =
     (case snd er of Inr _ \<Rightarrow> None | Inl err \<Rightarrow> Some (fst er, exn_repr (wrap_error s err)))"

lemma sink_outcomes:
  assumes "bc_max_attempts bc = 1" "con = sink_consumer cfg net exn_repr s k"
  shows "\<exists>sent. snd (outcomes bc con es w) = w @ map (\<lambda>(e, r). (su_id s, e, r)) sent
      \<and> map fst sent = filter (wants con) es
      \<and> parked_of (fst (outcomes bc con es w)) = List.map_filter (delivery_letter exn_repr s) sent"
proof (induction es arbitrary: w)
  case Nil
  then show ?case by (simp add: map_filter_simps)
next
  case (Cons e es)
  show ?case
  proof (cases "wants con e")
    case True
    obtain r where h: "con_handle con e w = (case r of Inr _ \<Rightarrow> None | Inl err \<Rightarrow> Some (exn_repr (wrap_error s err)), w @ [(su_id s, e, r)])"
      by (simp add: assms(2) sink_consumer_def sink_handle_def Let_def)
    have o: "handle_outcome bc con e w = con_handle con e w"
      by (simp add: handle_outcome_def assms(1) h split: prod.splits option.splits)
    have letter: "delivery_letter exn_repr s (e, r) = (case r of Inr _ \<Rightarrow> None | Inl err \<Rightarrow> Some (e, exn_repr (wrap_error s err)))"
      by (simp add: delivery_letter_def split: sum.splits)
    obtain sent where "snd (outcomes bc con es (w @ [(su_id s, e, r)])) = (w @ [(su_id s, e, r)]) @ map (\<lambda>(e, r). (su_id s, e, r)) sent"
      "map fst sent = filter (wants con) es"
      "parked_of (fst (outcomes bc con es (w @ [(su_id s, e, r)]))) = List.map_filter (delivery_letter exn_repr s) sent"
      using Cons.IH by blast
    then show ?thesis using True
      by (intro exI [of _ "(e, r) # sent"])
        (simp add: o h letter Let_def case_prod_beta parked_of_Cons map_filter_simps split: sum.splits)
  next
    case False
    then show ?thesis using Cons.IH [of w] by simp
  qed
qed

subsection \<open>Properties\<close>

text \<open>Every reconciliation gives one consumer per active webhook subscription of the SQL repository, in its
  order and no other, however many pages they fill: each has the cursor name of its subscription, its
  types and filters, and posts to the endpoint under the secret the subscription has now, whatever the
  cache held. Sinks of other subscriptions leave the cache. With a page size of zero the listing never
  ends.\<close>

theorem dispatcher_serves_active_webhooks:
  assumes "qr_ok rat_text text_rat known r" "cache_ok (\<lambda>g. (fst g, fst (snd g))) cache"
    and "subs = filter (\<lambda>s. su_transport s = WEBHOOK) (qr_listed text_rat known True r)"
  shows "(0 < wc_max_subscriptions (webhook_view cfg) \<longrightarrow>
      (\<exists>cache'. delivery_consumers (qr_list text_rat known) cfg net exn_repr r cache
          = Some (Inr (map (\<lambda>s. sink_consumer (lib_config cfg) net exn_repr s
                         \<lparr>wk_sink_id = su_id s, wk_endpoint = su_endpoint s, wk_secret = su_secret s\<rparr>) subs), cache')
        \<and> cache_ok (\<lambda>g. (fst g, fst (snd g))) cache' \<and> set (dict_keys cache') = set (map su_id subs)))
    \<and> (wc_max_subscriptions (webhook_view cfg) = 0 \<longrightarrow> delivery_consumers (qr_list text_rat known) cfg net exn_repr r cache = None)
    \<and> distinct (map su_id subs)
    \<and> set subs = {s. \<exists>i\<in>set (dict_keys r). qr_get text_rat known r i = Inr (Some s) \<and> su_active s \<and> su_transport s = WEBHOOK}"
proof -
  note pages = qrepo.list_part [OF assms(1)]
  have d: "distinct (map su_id subs)"
    unfolding assms(3) by (rule distinct_map_filter_ids [OF qrepo.listed_distinct [OF assms(1)]])
  have "set subs = {s. \<exists>i\<in>set (dict_keys r). qr_get text_rat known r i = Inr (Some s) \<and> su_active s \<and> su_transport s = WEBHOOK}"
    using qrepo.listed_set [OF assms(1), of True] assms(3) by auto
  moreover have "active_webhooks (qr_list text_rat known) (nat (wc_max_subscriptions (webhook_view cfg))) 0 [] r = Some (Inr subs)"
    if "0 < wc_max_subscriptions (webhook_view cfg)"
    using active_webhooks_all [of "qr_list text_rat known" r, OF pages, of "nat (wc_max_subscriptions (webhook_view cfg))" 0 "[]"] that
    by (simp add: assms(3))
  moreover have "active_webhooks (qr_list text_rat known) 0 0 [] r = None"
    by (rule active_webhooks_zero) (simp add: pages)
  ultimately show ?thesis
    using consumers_of_subs [OF assms(2) d, of "qr_list text_rat known" cfg r net exn_repr] d
    by (auto simp: delivery_consumers_def)
qed


subsection \<open>Concrete runs\<close>

definition example_hook :: sink_sub where
  "example_hook = \<lparr>su_id = ''h1'', su_transport = WEBHOOK, su_endpoint = ''https://example.org/hook'', su_event_types = [RATING_CHANGED],
     su_created_at = the (from_timestamp_utc 0), su_ctx = WebhookCtx, su_scope = NoScope, su_secret = Some ''key'',
     su_token_hash = None, su_active = True\<rparr>"

definition example_net :: network where
  "example_net w = (\<lambda>i h. Resolved [''93.184.216.34''], \<lambda>i url body headers. TransportError ''down'')"

lemma example_hook_listed:
  "qr_ok (\<lambda>d. ''0.0'') (\<lambda>t. 0) (\<lambda>c. True) [(''h1'', sub_to_row (\<lambda>d. ''0.0'') example_hook)]"
  "filter (\<lambda>s. su_transport s = WEBHOOK) (qr_listed (\<lambda>t. 0) (\<lambda>c. True) True [(''h1'', sub_to_row (\<lambda>d. ''0.0'') example_hook)]) = [example_hook]"
proof -
  have fits: "sub_fits (\<lambda>d. ''0.0'') (\<lambda>t. 0) (\<lambda>c. True) example_hook"
    by (simp add: sub_fits_def row_fits_def sub_to_row_def example_hook_def ctx_ok_def scope_ok_def)
  have id: "su_id example_hook = ''h1''" by (simp add: example_hook_def)
  show "qr_ok (\<lambda>d. ''0.0'') (\<lambda>t. 0) (\<lambda>c. True) [(''h1'', sub_to_row (\<lambda>d. ''0.0'') example_hook)]"
    using fresh_row [OF fits] by (simp add: qr_ok_def dict_ok_def id)
  have "canon_sub example_hook = example_hook"
    by (simp add: canon_sub_def example_hook_def canon_types_def parse_et_value)
  with fresh_row_sub [OF fits] show "filter (\<lambda>s. su_transport s = WEBHOOK)
      (qr_listed (\<lambda>t. 0) (\<lambda>c. True) True [(''h1'', sub_to_row (\<lambda>d. ''0.0'') example_hook)]) = [example_hook]"
    by (simp add: qr_listed_def qr_rows_def) (simp add: sub_to_row_def example_hook_def)
qed

theorem dispatcher_serves_active_webhooks_witness:
  "\<exists>cons cache'. delivery_consumers (qr_list (\<lambda>t. 0) (\<lambda>c. True)) default_config example_net (\<lambda>x. ''err'')
       [(''h1'', sub_to_row (\<lambda>d. ''0.0'') example_hook)] [] = Some (Inr cons, cache') \<and> map con_name cons = [''sink:h1'']"
proof -
  have p: "0 < wc_max_subscriptions (webhook_view default_config)" by code_simp
  have c: "cache_ok (\<lambda>g. (fst g, fst (snd g))) []" by (simp add: cache_ok_def)
  have n: "con_name (sink_consumer c n x example_hook k) = ''sink:h1''" for c n x k
    by (simp add: sink_consumer_def sink_consumer_name_def example_hook_def)
  note t = dispatcher_serves_active_webhooks [OF example_hook_listed(1) c example_hook_listed(2) [symmetric],
      of default_config example_net "\<lambda>x. ''err''"]
  from t [THEN conjunct1, THEN mp, OF p] obtain cache' where
    d: "delivery_consumers (qr_list (\<lambda>t. 0) (\<lambda>c. True)) default_config example_net (\<lambda>x. ''err'')
       [(''h1'', sub_to_row (\<lambda>d. ''0.0'') example_hook)] []
     = Some (Inr (map (\<lambda>s. sink_consumer (lib_config default_config) example_net (\<lambda>x. ''err'') s
          \<lparr>wk_sink_id = su_id s, wk_endpoint = su_endpoint s, wk_secret = su_secret s\<rparr>) [example_hook]), cache')" by (elim exE conjE)
  show ?thesis by (intro exI conjI, rule d) (simp add: n)
qed


end
