(* ===== verification/Secret_Box.thy ===== *)
theory Secret_Box
  imports Hashing Errors
begin

text \<open>
  Encryption at rest (\<open>libs/secret_box/box.py\<close>): a box with one active key and retired ones. The cipher
  (Fernet) is a third-party library: two functions over derived keys, with its documented law as
  a predicate. A key is derived by hashing, encoded in base 64.
\<close>

type_synonym key = string

definition b64_char :: "nat \<Rightarrow> char" where
  "b64_char n =
     (if n < 26 then char_of (65 + n) else if n < 52 then char_of (97 + (n - 26)) else if n < 62 then char_of (48 + (n - 52))
      else if n = 62 then CHR ''-'' else CHR ''_'')"

fun b64_encode :: "byte list \<Rightarrow> string" where
  "b64_encode [] = []"
| "b64_encode [a] =
     (let n = unat a * 65536 in [b64_char (n div 262144), b64_char (n div 4096 mod 64), CHR ''='', CHR ''=''])"
| "b64_encode [a, b] =
     (let n = unat a * 65536 + unat b * 256
      in [b64_char (n div 262144), b64_char (n div 4096 mod 64), b64_char (n div 64 mod 64), CHR ''=''])"
| "b64_encode (a # b # c # rest) =
     (let n = unat a * 65536 + unat b * 256 + unat c
      in [b64_char (n div 262144), b64_char (n div 4096 mod 64), b64_char (n div 64 mod 64), b64_char (n mod 64)] @ b64_encode rest)"

definition derive_fernet_key :: "key \<Rightarrow> string" where
  "derive_fernet_key raw = b64_encode (sha256 (utf8 raw))"

datatype box_error = KeyMissing | DecryptionFailed

record secret_box =
  sb_active_key :: key
  sb_retired_keys :: "key list"

definition new_box :: "key \<Rightarrow> key list \<Rightarrow> box_error + secret_box" where
  "new_box k retired = (if k = [] then Inl KeyMissing else Inr \<lparr>sb_active_key = k, sb_retired_keys = retired\<rparr>)"

text \<open>The readers in order: the active key, then the retired ones.\<close>

definition box_readers :: "secret_box \<Rightarrow> string list" where
  "box_readers b = map derive_fernet_key (sb_active_key b # sb_retired_keys b)"

definition box_encrypt :: "(string \<Rightarrow> string \<Rightarrow> byte list) \<Rightarrow> secret_box \<Rightarrow> string \<Rightarrow> byte list" where
  "box_encrypt enc b plaintext = enc (derive_fernet_key (sb_active_key b)) plaintext"

fun try_readers :: "(string \<Rightarrow> byte list \<Rightarrow> string option) \<Rightarrow> string list \<Rightarrow> byte list \<Rightarrow> box_error + string" where
  "try_readers dec [] c = Inl DecryptionFailed"
| "try_readers dec (k # ks) c = (case dec k c of Some p \<Rightarrow> Inr p | None \<Rightarrow> try_readers dec ks c)"

definition box_decrypt :: "(string \<Rightarrow> byte list \<Rightarrow> string option) \<Rightarrow> secret_box \<Rightarrow> byte list \<Rightarrow> box_error + string" where
  "box_decrypt dec b c = try_readers dec (box_readers b) c"

definition rotate_box :: "key \<Rightarrow> secret_box \<Rightarrow> box_error + secret_box" where
  "rotate_box k b = (if k = [] then Inl KeyMissing else new_box k (sb_active_key b # sb_retired_keys b))"

fun rotate_all :: "key list \<Rightarrow> secret_box \<Rightarrow> box_error + secret_box" where
  "rotate_all [] b = Inr b"
| "rotate_all (k # ks) b = (case rotate_box k b of Inl e \<Rightarrow> Inl e | Inr b' \<Rightarrow> rotate_all ks b')"

text \<open>The cipher's documented behaviour: a key reads what it wrote, and no other key does.\<close>

definition cipher_ok :: "(string \<Rightarrow> string \<Rightarrow> byte list) \<Rightarrow> (string \<Rightarrow> byte list \<Rightarrow> string option) \<Rightarrow> bool" where
  "cipher_ok enc dec \<longleftrightarrow> (\<forall>k k' p. dec k' (enc k p) = (if k' = k then Some p else None))"

lemma try_readers_mem:
  "cipher_ok enc dec \<Longrightarrow> try_readers dec ks (enc k p) = (if k \<in> set ks then Inr p else Inl DecryptionFailed)"
  by (induction ks) (auto simp: cipher_ok_def)

lemma box_roundtrip: "cipher_ok enc dec \<Longrightarrow> box_decrypt dec b (box_encrypt enc b p) = Inr p"
  by (simp only: box_decrypt_def box_encrypt_def try_readers_mem) (simp add: box_readers_def)

lemma rotate_readers: "rotate_box k b = Inr b' \<Longrightarrow> set (box_readers b') = insert (derive_fernet_key k) (set (box_readers b))"
  by (auto simp: rotate_box_def new_box_def box_readers_def split: if_splits)

lemma rotate_all_readers: "rotate_all ks b = Inr b' \<Longrightarrow> set (box_readers b') = set (map derive_fernet_key ks) \<union> set (box_readers b)"
  by (induction ks arbitrary: b) (auto split: sum.splits dest: rotate_readers)

text \<open>C20: A secret survives key rotation and only its keys read it: what a box encrypted is decrypted by the box
  any sequence of rotations leads to, and by a box without the active key of that time not at all. A
  rotation fails only for an empty key.\<close>

theorem rotated_box_reads_old:
  assumes "cipher_ok enc dec" "rotate_all ks b = Inr b'"
  shows "box_decrypt dec b' (box_encrypt enc b p) = Inr p
    \<and> (derive_fernet_key (sb_active_key b) \<notin> set (box_readers other)
        \<longrightarrow> box_decrypt dec other (box_encrypt enc b p) = Inl DecryptionFailed)
    \<and> (rotate_box k b' = Inl KeyMissing \<longleftrightarrow> k = [])"
proof -
  have "derive_fernet_key (sb_active_key b) \<in> set (box_readers b')"
    using rotate_all_readers [OF assms(2)] by (simp add: box_readers_def)
  then show ?thesis
    by (simp add: box_decrypt_def box_encrypt_def try_readers_mem [OF assms(1)] rotate_box_def new_box_def cong: if_cong)
qed

text \<open>A cipher of the documented kind: the key in front, its length in unary.\<close>

definition text_bytes :: "string \<Rightarrow> byte list" where
  "text_bytes s = map (\<lambda>c. of_nat (code c)) s"

definition example_mark :: "string \<Rightarrow> byte list" where
  "example_mark k = replicate (length k) 1 @ [0] @ text_bytes k"

definition example_enc :: "string \<Rightarrow> string \<Rightarrow> byte list" where
  "example_enc k p = example_mark k @ text_bytes p"

definition example_dec :: "string \<Rightarrow> byte list \<Rightarrow> string option" where
  "example_dec k c =
     (if take (length (example_mark k)) c = example_mark k
      then Some (map (\<lambda>b. char_of (unat b)) (drop (length (example_mark k)) c)) else None)"

lemma byte_char: "char_of (unat (of_nat (code c) :: byte)) = c"
  by (simp add: unat_of_nat)

lemma text_bytes_back: "map (\<lambda>b. char_of (unat b)) (text_bytes s) = s"
  by (simp add: text_bytes_def comp_def byte_char)

lemma mark_prefix: "take (length (example_mark k')) (example_mark k @ xs) = example_mark k' \<longleftrightarrow> k' = k"
proof
  assume h: "take (length (example_mark k')) (example_mark k @ xs) = example_mark k'"
  then obtain ys where "example_mark k @ xs = example_mark k' @ ys" by (metis append_take_drop_id)
  then have eq: "replicate (length k) 1 @ 0 # (text_bytes k @ xs) = replicate (length k') 1 @ 0 # (text_bytes k' @ ys)"
    by (simp add: example_mark_def)
  have tw: "takeWhile (\<lambda>b. b = 1) (replicate n (1 :: byte) @ 0 # zs) = replicate n 1" for n zs
    by (induction n) auto
  from arg_cong [OF eq, of "takeWhile (\<lambda>b. b = 1)"] have len: "length k = length k'"
    by (simp only: tw) (metis length_replicate)
  with eq have "text_bytes k @ xs = text_bytes k' @ ys" by simp
  then have "text_bytes k = text_bytes k'" using len by (simp add: text_bytes_def)
  then show "k' = k" by (metis text_bytes_back)
qed simp

lemma example_cipher: "cipher_ok example_enc example_dec"
  using mark_prefix by (auto simp: cipher_ok_def example_enc_def example_dec_def text_bytes_back)

theorem rotated_box_reads_old_witness:
  "\<exists>b. rotate_all [''k2'', ''k3''] \<lparr>sb_active_key = ''k1'', sb_retired_keys = []\<rparr> = Inr b
     \<and> box_decrypt example_dec b (box_encrypt example_enc \<lparr>sb_active_key = ''k1'', sb_retired_keys = []\<rparr> ''token'') = Inr ''token''"
proof -
  obtain b where "rotate_all [''k2'', ''k3''] \<lparr>sb_active_key = ''k1'', sb_retired_keys = []\<rparr> = Inr b"
    by (simp add: rotate_box_def new_box_def)
  with rotated_box_reads_old [OF example_cipher this] show ?thesis by blast
qed

end
