(* ===== verification/Token_Accounts.thy ===== *)
theory Token_Accounts
  imports Subscriptions Secret_Box Engine_Config
begin

text \<open>
  Token accounts: the account and alias records (\<open>account/token_account.py\<close>), the in-memory and the SQL
  repository (\<open>web/repos/token_account_repo.py\<close>, \<open>web/orm/token_account.py\<close>) with their contract
  (\<open>account/repo.py\<close>), and the admin service (\<open>web/services/token_accounts.py\<close>) up to its call of the
  reconciler, which is a theory of its own. \<open>parse_cat\<close> is the client library's reading of a category
  name (None for its \<open>ValueError\<close>); a category's value is the category.
\<close>

subsection \<open>Accounts and aliases\<close>

record account =
  ac_id :: string
  ac_ciphertext :: "byte list"
  ac_created_at :: datetime
  ac_metadata :: "(string, string) dict"
  ac_categories :: "category list"
  ac_active :: bool

record account_alias =
  al_alias :: string
  al_account_id :: string
  al_created_at :: datetime
  al_primary :: bool

subsection \<open>In memory\<close>

record mem_accounts =
  ma_items :: "(string, account) dict"
  ma_aliases :: "(string, account_alias) dict"

definition ma_get :: "mem_accounts \<Rightarrow> string \<Rightarrow> account option result" where
  "ma_get r i = Inr (map_of (ma_items r) i)"

definition ma_get_by_alias :: "mem_accounts \<Rightarrow> string \<Rightarrow> account option result" where
  "ma_get_by_alias r a =
     (case map_of (ma_aliases r) a of None \<Rightarrow> Inr None | Some row \<Rightarrow> Inr (map_of (ma_items r) (al_account_id row)))"

definition ma_alias_exists :: "mem_accounts \<Rightarrow> string \<Rightarrow> bool" where
  "ma_alias_exists r a \<longleftrightarrow> a \<in> set (dict_keys (ma_aliases r))"

definition ma_add :: "account \<Rightarrow> string \<Rightarrow> mem_accounts \<Rightarrow> unit web_result \<times> mem_accounts" where
  "ma_add acc a r =
     (if a \<in> set (dict_keys (ma_aliases r)) then (Inl (Web (AliasAlreadyExists a)), r)
      else (Inr (), r\<lparr>ma_items := AList.update (ac_id acc) acc (ma_items r),
                      ma_aliases := AList.update a \<lparr>al_alias = a, al_account_id = ac_id acc, al_created_at = ac_created_at acc,
                                                     al_primary = True\<rparr> (ma_aliases r)\<rparr>))"

definition ma_add_alias :: "string \<Rightarrow> string \<Rightarrow> mem_accounts \<Rightarrow> account_alias web_result \<times> mem_accounts" where
  "ma_add_alias i a r =
     (if a \<in> set (dict_keys (ma_aliases r)) then (Inl (Web (AliasAlreadyExists a)), r)
      else (case map_of (ma_items r) i of
              None \<Rightarrow> (Inl (Unhandled KeyError), r)
            | Some acc \<Rightarrow>
                (let row = \<lparr>al_alias = a, al_account_id = i, al_created_at = ac_created_at acc, al_primary = False\<rparr>
                 in (Inr row, r\<lparr>ma_aliases := AList.update a row (ma_aliases r)\<rparr>))))"

definition ma_list_aliases :: "mem_accounts \<Rightarrow> string \<Rightarrow> account_alias list" where
  "ma_list_aliases r i = filter (\<lambda>a. al_account_id a = i) (map snd (ma_aliases r))"

definition ma_replace :: "account \<Rightarrow> mem_accounts \<Rightarrow> unit result \<times> mem_accounts" where
  "ma_replace acc r = (Inr (), r\<lparr>ma_items := AList.update (ac_id acc) acc (ma_items r)\<rparr>)"

definition ma_list_active :: "mem_accounts \<Rightarrow> account list result" where
  "ma_list_active r = Inr (repo_filtered ac_created_at ac_active True (ma_items r))"

definition ma_count :: "bool \<Rightarrow> mem_accounts \<Rightarrow> int" where
  "ma_count act r = repo_count ac_created_at ac_active act (ma_items r)"

subsection \<open>In SQL\<close>

text \<open>
  The two tables: the primary keys, the foreign key of an alias and the column widths are the database's;
  \<open>IntegrityError\<close> is translated to the typed error, a value too long is not.
\<close>

record account_row =
  qr_account_id :: string
  qr_ciphertext :: "byte list"
  qr_metadata :: "(string, string) dict"
  qr_categories :: "string list"
  qr_active :: bool
  qr_created_at :: datetime

record sql_accounts =
  qa_rows :: "(string, account_row) dict"
  qa_aliases :: "(string, account_alias) dict"

definition acc_to_row :: "account \<Rightarrow> account_row" where
  "acc_to_row a = \<lparr>qr_account_id = ac_id a, qr_ciphertext = ac_ciphertext a, qr_metadata = ac_metadata a,
     qr_categories = ac_categories a, qr_active = ac_active a, qr_created_at = ac_created_at a\<rparr>"

definition acc_of_row :: "(string \<Rightarrow> category option) \<Rightarrow> account_row \<Rightarrow> account result" where
  "acc_of_row parse_cat r =
     (case those (map parse_cat (qr_categories r)) of
        None \<Rightarrow> Inl ValueError
      | Some cats \<Rightarrow> Inr \<lparr>ac_id = qr_account_id r, ac_ciphertext = qr_ciphertext r, ac_created_at = qr_created_at r,
                           ac_metadata = qr_metadata r, ac_categories = cats, ac_active = qr_active r\<rparr>)"

definition qa_get :: "(string \<Rightarrow> category option) \<Rightarrow> sql_accounts \<Rightarrow> string \<Rightarrow> account option result" where
  "qa_get parse_cat r i =
     (case map_of (qa_rows r) i of None \<Rightarrow> Inr None | Some row \<Rightarrow> bind_result (acc_of_row parse_cat row) (\<lambda>a. Inr (Some a)))"

definition qa_get_by_alias :: "(string \<Rightarrow> category option) \<Rightarrow> sql_accounts \<Rightarrow> string \<Rightarrow> account option result" where
  "qa_get_by_alias parse_cat r a =
     (case map_of (qa_aliases r) a of None \<Rightarrow> Inr None | Some row \<Rightarrow> qa_get parse_cat r (al_account_id row))"

definition qa_alias_exists :: "sql_accounts \<Rightarrow> string \<Rightarrow> bool" where
  "qa_alias_exists r a \<longleftrightarrow> a \<in> set (dict_keys (qa_aliases r))"

definition qa_add :: "account \<Rightarrow> string \<Rightarrow> sql_accounts \<Rightarrow> unit web_result \<times> sql_accounts" where
  "qa_add acc a r =
     (if 64 < length (ac_id acc) then (Inl (Unhandled (StoreError ''DataError'')), r)
      else if ac_id acc \<in> set (dict_keys (qa_rows r)) then (Inl (Web (AliasAlreadyExists a)), r)
      else if 128 < length a then (Inl (Unhandled (StoreError ''DataError'')), r)
      else if a \<in> set (dict_keys (qa_aliases r)) then (Inl (Web (AliasAlreadyExists a)), r)
      else (Inr (), \<lparr>qa_rows = qa_rows r @ [(ac_id acc, acc_to_row acc)],
                     qa_aliases = qa_aliases r @ [(a, \<lparr>al_alias = a, al_account_id = ac_id acc,
                        al_created_at = ac_created_at acc, al_primary = True\<rparr>)]\<rparr>))"

definition qa_add_alias :: "datetime \<Rightarrow> string \<Rightarrow> string \<Rightarrow> sql_accounts \<Rightarrow> account_alias web_result \<times> sql_accounts" where
  "qa_add_alias now i a r =
     (if 128 < length a \<or> 64 < length i then (Inl (Unhandled (StoreError ''DataError'')), r)
      else if a \<in> set (dict_keys (qa_aliases r)) \<or> i \<notin> set (dict_keys (qa_rows r)) then (Inl (Web (AliasAlreadyExists a)), r)
      else (let row = \<lparr>al_alias = a, al_account_id = i, al_created_at = now, al_primary = False\<rparr>
            in (Inr row, r\<lparr>qa_aliases := qa_aliases r @ [(a, row)]\<rparr>)))"

definition qa_list_aliases :: "sql_accounts \<Rightarrow> string \<Rightarrow> account_alias list" where
  "qa_list_aliases r i = filter (\<lambda>a. al_account_id a = i) (map snd (qa_aliases r))"

definition qa_replace :: "account \<Rightarrow> sql_accounts \<Rightarrow> unit result \<times> sql_accounts" where
  "qa_replace acc r =
     (if 64 < length (ac_id acc) then (Inl (StoreError ''DataError''), r)
      else (Inr (), r\<lparr>qa_rows := AList.update (ac_id acc) (acc_to_row acc) (qa_rows r)\<rparr>))"

fun read_accounts :: "(string \<Rightarrow> category option) \<Rightarrow> account_row list \<Rightarrow> account list result" where
  "read_accounts parse_cat [] = Inr []"
| "read_accounts parse_cat (r # rs) =
     bind_result (acc_of_row parse_cat r) (\<lambda>a. bind_result (read_accounts parse_cat rs) (\<lambda>as. Inr (a # as)))"

definition qa_list :: "(string \<Rightarrow> category option) \<Rightarrow> nat \<Rightarrow> nat \<Rightarrow> bool \<Rightarrow> sql_accounts \<Rightarrow> account list result" where
  "qa_list parse_cat limit offset act r =
     read_accounts parse_cat (take limit (drop offset (sort_key (\<lambda>row. created_key (qr_created_at row))
       (filter (\<lambda>row. act \<longrightarrow> qr_active row) (map snd (qa_rows r))))))"

definition qa_count :: "bool \<Rightarrow> sql_accounts \<Rightarrow> int" where
  "qa_count act r = int (length (filter (\<lambda>row. act \<longrightarrow> qr_active row) (map snd (qa_rows r))))"

definition qa_list_active :: "(string \<Rightarrow> category option) \<Rightarrow> sql_accounts \<Rightarrow> account list result" where
  "qa_list_active parse_cat r = read_accounts parse_cat (filter qr_active (map snd (qa_rows r)))"

subsection \<open>The contract\<close>

text \<open>An account that fits is stored with its alias in one step and found under both; a replacement changes
  that account only; the active count is the number of active accounts.\<close>

locale account_repo =
  fixes get :: "'r \<Rightarrow> string \<Rightarrow> account option result"
    and get_by_alias :: "'r \<Rightarrow> string \<Rightarrow> account option result"
    and alias_exists :: "'r \<Rightarrow> string \<Rightarrow> bool"
    and add :: "account \<Rightarrow> string \<Rightarrow> 'r \<Rightarrow> unit web_result \<times> 'r"
    and replace :: "account \<Rightarrow> 'r \<Rightarrow> unit result \<times> 'r"
    and count :: "bool \<Rightarrow> 'r \<Rightarrow> int"
    and ids :: "'r \<Rightarrow> string list"
    and fits :: "account \<Rightarrow> bool"
    and alias_fits :: "string \<Rightarrow> bool"
    and repo_ok :: "'r \<Rightarrow> bool"
  assumes get_absent: "repo_ok r \<Longrightarrow> i \<notin> set (ids r) \<Longrightarrow> get r i = Inr None"
    and get_present: "repo_ok r \<Longrightarrow> i \<in> set (ids r) \<Longrightarrow> \<exists>a. get r i = Inr (Some a) \<and> ac_id a = i \<and> fits a"
    and fits_update: "fits a \<Longrightarrow> fits (a\<lparr>ac_active := b, ac_metadata := m\<rparr>)"
    and add_taken: "repo_ok r \<Longrightarrow> fits a \<Longrightarrow> alias_fits x \<Longrightarrow> alias_exists r x \<Longrightarrow> add a x r = (Inl (Web (AliasAlreadyExists x)), r)"
    and add_new: "repo_ok r \<Longrightarrow> fits a \<Longrightarrow> alias_fits x \<Longrightarrow> ac_id a \<notin> set (ids r) \<Longrightarrow> \<not> alias_exists r x \<Longrightarrow>
          \<exists>r'. add a x r = (Inr (), r') \<and> repo_ok r' \<and> get r' (ac_id a) = Inr (Some a) \<and> get_by_alias r' x = Inr (Some a)
            \<and> alias_exists r' x \<and> (\<forall>i. i \<noteq> ac_id a \<longrightarrow> get r' i = get r i)
            \<and> (\<forall>y. y \<noteq> x \<longrightarrow> alias_exists r' y = alias_exists r y \<and> get_by_alias r' y = get_by_alias r y)
            \<and> set (ids r') = insert (ac_id a) (set (ids r)) \<and> count True r' = count True r + (if ac_active a then 1 else 0)"
    and replace_effect: "repo_ok r \<Longrightarrow> fits a \<Longrightarrow> get r (ac_id a) = Inr (Some old) \<Longrightarrow>
          \<exists>r'. replace a r = (Inr (), r') \<and> repo_ok r' \<and> get r' (ac_id a) = Inr (Some a)
            \<and> (\<forall>i. i \<noteq> ac_id a \<longrightarrow> get r' i = get r i) \<and> (\<forall>y. alias_exists r' y = alias_exists r y)
            \<and> set (ids r') = set (ids r)
            \<and> count True r' = count True r + (if ac_active a then 1 else 0) - (if ac_active old then 1 else 0)"

lemma those_map_id: "\<forall>x\<in>set xs. f x = Some x \<Longrightarrow> those (map f xs) = Some xs"
  by (induction xs) auto

lemma update_replaces:
  "dict_ok d \<Longrightarrow> map_of d k = Some v \<Longrightarrow> \<exists>xs ys. d = xs @ (k, v) # ys \<and> AList.update k w d = xs @ (k, w) # ys"
proof (induction d)
  case (Cons p d)
  show ?case
  proof (cases "fst p = k")
    case True
    then show ?thesis using Cons.prems by (cases p) (intro exI [of _ "[]"] exI [of _ d], auto)
  next
    case False
    with Cons.prems have "dict_ok d" "map_of d k = Some v" by (cases p; simp add: dict_ok_def)+
    from Cons.IH [OF this] obtain xs ys where "d = xs @ (k, v) # ys" "AList.update k w d = xs @ (k, w) # ys" by blast
    then show ?thesis using False by (intro exI [of _ "p # xs"] exI [of _ ys]) (cases p, simp)
  qed
qed simp

lemma count_update:
  assumes "dict_ok d" "map_of d k = Some v"
  shows "int (length (filter P (map snd (AList.update k w d))))
      = int (length (filter P (map snd d))) + (if P w then 1 else 0) - (if P v then 1 else 0)"
  using update_replaces [OF assms, of w] by auto

definition ma_ok :: "mem_accounts \<Rightarrow> bool" where
  "ma_ok r \<longleftrightarrow> dict_ok (ma_items r) \<and> (\<forall>(i, a)\<in>set (ma_items r). ac_id a = i)
     \<and> (\<forall>(x, row)\<in>set (ma_aliases r). al_account_id row \<in> set (dict_keys (ma_items r)))"

lemma ma_count_eq: "ma_count act r = int (length (filter (\<lambda>a. act \<longrightarrow> ac_active a) (map snd (ma_items r))))"
  by (simp add: ma_count_def repo_count_def repo_filtered_def Let_def filter_sort)

lemma keyed_value: "\<forall>(i, a)\<in>set d. f a = i \<Longrightarrow> map_of d i = Some a \<Longrightarrow> f a = i"
  by (auto dest!: map_of_SomeD)

interpretation macc: account_repo ma_get ma_get_by_alias ma_alias_exists ma_add ma_replace ma_count
  "\<lambda>r. dict_keys (ma_items r)" "\<lambda>a. True" "\<lambda>x. True" ma_ok
proof (unfold_locales, goal_cases)
  case (1 r i)
  then show ?case by (simp add: ma_get_def map_of_eq_None_iff)
next
  case (2 r i)
  with dict_get [of "ma_items r" i] obtain a where "map_of (ma_items r) i = Some a" by (auto simp: ma_ok_def simp del: list.set_map set_map)
  with 2 keyed_value [of "ma_items r" ac_id i a] show ?case by (auto simp: ma_get_def ma_ok_def)
next
  case (4 r a x)
  then show ?case by (simp add: ma_add_def ma_alias_exists_def)
next
  case (5 r a x)
  let ?r = "r\<lparr>ma_items := AList.update (ac_id a) a (ma_items r), ma_aliases := AList.update x \<lparr>al_alias = x,
      al_account_id = ac_id a, al_created_at = ac_created_at a, al_primary = True\<rparr> (ma_aliases r)\<rparr>"
  have add: "ma_add a x r = (Inr (), ?r)" using 5 by (simp add: ma_add_def ma_alias_exists_def)
  have items: "AList.update (ac_id a) a (ma_items r) = ma_items r @ [(ac_id a, a)]" using 5 by (intro update_absent) simp
  have al: "AList.update x row (ma_aliases r) = ma_aliases r @ [(x, row)]" for row
    using 5 by (intro update_absent) (simp add: ma_alias_exists_def)
  have "ma_get_by_alias ?r y = ma_get_by_alias r y" if "y \<noteq> x" for y
  proof (cases "map_of (ma_aliases r) y")
    case (Some row)
    then have "al_account_id row \<in> set (dict_keys (ma_items r))"
      using 5(1) map_of_SomeD [OF Some] by (simp only: ma_ok_def) blast
    then have "al_account_id row \<noteq> ac_id a" using 5(4) by metis
    with Some that show ?thesis by (simp add: ma_get_by_alias_def update_conv')
  qed (use that in \<open>simp add: ma_get_by_alias_def update_conv'\<close>)
  moreover have "ma_ok ?r" using 5 by (auto simp: ma_ok_def items al dict_ok_def)
  moreover have "ma_count True ?r = ma_count True r + (if ac_active a then 1 else 0)" by (simp add: ma_count_eq items)
  moreover have "ma_alias_exists ?r y = (y = x \<or> ma_alias_exists r y)" for y by (auto simp: ma_alias_exists_def)
  ultimately show ?case unfolding add by (simp add: ma_get_def ma_get_by_alias_def update_conv')
next
  case (6 r a old)
  let ?r = "r\<lparr>ma_items := AList.update (ac_id a) a (ma_items r)\<rparr>"
  have old: "map_of (ma_items r) (ac_id a) = Some old" using 6 by (simp add: ma_get_def)
  then have mem: "ac_id a \<in> set (dict_keys (ma_items r))" by (force dest: map_of_SomeD)
  have "\<forall>(i, b)\<in>set (AList.update (ac_id a) a (ma_items r)). ac_id b = i" using 6(1) by (auto simp: ma_ok_def set_dict_put)
  then have "ma_ok ?r" using 6(1) by (fastforce simp: ma_ok_def)
  moreover have "ma_count True ?r = ma_count True r + (if ac_active a then 1 else 0) - (if ac_active old then 1 else 0)"
    using count_update [OF _ old, of "\<lambda>a. ac_active a" a] 6(1) by (simp add: ma_count_eq ma_ok_def)
  ultimately show ?case using mem
    by (simp add: ma_replace_def ma_get_def update_conv' ma_alias_exists_def insert_absorb)
qed simp

definition acc_fits :: "(string \<Rightarrow> category option) \<Rightarrow> account \<Rightarrow> bool" where
  "acc_fits parse_cat a \<longleftrightarrow> length (ac_id a) \<le> 64 \<and> (\<forall>c\<in>set (ac_categories a). parse_cat c = Some c)"

definition qa_ok :: "(string \<Rightarrow> category option) \<Rightarrow> sql_accounts \<Rightarrow> bool" where
  "qa_ok parse_cat r \<longleftrightarrow> dict_ok (qa_rows r) \<and> (\<forall>(i, row)\<in>set (qa_rows r). \<exists>a. ac_id a = i \<and> acc_fits parse_cat a \<and> row = acc_to_row a)
     \<and> (\<forall>(x, row)\<in>set (qa_aliases r). al_account_id row \<in> set (dict_keys (qa_rows r)))"

lemma acc_roundtrip: "acc_fits parse_cat a \<Longrightarrow> acc_of_row parse_cat (acc_to_row a) = Inr a"
proof -
  assume "acc_fits parse_cat a"
  then have "those (map parse_cat (ac_categories a)) = Some (ac_categories a)"
    using those_map_id [of "ac_categories a" parse_cat] by (simp add: acc_fits_def)
  then show ?thesis by (simp add: acc_of_row_def acc_to_row_def)
qed

lemma qa_get_stored: "qa_ok parse_cat r \<Longrightarrow> map_of (qa_rows r) i = Some row
     \<Longrightarrow> \<exists>a. qa_get parse_cat r i = Inr (Some a) \<and> ac_id a = i \<and> acc_fits parse_cat a \<and> row = acc_to_row a"
  by (auto simp: qa_ok_def qa_get_def acc_roundtrip dest!: map_of_SomeD)

interpretation qacc: account_repo "qa_get parse_cat" "qa_get_by_alias parse_cat" qa_alias_exists qa_add qa_replace qa_count
  "\<lambda>r. dict_keys (qa_rows r)" "acc_fits parse_cat" "\<lambda>x. length x \<le> 128" "qa_ok parse_cat"
  for parse_cat
proof (unfold_locales, goal_cases)
  case (1 r i)
  then show ?case by (simp add: qa_get_def map_of_eq_None_iff [symmetric])
next
  case (2 r i)
  with dict_get [of "qa_rows r" i] obtain row where "map_of (qa_rows r) i = Some row" by (auto simp: qa_ok_def simp del: list.set_map set_map)
  with qa_get_stored [OF 2(1)] show ?case by blast
next
  case (3 a b m)
  then show ?case by (simp add: acc_fits_def)
next
  case (4 r a x)
  then show ?case by (simp add: qa_add_def qa_alias_exists_def acc_fits_def)
next
  case (5 r a x)
  let ?r = "\<lparr>qa_rows = qa_rows r @ [(ac_id a, acc_to_row a)], qa_aliases = qa_aliases r @ [(x, \<lparr>al_alias = x,
      al_account_id = ac_id a, al_created_at = ac_created_at a, al_primary = True\<rparr>)]\<rparr>"
  have add: "qa_add a x r = (Inr (), ?r)" using 5 by (simp add: qa_add_def qa_alias_exists_def acc_fits_def)
  have new: "map_of (qa_rows r) (ac_id a) = None" "map_of (qa_aliases r) x = None"
    using 5 by (simp_all add: map_of_eq_None_iff qa_alias_exists_def)
  have get: "qa_get parse_cat ?r (ac_id a) = Inr (Some a)" "i \<noteq> ac_id a \<Longrightarrow> qa_get parse_cat ?r i = qa_get parse_cat r i" for i
    using new(1) acc_roundtrip [OF 5(2)] by (simp_all add: qa_get_def map_add_def split: option.split)
  have "qa_get_by_alias parse_cat ?r y = qa_get_by_alias parse_cat r y" if "y \<noteq> x" for y
  proof (cases "map_of (qa_aliases r) y")
    case (Some row)
    then have "al_account_id row \<in> set (dict_keys (qa_rows r))"
      using 5(1) map_of_SomeD [OF Some] by (simp only: qa_ok_def) blast
    then have "al_account_id row \<noteq> ac_id a" using 5(4) by metis
    with Some that get(2) show ?thesis by (simp add: qa_get_by_alias_def map_add_def)
  qed (use that in \<open>simp add: qa_get_by_alias_def map_add_def\<close>)
  moreover have "qa_get_by_alias parse_cat ?r x = Inr (Some a)"
    using new(2) get(1) by (simp add: qa_get_by_alias_def map_add_def)
  moreover have "qa_ok parse_cat ?r" using 5 by (auto simp: qa_ok_def dict_ok_def)
  moreover have "qa_count True ?r = qa_count True r + (if ac_active a then 1 else 0)" by (simp add: qa_count_def acc_to_row_def)
  moreover have "qa_alias_exists ?r y = (y = x \<or> qa_alias_exists r y)" for y by (auto simp: qa_alias_exists_def)
  ultimately show ?case unfolding add using get by simp
next
  case (6 r a old)
  let ?r = "r\<lparr>qa_rows := AList.update (ac_id a) (acc_to_row a) (qa_rows r)\<rparr>"
  obtain row where row: "map_of (qa_rows r) (ac_id a) = Some row" using 6(3) by (auto simp: qa_get_def split: option.splits)
  from qa_get_stored [OF 6(1) row] 6(3) have old: "row = acc_to_row old" by auto
  have mem: "ac_id a \<in> set (dict_keys (qa_rows r))" using row by (force dest: map_of_SomeD)
  have "\<forall>(i, row)\<in>set (AList.update (ac_id a) (acc_to_row a) (qa_rows r)).
      \<exists>b. ac_id b = i \<and> acc_fits parse_cat b \<and> row = acc_to_row b"
    using 6(1,2) by (auto simp: qa_ok_def set_dict_put)
  then have "qa_ok parse_cat ?r" using 6(1) by (fastforce simp: qa_ok_def)
  moreover have "qa_count True ?r = qa_count True r + (if ac_active a then 1 else 0) - (if ac_active old then 1 else 0)"
    using count_update [OF _ row, of "\<lambda>r. qr_active r" "acc_to_row a"] 6(1)
    by (simp add: qa_count_def qa_ok_def old) (simp add: acc_to_row_def)
  moreover have "qa_get parse_cat ?r (ac_id a) = Inr (Some a)" using acc_roundtrip [OF 6(2)] by (simp add: qa_get_def update_conv')
  moreover have "qa_get parse_cat ?r i = qa_get parse_cat r i" if "i \<noteq> ac_id a" for i using that by (simp add: qa_get_def update_conv')
  ultimately show ?case using mem 6(2)
    by (simp add: qa_replace_def acc_fits_def qa_alias_exists_def insert_absorb)
qed

end
