(* ===== verification/Token_Admin.thy ===== *)
theory Token_Admin
  imports Token_Accounts Web_Security
begin

text \<open>
  The admin service of token accounts (\<open>web/services/token_accounts.py\<close>) and its routes
  (\<open>web/routes/token_accounts.py\<close>), over a repository and the reconciler, which acts on the engine's
  sources. Registration is its check, then its insert, then a reconciliation: requests have a service
  of their own (\<open>web/shared/deps.py\<close>), so its lock orders nothing between two of them. What the upstream
  answers, the fresh id and the clock are arguments; the cipher is that of the secret box.
\<close>

record ('r, 'e) account_ops =
  to_get :: "'r \<Rightarrow> string \<Rightarrow> account option result"
  to_by_alias :: "'r \<Rightarrow> string \<Rightarrow> account option result"
  to_alias_exists :: "'r \<Rightarrow> string \<Rightarrow> bool"
  to_add :: "account \<Rightarrow> string \<Rightarrow> 'r \<Rightarrow> unit web_result \<times> 'r"
  to_add_alias :: "string \<Rightarrow> string \<Rightarrow> 'r \<Rightarrow> account_alias web_result \<times> 'r"
  to_list_aliases :: "'r \<Rightarrow> string \<Rightarrow> account_alias list"
  to_replace :: "account \<Rightarrow> 'r \<Rightarrow> unit result \<times> 'r"
  to_list :: "nat \<Rightarrow> nat \<Rightarrow> bool \<Rightarrow> 'r \<Rightarrow> account list result"
  to_count :: "bool \<Rightarrow> 'r \<Rightarrow> int"
  to_reconcile :: "'r \<Rightarrow> 'e \<Rightarrow> unit result \<times> 'e"

record ('r, 'e) account_state =
  ts_repo :: 'r
  ts_engine :: 'e

record account_create =
  tc_token :: string
  tc_alias :: string
  tc_metadata :: "(string, string) dict"
  tc_categories :: "string list"

record account_update =
  tu_account_id :: string
  tu_metadata :: "(string, string) dict option"
  tu_active :: "bool option"

datatype upstream = TokenLive | TokenRejected | TokenTransient | TokenRaised exn

record account_env =
  te_max_accounts :: int
  te_upstream :: "string \<Rightarrow> upstream"
  te_encrypt :: "string \<Rightarrow> byte list"
  te_decrypt :: "byte list \<Rightarrow> box_error + string"
  te_parse_cat :: "string \<Rightarrow> category option"
  te_now :: datetime
  te_fresh_id :: string

definition box_exn :: "box_error \<Rightarrow> exn" where
  "box_exn e = RuntimeError (case e of KeyMissing \<Rightarrow> ''KeyMissing'' | DecryptionFailed \<Rightarrow> ''DecryptionFailed'')"

definition validate_upstream :: "account_env \<Rightarrow> string \<Rightarrow> string \<Rightarrow> bool web_result" where
  "validate_upstream env token alias =
     (case te_upstream env token of
        TokenLive \<Rightarrow> Inr True
      | TokenTransient \<Rightarrow> Inr False
      | TokenRejected \<Rightarrow> Inl (Web (TokenInvalidUpstream alias ''upstream rejected the token''))
      | TokenRaised x \<Rightarrow> Inl (Unhandled x))"

text \<open>The part of \<open>register\<close> before the insert: the account to insert, or the refusal.\<close>

definition register_check :: "('r, 'e) account_ops \<Rightarrow> account_env \<Rightarrow> account_create \<Rightarrow> 'r \<Rightarrow> account web_result" where
  "register_check ao env spec r =
     (if to_alias_exists ao r (tc_alias spec) then Inl (Web (AliasAlreadyExists (tc_alias spec)))
      else if te_max_accounts env \<le> to_count ao True r
        then Inl (Web (TokenAccountCapExceeded (te_max_accounts env) (to_count ao True r)))
      else bind_web (validate_upstream env (tc_token spec) (tc_alias spec)) (\<lambda>live.
        case those (map (te_parse_cat env) (tc_categories spec)) of
          None \<Rightarrow> Inl (Unhandled ValueError)
        | Some cats \<Rightarrow> Inr \<lparr>ac_id = te_fresh_id env, ac_ciphertext = te_encrypt env (tc_token spec), ac_created_at = te_now env,
            ac_metadata = (if live then tc_metadata spec else AList.update ''_verify'' ''deferred'' (tc_metadata spec)),
            ac_categories = cats, ac_active = True\<rparr>))"

definition run_reconcile :: "('r, 'e) account_ops \<Rightarrow> 'a \<Rightarrow> ('r, 'e) account_state \<Rightarrow> 'a web_result \<times> ('r, 'e) account_state" where
  "run_reconcile ao x st =
     (case to_reconcile ao (ts_repo st) (ts_engine st) of
        (Inl e, eng) \<Rightarrow> (Inl (Unhandled e), st\<lparr>ts_engine := eng\<rparr>)
      | (Inr _, eng) \<Rightarrow> (Inr x, st\<lparr>ts_engine := eng\<rparr>))"

definition register_insert ::
  "('r, 'e) account_ops \<Rightarrow> string \<Rightarrow> account \<Rightarrow> ('r, 'e) account_state \<Rightarrow> account web_result \<times> ('r, 'e) account_state" where
  "register_insert ao alias acc st =
     (case to_add ao acc alias (ts_repo st) of
        (Inl e, r) \<Rightarrow> (Inl e, st\<lparr>ts_repo := r\<rparr>)
      | (Inr _, r) \<Rightarrow> run_reconcile ao acc (st\<lparr>ts_repo := r\<rparr>))"

definition register_account ::
  "('r, 'e) account_ops \<Rightarrow> account_env \<Rightarrow> account_create \<Rightarrow> ('r, 'e) account_state
     \<Rightarrow> account web_result \<times> ('r, 'e) account_state" where
  "register_account ao env spec st =
     (case register_check ao env spec (ts_repo st) of
        Inl e \<Rightarrow> (Inl e, st)
      | Inr acc \<Rightarrow> register_insert ao (tc_alias spec) acc st)"

definition get_token_by_alias :: "('r, 'e) account_ops \<Rightarrow> account_env \<Rightarrow> string \<Rightarrow> ('r, 'e) account_state \<Rightarrow> (account \<times> string) web_result" where
  "get_token_by_alias ao env alias st =
     bind_web (lift_result (to_by_alias ao (ts_repo st) alias)) (\<lambda>a.
       case a of
         None \<Rightarrow> Inl (Web (AliasNotFound alias))
       | Some acc \<Rightarrow> (case te_decrypt env (ac_ciphertext acc) of
                        Inl e \<Rightarrow> Inl (Unhandled (box_exn e)) | Inr token \<Rightarrow> Inr (acc, token)))"

definition get_account :: "('r, 'e) account_ops \<Rightarrow> string \<Rightarrow> ('r, 'e) account_state \<Rightarrow> account web_result" where
  "get_account ao i st =
     bind_web (lift_result (to_get ao (ts_repo st) i)) (\<lambda>a.
       case a of None \<Rightarrow> Inl (Web (TokenAccountNotFound i)) | Some acc \<Rightarrow> Inr acc)"

definition add_alias :: "('r, 'e) account_ops \<Rightarrow> string \<Rightarrow> string \<Rightarrow> ('r, 'e) account_state \<Rightarrow> account_alias web_result \<times> ('r, 'e) account_state" where
  "add_alias ao i alias st =
     (case get_account ao i st of
        Inl e \<Rightarrow> (Inl e, st)
      | Inr acc \<Rightarrow>
          if to_alias_exists ao (ts_repo st) alias then (Inl (Web (AliasAlreadyExists alias)), st)
          else (case to_add_alias ao (ac_id acc) alias (ts_repo st) of (res, r) \<Rightarrow> (res, st\<lparr>ts_repo := r\<rparr>)))"

definition list_aliases :: "('r, 'e) account_ops \<Rightarrow> string \<Rightarrow> ('r, 'e) account_state \<Rightarrow> account_alias list web_result" where
  "list_aliases ao i st = bind_web (get_account ao i st) (\<lambda>acc. Inr (to_list_aliases ao (ts_repo st) (ac_id acc)))"

definition put_account :: "('r, 'e) account_ops \<Rightarrow> account \<Rightarrow> ('r, 'e) account_state \<Rightarrow> account web_result \<times> ('r, 'e) account_state" where
  "put_account ao acc st =
     (case to_replace ao acc (ts_repo st) of
        (Inl x, r) \<Rightarrow> (Inl (Unhandled x), st\<lparr>ts_repo := r\<rparr>)
      | (Inr _, r) \<Rightarrow> run_reconcile ao acc (st\<lparr>ts_repo := r\<rparr>))"

definition update_account :: "('r, 'e) account_ops \<Rightarrow> account_update \<Rightarrow> ('r, 'e) account_state \<Rightarrow> account web_result \<times> ('r, 'e) account_state" where
  "update_account ao spec st =
     (case get_account ao (tu_account_id spec) st of
        Inl e \<Rightarrow> (Inl e, st)
      | Inr acc \<Rightarrow>
          put_account ao (acc\<lparr>ac_metadata := (case tu_metadata spec of Some m \<Rightarrow> m | None \<Rightarrow> ac_metadata acc),
                              ac_active := (case tu_active spec of Some b \<Rightarrow> b | None \<Rightarrow> ac_active acc)\<rparr>) st)"

definition deactivate_account :: "('r, 'e) account_ops \<Rightarrow> string \<Rightarrow> ('r, 'e) account_state \<Rightarrow> account web_result \<times> ('r, 'e) account_state" where
  "deactivate_account ao i st =
     (case get_account ao i st of
        Inl e \<Rightarrow> (Inl e, st)
      | Inr acc \<Rightarrow> put_account ao (acc\<lparr>ac_active := False\<rparr>) st)"

definition list_accounts :: "('r, 'e) account_ops \<Rightarrow> nat \<Rightarrow> nat \<Rightarrow> bool \<Rightarrow> ('r, 'e) account_state \<Rightarrow> (account list \<times> int) web_result" where
  "list_accounts ao limit offset act st =
     bind_web (lift_result (to_list ao limit offset act (ts_repo st))) (\<lambda>rows. Inr (rows, to_count ao act (ts_repo st)))"

subsection \<open>The routes\<close>

record account_out =
  aout_account_id :: string
  aout_metadata :: "(string, string) dict"
  aout_categories :: "string list"
  aout_active :: bool
  aout_created_at :: datetime
  aout_token :: "string option"

definition account_out :: "account \<Rightarrow> string option \<Rightarrow> account_out" where
  "account_out a token = \<lparr>aout_account_id = ac_id a, aout_metadata = ac_metadata a, aout_categories = ac_categories a,
     aout_active = ac_active a, aout_created_at = ac_created_at a, aout_token = token\<rparr>"

text \<open>A request and what it answers; the administrator's token view is the only one with a credential.\<close>

datatype account_request =
    RegisterAccount account_create
  | TokenByAlias string
  | UpdateAccount account_update
  | AddAlias string string
  | ListAliases string
  | ListAccounts nat nat bool
  | DeactivateAccount string

datatype account_response =
    AccountData account_out
  | AliasData account_alias
  | AliasPage "account_alias list"
  | AccountPage "account_out list" int nat nat
  | AccountOk

definition map_web2 :: "('a \<Rightarrow> 'b) \<Rightarrow> 'a web_result \<times> 's \<Rightarrow> 'b web_result \<times> 's" where
  "map_web2 f r = (bind_web (fst r) (\<lambda>x. Inr (f x)), snd r)"

fun handle_account ::
  "('r, 'e) account_ops \<Rightarrow> account_env \<Rightarrow> account_request \<Rightarrow> ('r, 'e) account_state \<Rightarrow> account_response web_result \<times> ('r, 'e) account_state" where
  "handle_account ao env (RegisterAccount spec) st = map_web2 (\<lambda>a. AccountData (account_out a None)) (register_account ao env spec st)"
| "handle_account ao env (TokenByAlias x) st =
     map_web2 (\<lambda>(a, token). AccountData (account_out a (Some token))) (get_token_by_alias ao env x st, st)"
| "handle_account ao env (UpdateAccount spec) st = map_web2 (\<lambda>a. AccountData (account_out a None)) (update_account ao spec st)"
| "handle_account ao env (AddAlias i x) st = map_web2 AliasData (add_alias ao i x st)"
| "handle_account ao env (ListAliases i) st = map_web2 AliasPage (list_aliases ao i st, st)"
| "handle_account ao env (ListAccounts limit offset act) st =
     map_web2 (\<lambda>(rows, total). AccountPage (map (\<lambda>a. account_out a None) rows) total limit offset) (list_accounts ao limit offset act st, st)"
| "handle_account ao env (DeactivateAccount i) st = map_web2 (\<lambda>a. AccountOk) (deactivate_account ao i st)"

definition account_route ::
  "('r, 'e) account_ops \<Rightarrow> account_env \<Rightarrow> string \<Rightarrow> string option \<Rightarrow> string option \<Rightarrow> account_request \<Rightarrow> ('r, 'e) account_state
     \<Rightarrow> account_response web_result \<times> ('r, 'e) account_state" where
  "account_route ao env admin_key authorization api_key req st =
     (case require_admin admin_key authorization api_key of
        Inl e \<Rightarrow> (Inl e, st)
      | Inr _ \<Rightarrow> handle_account ao env req st)"

subsection \<open>Over SQL\<close>

definition sql_account_ops ::
  "(string \<Rightarrow> category option) \<Rightarrow> datetime \<Rightarrow> (sql_accounts \<Rightarrow> 'e \<Rightarrow> unit result \<times> 'e) \<Rightarrow> (sql_accounts, 'e) account_ops" where
  "sql_account_ops parse_cat now rec =
     \<lparr>to_get = qa_get parse_cat, to_by_alias = qa_get_by_alias parse_cat, to_alias_exists = qa_alias_exists, to_add = qa_add,
      to_add_alias = qa_add_alias now, to_list_aliases = qa_list_aliases, to_replace = qa_replace, to_list = qa_list parse_cat,
      to_count = qa_count, to_reconcile = rec\<rparr>"

lemma sql_account_ops_simps [simp]:
  "to_get (sql_account_ops parse_cat now rec) = qa_get parse_cat"
  "to_by_alias (sql_account_ops parse_cat now rec) = qa_get_by_alias parse_cat"
  "to_alias_exists (sql_account_ops parse_cat now rec) = qa_alias_exists" "to_add (sql_account_ops parse_cat now rec) = qa_add"
  "to_replace (sql_account_ops parse_cat now rec) = qa_replace" "to_count (sql_account_ops parse_cat now rec) = qa_count"
  "to_reconcile (sql_account_ops parse_cat now rec) = rec"
  by (simp_all add: sql_account_ops_def)

lemma run_reconcile_repo [simp]: "ts_repo (snd (run_reconcile ao x st)) = ts_repo st"
  by (simp add: run_reconcile_def split: prod.splits sum.splits)

lemma run_reconcile_Web: "fst (run_reconcile ao x st) \<noteq> Inl (Web e)"
  by (simp add: run_reconcile_def split: prod.splits sum.splits)

lemma run_reconcile_Inr: "fst (run_reconcile ao x st) = Inr y \<Longrightarrow> y = x"
  by (simp add: run_reconcile_def split: prod.splits sum.splits)

lemma register_check_facts:
  assumes "register_check ao env spec r = Inr acc"
  shows "\<not> to_alias_exists ao r (tc_alias spec)" "to_count ao True r < te_max_accounts env" "ac_active acc"
    "ac_id acc = te_fresh_id env" "ac_ciphertext acc = te_encrypt env (tc_token spec)"
    "those (map (te_parse_cat env) (tc_categories spec)) = Some (ac_categories acc)"
  using assms by (auto simp: register_check_def bind_web_Inr_iff split: if_splits option.splits)

lemma those_set: "those xs = Some ys \<Longrightarrow> y \<in> set ys \<Longrightarrow> Some y \<in> set xs"
proof (induction xs arbitrary: ys)
  case (Cons x xs)
  then show ?case by (cases x) auto
qed simp

lemma checked_fits:
  assumes "register_check ao env spec r = Inr acc" "length (te_fresh_id env) \<le> 64"
    "\<And>s c. te_parse_cat env s = Some c \<Longrightarrow> te_parse_cat env c = Some c"
  shows "acc_fits (te_parse_cat env) acc"
  using register_check_facts(4,6) [OF assms(1)] assms(2,3) those_set [of _ "ac_categories acc"]
  by (fastforce simp: acc_fits_def)

lemma insert_effect:
  assumes "qa_ok parse_cat (ts_repo st)" "acc_fits parse_cat acc" "length alias \<le> 128"
    "ac_id acc \<notin> set (dict_keys (qa_rows (ts_repo st)))" "\<not> qa_alias_exists (ts_repo st) alias"
  shows "\<exists>r. qa_add acc alias (ts_repo st) = (Inr (), r)
      \<and> register_insert (sql_account_ops parse_cat now rec) alias acc st
          = run_reconcile (sql_account_ops parse_cat now rec) acc (st\<lparr>ts_repo := r\<rparr>)
      \<and> qa_ok parse_cat r \<and> qa_get_by_alias parse_cat r alias = Inr (Some acc) \<and> qa_alias_exists r alias
      \<and> (\<forall>y. y \<noteq> alias \<longrightarrow> qa_alias_exists r y = qa_alias_exists (ts_repo st) y
            \<and> qa_get_by_alias parse_cat r y = qa_get_by_alias parse_cat (ts_repo st) y)
      \<and> set (dict_keys (qa_rows r)) = insert (ac_id acc) (set (dict_keys (qa_rows (ts_repo st))))
      \<and> qa_count True r = qa_count True (ts_repo st) + (if ac_active acc then 1 else 0)"
  using qacc.add_new [OF assms] by (fastforce simp: register_insert_def)

text \<open>A registration that succeeds is read back: the account with the token it was given comes back under
  its alias, active, other aliases resolve as before, and the number of active accounts has grown by one
  and is within the configured cap. A typed refusal changes nothing; after an untyped error either
  nothing changed or the account is stored.\<close>

theorem registered_token_read_back:
  assumes "qa_ok (te_parse_cat env) (ts_repo st)"
    and "register_account (sql_account_ops (te_parse_cat env) now rec) env spec st = (res, st')"
    and "te_decrypt env (te_encrypt env (tc_token spec)) = Inr (tc_token spec)"
    and "\<And>s c. te_parse_cat env s = Some c \<Longrightarrow> te_parse_cat env c = Some c"
    and "length (te_fresh_id env) \<le> 64" "length (tc_alias spec) \<le> 128" "te_fresh_id env \<notin> set (dict_keys (qa_rows (ts_repo st)))"
  shows "case res of
      Inr acc \<Rightarrow> get_token_by_alias (sql_account_ops (te_parse_cat env) now rec) env (tc_alias spec) st' = Inr (acc, tc_token spec)
        \<and> ac_active acc \<and> qa_ok (te_parse_cat env) (ts_repo st')
        \<and> qa_count True (ts_repo st') = qa_count True (ts_repo st) + 1 \<and> qa_count True (ts_repo st') \<le> te_max_accounts env
        \<and> (\<forall>y. y \<noteq> tc_alias spec \<longrightarrow> qa_get_by_alias (te_parse_cat env) (ts_repo st') y = qa_get_by_alias (te_parse_cat env) (ts_repo st) y)
    | Inl (Web e) \<Rightarrow> st' = st
    | Inl (Unhandled x) \<Rightarrow> st' = st \<or> qa_alias_exists (ts_repo st') (tc_alias spec)"
proof (cases "register_check (sql_account_ops (te_parse_cat env) now rec) env spec (ts_repo st)")
  case (Inl e)
  with assms(2) have "res = Inl e" "st' = st" by (simp_all add: register_account_def)
  then show ?thesis by (cases e) simp_all
next
  case (Inr acc)
  note f = register_check_facts [OF Inr, simplified]
  have fits: "acc_fits (te_parse_cat env) acc" using checked_fits [OF Inr assms(5)] assms(4) by blast
  obtain r where r: "register_insert (sql_account_ops (te_parse_cat env) now rec) (tc_alias spec) acc st
        = run_reconcile (sql_account_ops (te_parse_cat env) now rec) acc (st\<lparr>ts_repo := r\<rparr>)"
    "qa_ok (te_parse_cat env) r" "qa_get_by_alias (te_parse_cat env) r (tc_alias spec) = Inr (Some acc)" "qa_alias_exists r (tc_alias spec)"
    "\<forall>y. y \<noteq> tc_alias spec \<longrightarrow> qa_get_by_alias (te_parse_cat env) r y = qa_get_by_alias (te_parse_cat env) (ts_repo st) y"
    "qa_count True r = qa_count True (ts_repo st) + 1"
    using insert_effect [OF assms(1) fits assms(6), of now rec] f assms(7) by auto
  have run: "run_reconcile (sql_account_ops (te_parse_cat env) now rec) acc (st\<lparr>ts_repo := r\<rparr>) = (res, st')"
    using assms(2) Inr r(1) by (simp add: register_account_def)
  have repo: "ts_repo st' = r"
    using run_reconcile_repo [of "sql_account_ops (te_parse_cat env) now rec" acc "st\<lparr>ts_repo := r\<rparr>"] run by simp
  show ?thesis
  proof (cases res)
    case (Inl e)
    then show ?thesis
      using run_reconcile_Web [of "sql_account_ops (te_parse_cat env) now rec" acc "st\<lparr>ts_repo := r\<rparr>"] run repo r(4)
      by (cases e) auto
  next
    case [simp]: (Inr y)
    have "y = acc" using run_reconcile_Inr [of "sql_account_ops (te_parse_cat env) now rec" acc "st\<lparr>ts_repo := r\<rparr>"] run by simp
    then show ?thesis using r f assms(3) repo by (simp add: get_token_by_alias_def lift_result_def)
  qed
qed

text \<open>The cap does not hold under concurrency: each request has its own service and so its own lock, and two
  registrations that both checked the repository with one place left both insert, whatever their
  reconciliations do: one account more than the cap is active.\<close>

theorem concurrent_registrations_exceed_cap:
  assumes "qa_ok parse_cat (ts_repo st)" "qa_count True (ts_repo st) = te_max_accounts env1 - 1"
    and "register_check (sql_account_ops parse_cat now rec) env1 spec1 (ts_repo st) = Inr acc1"
    and "register_check (sql_account_ops parse_cat now rec) env2 spec2 (ts_repo st) = Inr acc2"
    and "acc_fits parse_cat acc1" "acc_fits parse_cat acc2" "length (tc_alias spec1) \<le> 128" "length (tc_alias spec2) \<le> 128"
    and "tc_alias spec1 \<noteq> tc_alias spec2" "ac_id acc1 \<noteq> ac_id acc2"
    and "ac_id acc1 \<notin> set (dict_keys (qa_rows (ts_repo st)))" "ac_id acc2 \<notin> set (dict_keys (qa_rows (ts_repo st)))"
  shows "\<exists>st1 st2. snd (register_insert (sql_account_ops parse_cat now rec) (tc_alias spec1) acc1 st) = st1
    \<and> snd (register_insert (sql_account_ops parse_cat now rec) (tc_alias spec2) acc2 st1) = st2
    \<and> qa_count True (ts_repo st2) = te_max_accounts env1 + 1"
proof -
  note f1 = register_check_facts [OF assms(3), simplified] and f2 = register_check_facts [OF assms(4), simplified]
  define st1 where "st1 = snd (register_insert (sql_account_ops parse_cat now rec) (tc_alias spec1) acc1 st)"
  have 1: "qa_ok parse_cat (ts_repo st1)" "qa_count True (ts_repo st1) = te_max_accounts env1"
    "ac_id acc2 \<notin> set (dict_keys (qa_rows (ts_repo st1)))" "\<not> qa_alias_exists (ts_repo st1) (tc_alias spec2)"
    using insert_effect [OF assms(1,5,7,11) f1(1), of now rec] f1(3) f2(1) assms(2,9,10,12) by (auto simp: st1_def simp del: set_map)
  then show ?thesis
    using insert_effect [OF 1(1) assms(6,8) 1(3,4), of now rec] f2(3) by (auto simp: st1_def)
qed

text \<open>An update back to active is not checked against the cap either.\<close>

lemma reactivation_ignores_cap:
  assumes "qa_ok parse_cat (ts_repo st)" "qa_get parse_cat (ts_repo st) i = Inr (Some acc)" "\<not> ac_active acc"
  shows "qa_count True (ts_repo (snd (update_account (sql_account_ops parse_cat now rec)
      \<lparr>tu_account_id = i, tu_metadata = None, tu_active = Some True\<rparr> st))) = qa_count True (ts_repo st) + 1"
proof -
  have i: "ac_id acc = i" "acc_fits parse_cat acc"
    using qacc.get_present [OF assms(1), of i] qacc.get_absent [OF assms(1), of i] assms(2) by fastforce+
  have "acc_fits parse_cat (acc\<lparr>ac_active := True\<rparr>)" using i(2) by (simp add: acc_fits_def)
  from qacc.replace_effect [OF assms(1) this, of acc] obtain r where
    "qa_replace (acc\<lparr>ac_active := True\<rparr>) (ts_repo st) = (Inr (), r)" "qa_count True r = qa_count True (ts_repo st) + 1"
    using i(1) assms(2,3) by auto
  then show ?thesis using assms(2) i(1)
    by (simp add: update_account_def get_account_def lift_result_def put_account_def)
qed

subsection \<open>Concrete runs\<close>

definition example_account_env :: "string \<Rightarrow> account_env" where
  "example_account_env i = \<lparr>te_max_accounts = 1, te_upstream = (\<lambda>t. TokenLive), te_encrypt = text_bytes,
     te_decrypt = (\<lambda>c. Inr (map (\<lambda>b. char_of (unat b)) c)), te_parse_cat = Some, te_now = the (from_timestamp_utc 0), te_fresh_id = i\<rparr>"

definition example_account_ops :: "(sql_accounts, unit) account_ops" where
  "example_account_ops = sql_account_ops Some (the (from_timestamp_utc 0)) (\<lambda>r e. (Inr (), e))"

definition example_account_spec :: "string \<Rightarrow> account_create" where
  "example_account_spec x = \<lparr>tc_token = ''secret'', tc_alias = x, tc_metadata = [], tc_categories = []\<rparr>"

abbreviation no_accounts :: sql_accounts where
  "no_accounts \<equiv> \<lparr>qa_rows = [], qa_aliases = []\<rparr>"

lemma no_accounts_ok: "qa_ok parse_cat no_accounts"
  by (simp add: qa_ok_def dict_ok_def)

theorem registered_token_read_back_witness:
  "\<exists>acc st'. register_account example_account_ops (example_account_env ''a'')
       (example_account_spec ''main'') \<lparr>ts_repo = no_accounts, ts_engine = ()\<rparr> = (Inr acc, st')
     \<and> get_token_by_alias example_account_ops (example_account_env ''a'') ''main'' st'
       = Inr (acc, ''secret'')"
proof -
  let ?ops = example_account_ops and ?env = "example_account_env ''a''"
  let ?st = "\<lparr>ts_repo = no_accounts, ts_engine = ()\<rparr>"
  obtain acc st' where reg: "register_account ?ops ?env (example_account_spec ''main'') ?st = (Inr acc, st')"
    by (simp add: example_account_ops_def register_account_def register_check_def qa_alias_exists_def example_account_spec_def example_account_env_def
        qa_count_def validate_upstream_def register_insert_def qa_add_def run_reconcile_def)
  have env: "te_parse_cat ?env = Some" "te_decrypt ?env (te_encrypt ?env t) = Inr t" for t
    by (simp_all add: example_account_env_def text_bytes_back)
  from registered_token_read_back [of ?env ?st, unfolded env(1), OF _ reg [unfolded example_account_ops_def] env(2)] reg show ?thesis
    by (simp add: example_account_ops_def no_accounts_ok example_account_env_def example_account_spec_def)
qed

theorem concurrent_registrations_exceed_cap_witness:
  "\<exists>acc1 acc2 st2. snd (register_insert example_account_ops ''y'' acc2
       (snd (register_insert example_account_ops ''x'' acc1
         \<lparr>ts_repo = no_accounts, ts_engine = ()\<rparr>))) = st2
     \<and> qa_count True (ts_repo st2) = te_max_accounts (example_account_env ''a'') + 1"
proof -
  let ?ops = example_account_ops
  let ?st = "\<lparr>ts_repo = no_accounts, ts_engine = ()\<rparr>"
  have check: "\<exists>acc. register_check ?ops (example_account_env i) (example_account_spec x) (ts_repo ?st) = Inr acc \<and> ac_id acc = i
      \<and> (length i \<le> 64 \<longrightarrow> acc_fits Some acc)" for i x
    by (simp add: example_account_ops_def register_check_def qa_alias_exists_def example_account_spec_def example_account_env_def qa_count_def
        validate_upstream_def acc_fits_def)
  obtain a1 where a1: "register_check ?ops (example_account_env ''a'') (example_account_spec ''x'') (ts_repo ?st) = Inr a1"
    "ac_id a1 = ''a''" "acc_fits Some a1" using check [of "''a''" "''x''"] by auto
  obtain a2 where a2: "register_check ?ops (example_account_env ''b'') (example_account_spec ''y'') (ts_repo ?st) = Inr a2"
    "ac_id a2 = ''b''" "acc_fits Some a2" using check [of "''b''" "''y''"] by auto
  have n: "qa_count True (ts_repo ?st) = te_max_accounts (example_account_env ''a'') - 1"
    by (simp add: qa_count_def example_account_env_def)
  have ok: "qa_ok Some (ts_repo ?st)" by (simp add: no_accounts_ok)
  from concurrent_registrations_exceed_cap [OF ok n a1(1) [unfolded example_account_ops_def] a2(1) [unfolded example_account_ops_def] a1(3) a2(3)] a1(2) a2(2) show ?thesis
    by (simp add: example_account_ops_def example_account_spec_def) blast
qed

end
