(* ===== verification/Account_Reconciler.thy ===== *)
theory Account_Reconciler
  imports Token_Admin Source_Manager Consumers "HOL-Library.Product_Lexorder"
begin

text \<open>
  The account reconciler (\<open>account/reconciler.py\<close>): the signature an account's source was built from, the
  cache of signatures, one pass over the active accounts that rebuilds the source of a changed account
  and tears down that of a gone one, and the seeding of accounts from the configured tokens. It acts on
  the source manager; a built source is recorded with the token and alias it polls with. The lock makes
  a pass atomic, so a pass is a function.
\<close>

subsection \<open>The signature\<close>

definition byte_repr :: "char \<Rightarrow> byte \<Rightarrow> string" where
  "byte_repr q b =
     (let n = unat b; c = (char_of n :: char) in
      if c = q \<or> c = backslash then [backslash, c]
      else if n = 9 then [backslash, CHR ''t''] else if n = 10 then [backslash, CHR ''n''] else if n = 13 then [backslash, CHR ''r'']
      else if n < 32 \<or> 127 \<le> n then [backslash, CHR ''x''] @ hex_byte b
      else [c])"

definition bytes_repr :: "byte list \<Rightarrow> string" where
  "bytes_repr bs =
     (let q = (if 39 \<in> set bs \<and> 34 \<notin> set bs then CHR 0x22 else CHR 0x27)
      in ''b'' @ [q] @ concat (map (byte_repr q) bs) @ [q])"

text \<open>The \<open>repr\<close> of a tuple of pairs of texts; a tuple of one element ends in a comma.\<close>

definition pair_repr :: "string \<times> string \<Rightarrow> string" where
  "pair_repr p = ''('' @ py_repr_str (fst p) @ '', '' @ py_repr_str (snd p) @ '')''"

definition items_repr :: "(string \<times> string) list \<Rightarrow> string" where
  "items_repr ps = ''('' @ sep_join '', '' (map pair_repr ps) @ (if length ps = 1 then '','' else []) @ '')''"

definition account_signature :: "account \<Rightarrow> string" where
  "account_signature a = sha256_hex (ac_id a @ '':'' @ bytes_repr (ac_ciphertext a) @ '':''
     @ items_repr (sort (ac_metadata a)) @ '':'' @ (if ac_active a then ''True'' else ''False''))"

definition rating_source_name :: "string \<Rightarrow> string" where
  "rating_source_name i = ''account:'' @ i @ '':rating''"

subsection \<open>One pass\<close>

record built_source =
  bu_token :: string
  bu_alias :: "string option"

text \<open>The engine as the reconciler sees it: its manager and the sources built so far, numbered.\<close>

record account_engine =
  ae_manager :: manager
  ae_built :: "built_source list"
  ae_cache :: "(string, string) dict"

definition remove_source_safe :: "string \<Rightarrow> account_engine \<Rightarrow> account_engine" where
  "remove_source_safe name eng =
     (case remove_source name (ae_manager eng) of Inl x \<Rightarrow> eng | Inr m \<Rightarrow> eng\<lparr>ae_manager := m\<rparr>)"

definition primary_alias :: "account_alias list \<Rightarrow> string option" where
  "primary_alias rows = map_option al_alias (find al_primary rows)"

definition add_account_sources ::
  "(byte list \<Rightarrow> box_error + string) \<Rightarrow> (string \<Rightarrow> account_alias list) \<Rightarrow> cadence \<Rightarrow> account \<Rightarrow> account_engine \<Rightarrow> account_engine" where
  "add_account_sources decrypt aliases cad a eng =
     (case decrypt (ac_ciphertext a) of
        Inl e \<Rightarrow> eng
      | Inr token \<Rightarrow>
          (let eng' = eng\<lparr>ae_built := ae_built eng @ [\<lparr>bu_token = token, bu_alias = primary_alias (aliases (ac_id a))\<rparr>]\<rparr> in
           case add_source \<lparr>sr_name = rating_source_name (ac_id a), sr_id = length (ae_built eng), sr_cadence = cad\<rparr> (ae_manager eng) of
             Inl x \<Rightarrow> eng'
           | Inr m \<Rightarrow> eng'\<lparr>ae_manager := m\<rparr>))"

definition reconcile_account ::
  "(byte list \<Rightarrow> box_error + string) \<Rightarrow> (string \<Rightarrow> account_alias list) \<Rightarrow> cadence \<Rightarrow> account \<Rightarrow> account_engine \<Rightarrow> account_engine" where
  "reconcile_account decrypt aliases cad a eng =
     (if map_of (ae_cache eng) (ac_id a) = Some (account_signature a) then eng
      else
        (let eng1 = (if ac_id a \<in> set (dict_keys (ae_cache eng)) then remove_source_safe (rating_source_name (ac_id a)) eng else eng);
             eng2 = add_account_sources decrypt aliases cad a eng1
         in eng2\<lparr>ae_cache := AList.update (ac_id a) (account_signature a) (ae_cache eng2)\<rparr>))"

definition drop_stale :: "string \<Rightarrow> account_engine \<Rightarrow> account_engine" where
  "drop_stale i eng =
     (let eng' = remove_source_safe (rating_source_name i) eng in eng'\<lparr>ae_cache := AList.delete i (ae_cache eng')\<rparr>)"

definition reconcile_pass ::
  "(byte list \<Rightarrow> box_error + string) \<Rightarrow> (string \<Rightarrow> account_alias list) \<Rightarrow> cadence \<Rightarrow> account list \<Rightarrow> account_engine \<Rightarrow> account_engine" where
  "reconcile_pass decrypt aliases cad accounts eng =
     (let eng1 = fold (reconcile_account decrypt aliases cad) accounts eng
      in fold drop_stale (filter (\<lambda>i. i \<notin> set (map ac_id accounts)) (dict_keys (ae_cache eng1))) eng1)"

definition reconcile_accounts ::
  "(byte list \<Rightarrow> box_error + string) \<Rightarrow> (string \<Rightarrow> category option) \<Rightarrow> cadence \<Rightarrow> sql_accounts \<Rightarrow> account_engine
     \<Rightarrow> unit result \<times> account_engine" where
  "reconcile_accounts decrypt parse_cat cad r eng =
     (case qa_list_active parse_cat r of
        Inl x \<Rightarrow> (Inl x, eng)
      | Inr accounts \<Rightarrow> (Inr (), reconcile_pass decrypt (qa_list_aliases r) cad accounts eng))"

subsection \<open>Seeding\<close>

definition env_alias :: "nat \<Rightarrow> string" where
  "env_alias i = ''env-'' @ str_int (int i)"

fun seed_tokens ::
  "('r, 'e) account_ops \<Rightarrow> (string \<Rightarrow> byte list) \<Rightarrow> datetime \<Rightarrow> (nat \<Rightarrow> string) \<Rightarrow> nat \<Rightarrow> string list \<Rightarrow> 'r \<Rightarrow> unit web_result \<times> 'r" where
  "seed_tokens ao encrypt now fresh_id i [] r = (Inr (), r)"
| "seed_tokens ao encrypt now fresh_id i (token # tokens) r =
     (if to_alias_exists ao r (env_alias i) then seed_tokens ao encrypt now fresh_id (i + 1) tokens r
      else (case to_add ao \<lparr>ac_id = fresh_id i, ac_ciphertext = encrypt token, ac_created_at = now, ac_metadata = [],
                            ac_categories = [], ac_active = True\<rparr> (env_alias i) r of
              (Inl e, r') \<Rightarrow> (Inl e, r')
            | (Inr _, r') \<Rightarrow> seed_tokens ao encrypt now fresh_id (i + 1) tokens r'))"

subsection \<open>Facts about a pass\<close>

definition live_source :: "account_engine \<Rightarrow> string \<Rightarrow> built_source option" where
  "live_source eng i =
     map_option (\<lambda>src. ae_built eng ! sr_id src) (map_of (sm_sources (ae_manager eng)) (rating_source_name i))"

text \<open>Every account source of the manager was built here and has its signature in the cache.\<close>

definition reconciler_ok :: "account_engine \<Rightarrow> bool" where
  "reconciler_ok eng \<longleftrightarrow> dict_ok (ae_cache eng) \<and> dict_ok (sm_sources (ae_manager eng))
     \<and> (\<forall>i src. map_of (sm_sources (ae_manager eng)) (rating_source_name i) = Some src
           \<longrightarrow> i \<in> set (dict_keys (ae_cache eng)) \<and> sr_id src < length (ae_built eng))"

lemma rating_source_name_inj: "rating_source_name i = rating_source_name j \<longleftrightarrow> i = j"
  by (simp add: rating_source_name_def)

lemma remove_source_safe_sources:
  "map_of (sm_sources (ae_manager (remove_source_safe n eng))) m = (if m = n then None else map_of (sm_sources (ae_manager eng)) m)"
  "dict_ok (sm_sources (ae_manager eng)) \<Longrightarrow> dict_ok (sm_sources (ae_manager (remove_source_safe n eng)))"
  "ae_built (remove_source_safe n eng) = ae_built eng" "ae_cache (remove_source_safe n eng) = ae_cache eng"
  by (auto simp: remove_source_safe_def remove_source_def dict_simps map_of_eq_None_iff)

lemma live_remove:
  "live_source (remove_source_safe (rating_source_name i) eng) j = (if j = i then None else live_source eng j)"
  by (simp add: live_source_def remove_source_safe_sources rating_source_name_inj)

text \<open>Building the source of an account that has none.\<close>

definition fresh_live :: "(byte list \<Rightarrow> box_error + string) \<Rightarrow> (string \<Rightarrow> account_alias list) \<Rightarrow> account \<Rightarrow> built_source option" where
  "fresh_live decrypt aliases a =
     (case decrypt (ac_ciphertext a) of Inl e \<Rightarrow> None
      | Inr token \<Rightarrow> Some \<lparr>bu_token = token, bu_alias = primary_alias (aliases (ac_id a))\<rparr>)"

lemma add_account_live:
  assumes "dict_ok (sm_sources (ae_manager eng))" "map_of (sm_sources (ae_manager eng)) (rating_source_name (ac_id a)) = None"
    and "\<And>i src. map_of (sm_sources (ae_manager eng)) (rating_source_name i) = Some src \<Longrightarrow> sr_id src < length (ae_built eng)"
  shows "live_source (add_account_sources decrypt aliases cad a eng) j = (if j = ac_id a then fresh_live decrypt aliases a else live_source eng j)"
    and "dict_ok (sm_sources (ae_manager (add_account_sources decrypt aliases cad a eng)))"
    and "map_of (sm_sources (ae_manager (add_account_sources decrypt aliases cad a eng))) (rating_source_name i) = Some src
           \<Longrightarrow> (i = ac_id a \<or> map_of (sm_sources (ae_manager eng)) (rating_source_name i) = Some src)
              \<and> sr_id src < length (ae_built (add_account_sources decrypt aliases cad a eng))"
    and "ae_cache (add_account_sources decrypt aliases cad a eng) = ae_cache eng"
proof -
  let ?n = "rating_source_name (ac_id a)"
  show "ae_cache (add_account_sources decrypt aliases cad a eng) = ae_cache eng"
    by (simp add: add_account_sources_def Let_def split: sum.splits)
  have old: "live_source eng (ac_id a) = None" using assms(2) by (simp add: live_source_def)
  have new: "?n \<notin> set (dict_keys (sm_sources (ae_manager eng)))" using assms(2) by (simp only: map_of_eq_None_iff set_map not_False_eq_True)
  show "live_source (add_account_sources decrypt aliases cad a eng) j = (if j = ac_id a then fresh_live decrypt aliases a else live_source eng j)"
  proof (cases "decrypt (ac_ciphertext a)")
    case (Inr token)
    have "sr_id src < length (ae_built eng)" if "map_of (sm_sources (ae_manager eng)) (rating_source_name j) = Some src" for src
      using assms(3) that by blast
    then show ?thesis using new Inr
      by (cases "map_of (sm_sources (ae_manager eng)) (rating_source_name j)")
        (auto simp: add_account_sources_def add_source_def register_source_def live_source_def fresh_live_def
          dict_simps rating_source_name_inj nth_append)
  qed (use old in \<open>simp add: add_account_sources_def fresh_live_def\<close>)
  show "dict_ok (sm_sources (ae_manager (add_account_sources decrypt aliases cad a eng)))"
    using assms(1) new by (auto simp: add_account_sources_def add_source_def register_source_def split: sum.splits)
  show "(i = ac_id a \<or> map_of (sm_sources (ae_manager eng)) (rating_source_name i) = Some src)
      \<and> sr_id src < length (ae_built (add_account_sources decrypt aliases cad a eng))"
    if "map_of (sm_sources (ae_manager (add_account_sources decrypt aliases cad a eng))) (rating_source_name i) = Some src"
    using that assms(3) new
    by (cases "decrypt (ac_ciphertext a)")
      (fastforce simp: add_account_sources_def add_source_def register_source_def dict_simps rating_source_name_inj
        split: if_splits)+
qed

lemma reconcile_account_effect:
  assumes ok: "reconciler_ok eng"
  shows "reconciler_ok (reconcile_account decrypt aliases cad a eng)"
    and "map_of (ae_cache (reconcile_account decrypt aliases cad a eng)) i
      = (if i = ac_id a then Some (account_signature a) else map_of (ae_cache eng) i)"
    and "live_source (reconcile_account decrypt aliases cad a eng) j
      = (if j = ac_id a \<and> map_of (ae_cache eng) j \<noteq> Some (account_signature a) then fresh_live decrypt aliases a else live_source eng j)"
proof -
  let ?n = "rating_source_name (ac_id a)"
  define e1 where "e1 = (if ac_id a \<in> set (dict_keys (ae_cache eng)) then remove_source_safe ?n eng else eng)"
  define e2 where "e2 = add_account_sources decrypt aliases cad a e1"
  have o: "dict_ok (sm_sources (ae_manager eng))" "dict_ok (ae_cache eng)"
    "\<And>i src. map_of (sm_sources (ae_manager eng)) (rating_source_name i) = Some src \<Longrightarrow> i \<in> set (dict_keys (ae_cache eng)) \<and> sr_id src < length (ae_built eng)"
    using ok by (auto simp: reconciler_ok_def)
  have e1: "dict_ok (sm_sources (ae_manager e1))" "map_of (sm_sources (ae_manager e1)) ?n = None"
    "map_of (sm_sources (ae_manager e1)) (rating_source_name i) = Some src
       \<Longrightarrow> map_of (sm_sources (ae_manager eng)) (rating_source_name i) = Some src \<and> sr_id src < length (ae_built e1)"
    "ae_cache e1 = ae_cache eng" "j \<noteq> ac_id a \<Longrightarrow> live_source e1 j = live_source eng j" for i src j
    using o by (cases "map_of (sm_sources (ae_manager eng)) ?n";
        auto simp: e1_def remove_source_safe_sources live_remove rating_source_name_inj simp del: set_map split: if_splits)+
  note add = add_account_live [OF e1(1,2), of decrypt aliases cad, folded e2_def]
  have e3: "reconcile_account decrypt aliases cad a eng = (if map_of (ae_cache eng) (ac_id a) = Some (account_signature a) then eng
      else e2\<lparr>ae_cache := AList.update (ac_id a) (account_signature a) (ae_cache eng)\<rparr>)"
    using add(4) e1(3,4) by (simp add: reconcile_account_def Let_def e1_def e2_def)
  show "map_of (ae_cache (reconcile_account decrypt aliases cad a eng)) i
      = (if i = ac_id a then Some (account_signature a) else map_of (ae_cache eng) i)" by (simp add: e3 dict_simps)
  have live3: "live_source (e2\<lparr>ae_cache := c\<rparr>) k = live_source e2 k" for c k by (simp add: live_source_def)
  show "live_source (reconcile_account decrypt aliases cad a eng) j
      = (if j = ac_id a \<and> map_of (ae_cache eng) j \<noteq> Some (account_signature a) then fresh_live decrypt aliases a else live_source eng j)"
    using add(1) [of j] e1(3,5) by (cases "j = ac_id a") (auto simp: e3 live3)
  show "reconciler_ok (reconcile_account decrypt aliases cad a eng)"
  proof (cases "map_of (ae_cache eng) (ac_id a) = Some (account_signature a)")
    case False
    have "(i = ac_id a \<or> i \<in> set (dict_keys (ae_cache eng))) \<and> sr_id src < length (ae_built e2)"
      if "map_of (sm_sources (ae_manager e2)) (rating_source_name i) = Some src" for i src
      using add(3) [of i src] that e1(3) o(3) by blast
    then show ?thesis using add(2) e1(3) o(2) False
      by (fastforce simp: e3 reconciler_ok_def)
  qed (use ok e3 in simp)
qed

lemma reconcile_accounts_fold:
  assumes "reconciler_ok eng" "distinct (map ac_id accounts)"
  shows "reconciler_ok (fold (reconcile_account decrypt aliases cad) accounts eng)
    \<and> (\<forall>i. map_of (ae_cache (fold (reconcile_account decrypt aliases cad) accounts eng)) i
        = (case find (\<lambda>a. ac_id a = i) accounts of None \<Rightarrow> map_of (ae_cache eng) i | Some a \<Rightarrow> Some (account_signature a)))
    \<and> (\<forall>i. live_source (fold (reconcile_account decrypt aliases cad) accounts eng) i
        = (case find (\<lambda>a. ac_id a = i) accounts of None \<Rightarrow> live_source eng i
           | Some a \<Rightarrow> if map_of (ae_cache eng) i = Some (account_signature a) then live_source eng i else fresh_live decrypt aliases a))"
  using assms
proof (induction accounts arbitrary: eng)
  case (Cons a accounts)
  note e = reconcile_account_effect [OF Cons.prems(1), of decrypt aliases cad a]
  have IH: "reconciler_ok (fold (reconcile_account decrypt aliases cad) accounts (reconcile_account decrypt aliases cad a eng))"
    "map_of (ae_cache (fold (reconcile_account decrypt aliases cad) accounts (reconcile_account decrypt aliases cad a eng))) i
        = (case find (\<lambda>a. ac_id a = i) accounts of None \<Rightarrow> map_of (ae_cache (reconcile_account decrypt aliases cad a eng)) i
           | Some a \<Rightarrow> Some (account_signature a))"
    "live_source (fold (reconcile_account decrypt aliases cad) accounts (reconcile_account decrypt aliases cad a eng)) i
        = (case find (\<lambda>a. ac_id a = i) accounts of None \<Rightarrow> live_source (reconcile_account decrypt aliases cad a eng) i
           | Some b \<Rightarrow> if map_of (ae_cache (reconcile_account decrypt aliases cad a eng)) i = Some (account_signature b)
                        then live_source (reconcile_account decrypt aliases cad a eng) i else fresh_live decrypt aliases b)" for i
    using Cons.IH [OF e(1)] Cons.prems(2) by auto
  have n: "find (\<lambda>b. ac_id b = ac_id a) accounts = None"
    using Cons.prems(2) by (auto simp: find_None_iff) (metis image_eqI)
  have "ac_id b \<noteq> ac_id a" if "find (\<lambda>b. ac_id b = i) accounts = Some b" for b i
    using that Cons.prems(2) by (auto simp: find_Some_iff) (metis image_eqI nth_mem)
  then have other: "find (\<lambda>b. ac_id b = i) accounts = Some b \<Longrightarrow> i \<noteq> ac_id a" for b i by (auto simp: find_Some_iff)
  show ?case
  proof (intro conjI allI)
    fix i
    show "map_of (ae_cache (fold (reconcile_account decrypt aliases cad) (a # accounts) eng)) i
        = (case find (\<lambda>a. ac_id a = i) (a # accounts) of None \<Rightarrow> map_of (ae_cache eng) i | Some a \<Rightarrow> Some (account_signature a))"
      using n other [of i] by (cases "find (\<lambda>b. ac_id b = i) accounts") (auto simp: IH e)
    show "live_source (fold (reconcile_account decrypt aliases cad) (a # accounts) eng) i
        = (case find (\<lambda>a. ac_id a = i) (a # accounts) of None \<Rightarrow> live_source eng i
           | Some a \<Rightarrow> if map_of (ae_cache eng) i = Some (account_signature a) then live_source eng i else fresh_live decrypt aliases a)"
      using n other [of i] by (cases "find (\<lambda>b. ac_id b = i) accounts") (auto simp: IH e)
  qed (use IH(1) in simp)
qed simp

lemma drop_stale_effect:
  assumes "reconciler_ok eng"
  shows "reconciler_ok (drop_stale i eng)"
    and "map_of (ae_cache (drop_stale i eng)) j = (if j = i then None else map_of (ae_cache eng) j)"
    and "live_source (drop_stale i eng) j = (if j = i then None else live_source eng j)"
proof -
  let ?e = "remove_source_safe (rating_source_name i) eng"
  have e: "drop_stale i eng = ?e\<lparr>ae_cache := AList.delete i (ae_cache eng)\<rparr>"
    by (simp add: drop_stale_def Let_def remove_source_safe_sources)
  show "map_of (ae_cache (drop_stale i eng)) j = (if j = i then None else map_of (ae_cache eng) j)" by (simp add: e dict_simps)
  have "live_source (drop_stale i eng) j = live_source ?e j" by (simp add: e live_source_def)
  then show "live_source (drop_stale i eng) j = (if j = i then None else live_source eng j)" by (simp add: live_remove)
  show "reconciler_ok (drop_stale i eng)"
    using assms by (fastforce simp: e reconciler_ok_def remove_source_safe_sources rating_source_name_inj split: if_splits)
qed

lemma drop_stale_fold:
  assumes "reconciler_ok eng"
  shows "reconciler_ok (fold drop_stale is eng)
    \<and> (\<forall>j. map_of (ae_cache (fold drop_stale is eng)) j = (if j \<in> set is then None else map_of (ae_cache eng) j))
    \<and> (\<forall>j. live_source (fold drop_stale is eng) j = (if j \<in> set is then None else live_source eng j))"
  using assms by (induction "is" arbitrary: eng) (auto simp: drop_stale_effect)

subsection \<open>Properties\<close>

lemma reconcile_pass_effect:
  assumes "reconciler_ok eng" "distinct (map ac_id accounts)"
  shows "reconciler_ok (reconcile_pass decrypt aliases cad accounts eng)
    \<and> (\<forall>i. map_of (ae_cache (reconcile_pass decrypt aliases cad accounts eng)) i
        = map_option account_signature (find (\<lambda>a. ac_id a = i) accounts))
    \<and> (\<forall>i. live_source (reconcile_pass decrypt aliases cad accounts eng) i
        = (case find (\<lambda>a. ac_id a = i) accounts of None \<Rightarrow> None
           | Some a \<Rightarrow> if map_of (ae_cache eng) i = Some (account_signature a) then live_source eng i else fresh_live decrypt aliases a))"
proof -
  define e1 where "e1 = fold (reconcile_account decrypt aliases cad) accounts eng"
  let ?stale = "filter (\<lambda>i. i \<notin> set (map ac_id accounts)) (dict_keys (ae_cache e1))"
  note f = reconcile_accounts_fold [OF assms, of decrypt aliases cad, folded e1_def]
  then have d: "reconciler_ok (fold drop_stale ?stale e1)
    \<and> (\<forall>j. map_of (ae_cache (fold drop_stale ?stale e1)) j = (if j \<in> set ?stale then None else map_of (ae_cache e1) j))
    \<and> (\<forall>j. live_source (fold drop_stale ?stale e1) j = (if j \<in> set ?stale then None else live_source e1 j))"
    by (intro drop_stale_fold) simp
  have pass: "reconcile_pass decrypt aliases cad accounts eng = fold drop_stale ?stale e1"
    by (simp add: reconcile_pass_def e1_def Let_def)
  have gone: "find (\<lambda>a. ac_id a = i) accounts = None \<longleftrightarrow> i \<notin> set (map ac_id accounts)" for i
    by (auto simp: find_None_iff)
  have unknown: "live_source e1 i = None" if "i \<notin> set (dict_keys (ae_cache e1))" for i
    using f that by (cases "map_of (sm_sources (ae_manager e1)) (rating_source_name i)") (auto simp: reconciler_ok_def live_source_def simp del: set_map)
  have stale: "i \<in> set ?stale \<longleftrightarrow> i \<notin> set (map ac_id accounts) \<and> i \<in> set (dict_keys (ae_cache e1))" for i by auto
  show ?thesis
  proof (intro conjI allI)
    show "reconciler_ok (reconcile_pass decrypt aliases cad accounts eng)" using d pass by simp
  next
    fix i
    show "map_of (ae_cache (reconcile_pass decrypt aliases cad accounts eng)) i
        = map_option account_signature (find (\<lambda>a. ac_id a = i) accounts)"
    proof (cases "find (\<lambda>a. ac_id a = i) accounts")
      case None
      then have "map_of (ae_cache e1) i = None \<or> i \<in> set ?stale"
        using gone [of i] stale [of i] map_of_eq_None_iff [of "ae_cache e1" i] by (simp only: set_map) blast
      with d pass None show ?thesis by (auto simp del: set_filter set_map)
    next
      case (Some a)
      then have "i \<in> set (map ac_id accounts)" using gone [of i] by (metis option.distinct(1))
      then have "i \<notin> set ?stale" by auto
      with d f pass Some show ?thesis by (simp del: set_filter)
    qed
    show "live_source (reconcile_pass decrypt aliases cad accounts eng) i
        = (case find (\<lambda>a. ac_id a = i) accounts of None \<Rightarrow> None
           | Some a \<Rightarrow> if map_of (ae_cache eng) i = Some (account_signature a) then live_source eng i else fresh_live decrypt aliases a)"
    proof (cases "find (\<lambda>a. ac_id a = i) accounts")
      case None
      then have "i \<in> set ?stale \<or> i \<notin> set (dict_keys (ae_cache e1))" using gone [of i] stale [of i] by (simp only: set_map) blast
      with d pass None unknown [of i] show ?thesis by (auto simp del: set_filter set_map)
    next
      case (Some a)
      then have "i \<in> set (map ac_id accounts)" using gone [of i] by (metis option.distinct(1))
      then have "i \<notin> set ?stale" by auto
      with d f pass Some show ?thesis by (simp del: set_filter)
    qed
  qed
qed

lemma read_accounts_all:
  "\<forall>row\<in>set rows. \<exists>a. acc_fits parse_cat a \<and> row = acc_to_row a
     \<Longrightarrow> \<exists>accounts. read_accounts parse_cat rows = Inr accounts \<and> map acc_to_row accounts = rows \<and> list_all (acc_fits parse_cat) accounts"
proof (induction rows)
  case (Cons row rows)
  then obtain accounts a where "read_accounts parse_cat rows = Inr accounts" "map acc_to_row accounts = rows"
    "list_all (acc_fits parse_cat) accounts" "acc_fits parse_cat a" "row = acc_to_row a" by auto
  then show ?case by (intro exI [of _ "a # accounts"]) (simp add: acc_roundtrip)
qed simp

lemma acc_to_row_inj: "acc_to_row a = acc_to_row b \<longleftrightarrow> a = b"
  by (cases a; cases b) (auto simp: acc_to_row_def)

text \<open>The active accounts of a well-formed repository.\<close>

lemma list_active_accounts:
  assumes ok: "qa_ok parse_cat r"
  shows "\<exists>accounts. qa_list_active parse_cat r = Inr accounts \<and> distinct (map ac_id accounts)
    \<and> (\<forall>i. find (\<lambda>a. ac_id a = i) accounts
        = (case qa_get parse_cat r i of Inr (Some a) \<Rightarrow> if ac_active a then Some a else None | _ \<Rightarrow> None))"
proof -
  let ?ps = "filter (\<lambda>(i, row). qr_active row) (qa_rows r)"
  have rows: "filter qr_active (map snd (qa_rows r)) = map snd ?ps" by (induction "qa_rows r") (simp_all add: filter_map comp_def case_prod_beta)
  have "\<forall>row\<in>set (map snd ?ps). \<exists>a. acc_fits parse_cat a \<and> row = acc_to_row a" using ok by (fastforce simp: qa_ok_def)
  from read_accounts_all [OF this] obtain accounts where a: "read_accounts parse_cat (map snd ?ps) = Inr accounts"
    "map acc_to_row accounts = map snd ?ps" "list_all (acc_fits parse_cat) accounts" by blast
  have "qr_account_id row = i" if "(i, row) \<in> set (qa_rows r)" for i row using ok that by (force simp: qa_ok_def acc_to_row_def)
  then have "map qr_account_id (map snd ?ps) = map fst ?ps" by (auto simp: map_eq_conv)
  then have ids: "map ac_id accounts = map fst ?ps"
    using a(2) by (metis (no_types, lifting) acc_to_row_def account_row.select_convs(1) comp_apply map_eq_conv map_map)
  have dp: "distinct (map fst ?ps)" using ok by (intro distinct_map_filter_ids) (simp add: qa_ok_def dict_ok_def)
  have find: "find (\<lambda>a. ac_id a = i) accounts
      = (case qa_get parse_cat r i of Inr (Some a) \<Rightarrow> if ac_active a then Some a else None | _ \<Rightarrow> None)" for i
  proof (cases "map_of (qa_rows r) i")
    case None
    then have "i \<notin> set (map ac_id accounts)" unfolding ids by (auto dest: map_of_SomeD simp: map_of_eq_None_iff image_iff)
    then have "find (\<lambda>a. ac_id a = i) accounts = None" by (auto simp: find_None_iff)
    then show ?thesis using None by (simp add: qa_get_def)
  next
    case (Some row)
    from qa_get_stored [OF ok Some] obtain acc where acc: "qa_get parse_cat r i = Inr (Some acc)" "ac_id acc = i"
      "acc_fits parse_cat acc" "row = acc_to_row acc" by blast
    have inj: "b = acc" if "b \<in> set accounts" "ac_id b = i" for b
    proof -
      have "acc_to_row b \<in> set (map snd ?ps)" using that(1) by (simp flip: a(2))
      then obtain j where j: "(j, acc_to_row b) \<in> set (qa_rows r)" by auto
      then have "j = i" using ok that(2) by (force simp: qa_ok_def acc_to_row_def)
      with j Some have "acc_to_row b = row" using ok by (auto simp: qa_ok_def map_of_mem_dict)
      with acc(4) show ?thesis by (simp add: acc_to_row_inj)
    qed
    have mem: "acc \<in> set accounts" if "ac_active acc"
    proof -
      have "row \<in> set (map snd ?ps)" using map_of_SomeD [OF Some] that acc(4) by (force simp: acc_to_row_def)
      then have "row \<in> acc_to_row ` set accounts" by (simp flip: a(2))
      with acc(4) show ?thesis by (auto simp: acc_to_row_inj)
    qed
    have "ac_active b" if "b \<in> set accounts" for b
    proof -
      have "acc_to_row b \<in> set (map snd ?ps)" using that by (simp flip: a(2))
      then show ?thesis by (auto simp: acc_to_row_def)
    qed
    moreover have "b \<in> set accounts \<and> ac_id b = i" if "find (\<lambda>a. ac_id a = i) accounts = Some b" for b
      using that by (auto simp: find_Some_iff)
    ultimately have hit: "b = acc \<and> ac_active acc" if "find (\<lambda>a. ac_id a = i) accounts = Some b" for b
      using inj that by blast
    have "find (\<lambda>a. ac_id a = i) accounts \<noteq> None" if "ac_active acc"
      using mem [OF that] acc(2) unfolding find_None_iff by blast
    with hit have "find (\<lambda>a. ac_id a = i) accounts = (if ac_active acc then Some acc else None)"
      by (cases "find (\<lambda>a. ac_id a = i) accounts") auto
    then show ?thesis by (simp add: acc(1))
  qed
  have "qa_list_active parse_cat r = Inr accounts" using a(1) rows by (simp add: qa_list_active_def)
  moreover have "distinct (map ac_id accounts)" using ids dp by simp
  ultimately show ?thesis using find by blast
qed

lemma reconciled_source:
  assumes "qa_ok parse_cat r" "reconciler_ok eng"
  shows "\<exists>eng'. reconcile_accounts decrypt parse_cat cad r eng = (Inr (), eng') \<and> reconciler_ok eng'
    \<and> (\<forall>i. map_of (ae_cache eng') i = (case qa_get parse_cat r i of
          Inr (Some a) \<Rightarrow> if ac_active a then Some (account_signature a) else None | _ \<Rightarrow> None))
    \<and> (\<forall>i. live_source eng' i = (case qa_get parse_cat r i of
          Inr (Some a) \<Rightarrow> if \<not> ac_active a then None
                        else if map_of (ae_cache eng) i = Some (account_signature a) then live_source eng i
                        else fresh_live decrypt (qa_list_aliases r) a
        | _ \<Rightarrow> None))"
proof -
  from assms(1) obtain accounts where a: "qa_list_active parse_cat r = Inr accounts" "distinct (map ac_id accounts)"
    "\<And>i. find (\<lambda>a. ac_id a = i) accounts
        = (case qa_get parse_cat r i of Inr (Some a) \<Rightarrow> if ac_active a then Some a else None | _ \<Rightarrow> None)"
    using list_active_accounts [OF assms(1)] by blast
  from reconcile_pass_effect [OF assms(2) a(2), of decrypt "qa_list_aliases r" cad] show ?thesis
    by (intro exI [of _ "reconcile_pass decrypt (qa_list_aliases r) cad accounts eng"])
      (auto simp: reconcile_accounts_def a(1) a(3) split: sum.split option.split)
qed


text \<open>An account whose token does not decrypt is given up, not retried: its signature enters the cache all
  the same, so the next pass, with a box that could decrypt it, leaves it without a source.\<close>

theorem failed_decrypt_not_retried:
  assumes "qa_ok parse_cat r" "reconciler_ok eng" "qa_get parse_cat r i = Inr (Some a)" "ac_active a"
    and "map_of (ae_cache eng) i \<noteq> Some (account_signature a)" "decrypt (ac_ciphertext a) = Inl e"
  shows "\<exists>eng' eng''. reconcile_accounts decrypt parse_cat cad r eng = (Inr (), eng') \<and> live_source eng' i = None
    \<and> reconcile_accounts decrypt' parse_cat cad r eng' = (Inr (), eng'') \<and> live_source eng'' i = None"
proof -
  obtain eng' where 1: "reconcile_accounts decrypt parse_cat cad r eng = (Inr (), eng')" "reconciler_ok eng'"
    "map_of (ae_cache eng') i = Some (account_signature a)" "live_source eng' i = None"
    using reconciled_source [OF assms(1,2), of decrypt cad] assms(3-6) by (fastforce simp: fresh_live_def)
  obtain eng'' where 2: "reconcile_accounts decrypt' parse_cat cad r eng' = (Inr (), eng'')" "live_source eng'' i = None"
    using reconciled_source [OF assms(1) 1(2), of decrypt' cad] assms(3,4) 1(3,4) by fastforce
  show ?thesis using 1 2 by blast
qed

subsection \<open>The service over the reconciler\<close>

definition live_account_ops ::
  "account_env \<Rightarrow> datetime \<Rightarrow> cadence \<Rightarrow> (sql_accounts, account_engine) account_ops" where
  "live_account_ops env now cad =
     sql_account_ops (te_parse_cat env) now (reconcile_accounts (te_decrypt env) (te_parse_cat env) cad)"

lemma no_alias_of_absent:
  "qa_ok parse_cat r \<Longrightarrow> i \<notin> set (dict_keys (qa_rows r)) \<Longrightarrow> qa_list_aliases r i = []"
  by (fastforce simp: qa_list_aliases_def qa_ok_def filter_empty_conv)

text \<open>A registration over the running engine that succeeds leaves a source polling with exactly the token it
  was given, under the alias it was given; the sources of other accounts are rebuilt or kept as their
  signatures say.\<close>

theorem registered_account_polls:
  assumes "qa_ok (te_parse_cat env) (ts_repo st)" "reconciler_ok (ts_engine st)"
    and "register_account (live_account_ops env now cad) env spec st = (Inr acc, st')"
    and "te_decrypt env (te_encrypt env (tc_token spec)) = Inr (tc_token spec)"
    and "\<And>s c. te_parse_cat env s = Some c \<Longrightarrow> te_parse_cat env c = Some c"
    and "length (te_fresh_id env) \<le> 64" "length (tc_alias spec) \<le> 128" "te_fresh_id env \<notin> set (dict_keys (qa_rows (ts_repo st)))"
    and "te_fresh_id env \<notin> set (dict_keys (ae_cache (ts_engine st)))"
  shows "live_source (ts_engine st') (ac_id acc) = Some \<lparr>bu_token = tc_token spec, bu_alias = Some (tc_alias spec)\<rparr>"
proof -
  obtain acc0 where check: "register_check (live_account_ops env now cad) env spec (ts_repo st) = Inr acc0"
    using assms(3) by (auto simp: register_account_def split: sum.splits)
  note f = register_check_facts [OF check [unfolded live_account_ops_def], simplified]
  have fits: "acc_fits (te_parse_cat env) acc0" using checked_fits [OF check assms(6)] assms(5) by blast
  have new: "ac_id acc0 \<notin> set (dict_keys (qa_rows (ts_repo st)))" using f(4) assms(8) by metis
  obtain r where r: "qa_add acc0 (tc_alias spec) (ts_repo st) = (Inr (), r)"
    "register_insert (live_account_ops env now cad) (tc_alias spec) acc0 st
        = run_reconcile (live_account_ops env now cad) acc0 (st\<lparr>ts_repo := r\<rparr>)"
    "qa_ok (te_parse_cat env) r" "qa_get_by_alias (te_parse_cat env) r (tc_alias spec) = Inr (Some acc0)"
    using insert_effect [OF assms(1) fits assms(7) new, of now "reconcile_accounts (te_decrypt env) (te_parse_cat env) cad"] f(1)
    by (auto simp: live_account_ops_def)
  have get: "qa_get (te_parse_cat env) r (ac_id acc0) = Inr (Some acc0)"
    using qacc.add_new [OF assms(1) fits assms(7) new] f(1) r(1) by auto
  from reconciled_source [OF r(3) assms(2), of "te_decrypt env" cad] obtain eng where
    eng: "reconcile_accounts (te_decrypt env) (te_parse_cat env) cad r (ts_engine st) = (Inr (), eng)"
      "live_source eng (ac_id acc0) = (if map_of (ae_cache (ts_engine st)) (ac_id acc0) = Some (account_signature acc0)
         then live_source (ts_engine st) (ac_id acc0) else fresh_live (te_decrypt env) (qa_list_aliases r) acc0)"
    using get f(3) by (auto split: sum.splits option.splits)
  have aliases: "primary_alias (qa_list_aliases r (ac_id acc0)) = Some (tc_alias spec)"
    using r(1) no_alias_of_absent [OF assms(1) new]
    by (auto simp: qa_add_def qa_list_aliases_def primary_alias_def split: if_splits)
  have "map_of (ae_cache (ts_engine st)) (ac_id acc0) = None" using assms(9) f(4) by (simp add: map_of_eq_None_iff)
  then have "live_source eng (ac_id acc0) = Some \<lparr>bu_token = tc_token spec, bu_alias = Some (tc_alias spec)\<rparr>"
    using eng(2) aliases f(5) assms(4) by (simp add: fresh_live_def)
  moreover have "acc = acc0 \<and> ts_engine st' = eng"
    using assms(3) check r(2) eng(1) by (auto simp: register_account_def run_reconcile_def live_account_ops_def)
  ultimately show ?thesis by simp
qed

lemma deactivated_account_stops:
  assumes "qa_ok (te_parse_cat env) (ts_repo st)" "reconciler_ok (ts_engine st)"
    and "deactivate_account (live_account_ops env now cad) i st = (Inr acc, st')"
  shows "live_source (ts_engine st') i = None"
proof -
  obtain old where old: "qa_get (te_parse_cat env) (ts_repo st) i = Inr (Some old)"
    and put: "put_account (live_account_ops env now cad) (old\<lparr>ac_active := False\<rparr>) st = (Inr acc, st')"
    using assms(3) by (auto simp: deactivate_account_def get_account_def live_account_ops_def bind_web_Inr_iff lift_result_def
        split: sum.splits option.splits)
  have o: "ac_id old = i" "acc_fits (te_parse_cat env) old"
    using qacc.get_present [OF assms(1), of i] qacc.get_absent [OF assms(1), of i] old by fastforce+
  have "acc_fits (te_parse_cat env) (old\<lparr>ac_active := False\<rparr>)" using o(2) by (simp add: acc_fits_def)
  from qacc.replace_effect [OF assms(1) this, of old] obtain r where
    r: "qa_replace (old\<lparr>ac_active := False\<rparr>) (ts_repo st) = (Inr (), r)" "qa_ok (te_parse_cat env) r"
      "qa_get (te_parse_cat env) r i = Inr (Some (old\<lparr>ac_active := False\<rparr>))"
    using o(1) old by auto
  from reconciled_source [OF r(2) assms(2), of "te_decrypt env" cad] r(3) obtain eng where
    "reconcile_accounts (te_decrypt env) (te_parse_cat env) cad r (ts_engine st) = (Inr (), eng)" "live_source eng i = None"
    by fastforce
  with put r(1) show ?thesis by (auto simp: put_account_def run_reconcile_def live_account_ops_def)
qed

subsection \<open>Seeding twice\<close>

text \<open>Seeding is idempotent: once it has run, another run with the same tokens adds nothing.\<close>

lemma seed_known:
  "(\<And>k. i \<le> k \<Longrightarrow> k < i + length tokens \<Longrightarrow> qa_alias_exists r (env_alias k))
     \<Longrightarrow> seed_tokens (sql_account_ops parse_cat now rec) encrypt now' fresh i tokens r = (Inr (), r)"
  by (induction tokens arbitrary: i) auto

lemma qa_add_aliases:
  "qa_add acc x r = (Inr (), r') \<Longrightarrow> qa_alias_exists r' y \<longleftrightarrow> y = x \<or> qa_alias_exists r y"
  by (auto simp: qa_add_def qa_alias_exists_def split: if_splits)

lemma seed_tokens_effect:
  "seed_tokens (sql_account_ops parse_cat now rec) encrypt now' fresh i tokens r = (Inr (), r')
     \<Longrightarrow> (\<forall>k. i \<le> k \<and> k < i + length tokens \<longrightarrow> qa_alias_exists r' (env_alias k))
       \<and> (\<forall>x. qa_alias_exists r x \<longrightarrow> qa_alias_exists r' x)"
proof (induction tokens arbitrary: i r)
  case (Cons t tokens)
  obtain r1 where r1: "seed_tokens (sql_account_ops parse_cat now rec) encrypt now' fresh (i + 1) tokens r1 = (Inr (), r')"
    "qa_alias_exists r1 (env_alias i)" "\<And>x. qa_alias_exists r x \<Longrightarrow> qa_alias_exists r1 x"
    using Cons.prems by (auto simp: qa_add_aliases split: if_splits prod.splits sum.splits)
  have "qa_alias_exists r' (env_alias k)" if "i \<le> k" "k < i + length (t # tokens)" for k
    using Cons.IH [OF r1(1)] r1(2) that by (cases "k = i") auto
  then show ?case using Cons.IH [OF r1(1)] r1(3) by blast
qed auto

lemma seeding_idempotent:
  assumes "seed_tokens (sql_account_ops parse_cat now rec) encrypt now' fresh 0 tokens r = (Inr (), r')"
  shows "seed_tokens (sql_account_ops parse_cat now rec) encrypt now'' fresh' 0 tokens r' = (Inr (), r')"
  using seed_tokens_effect [OF assms] by (intro seed_known) simp

subsection \<open>Concrete runs\<close>

definition example_engine :: account_engine where
  "example_engine = \<lparr>ae_manager = \<lparr>sm_sources = [], sm_tasks = [], sm_restart_attempts = [], sm_changed = False, sm_stop = False,
     sm_starts = (\<lambda>n. 0), sm_pc = WaitEvent\<rparr>, ae_built = [], ae_cache = []\<rparr>"

definition example_account :: account where
  "example_account = \<lparr>ac_id = ''a'', ac_ciphertext = [1], ac_created_at = the (from_timestamp_utc 0), ac_metadata = [],
     ac_categories = [], ac_active = True\<rparr>"

definition example_accounts :: sql_accounts where
  "example_accounts = \<lparr>qa_rows = [(''a'', acc_to_row example_account)], qa_aliases = []\<rparr>"

lemma example_accounts_ok: "qa_ok Some example_accounts" "qa_get Some example_accounts ''a'' = Inr (Some example_account)"
  using acc_roundtrip [of Some example_account]
  by (auto simp: example_accounts_def qa_ok_def dict_ok_def qa_get_def acc_fits_def example_account_def intro!: exI [of _ example_account])

lemma example_engine_ok: "reconciler_ok example_engine" "ae_cache example_engine = []"
  by (simp_all add: example_engine_def reconciler_ok_def dict_ok_def)


theorem failed_decrypt_not_retried_witness:
  "\<exists>eng' eng''. reconcile_accounts (\<lambda>c. Inl DecryptionFailed) Some (new_cadence 1 2 1) example_accounts example_engine = (Inr (), eng')
     \<and> reconcile_accounts (\<lambda>c. Inr ''t'') Some (new_cadence 1 2 1) example_accounts eng' = (Inr (), eng'')
     \<and> live_source eng'' ''a'' = None"
  using failed_decrypt_not_retried [OF example_accounts_ok(1) example_engine_ok(1) example_accounts_ok(2), of "\<lambda>c. Inl DecryptionFailed"
      DecryptionFailed "new_cadence 1 2 1" "\<lambda>c. Inr ''t''"]
  by (auto simp: example_engine_ok(2) example_account_def)

theorem registered_account_polls_witness:
  "\<exists>acc st'. register_account (live_account_ops (example_account_env ''a'') (the (from_timestamp_utc 0)) (new_cadence 1 2 1))
       (example_account_env ''a'') (example_account_spec ''main'') \<lparr>ts_repo = no_accounts, ts_engine = example_engine\<rparr> = (Inr acc, st')
     \<and> live_source (ts_engine st') (ac_id acc) = Some \<lparr>bu_token = ''secret'', bu_alias = Some ''main''\<rparr>"
proof -
  let ?env = "example_account_env ''a''"
  let ?now = "the (from_timestamp_utc 0)"
  let ?st = "\<lparr>ts_repo = no_accounts, ts_engine = example_engine\<rparr>"
  let ?ops = "live_account_ops ?env ?now (new_cadence 1 2 1)"
  have env: "te_parse_cat ?env = Some" "te_decrypt ?env (te_encrypt ?env t) = Inr t" for t
    by (simp_all add: example_account_env_def text_bytes_back)
  obtain acc0 where check: "register_check ?ops ?env (example_account_spec ''main'') no_accounts = Inr acc0"
    and f: "acc_fits Some acc0" "ac_id acc0 = ''a''"
    by (simp add: live_account_ops_def register_check_def qa_alias_exists_def example_account_spec_def example_account_env_def
        qa_count_def validate_upstream_def acc_fits_def)
  obtain r where r: "qa_ok Some r" "register_insert ?ops ''main'' acc0 ?st = run_reconcile ?ops acc0 (?st\<lparr>ts_repo := r\<rparr>)"
    using insert_effect [of Some ?st acc0 "''main''" ?now "reconcile_accounts (te_decrypt ?env) Some (new_cadence 1 2 1)"] f
    by (auto simp: no_accounts_ok qa_alias_exists_def live_account_ops_def env(1))
  obtain st' where reg: "register_account ?ops ?env (example_account_spec ''main'') ?st = (Inr acc0, st')"
    using check r(2) reconciled_source [OF r(1) example_engine_ok(1), of "te_decrypt ?env" "new_cadence 1 2 1"]
    by (auto simp: register_account_def run_reconcile_def live_account_ops_def env(1) example_account_spec_def)
  have "live_source (ts_engine st') (ac_id acc0) = Some \<lparr>bu_token = tc_token (example_account_spec ''main''),
      bu_alias = Some (tc_alias (example_account_spec ''main''))\<rparr>"
    by (rule registered_account_polls [of ?env ?st, OF _ _ reg])
      (simp_all add: env no_accounts_ok example_engine_ok example_account_env_def example_account_spec_def text_bytes_back)
  with reg show ?thesis by (auto simp: example_account_spec_def)
qed

end
