(* ===== verification/Polling.thy ===== *)
theory Polling
  imports Subscription_Admin Catch_Up_Bus
begin

text \<open>
  Polling delivery: the service that reads pending events of a subscription and confirms them
  (\<open>web/services/polling.py\<close>), its two routes (\<open>web/routes/events.py\<close>) and their records
  (\<open>web/schemas/events.py\<close>). A confirmation reads the cursor, then commits; what other requests and
  workers commit before each read and between read and commit is an argument, a list of commits for
  every attempt. The sleep of an empty long poll is a result.
\<close>

record ('l, 'c) poll_ops =
  po_read :: "'l \<Rightarrow> int \<Rightarrow> nat \<Rightarrow> domain_event list option"
  po_get :: "'c \<Rightarrow> string \<Rightarrow> cursor_state"
  po_commit :: "string \<Rightarrow> int \<Rightarrow> int \<Rightarrow> 'c \<Rightarrow> unit result \<times> 'c"

record pending_event =
  pe_seq :: int
  pe_event_type :: event_type
  pe_data :: "(string \<times> json) list"

record pending_batch =
  pb_items :: "pending_event list"
  pb_next_seq :: int
  pb_last_read_seq :: int
  pb_drained :: bool

definition poll_matches :: "sink_sub \<Rightarrow> event_type list option \<Rightarrow> domain_event \<Rightarrow> bool" where
  "poll_matches sub types e \<longleftrightarrow>
     ev_type e \<in> set (case types of Some ts \<Rightarrow> ts | None \<Rightarrow> su_event_types sub)
     \<and> list_all (\<lambda>(k, v). payload_str (payload e) k = v) (to_filters (su_scope sub))"

definition to_pending :: "domain_event \<Rightarrow> pending_event" where
  "to_pending e = \<lparr>pe_seq = seq e, pe_event_type = ev_type e, pe_data = event_envelope e\<rparr>"

definition long_poll_wait :: "sink_sub \<Rightarrow> pending_event list \<Rightarrow> rat" where
  "long_poll_wait sub items = (case su_ctx sub of PollingCtx d \<Rightarrow> if items = [] then d else 0 | _ \<Rightarrow> 0)"

definition peek ::
  "('l, 'c) poll_ops \<Rightarrow> sink_sub \<Rightarrow> event_type list option \<Rightarrow> nat \<Rightarrow> 'l \<Rightarrow> 'c \<Rightarrow> (pending_batch \<times> rat) web_result" where
  "peek po sub types limit lg c =
     (let st = po_get po c (sink_consumer_name sub) in
      case po_read po lg (last_seq st) limit of
        None \<Rightarrow> Inl (Unhandled (StoreError ''read_after''))
      | Some events \<Rightarrow>
          (let items = map to_pending (filter (poll_matches sub types) events)
           in Inr (\<lparr>pb_items = items, pb_next_seq = (if events = [] then last_seq st else seq (last events)),
                    pb_last_read_seq = last_seq st, pb_drained = (length events < limit)\<rparr>, long_poll_wait sub items)))"

subsection \<open>Confirmation\<close>

type_synonym cursor_writes = "(string \<times> int \<times> int) list"

fun run_writes :: "('l, 'c) poll_ops \<Rightarrow> cursor_writes \<Rightarrow> 'c \<Rightarrow> 'c" where
  "run_writes po [] c = c"
| "run_writes po ((name, s, v) # ws) c = run_writes po ws (snd (po_commit po name s v c))"

text \<open>
  \<open>others n\<close> are the writes of others around the attempt that has \<open>n\<close> attempts after it: those before
  its read and those between its read and its commit.
\<close>

fun confirm_loop ::
  "('l, 'c) poll_ops \<Rightarrow> (nat \<Rightarrow> cursor_writes \<times> cursor_writes) \<Rightarrow> sink_sub \<Rightarrow> int \<Rightarrow> nat \<Rightarrow> 'c \<Rightarrow> int web_result \<times> 'c" where
  "confirm_loop po others sub up_to 0 c = (Inl (Unhandled (RuntimeError ''AssertionError'')), c)"
| "confirm_loop po others sub up_to (Suc n) c =
     (let name = sink_consumer_name sub; c1 = run_writes po (fst (others n)) c; st = po_get po c1 name in
      if up_to \<le> last_seq st then (Inr (last_seq st), c1)
      else (case po_commit po name up_to (version st) (run_writes po (snd (others n)) c1) of
              (Inr _, c2) \<Rightarrow> (Inr up_to, c2)
            | (Inl (Engine (CursorConflict a b d)), c2) \<Rightarrow>
                if n = 0 then (Inl (Web (Conflict (su_id sub) up_to)), c2) else confirm_loop po others sub up_to n c2
            | (Inl x, c2) \<Rightarrow> (Inl (Unhandled x), c2)))"

definition confirm ::
  "('l, 'c) poll_ops \<Rightarrow> int \<Rightarrow> (nat \<Rightarrow> cursor_writes \<times> cursor_writes) \<Rightarrow> sink_sub \<Rightarrow> int \<Rightarrow> 'c \<Rightarrow> int web_result \<times> 'c" where
  "confirm po max_retries others sub up_to c = confirm_loop po others sub up_to (nat (max_retries + 1)) c"

abbreviation alone :: "nat \<Rightarrow> cursor_writes \<times> cursor_writes" where
  "alone \<equiv> \<lambda>n. ([], [])"

subsection \<open>The routes\<close>

record poll_request =
  pq_subscription_id :: string
  pq_event_type :: "string list option"
  pq_limit :: nat
  pq_read_all :: bool

record pending_out =
  out_subscription_id :: string
  out_items :: "pending_event list"
  out_next_seq :: int
  out_last_read_seq :: int
  out_drained :: bool
  out_committed :: bool

definition pending_out_of :: "string \<Rightarrow> pending_batch \<Rightarrow> bool \<Rightarrow> pending_out" where
  "pending_out_of i b committed =
     \<lparr>out_subscription_id = i, out_items = pb_items b, out_next_seq = pb_next_seq b,
      out_last_read_seq = pb_last_read_seq b, out_drained = pb_drained b, out_committed = committed\<rparr>"

definition resolve_polling_sub :: "('r, 'c) admin_ops \<Rightarrow> string \<Rightarrow> ('r, 'c) admin_state \<Rightarrow> sink_sub web_result" where
  "resolve_polling_sub ao i st =
     bind_web (get_sub ao i st) (\<lambda>sub.
       if su_transport sub \<noteq> POLLING then Inl (Web (NotAPollingSubscription i (transport_value (su_transport sub)))) else Inr sub)"

definition requested_types :: "string list option \<Rightarrow> event_type list option web_result" where
  "requested_types names =
     (case names of
        None \<Rightarrow> Inr None
      | Some ns \<Rightarrow> if ns = [] then Inr None else bind_web (parse_event_types ns) (\<lambda>ts. Inr (Some ts)))"

definition pending ::
  "('r, 'c) admin_ops \<Rightarrow> ('l, 'c) poll_ops \<Rightarrow> (nat \<Rightarrow> cursor_writes \<times> cursor_writes) \<Rightarrow> 'l \<Rightarrow> poll_request
     \<Rightarrow> ('r, 'c) admin_state \<Rightarrow> pending_out web_result \<times> ('r, 'c) admin_state" where
  "pending ao po others lg rq st =
     (case bind_web (resolve_polling_sub ao (pq_subscription_id rq) st) (\<lambda>sub.
             bind_web (requested_types (pq_event_type rq)) (\<lambda>types.
             bind_web (peek po sub types (pq_limit rq) lg (as_cursors st)) (\<lambda>(batch, wait). Inr (sub, batch)))) of
        Inl e \<Rightarrow> (Inl e, st)
      | Inr (sub, batch) \<Rightarrow>
          if pq_read_all rq \<and> pb_last_read_seq batch < pb_next_seq batch
          then (case confirm po 1 others sub (pb_next_seq batch) (as_cursors st) of
                  (Inl e, c) \<Rightarrow> (Inl e, st\<lparr>as_cursors := c\<rparr>)
                | (Inr _, c) \<Rightarrow> (Inr (pending_out_of (pq_subscription_id rq) batch True), st\<lparr>as_cursors := c\<rparr>))
          else (Inr (pending_out_of (pq_subscription_id rq) batch False), st))"

definition read_events ::
  "('r, 'c) admin_ops \<Rightarrow> ('l, 'c) poll_ops \<Rightarrow> (nat \<Rightarrow> cursor_writes \<times> cursor_writes) \<Rightarrow> string \<Rightarrow> int
     \<Rightarrow> ('r, 'c) admin_state \<Rightarrow> (string \<times> int) web_result \<times> ('r, 'c) admin_state" where
  "read_events ao po others i up_to st =
     (case resolve_polling_sub ao i st of
        Inl e \<Rightarrow> (Inl e, st)
      | Inr sub \<Rightarrow>
          (case confirm po 1 others sub up_to (as_cursors st) of
             (Inl e, c) \<Rightarrow> (Inl e, st\<lparr>as_cursors := c\<rparr>)
           | (Inr n, c) \<Rightarrow> (Inr (i, n), st\<lparr>as_cursors := c\<rparr>)))"

text \<open>The same request sent \<open>n\<close> times in a row.\<close>

fun pending_times ::
  "('r, 'c) admin_ops \<Rightarrow> ('l, 'c) poll_ops \<Rightarrow> 'l \<Rightarrow> poll_request \<Rightarrow> nat \<Rightarrow> ('r, 'c) admin_state
     \<Rightarrow> pending_out list web_result \<times> ('r, 'c) admin_state" where
  "pending_times ao po lg rq 0 st = (Inr [], st)"
| "pending_times ao po lg rq (Suc n) st =
     (case pending ao po alone lg rq st of
        (Inl e, st') \<Rightarrow> (Inl e, st')
      | (Inr out, st') \<Rightarrow>
          (case pending_times ao po lg rq n st' of
             (Inl e, st'') \<Rightarrow> (Inl e, st'')
           | (Inr outs, st'') \<Rightarrow> (Inr (out # outs), st'')))"

subsection \<open>Facts about the service\<close>

locale poll_stores =
  plog: event_log append_log read_after max_seq contents obs log_ok +
  pcur: cursor_store get_cursor commit_cursor delete_cursor watermark cursor_names cursors_ok
  for append_log :: "domain_event list \<Rightarrow> last_seen_batch \<Rightarrow> 'l \<Rightarrow> int result \<times> 'l"
    and read_after max_seq contents obs log_ok
    and get_cursor :: "'c \<Rightarrow> string \<Rightarrow> cursor_state"
    and commit_cursor delete_cursor watermark cursor_names cursors_ok
begin

definition pops :: "('l, 'c) poll_ops" where
  "pops = \<lparr>po_read = read_after, po_get = get_cursor, po_commit = commit_cursor\<rparr>"

lemma pops_simps [simp]: "po_read pops = read_after" "po_get pops = get_cursor" "po_commit pops = commit_cursor"
  by (simp_all add: pops_def)

lemma peek_page:
  assumes "log_ok lg" "page = page_after seq (contents lg) (last_seq (get_cursor c (sink_consumer_name sub))) limit"
  shows "peek pops sub types limit lg c = Inr (\<lparr>pb_items = map to_pending (filter (poll_matches sub types) page),
      pb_next_seq = last_pos seq (last_seq (get_cursor c (sink_consumer_name sub))) page,
      pb_last_read_seq = last_seq (get_cursor c (sink_consumer_name sub)), pb_drained = (length page < limit)\<rparr>,
      long_poll_wait sub (map to_pending (filter (poll_matches sub types) page)))"
  using plog.read_page [OF assms(1)] by (simp add: peek_def Let_def assms(2) last_pos_def)

text \<open>Writes of others only add versions; an unchanged version is an unchanged cursor.\<close>

lemma commit_cases:
  assumes "cursors_ok c" "commit_cursor n s v c = (r, c')"
  obtains (committed) "r = Inr ()" "version (get_cursor c n) = v" "cursors_ok c'" "get_cursor c' n = \<lparr>last_seq = s, version = v + 1\<rparr>"
      "\<And>m. m \<noteq> n \<Longrightarrow> get_cursor c' m = get_cursor c m"
    | (stale) "version (get_cursor c n) \<noteq> v" "r = Inl (Engine (CursorConflict n v (version (get_cursor c n))))" "c' = c"
proof (cases "version (get_cursor c n) = v")
  case True
  from pcur.commit_matching [OF assms(1) this, of s] assms(2) True committed show ?thesis by auto
next
  case False
  from pcur.commit_stale [OF assms(1) this, of s] assms(2) False stale show ?thesis by auto
qed

lemma run_writes_effect:
  "cursors_ok c \<Longrightarrow> cursors_ok (run_writes pops ws c) \<and> version (get_cursor c m) \<le> version (get_cursor (run_writes pops ws c) m)
     \<and> (version (get_cursor (run_writes pops ws c) m) = version (get_cursor c m) \<longrightarrow> get_cursor (run_writes pops ws c) m = get_cursor c m)"
proof (induction pops ws c rule: run_writes.induct)
  case (2 n s v ws c)
  obtain r c' where c': "commit_cursor n s v c = (r, c')" by fastforce
  from 2(2) c' show ?case
  proof (cases rule: commit_cases)
    case committed
    have "version (get_cursor c m) \<le> version (get_cursor c' m)
        \<and> (version (get_cursor c' m) = version (get_cursor c m) \<longrightarrow> get_cursor c' m = get_cursor c m)"
      using committed by (cases "m = n") auto
    then show ?thesis using 2(1) committed(3) c' by fastforce
  next
    case stale
    then show ?thesis using 2 c' by simp
  qed
qed simp

lemma run_writes_append: "run_writes pops (ws @ ws') c = run_writes pops ws' (run_writes pops ws c)"
  by (induction pops ws c rule: run_writes.induct) auto

text \<open>
  A confirmation is one of three: it read a cursor at or past the position and wrote nothing, it moved the cursor forward
  from below the position, or every attempt lost to the commit of another. Besides its own write the store has
  changed by the others' writes only.
\<close>

definition confirmed ::
  "(nat \<Rightarrow> cursor_writes \<times> cursor_writes) \<Rightarrow> sink_sub \<Rightarrow> int \<Rightarrow> nat \<Rightarrow> 'c \<Rightarrow> int web_result \<Rightarrow> 'c \<Rightarrow> bool" where
  "confirmed others sub up_to n c res c' \<longleftrightarrow>
     (\<exists>ws c0. c0 = run_writes pops ws c \<and> cursors_ok c0 \<and> cursors_ok c'
        \<and> set ws \<subseteq> (\<Union>k. set (fst (others k)) \<union> set (snd (others k)))
        \<and> (case res of
              Inr r \<Rightarrow> (r = last_seq (get_cursor c0 (sink_consumer_name sub)) \<and> up_to \<le> r \<and> c' = c0)
                \<or> (r = up_to \<and> last_seq (get_cursor c0 (sink_consumer_name sub)) < up_to
                    \<and> get_cursor c' (sink_consumer_name sub)
                        = \<lparr>last_seq = up_to, version = version (get_cursor c0 (sink_consumer_name sub)) + 1\<rparr>
                    \<and> (\<forall>m. m \<noteq> sink_consumer_name sub \<longrightarrow> get_cursor c' m = get_cursor c0 m))
            | Inl e \<Rightarrow> e = Web (Conflict (su_id sub) up_to) \<and> c' = c0
                \<and> version (get_cursor c (sink_consumer_name sub)) + int n \<le> version (get_cursor c' (sink_consumer_name sub))))"

lemma confirm_loop_confirmed:
  "cursors_ok c \<Longrightarrow> 0 < n \<Longrightarrow> confirm_loop pops others sub up_to n c = (res, c')
     \<Longrightarrow> confirmed others sub up_to n c res c'"
proof (induction n arbitrary: c)
  case (Suc n)
  let ?name = "sink_consumer_name sub"
  define c1 where "c1 = run_writes pops (fst (others n)) c"
  define c2 where "c2 = run_writes pops (snd (others n)) c1"
  have ok: "cursors_ok c1" "cursors_ok c2" and mono: "version (get_cursor c ?name) \<le> version (get_cursor c1 ?name)"
    "version (get_cursor c1 ?name) \<le> version (get_cursor c2 ?name)"
    "version (get_cursor c2 ?name) = version (get_cursor c1 ?name) \<Longrightarrow> get_cursor c2 ?name = get_cursor c1 ?name"
    using run_writes_effect [of c "fst (others n)" ?name] run_writes_effect [of c1 "snd (others n)" ?name] Suc.prems(1)
    by (auto simp: c1_def c2_def)
  have c2_run: "c2 = run_writes pops (fst (others n) @ snd (others n)) c" by (simp add: run_writes_append c1_def c2_def)
  show ?case
  proof (cases "up_to \<le> last_seq (get_cursor c1 ?name)")
    case True
    then have "res = Inr (last_seq (get_cursor c1 ?name))" "c' = c1"
      using Suc.prems(3) by (auto simp: c1_def Let_def)
    then show ?thesis using True ok unfolding confirmed_def
      by (intro exI [of _ "fst (others n)"] exI [of _ c1]) (auto simp: c1_def)
  next
    case False
    obtain r c3 where c3: "commit_cursor ?name up_to (version (get_cursor c1 ?name)) c2 = (r, c3)" by fastforce
    from ok(2) c3 show ?thesis
    proof (cases rule: commit_cases)
      case committed
      then have "res = Inr up_to" "c' = c3" using Suc.prems(3) False c3 by (auto simp: c1_def c2_def Let_def)
      then show ?thesis using committed mono(3) False ok unfolding confirmed_def
        by (intro exI [of _ "fst (others n) @ snd (others n)"] exI [of _ c2]) (auto simp: c2_run)
    next
      case stale
      have later: "version (get_cursor c ?name) + 1 \<le> version (get_cursor c2 ?name)" using mono stale(1) by linarith
      show ?thesis
      proof (cases "n = 0")
        case True
        then have "res = Inl (Web (Conflict (su_id sub) up_to))" "c' = c2"
          using Suc.prems(3) False c3 stale by (auto simp: c1_def c2_def Let_def)
        then show ?thesis using later ok True unfolding confirmed_def
          by (intro exI [of _ "fst (others n) @ snd (others n)"] exI [of _ c2]) (auto simp: c2_run)
      next
        case more: False
        then have rest: "confirm_loop pops others sub up_to n c2 = (res, c')"
          using Suc.prems(3) False c3 stale by (simp add: c1_def c2_def Let_def)
        from Suc.IH [OF ok(2) _ rest] more obtain ws c0 where ih: "c0 = run_writes pops ws c2" "cursors_ok c0" "cursors_ok c'"
          "set ws \<subseteq> (\<Union>k. set (fst (others k)) \<union> set (snd (others k)))"
          "case res of
              Inr r \<Rightarrow> (r = last_seq (get_cursor c0 ?name) \<and> up_to \<le> r \<and> c' = c0)
                \<or> (r = up_to \<and> last_seq (get_cursor c0 ?name) < up_to
                    \<and> get_cursor c' ?name = \<lparr>last_seq = up_to, version = version (get_cursor c0 ?name) + 1\<rparr>
                    \<and> (\<forall>m. m \<noteq> ?name \<longrightarrow> get_cursor c' m = get_cursor c0 m))
            | Inl e \<Rightarrow> e = Web (Conflict (su_id sub) up_to) \<and> c' = c0
                \<and> version (get_cursor c2 ?name) + int n \<le> version (get_cursor c' ?name)"
          unfolding confirmed_def by blast
        show ?thesis unfolding confirmed_def
        proof (intro exI conjI)
          show "c0 = run_writes pops ((fst (others n) @ snd (others n)) @ ws) c"
            by (simp only: run_writes_append ih(1) c1_def c2_def)
          show "set ((fst (others n) @ snd (others n)) @ ws) \<subseteq> (\<Union>k. set (fst (others k)) \<union> set (snd (others k)))"
            using ih(4) by auto
        qed (use ih(2,3,5) later in \<open>auto split: sum.splits\<close>)
      qed
    qed
  qed
qed simp

lemma confirm_alone:
  assumes "cursors_ok c" "last_seq (get_cursor c (sink_consumer_name sub)) < up_to"
  shows "\<exists>c'. confirm pops 1 alone sub up_to c = (Inr up_to, c') \<and> cursors_ok c'
    \<and> last_seq (get_cursor c' (sink_consumer_name sub)) = up_to
    \<and> (\<forall>m. m \<noteq> sink_consumer_name sub \<longrightarrow> get_cursor c' m = get_cursor c m)"
proof -
  from pcur.commit_matching [OF assms(1) refl, of "sink_consumer_name sub" up_to] obtain c' where
    "commit_cursor (sink_consumer_name sub) up_to (version (get_cursor c (sink_consumer_name sub))) c = (Inr (), c')" "cursors_ok c'"
    "get_cursor c' (sink_consumer_name sub) = \<lparr>last_seq = up_to, version = version (get_cursor c (sink_consumer_name sub)) + 1\<rparr>"
    "\<forall>m. m \<noteq> sink_consumer_name sub \<longrightarrow> get_cursor c' m = get_cursor c m" by blast
  then show ?thesis using assms(2) by (simp add: confirm_def numeral_2_eq_2 Let_def)
qed

lemma pending_read_all:
  assumes "log_ok lg" "cursors_ok (as_cursors st)" "resolve_polling_sub ao (pq_subscription_id rq) st = Inr sub"
    and "requested_types (pq_event_type rq) = Inr types" "pq_read_all rq"
    and page: "page = page_after seq (contents lg) (last_seq (get_cursor (as_cursors st) (sink_consumer_name sub))) (pq_limit rq)"
  shows "\<exists>out c. pending ao pops alone lg rq st = (Inr out, st\<lparr>as_cursors := c\<rparr>) \<and> cursors_ok c
    \<and> out_items out = map to_pending (filter (poll_matches sub types) page) \<and> out_drained out = (length page < pq_limit rq)
    \<and> last_seq (get_cursor c (sink_consumer_name sub))
        = last_pos seq (last_seq (get_cursor (as_cursors st) (sink_consumer_name sub))) page
    \<and> (\<forall>m. m \<noteq> sink_consumer_name sub \<longrightarrow> get_cursor c m = get_cursor (as_cursors st) m)"
proof (cases "page = []")
  case True
  then show ?thesis using assms(2-5) peek_page [OF assms(1) page, of types]
    by (intro exI [of _ "pending_out_of (pq_subscription_id rq) \<lparr>pb_items = [],
          pb_next_seq = last_seq (get_cursor (as_cursors st) (sink_consumer_name sub)),
          pb_last_read_seq = last_seq (get_cursor (as_cursors st) (sink_consumer_name sub)), pb_drained = (0 < pq_limit rq)\<rparr> False"]
        exI [of _ "as_cursors st"]) (simp add: pending_def pending_out_of_def)
next
  case False
  let ?q = "last_seq (get_cursor (as_cursors st) (sink_consumer_name sub))"
  have "?q < last_pos seq ?q page" using False page_after_above [of "last page" seq "contents lg" ?q "pq_limit rq"]
    by (simp add: last_pos_def page)
  from confirm_alone [OF assms(2) this] obtain c where c: "confirm pops 1 alone sub (last_pos seq ?q page) (as_cursors st)
        = (Inr (last_pos seq ?q page), c)" "cursors_ok c" "last_seq (get_cursor c (sink_consumer_name sub)) = last_pos seq ?q page"
    "\<forall>m. m \<noteq> sink_consumer_name sub \<longrightarrow> get_cursor c m = get_cursor (as_cursors st) m" by blast
  let ?batch = "\<lparr>pb_items = map to_pending (filter (poll_matches sub types) page), pb_next_seq = last_pos seq ?q page,
      pb_last_read_seq = ?q, pb_drained = (length page < pq_limit rq)\<rparr>"
  have "pending ao pops alone lg rq st = (Inr (pending_out_of (pq_subscription_id rq) ?batch True), st\<lparr>as_cursors := c\<rparr>)"
    using assms(3-5) peek_page [OF assms(1) page, of types] \<open>?q < last_pos seq ?q page\<close> c(1) by (simp add: pending_def)
  then show ?thesis using c(2-4)
    by (intro exI [of _ "pending_out_of (pq_subscription_id rq) ?batch True"] exI [of _ c]) (simp add: pending_out_of_def)
qed

text \<open>No request returns an event at or below the cursor it starts from, and none moves the cursor back.\<close>

lemma pending_above:
  assumes "log_ok lg" "cursors_ok (as_cursors st)" "resolve_polling_sub ao (pq_subscription_id rq) st = Inr sub"
    and "pending ao pops alone lg rq st = (Inr out, st')"
  shows "(\<forall>x\<in>set (out_items out). last_seq (get_cursor (as_cursors st) (sink_consumer_name sub)) < pe_seq x)
    \<and> last_seq (get_cursor (as_cursors st) (sink_consumer_name sub)) \<le> last_seq (get_cursor (as_cursors st') (sink_consumer_name sub))
    \<and> cursors_ok (as_cursors st') \<and> as_repo st' = as_repo st"
proof -
  let ?q = "last_seq (get_cursor (as_cursors st) (sink_consumer_name sub))"
  let ?page = "page_after seq (contents lg) ?q (pq_limit rq)"
  obtain types where types: "requested_types (pq_event_type rq) = Inr types"
    using assms(3,4) by (auto simp: pending_def bind_web_def split: sum.splits)
  have items: "?q < pe_seq x" if "x \<in> set (map to_pending (filter (poll_matches sub types) ?page))" for x
    using that page_after_above [of _ seq "contents lg" ?q "pq_limit rq"] by (auto simp: to_pending_def)
  show ?thesis
  proof (cases "pq_read_all rq \<and> ?q < last_pos seq ?q ?page")
    case True
    from confirm_alone [OF assms(2), of sub "last_pos seq ?q ?page"] True obtain c where
      c: "confirm pops 1 alone sub (last_pos seq ?q ?page) (as_cursors st) = (Inr (last_pos seq ?q ?page), c)" "cursors_ok c"
        "last_seq (get_cursor c (sink_consumer_name sub)) = last_pos seq ?q ?page" by blast
    have "out_items out = map to_pending (filter (poll_matches sub types) ?page)" "st' = st\<lparr>as_cursors := c\<rparr>"
      using assms(3,4) types True c(1) peek_page [OF assms(1) refl, where c = "as_cursors st" and sub = sub and limit = "pq_limit rq" and types = types]
      by (auto simp: pending_def pending_out_of_def)
    then show ?thesis using items True c(2,3) by auto
  next
    case False
    have "out_items out = map to_pending (filter (poll_matches sub types) ?page)" "st' = st"
      using assms(3,4) types False peek_page [OF assms(1) refl, where c = "as_cursors st" and sub = sub and limit = "pq_limit rq" and types = types]
      by (auto simp: pending_def pending_out_of_def)
    then show ?thesis using items assms(2) by auto
  qed
qed

lemma pending_times_above:
  assumes "log_ok lg" "cursors_ok (as_cursors st)" "pending_times ao pops lg rq k st = (Inr outs, st')"
    and "resolve_polling_sub ao (pq_subscription_id rq) st = Inr sub"
    and "q \<le> last_seq (get_cursor (as_cursors st) (sink_consumer_name sub))"
  shows "\<forall>x\<in>set (concat (map out_items outs)). q < pe_seq x"
  using assms(2-5)
proof (induction k arbitrary: st outs)
  case (Suc k)
  obtain out st1 outs1 where s: "pending ao pops alone lg rq st = (Inr out, st1)" "pending_times ao pops lg rq k st1 = (Inr outs1, st')"
    "outs = out # outs1" using Suc.prems(2) by (auto split: sum.splits prod.splits)
  note a = pending_above [OF assms(1) Suc.prems(1,3) s(1)]
  have again: "resolve_polling_sub ao (pq_subscription_id rq) st1 = Inr sub"
    using Suc.prems(3) a by (simp add: resolve_polling_sub_def get_sub_def)
  have "\<forall>x\<in>set (concat (map out_items outs1)). q < pe_seq x"
    using Suc.IH [OF _ s(2) again] a Suc.prems(4) by auto
  then show ?case using a Suc.prems(4) s(3) by auto
qed simp

lemma pending_times_all:
  assumes lok: "log_ok lg" and "cursors_ok (as_cursors st)" "resolve_polling_sub ao (pq_subscription_id rq) st = Inr sub"
    and rq: "requested_types (pq_event_type rq) = Inr types" "pq_read_all rq"
    and rest_def: "rest = filter (\<lambda>e. last_seq (get_cursor (as_cursors st) (sink_consumer_name sub)) < seq e) (contents lg)"
  shows "\<exists>outs c. pending_times ao pops lg rq k st = (Inr outs, st\<lparr>as_cursors := c\<rparr>)
    \<and> concat (map out_items outs) = map to_pending (filter (poll_matches sub types) (take (k * pq_limit rq) rest))
    \<and> last_seq (get_cursor c (sink_consumer_name sub))
        = last_pos seq (last_seq (get_cursor (as_cursors st) (sink_consumer_name sub))) (take (k * pq_limit rq) rest)
    \<and> (\<forall>m. m \<noteq> sink_consumer_name sub \<longrightarrow> get_cursor c m = get_cursor (as_cursors st) m)"
  using assms(2,3) unfolding rest_def
proof (induction k arbitrary: st)
  case 0
  then show ?case by (intro exI [of _ "[]"] exI [of _ "as_cursors st"]) simp
next
  case (Suc k)
  let ?n = "pq_limit rq" and ?q = "last_seq (get_cursor (as_cursors st) (sink_consumer_name sub))"
  let ?rest = "filter (\<lambda>e. ?q < seq e) (contents lg)"
  obtain out c where out: "pending ao pops alone lg rq st = (Inr out, st\<lparr>as_cursors := c\<rparr>)" "cursors_ok c"
    "out_items out = map to_pending (filter (poll_matches sub types) (take ?n ?rest))"
    "last_seq (get_cursor c (sink_consumer_name sub)) = last_pos seq ?q (take ?n ?rest)"
    "\<forall>m. m \<noteq> sink_consumer_name sub \<longrightarrow> get_cursor c m = get_cursor (as_cursors st) m"
    using pending_read_all [OF lok Suc.prems rq refl] by (auto simp: page_after_def)
  have rest1: "filter (\<lambda>e. last_seq (get_cursor c (sink_consumer_name sub)) < seq e) (contents lg) = drop ?n ?rest"
    unfolding out(4) by (rule ascending_split_after [OF plog.contents_ascending [OF lok]])
  have again: "resolve_polling_sub ao (pq_subscription_id rq) (st\<lparr>as_cursors := c\<rparr>) = Inr sub"
    using Suc.prems(2) by (simp add: resolve_polling_sub_def get_sub_def)
  from Suc.IH [of "st\<lparr>as_cursors := c\<rparr>", OF _ again] out(2) obtain outs c' where
    more: "pending_times ao pops lg rq k (st\<lparr>as_cursors := c\<rparr>) = (Inr outs, st\<lparr>as_cursors := c'\<rparr>)"
      "concat (map out_items outs) = map to_pending (filter (poll_matches sub types) (take (k * ?n) (drop ?n ?rest)))"
      "last_seq (get_cursor c' (sink_consumer_name sub)) = last_pos seq (last_pos seq ?q (take ?n ?rest)) (take (k * ?n) (drop ?n ?rest))"
      "\<forall>m. m \<noteq> sink_consumer_name sub \<longrightarrow> get_cursor c' m = get_cursor c m"
    using rest1 out(4) by auto
  have "take (Suc k * ?n) ?rest = take ?n ?rest @ take (k * ?n) (drop ?n ?rest)" by (simp add: take_add)
  then show ?case using out(1,3,5) more
    by (intro exI [of _ "out # outs"] exI [of _ c']) (simp add: last_pos_append)
qed

end

interpretation mpoll: poll_stores
  ml_append "\<lambda>s q n. Some (ml_read_after s q n)" ml_max_seq ml_events "\<lambda>e. e" "\<lambda>s. ml_ok s"
  mc_get mc_commit mc_delete mc_watermark dict_keys mc_ok
  by unfold_locales

interpretation spoll: poll_stores
  el_append el_read_after el_max_seq el_contents flatten el_ok
  sc_get sc_commit sc_delete sc_watermark dict_keys sc_ok
  by unfold_locales

abbreviation sql_poll_ops :: "(event_db, cursor_table) poll_ops" where
  "sql_poll_ops \<equiv> \<lparr>po_read = el_read_after, po_get = sc_get, po_commit = sc_commit\<rparr>"

subsection \<open>Properties\<close>

text \<open>C22: Polling loses and repeats nothing. Over the SQL stores, a client that sends the same request with
  \<open>read_all\<close> again and again, pages of any size, receives in log order exactly the events after its cursor
  that match its subscription (or the types it asked for), each once; its cursor ends on the last
  event of the log, and no other cursor moves.\<close>

theorem polling_drains_log:
  assumes "el_ok lg" "sc_ok (as_cursors st)" "resolve_polling_sub ao (pq_subscription_id rq) st = Inr sub"
    and "requested_types (pq_event_type rq) = Inr types" "pq_read_all rq"
    and "length (el_contents lg) \<le> k * pq_limit rq"
  shows "\<exists>outs c. pending_times ao sql_poll_ops lg rq k st = (Inr outs, st\<lparr>as_cursors := c\<rparr>)
    \<and> concat (map out_items outs) = map to_pending (filter (poll_matches sub types)
        (filter (\<lambda>e. last_seq (sc_get (as_cursors st) (sink_consumer_name sub)) < seq e) (el_contents lg)))
    \<and> last_seq (sc_get c (sink_consumer_name sub)) = last_pos seq (last_seq (sc_get (as_cursors st) (sink_consumer_name sub)))
        (filter (\<lambda>e. last_seq (sc_get (as_cursors st) (sink_consumer_name sub)) < seq e) (el_contents lg))
    \<and> (\<forall>m. m \<noteq> sink_consumer_name sub \<longrightarrow> sc_get c m = sc_get (as_cursors st) m)"
proof -
  let ?q = "last_seq (sc_get (as_cursors st) (sink_consumer_name sub))"
  let ?rest = "filter (\<lambda>e. ?q < seq e) (el_contents lg)"
  have "length ?rest \<le> k * pq_limit rq" using assms(6) le_trans [OF length_filter_le] by blast
  then have all: "take (k * pq_limit rq) ?rest = ?rest" by simp
  show ?thesis
    using spoll.pending_times_all [OF assms(1-5) refl, of k] all by (simp add: spoll.pops_def)
qed

text \<open>C23: A confirmation never moves a cursor back and never half commits, whatever others commit around its reads.
  It answers a position at or past the one asked for: either the cursor was there already and nothing was
  written, or its one write moved the cursor up from below, leaving all others. The typed conflict
  comes only when at least two commits of others to this cursor got in between. Nothing else is raised.\<close>

theorem confirm_never_rewinds:
  assumes "sc_ok c" "confirm sql_poll_ops 1 others sub up_to c = (res, c')"
  shows "\<exists>ws c0. c0 = run_writes sql_poll_ops ws c
    \<and> set ws \<subseteq> (\<Union>k. set (fst (others k)) \<union> set (snd (others k)))
    \<and> (case res of
          Inr r \<Rightarrow> (r = last_seq (sc_get c0 (sink_consumer_name sub)) \<and> up_to \<le> r \<and> c' = c0)
            \<or> (r = up_to \<and> last_seq (sc_get c0 (sink_consumer_name sub)) < up_to
                \<and> sc_get c' (sink_consumer_name sub) = \<lparr>last_seq = up_to, version = version (sc_get c0 (sink_consumer_name sub)) + 1\<rparr>
                \<and> (\<forall>m. m \<noteq> sink_consumer_name sub \<longrightarrow> sc_get c' m = sc_get c0 m))
        | Inl e \<Rightarrow> e = Web (Conflict (su_id sub) up_to) \<and> c' = c0
            \<and> version (sc_get c (sink_consumer_name sub)) + 2 \<le> version (sc_get c' (sink_consumer_name sub)))"
proof -
  have "spoll.confirmed others sub up_to 2 c res c'"
    using spoll.confirm_loop_confirmed [OF assms(1), of 2 others sub up_to res c'] assms(2)
    by (simp add: spoll.pops_def confirm_def)
  then show ?thesis unfolding spoll.confirmed_def spoll.pops_def of_nat_numeral by blast
qed

text \<open>A position beyond the log's head is accepted, and the events that are given those positions later are
  never delivered: no sequence of requests after the confirmation, of any page size and type filter, confirming or
  not, returns an event appended afterwards at or below it.\<close>

theorem confirm_beyond_head_skips:
  assumes "el_ok lg" "sc_ok (as_cursors st)" "resolve_polling_sub ao i st = Inr sub"
    and "last_seq (sc_get (as_cursors st) (sink_consumer_name sub)) < up_to"
    and "el_append es b lg = (Inr n, lg')" "e \<in> set (el_contents lg')" "el_max_seq lg < seq e" "seq e \<le> up_to"
  shows "\<exists>c. read_events ao sql_poll_ops alone i up_to st = (Inr (i, up_to), st\<lparr>as_cursors := c\<rparr>)
    \<and> (\<forall>rq k outs st'. pq_subscription_id rq = i \<and> pending_times ao sql_poll_ops lg' rq k (st\<lparr>as_cursors := c\<rparr>) = (Inr outs, st')
        \<longrightarrow> to_pending e \<notin> set (concat (map out_items outs)))"
proof -
  obtain c where c: "confirm sql_poll_ops 1 alone sub up_to (as_cursors st) = (Inr up_to, c)" "sc_ok c"
    "last_seq (sc_get c (sink_consumer_name sub)) = up_to"
    using spoll.confirm_alone [OF assms(2,4)] by (auto simp: spoll.pops_def)
  have again: "resolve_polling_sub ao i (st\<lparr>as_cursors := c\<rparr>) = Inr sub"
    using assms(3) by (simp add: resolve_polling_sub_def get_sub_def)
  have "to_pending e \<notin> set (concat (map out_items outs))"
    if "pq_subscription_id rq = i" "pending_times ao sql_poll_ops lg' rq k (st\<lparr>as_cursors := c\<rparr>) = (Inr outs, st')" for rq k outs st'
    using spoll.pending_times_above [OF elog.append_keeps_ok [OF assms(1,5)] _ that(2) [folded spoll.pops_def], of sub up_to]
      that(1) again c(2,3) assms(8)
    by (fastforce simp: spoll.pops_def to_pending_def)
  then show ?thesis using c(1) assms(3)
    by (intro exI [of _ c]) (auto simp: read_events_def)
qed

subsection \<open>Concrete runs\<close>

definition example_poll_admin :: "(memory_subs, cursor_table) admin_ops" where
  "example_poll_admin = \<lparr>ao_get = mr_get, ao_add = mr_put, ao_replace = mr_put,
     ao_list = \<lambda>l off act r. Inr (repo_list su_created_at su_active (int l) (int off) act r),
     ao_count = repo_count su_created_at su_active, ao_cursor = sc_get, ao_commit = sc_commit, ao_delete = sc_delete\<rparr>"

definition example_poll_sub :: sink_sub where
  "example_poll_sub = \<lparr>su_id = ''p1'', su_transport = POLLING, su_endpoint = ''client'', su_event_types = [ev_type parked_example],
     su_created_at = the (from_timestamp_utc 0), su_ctx = PollingCtx 0, su_scope = NoScope, su_secret = None,
     su_token_hash = None, su_active = True\<rparr>"

definition example_poll_state :: "(memory_subs, cursor_table) admin_state" where
  "example_poll_state = \<lparr>as_repo = [(''p1'', example_poll_sub)], as_cursors = []\<rparr>"

definition example_poll_log :: event_db where
  "example_poll_log = snd (el_append [parked_example] (marker_batch ''other'' 1) el_init)"

lemma example_poll_log_facts:
  "el_ok example_poll_log" "el_contents example_poll_log = [flatten (with_seq 1 parked_example)]"
  "el_append [parked_example] (marker_batch ''other'' 1) el_init = (Inr 1, example_poll_log)"
proof -
  show "el_ok example_poll_log" using el_ok_append [OF el_ok_init] by (metis example_poll_log_def prod.collapse)
  show "el_contents example_poll_log = [flatten (with_seq 1 parked_example)]"
    by (simp add: example_poll_log_def el_append_def el_init_def el_contents_def event_fits_def parked_example_def batch_fits_def
        marker_batch_def row_event_of_event)
  show "el_append [parked_example] (marker_batch ''other'' 1) el_init = (Inr 1, example_poll_log)"
    by (simp add: example_poll_log_def el_append_def el_init_def event_fits_def parked_example_def batch_fits_def
        marker_batch_def rows_max_def event_to_row_def)
qed

lemma example_poll_state_facts:
  "sc_ok (as_cursors example_poll_state)" "resolve_polling_sub example_poll_admin ''p1'' example_poll_state = Inr example_poll_sub"
  "sc_get (as_cursors example_poll_state) n = cursor0"
  by (simp_all add: sc_ok_def example_poll_state_def resolve_polling_sub_def get_sub_def example_poll_admin_def mr_get_def
      lift_result_def example_poll_sub_def sc_get_def cursor0_def)

theorem polling_drains_log_witness:
  "\<exists>outs c. pending_times example_poll_admin sql_poll_ops example_poll_log
       \<lparr>pq_subscription_id = ''p1'', pq_event_type = None, pq_limit = 1, pq_read_all = True\<rparr> 1 example_poll_state
         = (Inr outs, example_poll_state\<lparr>as_cursors := c\<rparr>)
     \<and> concat (map out_items outs) = [to_pending (flatten (with_seq 1 parked_example))]
     \<and> last_seq (sc_get c ''sink:p1'') = 1"
proof -
  let ?rq = "\<lparr>pq_subscription_id = ''p1'', pq_event_type = None, pq_limit = 1, pq_read_all = True\<rparr>"
  have m: "poll_matches example_poll_sub None (flatten (with_seq 1 parked_example))"
    by (simp add: poll_matches_def example_poll_sub_def)
  have n: "sink_consumer_name example_poll_sub = ''sink:p1''" by (simp add: sink_consumer_name_def example_poll_sub_def)
  have t: "requested_types (pq_event_type ?rq) = Inr None" by (simp add: requested_types_def)
  from polling_drains_log [OF example_poll_log_facts(1) example_poll_state_facts(1), of example_poll_admin ?rq example_poll_sub None 1, OF _ t]
  show ?thesis by (fastforce simp: example_poll_state_facts example_poll_log_facts(2) n m cursor0_def simp del: pending_times.simps One_nat_def)
qed

theorem confirm_never_rewinds_witness:
  "\<exists>c'. confirm sql_poll_ops 1 alone example_poll_sub 5 [] = (Inr 5, c') \<and> last_seq (sc_get c' ''sink:p1'') = 5"
proof -
  obtain res c' where r: "confirm sql_poll_ops 1 alone example_poll_sub 5 [] = (res, c')" by fastforce
  have n: "sink_consumer_name example_poll_sub = ''sink:p1''" by (simp add: sink_consumer_name_def example_poll_sub_def)
  have "sc_ok []" by (simp add: sc_ok_def)
  from confirm_never_rewinds [OF this r] have "res = Inr 5 \<and> last_seq (sc_get c' ''sink:p1'') = 5"
    by (cases res) (auto simp: n sc_get_def [of "[]"])
  with r show ?thesis by simp
qed

theorem confirm_beyond_head_skips_witness:
  "\<exists>c c' outs. read_events example_poll_admin sql_poll_ops alone ''p1'' 3 example_poll_state = (Inr (''p1'', 3), example_poll_state\<lparr>as_cursors := c\<rparr>)
     \<and> pending_times example_poll_admin sql_poll_ops example_poll_log
         \<lparr>pq_subscription_id = ''p1'', pq_event_type = None, pq_limit = 10, pq_read_all = True\<rparr> 2 (example_poll_state\<lparr>as_cursors := c\<rparr>)
           = (Inr outs, example_poll_state\<lparr>as_cursors := c'\<rparr>)
     \<and> to_pending (flatten (with_seq 1 parked_example)) \<notin> set (concat (map out_items outs))"
proof -
  let ?e = "flatten (with_seq 1 parked_example)"
  let ?rq = "\<lparr>pq_subscription_id = ''p1'', pq_event_type = None, pq_limit = 10, pq_read_all = True\<rparr>"
  have e: "?e \<in> set (el_contents example_poll_log)" "el_max_seq el_init < seq ?e" "seq ?e \<le> 3"
    by (simp_all add: example_poll_log_facts(2) el_init_def el_max_seq_def rows_max_def)
  have "last_seq (sc_get (as_cursors example_poll_state) (sink_consumer_name example_poll_sub)) < 3"
    by (simp add: example_poll_state_facts(3) cursor0_def)
  from confirm_beyond_head_skips [OF el_ok_init example_poll_state_facts(1,2) this example_poll_log_facts(3) e] obtain c where
    c: "read_events example_poll_admin sql_poll_ops alone ''p1'' 3 example_poll_state = (Inr (''p1'', 3), example_poll_state\<lparr>as_cursors := c\<rparr>)"
      "\<forall>rq k outs st'. pq_subscription_id rq = ''p1'' \<and>
         pending_times example_poll_admin sql_poll_ops example_poll_log rq k (example_poll_state\<lparr>as_cursors := c\<rparr>) = (Inr outs, st')
           \<longrightarrow> to_pending ?e \<notin> set (concat (map out_items outs))" by blast
  have "sc_ok c" using c(1) spoll.confirm_alone [OF example_poll_state_facts(1) \<open>_ < 3\<close>]
    by (auto simp: read_events_def example_poll_state_facts(2) spoll.pops_def dest!: arg_cong [of _ _ as_cursors])
  moreover have "resolve_polling_sub example_poll_admin ''p1'' (example_poll_state\<lparr>as_cursors := c\<rparr>) = Inr example_poll_sub"
    using example_poll_state_facts(2) by (simp add: resolve_polling_sub_def get_sub_def)
  moreover have "requested_types (pq_event_type ?rq) = Inr None" by (simp add: requested_types_def)
  ultimately obtain outs c' where "pending_times example_poll_admin sql_poll_ops example_poll_log ?rq 2 (example_poll_state\<lparr>as_cursors := c\<rparr>)
      = (Inr outs, example_poll_state\<lparr>as_cursors := c'\<rparr>)"
    using spoll.pending_times_all [OF example_poll_log_facts(1), of "example_poll_state\<lparr>as_cursors := c\<rparr>" example_poll_admin ?rq example_poll_sub None _ 2]
    by (fastforce simp: spoll.pops_def)
  moreover from this have "to_pending ?e \<notin> set (concat (map out_items outs))"
    using c(2) [THEN spec, of ?rq] by (auto simp del: pending_times.simps)
  ultimately show ?thesis using c(1) by blast
qed

end
