(* ===== verification/Streams.thy ===== *)
theory Streams
  imports Polling
begin

text \<open>
  Stream egress: the reader of a subscription's feed (\<open>web/services/streams.py\<close>), the SSE and WebSocket routes
  (\<open>web/routes/streams.py\<close>) and the first WebSocket frame (\<open>WsAuth\<close> of \<open>web/schemas/dtos.py\<close>). A reader reads a
  page at once and hands its frames over one by one, while the log grows: its program counter is a value,
  one move of it a function, and a run interleaves moves with appends. The sleep between two reads of an idle
  reader is a state of its own.
\<close>

record stream_frame =
  sf_seq :: int
  sf_event_type :: event_type
  sf_data :: "(string \<times> json) list"

record catch_up_batch =
  cu_frames :: "stream_frame list"
  cu_next_seq :: int
  cu_drained :: bool

definition default_max_batch :: nat where
  "default_max_batch = 500"

definition stream_matches :: "sink_sub \<Rightarrow> domain_event \<Rightarrow> bool" where
  "stream_matches sub e \<longleftrightarrow>
     ev_type e \<in> set (su_event_types sub) \<and> list_all (\<lambda>(k, v). payload_str (payload e) k = v) (to_filters (su_scope sub))"

definition to_frame :: "domain_event \<Rightarrow> stream_frame" where
  "to_frame e = \<lparr>sf_seq = seq e, sf_event_type = ev_type e, sf_data = event_envelope e\<rparr>"

definition catch_up ::
  "('l \<Rightarrow> int \<Rightarrow> nat \<Rightarrow> domain_event list option) \<Rightarrow> nat \<Rightarrow> sink_sub \<Rightarrow> 'l \<Rightarrow> int \<Rightarrow> catch_up_batch option" where
  "catch_up read max_batch sub lg after =
     map_option (\<lambda>events. \<lparr>cu_frames = map to_frame (filter (stream_matches sub) events),
       cu_next_seq = (if events = [] then after else seq (last events)), cu_drained = (length events < max_batch)\<rparr>)
       (read lg after max_batch)"

subsection \<open>The reader\<close>

text \<open>
  \<open>Catching\<close>: before a read of the backlog. \<open>Yielding\<close>: handing over the frames of a batch. \<open>Reading\<close>,
  \<open>Scanning\<close>, \<open>Sleeping\<close>: the same of the live loop, event by event. \<open>Failed\<close>: a read has raised.
\<close>

datatype feed_pc =
    Catching
  | Yielding "stream_frame list" int bool
  | Reading
  | Scanning "domain_event list" bool
  | Sleeping
  | Failed

record 'l feed =
  fd_log :: 'l
  fd_cursor :: int
  fd_pc :: feed_pc
  fd_out :: "stream_frame list"

definition feed_start :: "'l \<Rightarrow> int \<Rightarrow> 'l feed" where
  "feed_start lg after = \<lparr>fd_log = lg, fd_cursor = after, fd_pc = Catching, fd_out = []\<rparr>"

definition feed_advance ::
  "('l \<Rightarrow> int \<Rightarrow> nat \<Rightarrow> domain_event list option) \<Rightarrow> nat \<Rightarrow> sink_sub \<Rightarrow> 'l feed \<Rightarrow> 'l feed" where
  "feed_advance read max_batch sub s =
     (case fd_pc s of
        Catching \<Rightarrow>
          (case catch_up read max_batch sub (fd_log s) (fd_cursor s) of
             None \<Rightarrow> s\<lparr>fd_pc := Failed\<rparr>
           | Some b \<Rightarrow> s\<lparr>fd_pc := Yielding (cu_frames b) (cu_next_seq b) (cu_drained b)\<rparr>)
      | Yielding (f # fs) n d \<Rightarrow> s\<lparr>fd_out := fd_out s @ [f], fd_pc := Yielding fs n d\<rparr>
      | Yielding [] n d \<Rightarrow> s\<lparr>fd_cursor := n, fd_pc := (if d then Reading else Catching)\<rparr>
      | Reading \<Rightarrow>
          (case read (fd_log s) (fd_cursor s) max_batch of
             None \<Rightarrow> s\<lparr>fd_pc := Failed\<rparr>
           | Some es \<Rightarrow> s\<lparr>fd_pc := Scanning es (length es < max_batch)\<rparr>)
      | Scanning (e # es) b \<Rightarrow>
          s\<lparr>fd_cursor := seq e, fd_out := fd_out s @ (if stream_matches sub e then [to_frame e] else []), fd_pc := Scanning es b\<rparr>
      | Scanning [] b \<Rightarrow> s\<lparr>fd_pc := (if b then Sleeping else Reading)\<rparr>
      | Sleeping \<Rightarrow> s\<lparr>fd_pc := Reading\<rparr>
      | Failed \<Rightarrow> s)"

text \<open>A run of the SSE body: the reader moves, and others append.\<close>

inductive sse_step ::
  "('l \<Rightarrow> int \<Rightarrow> nat \<Rightarrow> domain_event list option) \<Rightarrow> (domain_event list \<Rightarrow> last_seen_batch \<Rightarrow> 'l \<Rightarrow> int result \<times> 'l)
     \<Rightarrow> nat \<Rightarrow> sink_sub \<Rightarrow> 'l feed \<Rightarrow> 'l feed \<Rightarrow> bool"
  for read add max_batch sub where
  sse_move: "sse_step read add max_batch sub s (feed_advance read max_batch sub s)"
| sse_append: "add es b (fd_log s) = (r, lg) \<Longrightarrow> sse_step read add max_batch sub s (s\<lparr>fd_log := lg\<rparr>)"

inductive_cases sse_stepE: "sse_step read add max_batch sub s s'"

abbreviation sse_reaches where
  "sse_reaches read add max_batch sub \<equiv> rtranclp (sse_step read add max_batch sub)"

subsection \<open>The routes\<close>

definition resolve_stream_sub ::
  "('r \<Rightarrow> string \<Rightarrow> sink_sub option result) \<Rightarrow> string \<Rightarrow> string option \<Rightarrow> 'r \<Rightarrow> sink_sub web_result" where
  "resolve_stream_sub get i token r =
     bind_web (lift_result (get r i)) (\<lambda>s.
       case s of
         None \<Rightarrow> Inl (Web (Unauthorized ''invalid stream token''))
       | Some sub \<Rightarrow>
           (case su_token_hash sub of
              None \<Rightarrow> Inl (Web (Unauthorized ''invalid stream token''))
            | Some h \<Rightarrow> bind_web (verify_stream_token token h) (\<lambda>_. Inr sub)))"

definition newline :: char where
  "newline = CHR 0x0A"

definition sse_frame :: "stream_frame \<Rightarrow> string" where
  "sse_frame f = ''id: '' @ str_int (sf_seq f) @ [newline] @ ''event: '' @ et_value (sf_event_type f) @ [newline]
     @ ''data: '' @ json_dumps raw_style (JObj (sf_data f)) @ [newline, newline]"

definition parse_last_event_id :: "string option \<Rightarrow> int" where
  "parse_last_event_id raw =
     (case raw of
        None \<Rightarrow> 0
      | Some r \<Rightarrow> if r = [] then 0 else (case py_int r of None \<Rightarrow> 0 | Some i \<Rightarrow> max 0 i))"

text \<open>The state an SSE response starts from; its body is the run of the reader, each frame as text.\<close>

definition sse_open ::
  "('r \<Rightarrow> string \<Rightarrow> sink_sub option result) \<Rightarrow> string \<Rightarrow> string option \<Rightarrow> string option \<Rightarrow> string option \<Rightarrow> 'r \<Rightarrow> 'l
     \<Rightarrow> (sink_sub \<times> 'l feed) web_result" where
  "sse_open get i authorization x_stream_token last_event_id r lg =
     bind_web (resolve_stream_sub get i (extract_bearer authorization x_stream_token) r) (\<lambda>sub.
       Inr (sub, feed_start lg (parse_last_event_id last_event_id)))"

definition sse_text :: "'l feed \<Rightarrow> string" where
  "sse_text s = concat (map sse_frame (fd_out s))"

subsection \<open>Windows of an ascending list\<close>

lemma window_split:
  "ascending f xs \<Longrightarrow> a \<le> q \<Longrightarrow> q \<le> l
     \<Longrightarrow> filter (\<lambda>x. a < f x \<and> f x \<le> l) xs = filter (\<lambda>x. a < f x \<and> f x \<le> q) xs @ filter (\<lambda>x. q < f x \<and> f x \<le> l) xs"
proof (induction xs)
  case (Cons x xs)
  then have "filter (\<lambda>y. a < f y \<and> f y \<le> q) xs = []" if "q < f x"
    using that by (auto simp: filter_empty_conv)
  with Cons show ?case by auto
qed simp

lemma take_window:
  assumes "ascending f xs" "\<forall>x\<in>set xs. q < f x"
  shows "filter (\<lambda>x. f x \<le> last_pos f q (take n xs)) xs = take n xs"
proof -
  let ?l = "last_pos f q (take n xs)"
  have low: "f x \<le> ?l" if "x \<in> set (take n xs)" for x
    using last_pos_upper [OF ascending_take [OF assms(1)] that] .
  have high: "?l < f x" if "x \<in> set (drop n xs)" for x
  proof (cases "take n xs = []")
    case True
    then show ?thesis using that assms(2) by (auto dest: in_set_dropD)
  next
    case False
    then have "last (take n xs) \<in> set (take n xs)" by simp
    with assms(1) that have "f (last (take n xs)) < f x"
      by (metis append_take_drop_id ascending_append)
    with False show ?thesis by (simp add: last_pos_def)
  qed
  have "filter (\<lambda>x. f x \<le> ?l) (take n xs) = take n xs" by (rule filter_True) (use low in blast)
  moreover have "filter (\<lambda>x. f x \<le> ?l) (drop n xs) = []" by (rule filter_False) (use high in \<open>auto simp: not_le\<close>)
  ultimately show ?thesis by (metis append_Nil2 append_take_drop_id filter_append)
qed

lemma window_page:
  assumes "ascending f xs" "a \<le> q"
  shows "filter (\<lambda>x. a < f x \<and> f x \<le> q) xs @ page_after f xs q n
      = filter (\<lambda>x. a < f x \<and> f x \<le> last_pos f q (page_after f xs q n)) xs"
    and "q \<le> last_pos f q (page_after f xs q n)"
proof -
  let ?l = "last_pos f q (page_after f xs q n)"
  show le: "q \<le> ?l" using page_after_above [of _ f xs q n] by (intro last_pos_mono) blast
  have "page_after f xs q n = filter (\<lambda>x. f x \<le> ?l) (filter (\<lambda>x. q < f x) xs)"
    unfolding page_after_def by (rule take_window [symmetric]) (use assms(1) in auto)
  also have "\<dots> = filter (\<lambda>x. q < f x \<and> f x \<le> ?l) xs" by (simp add: conj_commute)
  finally show "filter (\<lambda>x. a < f x \<and> f x \<le> q) xs @ page_after f xs q n = filter (\<lambda>x. a < f x \<and> f x \<le> ?l) xs"
    using window_split [OF assms le] by (simp only:)
qed

subsection \<open>What a reader has handed over\<close>

text \<open>How far a reader has scanned, and the frames it still has to hand over of that.\<close>

definition feed_front :: "'l feed \<Rightarrow> int" where
  "feed_front s =
     (case fd_pc s of Yielding fs n d \<Rightarrow> n | Scanning es b \<Rightarrow> last_pos seq (fd_cursor s) es | _ \<Rightarrow> fd_cursor s)"

definition feed_due :: "sink_sub \<Rightarrow> 'l feed \<Rightarrow> stream_frame list" where
  "feed_due sub s =
     (case fd_pc s of Yielding fs n d \<Rightarrow> fs | Scanning es b \<Rightarrow> map to_frame (filter (stream_matches sub) es) | _ \<Rightarrow> [])"

definition frames_in :: "sink_sub \<Rightarrow> domain_event list \<Rightarrow> int \<Rightarrow> int \<Rightarrow> stream_frame list" where
  "frames_in sub cs a q = map to_frame (filter (stream_matches sub) (filter (\<lambda>e. a < seq e \<and> seq e \<le> q) cs))"

text \<open>The position of the last frame handed over, from which a client resumes.\<close>

definition resume_point :: "int \<Rightarrow> stream_frame list \<Rightarrow> int" where
  "resume_point a out = (if out = [] then a else sf_seq (last out))"

text \<open>Moves of the reader alone.\<close>

definition leads_to :: "('a \<Rightarrow> 'a) \<Rightarrow> 'a \<Rightarrow> 'a \<Rightarrow> bool" where
  "leads_to f s s' \<longleftrightarrow> (\<exists>k. (f ^^ k) s = s')"

lemma leads_to_refl: "leads_to f s s"
  unfolding leads_to_def by (rule exI [of _ 0]) simp

lemma leads_to_step: "leads_to f (f s) s' \<Longrightarrow> leads_to f s s'"
  unfolding leads_to_def by (metis funpow_Suc_right comp_apply)

lemma leads_to_trans: "leads_to f s t \<Longrightarrow> leads_to f t u \<Longrightarrow> leads_to f s u"
  unfolding leads_to_def by (metis funpow_add comp_apply)

lemma scanning_ends:
  "fd_pc s = Scanning es b \<Longrightarrow> \<exists>s'. leads_to (feed_advance read max_batch sub) s s' \<and> fd_log s' = fd_log s
     \<and> fd_cursor s' = last_pos seq (fd_cursor s) es \<and> fd_pc s' = (if b then Sleeping else Reading)"
proof (induction es arbitrary: s)
  case Nil
  let ?s = "feed_advance read max_batch sub s"
  have "fd_log ?s = fd_log s" "fd_cursor ?s = fd_cursor s" "fd_pc ?s = (if b then Sleeping else Reading)"
    using Nil by (simp_all add: feed_advance_def)
  then show ?case
    using leads_to_step [OF leads_to_refl, of "feed_advance read max_batch sub" s] by (intro exI [of _ ?s]) simp
next
  case (Cons e es)
  let ?s = "feed_advance read max_batch sub s"
  have "fd_pc ?s = Scanning es b" "fd_log ?s = fd_log s" "fd_cursor ?s = seq e"
    using Cons.prems by (simp_all add: feed_advance_def)
  with Cons.IH [of ?s] obtain s' where "leads_to (feed_advance read max_batch sub) ?s s'" "fd_log s' = fd_log s"
    "fd_cursor s' = last_pos seq (seq e) es" "fd_pc s' = (if b then Sleeping else Reading)" by metis
  then show ?case by (intro exI [of _ s']) (simp add: leads_to_step)
qed

lemma yielding_ends:
  "fd_pc s = Yielding fs n d \<Longrightarrow> \<exists>s'. leads_to (feed_advance read max_batch sub) s s' \<and> fd_log s' = fd_log s
     \<and> fd_cursor s' = n \<and> fd_pc s' = (if d then Reading else Catching)"
proof (induction fs arbitrary: s)
  case Nil
  let ?s = "feed_advance read max_batch sub s"
  have "fd_log ?s = fd_log s" "fd_cursor ?s = n" "fd_pc ?s = (if d then Reading else Catching)"
    using Nil by (simp_all add: feed_advance_def)
  then show ?case
    using leads_to_step [OF leads_to_refl, of "feed_advance read max_batch sub" s] by (intro exI [of _ ?s]) simp
next
  case (Cons f fs)
  let ?s = "feed_advance read max_batch sub s"
  have "fd_pc ?s = Yielding fs n d" "fd_log ?s = fd_log s"
    using Cons.prems by (simp_all add: feed_advance_def)
  with Cons.IH [of ?s] obtain s' where "leads_to (feed_advance read max_batch sub) ?s s'" "fd_log s' = fd_log s"
    "fd_cursor s' = n" "fd_pc s' = (if d then Reading else Catching)" by metis
  then show ?case by (intro exI [of _ s']) (simp add: leads_to_step)
qed

context event_log
begin

definition feed_inv :: "sink_sub \<Rightarrow> int \<Rightarrow> 's feed \<Rightarrow> bool" where
  "feed_inv sub a s \<longleftrightarrow> log_ok (fd_log s) \<and> fd_out s @ feed_due sub s = frames_in sub (contents (fd_log s)) a (feed_front s)
     \<and> a \<le> feed_front s \<and> (feed_front s = a \<or> feed_front s \<le> max_seq (fd_log s)) \<and> fd_pc s \<noteq> Failed"

lemma page_frames:
  assumes "log_ok lg" "a \<le> q"
  shows "frames_in sub (contents lg) a q @ map to_frame (filter (stream_matches sub) (page_after seq (contents lg) q n))
      = frames_in sub (contents lg) a (last_pos seq q (page_after seq (contents lg) q n))"
  unfolding frames_in_def window_page(1) [OF contents_ascending [OF assms(1)] assms(2), symmetric] by simp

lemma page_front:
  assumes "log_ok lg" "q = a \<or> q \<le> max_seq lg" "a \<le> q"
  shows "a \<le> last_pos seq q (page_after seq (contents lg) q n)
    \<and> (last_pos seq q (page_after seq (contents lg) q n) = a \<or> last_pos seq q (page_after seq (contents lg) q n) \<le> max_seq lg)"
proof (cases "page_after seq (contents lg) q n = []")
  case True
  then show ?thesis using assms(2,3) by simp
next
  case False
  let ?p = "page_after seq (contents lg) q n"
  have "last ?p \<in> set (contents lg)" using page_after_above [of "last ?p" seq "contents lg" q n] False by simp
  then have "seq (last ?p) \<le> max_seq lg"
    using last_pos_upper [OF contents_ascending [OF assms(1)], of "last ?p" 0] max_last [OF assms(1)] by simp
  moreover have "q < seq (last ?p)" using page_after_above [of "last ?p" seq "contents lg" q n] False by simp
  ultimately show ?thesis using False assms(3) by (simp add: last_pos_def)
qed

lemma feed_advance_inv:
  assumes inv: "feed_inv sub a s"
  shows "feed_inv sub a (feed_advance read_after max_batch sub s)"
proof -
  have ok: "log_ok (fd_log s)" and out: "fd_out s @ feed_due sub s = frames_in sub (contents (fd_log s)) a (feed_front s)"
    and front: "a \<le> feed_front s" "feed_front s = a \<or> feed_front s \<le> max_seq (fd_log s)" "fd_pc s \<noteq> Failed"
    using inv by (auto simp: feed_inv_def)
  note page = read_page [OF ok, of "fd_cursor s" max_batch]
  show ?thesis
  proof (cases "fd_pc s")
    case Catching
    then have q: "feed_front s = fd_cursor s" "feed_due sub s = []" by (simp_all add: feed_front_def feed_due_def)
    show ?thesis
      using Catching page ok out front page_frames [OF ok, of a "fd_cursor s" sub max_batch] page_front [OF ok, of "fd_cursor s" a max_batch]
      unfolding q by (simp add: feed_advance_def catch_up_def feed_inv_def feed_front_def feed_due_def last_pos_def)
  next
    case (Yielding fs n d)
    then show ?thesis using ok out front
      by (cases fs) (auto simp: feed_advance_def feed_inv_def feed_front_def feed_due_def)
  next
    case Reading
    then have q: "feed_front s = fd_cursor s" "feed_due sub s = []" by (simp_all add: feed_front_def feed_due_def)
    show ?thesis
      using Reading page ok out front page_frames [OF ok, of a "fd_cursor s" sub max_batch] page_front [OF ok, of "fd_cursor s" a max_batch]
      unfolding q by (simp add: feed_advance_def feed_inv_def feed_front_def feed_due_def)
  next
    case (Scanning es b)
    then show ?thesis using ok out front
      by (cases es) (auto simp: feed_advance_def feed_inv_def feed_front_def feed_due_def)
  qed (use ok out front in \<open>simp_all add: feed_advance_def feed_inv_def feed_front_def feed_due_def\<close>)
qed

lemma append_window:
  assumes "log_ok lg" "append_log es b lg = (r, lg')" "q = a \<or> q \<le> max_seq lg"
  shows "frames_in sub (contents lg') a q = frames_in sub (contents lg) a q" "max_seq lg \<le> max_seq lg'"
proof -
  obtain new where new: "contents lg' = contents lg @ new" using append_extends [OF assms(1,2)] by blast
  have ok: "log_ok lg'" using append_keeps_ok assms(1,2) by blast
  have later: "max_seq lg < seq e" if "e \<in> set new" for e using appended_later [OF assms(1,2) new that] .
  then have none: "filter (\<lambda>e. a < seq e \<and> seq e \<le> q) new = []"
    using assms(3) by (fastforce simp: filter_empty_conv)
  then show "frames_in sub (contents lg') a q = frames_in sub (contents lg) a q"
    by (simp add: frames_in_def new)
  show "max_seq lg \<le> max_seq lg'"
    using later by (cases new rule: rev_cases) (auto simp: max_last [OF ok] max_last [OF assms(1)] new last_pos_append last_pos_def less_imp_le)
qed

lemma sse_step_inv:
  assumes "sse_step read_after append_log max_batch sub s s'" "feed_inv sub a s"
  shows "feed_inv sub a s'"
  using assms(1)
proof (cases rule: sse_step.cases)
  case sse_move
  then show ?thesis using feed_advance_inv [OF assms(2)] by simp
next
  case (sse_append es b r lg)
  have ok: "log_ok (fd_log s)" and front: "feed_front s = a \<or> feed_front s \<le> max_seq (fd_log s)"
    using assms(2) by (auto simp: feed_inv_def)
  have "feed_front (s\<lparr>fd_log := lg\<rparr>) = feed_front s" "feed_due sub (s\<lparr>fd_log := lg\<rparr>) = feed_due sub s"
    by (cases "fd_pc s"; simp add: feed_front_def feed_due_def)+
  then show ?thesis
    using append_window(1) [OF ok sse_append(2) front, of sub] append_window(2) [OF ok sse_append(2) front] append_keeps_ok [OF ok sse_append(2)] assms(2) sse_append(1)
    by (auto simp: feed_inv_def)
qed

lemma feed_start_inv: "log_ok lg \<Longrightarrow> feed_inv sub a (feed_start lg a)"
  by (simp add: feed_inv_def feed_start_def feed_front_def feed_due_def frames_in_def filter_empty_conv)

lemma sse_reaches_inv:
  "sse_reaches read_after append_log max_batch sub s s' \<Longrightarrow> feed_inv sub a s \<Longrightarrow> feed_inv sub a s'"
  by (induction rule: rtranclp_induct) (auto intro: sse_step_inv)

lemma rest_after_page:
  assumes "log_ok lg" "0 < n" "\<not> length (page_after seq (contents lg) q n) < n"
  shows "length (filter (\<lambda>e. last_pos seq q (page_after seq (contents lg) q n) < seq e) (contents lg))
      < length (filter (\<lambda>e. q < seq e) (contents lg))"
  using arg_cong [OF page_after_step [OF contents_ascending [OF assms(1)], of q n], of length] assms(2,3) by simp

lemma short_page_head:
  assumes "log_ok lg" "length (page_after seq (contents lg) q n) < n"
  shows "\<forall>e\<in>set (contents lg). seq e \<le> last_pos seq q (page_after seq (contents lg) q n)"
proof -
  have "filter (\<lambda>e. last_pos seq q (page_after seq (contents lg) q n) < seq e) (contents lg) = []"
    using page_after_step [OF contents_ascending [OF assms(1)], of q n] page_after_short [OF assms(2)] by simp
  then show ?thesis by (simp add: filter_empty_conv not_less)
qed

text \<open>Left alone, a reader about to read live comes to rest with the whole log scanned.\<close>

lemma reading_rests:
  assumes "log_ok (fd_log s)" "0 < max_batch" "fd_pc s = Reading"
  shows "\<exists>s'. leads_to (feed_advance read_after max_batch sub) s s' \<and> fd_log s' = fd_log s \<and> fd_pc s' = Sleeping
    \<and> (\<forall>e\<in>set (contents (fd_log s)). seq e \<le> fd_cursor s')"
  using assms(1,3)
proof (induction "length (filter (\<lambda>e. fd_cursor s < seq e) (contents (fd_log s)))" arbitrary: s rule: less_induct)
  case less
  let ?page = "page_after seq (contents (fd_log s)) (fd_cursor s) max_batch"
  let ?s = "feed_advance read_after max_batch sub s"
  have s1: "fd_pc ?s = Scanning ?page (length ?page < max_batch)" "fd_log ?s = fd_log s" "fd_cursor ?s = fd_cursor s"
    using less.prems by (simp_all add: feed_advance_def read_page)
  obtain s' where s'1: "leads_to (feed_advance read_after max_batch sub) ?s s'" and
    s'2: "fd_log s' = fd_log s" "fd_cursor s' = last_pos seq (fd_cursor s) ?page"
      "fd_pc s' = (if length ?page < max_batch then Sleeping else Reading)"
    using scanning_ends [OF s1(1), of read_after max_batch sub] unfolding s1(2,3) by blast
  note s' = leads_to_step [OF s'1] s'2
  show ?case
  proof (cases "length ?page < max_batch")
    case True
    then show ?thesis using s' short_page_head [OF less.prems(1) True] by auto
  next
    case False
    have "\<exists>t. leads_to (feed_advance read_after max_batch sub) s' t \<and> fd_log t = fd_log s' \<and> fd_pc t = Sleeping
      \<and> (\<forall>e\<in>set (contents (fd_log s')). seq e \<le> fd_cursor t)"
      using less.hyps [of s'] rest_after_page [OF less.prems(1) assms(2) False] less.prems(1) s'(2-4) False by simp
    then show ?thesis using leads_to_trans [OF s'(1)] s'(2) by auto
  qed
qed

lemma catching_reads:
  assumes "log_ok (fd_log s)" "0 < max_batch" "fd_pc s = Catching"
  shows "\<exists>s'. leads_to (feed_advance read_after max_batch sub) s s' \<and> fd_log s' = fd_log s \<and> fd_pc s' = Reading"
  using assms(1,3)
proof (induction "length (filter (\<lambda>e. fd_cursor s < seq e) (contents (fd_log s)))" arbitrary: s rule: less_induct)
  case less
  let ?page = "page_after seq (contents (fd_log s)) (fd_cursor s) max_batch"
  let ?s = "feed_advance read_after max_batch sub s"
  have s1: "fd_pc ?s = Yielding (map to_frame (filter (stream_matches sub) ?page)) (last_pos seq (fd_cursor s) ?page) (length ?page < max_batch)"
    "fd_log ?s = fd_log s" using less.prems by (simp_all add: feed_advance_def catch_up_def read_page last_pos_def)
  obtain s' where s'1: "leads_to (feed_advance read_after max_batch sub) ?s s'" and
    s'2: "fd_log s' = fd_log s" "fd_cursor s' = last_pos seq (fd_cursor s) ?page"
      "fd_pc s' = (if length ?page < max_batch then Reading else Catching)"
    using yielding_ends [OF s1(1), of read_after max_batch sub] unfolding s1(2) by blast
  note s' = leads_to_step [OF s'1] s'2
  show ?case
  proof (cases "length ?page < max_batch")
    case False
    have "\<exists>t. leads_to (feed_advance read_after max_batch sub) s' t \<and> fd_log t = fd_log s' \<and> fd_pc t = Reading"
      using less.hyps [of s'] rest_after_page [OF less.prems(1) assms(2) False] less.prems(1) s'(2-4) False by simp
    then show ?thesis using leads_to_trans [OF s'(1)] s'(2) by auto
  qed (use s' in auto)
qed

lemma feed_rests:
  assumes ok: "log_ok (fd_log s)" and n: "0 < max_batch" and pc: "fd_pc s \<noteq> Failed"
  shows "\<exists>s'. leads_to (feed_advance read_after max_batch sub) s s' \<and> fd_log s' = fd_log s \<and> fd_pc s' = Sleeping
    \<and> (\<forall>e\<in>set (contents (fd_log s)). seq e \<le> fd_cursor s')"
proof -
  let ?f = "feed_advance read_after max_batch sub"
  have from_reading: ?thesis if "leads_to ?f s t" "fd_log t = fd_log s" "fd_pc t = Reading" for t
    using reading_rests [OF _ n that(3), of sub] leads_to_trans [OF that(1)] that(2) ok by auto
  have from_catching: ?thesis if "leads_to ?f s t" "fd_log t = fd_log s" "fd_pc t = Catching" for t
    using catching_reads [OF _ n that(3), of sub] leads_to_trans [OF that(1)] that(2) ok from_reading by auto
  have sleeping: "leads_to ?f t (t\<lparr>fd_pc := Reading\<rparr>)" if "fd_pc t = Sleeping" for t
    by (rule leads_to_step) (simp add: that feed_advance_def leads_to_refl)
  show ?thesis
  proof (cases "fd_pc s")
    case (Yielding fs n' d)
    from yielding_ends [OF this, of read_after max_batch sub] obtain t where
      t: "leads_to ?f s t" "fd_log t = fd_log s" "fd_pc t = (if d then Reading else Catching)" by blast
    then show ?thesis using from_reading [OF t(1,2)] from_catching [OF t(1,2)] by (cases d) simp_all
  next
    case (Scanning es b)
    from scanning_ends [OF this, of read_after max_batch sub] obtain t where
      t: "leads_to ?f s t" "fd_log t = fd_log s" "fd_pc t = (if b then Sleeping else Reading)" by blast
    show ?thesis
    proof (cases b)
      case True
      with t have "leads_to ?f s (t\<lparr>fd_pc := Reading\<rparr>)" using leads_to_trans [OF t(1) sleeping] by simp
      then show ?thesis by (rule from_reading) (simp_all add: t(2))
    qed (use from_reading [OF t(1,2)] t(3) in simp)
  next
    case Sleeping
    from sleeping [OF this] show ?thesis by (rule from_reading) simp_all
  qed (use pc from_reading [OF leads_to_refl refl] from_catching [OF leads_to_refl refl] in simp_all)
qed

text \<open>Windows a reader has passed stay as they are.\<close>

lemma sse_step_window:
  assumes "sse_step read_after append_log max_batch sub s s'" "log_ok (fd_log s)" "q = a \<or> q \<le> max_seq (fd_log s)"
  shows "log_ok (fd_log s') \<and> frames_in sub' (contents (fd_log s')) a q = frames_in sub' (contents (fd_log s)) a q
    \<and> (q = a \<or> q \<le> max_seq (fd_log s'))"
  using assms(1)
proof (cases rule: sse_step.cases)
  case sse_move
  have "fd_log (feed_advance read_after max_batch sub s) = fd_log s"
    by (simp add: feed_advance_def catch_up_def split: feed_pc.split list.split option.split)
  then show ?thesis using assms(2,3) sse_move by simp
next
  case (sse_append es b r lg)
  then show ?thesis
    using append_window(1) [OF assms(2) sse_append(2) assms(3), of sub'] append_window(2) [OF assms(2) sse_append(2) assms(3)]
      append_keeps_ok [OF assms(2) sse_append(2)] assms(3) by auto
qed

lemma sse_reaches_window:
  "sse_reaches read_after append_log max_batch sub s s' \<Longrightarrow> log_ok (fd_log s) \<Longrightarrow> q = a \<or> q \<le> max_seq (fd_log s)
     \<Longrightarrow> log_ok (fd_log s') \<and> frames_in sub' (contents (fd_log s')) a q = frames_in sub' (contents (fd_log s)) a q
       \<and> (q = a \<or> q \<le> max_seq (fd_log s'))"
proof (induction rule: rtranclp_induct)
  case (step t u)
  then show ?case using sse_step_window [OF step(2), of q a sub'] by auto
qed simp

lemma funpow_reaches: "sse_reaches read_after append_log max_batch sub s ((feed_advance read_after max_batch sub ^^ k) s)"
proof (induction k)
  case (Suc k)
  show ?case unfolding funpow.simps comp_apply by (rule rtranclp.rtrancl_into_rtrancl [OF Suc sse_move])
qed simp

lemma handed_over_window:
  assumes "feed_inv sub a s"
  shows "fd_out s = frames_in sub (contents (fd_log s)) a (resume_point a (fd_out s))"
    and "a \<le> resume_point a (fd_out s)" and "resume_point a (fd_out s) = a \<or> resume_point a (fd_out s) \<le> max_seq (fd_log s)"
proof -
  define w where "w = filter (stream_matches sub) (filter (\<lambda>e. a < seq e \<and> seq e \<le> feed_front s) (contents (fd_log s)))"
  define p where "p = take (length (fd_out s)) w"
  let ?l = "resume_point a (fd_out s)"
  have ok: "log_ok (fd_log s)" and out: "fd_out s @ feed_due sub s = map to_frame w"
    and front: "feed_front s = a \<or> feed_front s \<le> max_seq (fd_log s)"
    using assms by (auto simp: feed_inv_def frames_in_def w_def)
  have asc: "ascending seq w" unfolding w_def using contents_ascending [OF ok] by (intro ascending_filter)
  have sent: "fd_out s = map to_frame p"
    using arg_cong [OF out, of "take (length (fd_out s))"] by (simp add: p_def take_map)
  have mem: "a < seq e \<and> seq e \<le> feed_front s" if "e \<in> set p" for e
    using that unfolding p_def w_def by (auto dest: in_set_takeD)
  have point: "?l = last_pos seq a p"
    by (simp add: sent resume_point_def last_pos_def last_map to_frame_def)
  have bounds: "a \<le> ?l" "?l = a \<or> ?l \<le> feed_front s"
    unfolding point using mem [of "last p"] by (cases "p = []"; simp add: last_pos_def)+
  show "a \<le> ?l" by (rule bounds(1))
  show "?l = a \<or> ?l \<le> max_seq (fd_log s)" using bounds front by auto
  have "p = filter (\<lambda>e. seq e \<le> ?l) w"
    unfolding point unfolding p_def by (rule take_window [symmetric, OF asc]) (simp add: w_def)
  also have "\<dots> = filter (stream_matches sub) (filter (\<lambda>e. a < seq e \<and> seq e \<le> ?l) (contents (fd_log s)))"
    unfolding w_def filter_filter using bounds by (intro filter_cong) auto
  finally show "fd_out s = frames_in sub (contents (fd_log s)) a ?l" using sent by (simp add: frames_in_def)
qed

lemma feed_serves_all:
  assumes "feed_inv sub a s" "0 < max_batch"
  shows "\<exists>k. fd_log ((feed_advance read_after max_batch sub ^^ k) s) = fd_log s
    \<and> fd_pc ((feed_advance read_after max_batch sub ^^ k) s) = Sleeping
    \<and> fd_out ((feed_advance read_after max_batch sub ^^ k) s)
        = map to_frame (filter (stream_matches sub) (filter (\<lambda>e. a < seq e) (contents (fd_log s))))"
proof -
  have "log_ok (fd_log s)" "fd_pc s \<noteq> Failed" using assms(1) by (simp_all add: feed_inv_def)
  from feed_rests [OF this(1) assms(2) this(2), of sub] obtain k where
    rest: "fd_log ((feed_advance read_after max_batch sub ^^ k) s) = fd_log s"
      "fd_pc ((feed_advance read_after max_batch sub ^^ k) s) = Sleeping"
      "\<forall>e\<in>set (contents (fd_log s)). seq e \<le> fd_cursor ((feed_advance read_after max_batch sub ^^ k) s)"
    by (auto simp: leads_to_def)
  let ?t = "(feed_advance read_after max_batch sub ^^ k) s"
  have "feed_inv sub a ?t" using sse_reaches_inv [OF funpow_reaches assms(1)] .
  then have "fd_out ?t = frames_in sub (contents (fd_log s)) a (fd_cursor ?t)"
    using rest(1,2) by (simp add: feed_inv_def feed_due_def feed_front_def)
  also have "\<dots> = map to_frame (filter (stream_matches sub) (filter (\<lambda>e. a < seq e) (contents (fd_log s))))"
    using rest(3) unfolding frames_in_def by (intro arg_cong [where f = "map to_frame"] arg_cong [where f = "filter _"] filter_cong) auto
  finally show ?thesis using rest by blast
qed

lemma resumed_feed:
  assumes "log_ok lg" "sse_reaches read_after append_log max_batch sub (feed_start lg a) s"
    and "sse_reaches read_after append_log max_batch' sub (feed_start (fd_log s) (resume_point a (fd_out s))) t"
  shows "fd_out s @ fd_out t @ feed_due sub t = frames_in sub (contents (fd_log t)) a (feed_front t)" "a \<le> feed_front t"
proof -
  let ?l = "resume_point a (fd_out s)"
  have inv: "feed_inv sub a s" using sse_reaches_inv [OF assms(2) feed_start_inv [OF assms(1)]] .
  note h = handed_over_window [OF inv]
  have ok: "log_ok (fd_log s)" using inv by (simp add: feed_inv_def)
  have inv2: "feed_inv sub ?l t" using sse_reaches_inv [OF assms(3) feed_start_inv [OF ok]] .
  have win: "log_ok (fd_log t)" "frames_in sub (contents (fd_log t)) a ?l = fd_out s"
    using sse_reaches_window [OF assms(3), of ?l a sub] ok h by (auto simp: feed_start_def)
  have "?l \<le> feed_front t" "fd_out t @ feed_due sub t = frames_in sub (contents (fd_log t)) ?l (feed_front t)"
    using inv2 by (auto simp: feed_inv_def)
  with window_split [OF contents_ascending [OF win(1)] h(2), of "feed_front t"] win(2)
  show "fd_out s @ fd_out t @ feed_due sub t = frames_in sub (contents (fd_log t)) a (feed_front t)" "a \<le> feed_front t"
    using h(2) by (simp_all add: frames_in_def)
qed

end

subsection \<open>The WebSocket connection\<close>

text \<open>
  A producer puts the reader's frames in a bounded queue, the handler sends them, and a watcher notices the
  client leaving. The handler is at its loop test, waiting for a frame (at most half a second), or has closed the
  connection; the queue is what the reader has handed over and the handler has not taken.
\<close>

datatype ws_pc = WsTest | WsWait | WsClosed

record 'l ws_conn =
  wc_feed :: "'l feed"
  wc_sent :: "stream_frame list"
  wc_pc :: ws_pc
  wc_stop :: bool

definition ws_queue_max :: nat where
  "ws_queue_max = 256"

definition ws_queue :: "'l ws_conn \<Rightarrow> stream_frame list" where
  "ws_queue c = drop (length (wc_sent c)) (fd_out (wc_feed c))"

definition ws_start :: "'l \<Rightarrow> int \<Rightarrow> 'l ws_conn" where
  "ws_start lg after = \<lparr>wc_feed = feed_start lg after, wc_sent = [], wc_pc = WsTest, wc_stop = False\<rparr>"

inductive ws_step ::
  "('l \<Rightarrow> int \<Rightarrow> nat \<Rightarrow> domain_event list option) \<Rightarrow> (domain_event list \<Rightarrow> last_seen_batch \<Rightarrow> 'l \<Rightarrow> int result \<times> 'l)
     \<Rightarrow> nat \<Rightarrow> sink_sub \<Rightarrow> 'l ws_conn \<Rightarrow> 'l ws_conn \<Rightarrow> bool"
  for read add max_batch sub where
  ws_append: "add es b (fd_log (wc_feed c)) = (r, lg)
     \<Longrightarrow> ws_step read add max_batch sub c (c\<lparr>wc_feed := (wc_feed c)\<lparr>fd_log := lg\<rparr>\<rparr>)"
| ws_produce: "wc_pc c \<noteq> WsClosed \<Longrightarrow> \<not> (wc_stop c \<and> fd_pc (wc_feed c) = Reading)
     \<Longrightarrow> length (ws_queue (c\<lparr>wc_feed := feed_advance read max_batch sub (wc_feed c)\<rparr>)) \<le> ws_queue_max
     \<Longrightarrow> ws_step read add max_batch sub c (c\<lparr>wc_feed := feed_advance read max_batch sub (wc_feed c)\<rparr>)"
| ws_test: "wc_pc c = WsTest \<Longrightarrow> ws_step read add max_batch sub c (c\<lparr>wc_pc := (if wc_stop c then WsClosed else WsWait)\<rparr>)"
| ws_send: "wc_pc c = WsWait \<Longrightarrow> ws_queue c = f # fs
     \<Longrightarrow> ws_step read add max_batch sub c (c\<lparr>wc_sent := wc_sent c @ [f], wc_pc := WsTest\<rparr>)"
| ws_send_gone: "wc_pc c = WsWait \<Longrightarrow> ws_queue c = f # fs \<Longrightarrow> ws_step read add max_batch sub c (c\<lparr>wc_pc := WsClosed\<rparr>)"
| ws_timeout: "wc_pc c = WsWait \<Longrightarrow> ws_queue c = [] \<Longrightarrow> ws_step read add max_batch sub c (c\<lparr>wc_pc := WsTest\<rparr>)"
| ws_gone: "ws_step read add max_batch sub c (c\<lparr>wc_stop := True\<rparr>)"

abbreviation ws_reaches where
  "ws_reaches read add max_batch sub \<equiv> rtranclp (ws_step read add max_batch sub)"

lemma advance_extends: "\<exists>fs. fd_out (feed_advance read max_batch sub s) = fd_out s @ fs"
  by (auto simp: feed_advance_def split: feed_pc.split list.split option.split)

definition ws_inv :: "'l ws_conn \<Rightarrow> bool" where
  "ws_inv c \<longleftrightarrow> fd_out (wc_feed c) = wc_sent c @ ws_queue c \<and> length (ws_queue c) \<le> ws_queue_max"

lemma ws_step_inv:
  assumes "ws_step read add max_batch sub c c'" "ws_inv c"
  shows "ws_inv c'"
  using assms(1)
proof (cases rule: ws_step.cases)
  case ws_produce
  obtain q where q: "fd_out (wc_feed c) = wc_sent c @ q" using assms(2) by (auto simp: ws_inv_def)
  obtain fs where "fd_out (feed_advance read max_batch sub (wc_feed c)) = wc_sent c @ q @ fs"
    using advance_extends [of read max_batch sub "wc_feed c"] q by auto
  then show ?thesis using ws_produce(1,4) by (auto simp: ws_inv_def ws_queue_def)
qed (use assms(2) in \<open>auto simp: ws_inv_def ws_queue_def\<close>)

lemma ws_step_feed:
  assumes "ws_step read add max_batch sub c c'"
  shows "sse_reaches read add max_batch sub (wc_feed c) (wc_feed c')"
  using assms
proof (cases rule: ws_step.cases)
  case (ws_append es b r lg)
  have "sse_step read add max_batch sub (wc_feed c) ((wc_feed c)\<lparr>fd_log := lg\<rparr>)" using ws_append(2) by (rule sse_append)
  then show ?thesis using ws_append(1) by (simp add: r_into_rtranclp)
next
  case ws_produce
  have "sse_step read add max_batch sub (wc_feed c) (feed_advance read max_batch sub (wc_feed c))" by (rule sse_move)
  then show ?thesis using ws_produce(1) by (simp add: r_into_rtranclp)
qed simp_all

lemma ws_reaches_feed:
  "ws_reaches read add max_batch sub c c' \<Longrightarrow> ws_inv c \<Longrightarrow> ws_inv c' \<and> sse_reaches read add max_batch sub (wc_feed c) (wc_feed c')"
proof (induction rule: rtranclp_induct)
  case (step d e)
  then show ?case using ws_step_inv [OF step(2)] rtranclp_trans [OF _ ws_step_feed [OF step(2)]] by blast
qed simp

text \<open>With a dead producer and an empty queue nothing but the client's leaving changes the handler for good.\<close>

definition ws_stalled :: "stream_frame list \<Rightarrow> 'l ws_conn \<Rightarrow> bool" where
  "ws_stalled out c \<longleftrightarrow> fd_pc (wc_feed c) = Failed \<and> fd_out (wc_feed c) = out \<and> wc_sent c = out \<and> (wc_pc c = WsClosed \<longrightarrow> wc_stop c)"

lemma ws_stalled_step: "ws_step read add max_batch sub c c' \<Longrightarrow> ws_stalled out c \<Longrightarrow> ws_stalled out c'"
  by (cases rule: ws_step.cases) (auto simp: ws_stalled_def ws_queue_def feed_advance_def split: if_splits)

lemma ws_stalled_reaches: "ws_reaches read add max_batch sub c c' \<Longrightarrow> ws_stalled out c \<Longrightarrow> ws_stalled out c'"
  by (induction rule: rtranclp_induct) (auto intro: ws_stalled_step)

subsection \<open>A client reading the text\<close>

text \<open>How the event stream format is read: lines end at a line feed or a carriage return, a blank line ends an
  event, and a field is what follows its name, a colon and a space.\<close>

definition is_eol :: "char \<Rightarrow> bool" where
  "is_eol c \<longleftrightarrow> code c = 10 \<or> code c = 13"

fun sse_lines :: "string \<Rightarrow> string list" where
  "sse_lines [] = [[]]"
| "sse_lines (c # cs) = (if is_eol c then [] # sse_lines cs else (case sse_lines cs of [] \<Rightarrow> [[c]] | l # ls \<Rightarrow> (c # l) # ls))"

definition sse_field :: "string \<Rightarrow> string \<Rightarrow> string option" where
  "sse_field name line = (if starts_with line (name @ '': '') then Some (drop (length name + 2) line) else None)"

text \<open>The events of a text: id, type and decoded data of each.\<close>

fun sse_events :: "string list \<Rightarrow> (int \<times> string \<times> json) list option" where
  "sse_events (l1 # l2 # l3 # [] # ls) =
     (case (sse_field ''id'' l1, sse_field ''event'' l2, sse_field ''data'' l3) of
        (Some i, Some t, Some d) \<Rightarrow>
          (case (py_int i, json_loads d) of
             (Some n, Some j) \<Rightarrow> map_option ((#) (n, t, j)) (sse_events ls)
           | _ \<Rightarrow> None)
      | _ \<Rightarrow> None)"
| "sse_events ls = (if ls = [[]] then Some [] else None)"

definition one_line :: "string \<Rightarrow> bool" where
  "one_line l \<longleftrightarrow> (\<forall>c\<in>set l. \<not> is_eol c)"

lemma one_line_simps [simp]:
  "one_line []" "one_line (c # l) \<longleftrightarrow> \<not> is_eol c \<and> one_line l" "one_line (l @ l') \<longleftrightarrow> one_line l \<and> one_line l'"
  by (auto simp: one_line_def)

lemma sse_lines_line: "one_line l \<Longrightarrow> sse_lines (l @ newline # r) = l # sse_lines r"
  by (induction l) (auto simp: is_eol_def newline_def)

lemma digits_one_line: "one_line (str_int i)"
proof -
  have "\<not> is_eol c" if "is_digit c" for c using that by (auto simp: is_eol_def is_digit_def)
  then have "one_line (nat_digits n)" for n using nat_digits_all_digits by (fastforce simp: one_line_def)
  then show ?thesis by (simp add: str_int_def is_eol_def)
qed

lemma hex_not_eol: "d < 16 \<Longrightarrow> \<not> is_eol (hex_digit d)"
  by (auto simp: hex_digit_def is_eol_def)

lemma quote_one_line: "one_line (quote_str asc s)"
proof -
  have "one_line (escape_char asc c)" for c
  proof -
    have "code c div 16 < 16" using less_mult_imp_div_less [of "code c" 16 16] nat_of_char_less_256 [of c] by simp
    then show ?thesis using hex_not_eol [of "code c div 16"] hex_not_eol [of "code c mod 16"]
      by (auto simp: escape_char_def unicode_escape_def is_eol_def)
  qed
  then have "one_line (concat (map (escape_char asc) s))" by (auto simp: one_line_def)
  then show ?thesis by (simp add: quote_str_def is_eol_def)
qed

lemma sep_join_one_line: "\<forall>x\<in>set xs. one_line x \<Longrightarrow> one_line sep \<Longrightarrow> one_line (sep_join sep xs)"
  by (induction sep xs rule: sep_join.induct) auto

lemma dumps_one_line: "json_plain j \<Longrightarrow> one_line (json_dumps raw_style j)"
proof (induction j)
  case (JArr js)
  have "one_line (sep_join (item_sep raw_style) (map (json_dumps raw_style) js))"
    using JArr by (intro sep_join_one_line) (auto simp: list_all_iff raw_style_def default_style_def is_eol_def)
  then show ?case by (simp add: is_eol_def)
next
  case (JObj kvs)
  have v: "one_line (json_dumps raw_style v)" if "(k, v) \<in> set kvs" for k v
    using JObj that by (fastforce simp: list_all_iff)
  have "one_line (sep_join (item_sep raw_style)
      (map (\<lambda>(k, v). quote_str (ensure_ascii raw_style) k @ key_sep raw_style @ json_dumps raw_style v) kvs))"
    using v quote_one_line by (intro sep_join_one_line) (auto simp: raw_style_def default_style_def is_eol_def)
  then show ?case by (simp add: is_eol_def)
qed (simp_all add: digits_one_line quote_one_line, simp_all add: is_eol_def)

lemma type_one_line: "one_line (et_value t)"
proof -
  obtain v where v: "map_of event_type_values t = Some v" using event_type_values_complete by blast
  have "list_all (\<lambda>(t, v). one_line v) event_type_values" by (simp add: event_type_values_def is_eol_def)
  with map_of_SomeD [OF v] show ?thesis by (auto simp: et_value_def v list_all_iff)
qed

lemma sse_frame_lines:
  assumes "json_plain (JObj (sf_data f))"
  shows "sse_lines (sse_frame f @ r) = (''id: '' @ str_int (sf_seq f)) # (''event: '' @ et_value (sf_event_type f))
      # (''data: '' @ json_dumps raw_style (JObj (sf_data f))) # [] # sse_lines r"
proof -
  have one: "one_line (''id: '' @ str_int (sf_seq f))"
    "one_line (''event: '' @ et_value (sf_event_type f))"
    "one_line (''data: '' @ json_dumps raw_style (JObj (sf_data f)))"
    using digits_one_line type_one_line dumps_one_line [OF assms] by (simp_all add: is_eol_def)
  have "sse_frame f @ r = (''id: '' @ str_int (sf_seq f)) @ newline # (''event: '' @ et_value (sf_event_type f)) @ newline
      # (''data: '' @ json_dumps raw_style (JObj (sf_data f))) @ newline # [] @ newline # r"
    by (simp add: sse_frame_def)
  then show ?thesis using one by (simp only: sse_lines_line one_line_simps(1))
qed

lemma sse_events_frame:
  assumes "json_plain (JObj (sf_data f))"
  shows "sse_events (sse_lines (sse_frame f @ r))
      = map_option ((#) (sf_seq f, et_value (sf_event_type f), JObj (sf_data f))) (sse_events (sse_lines r))"
proof -
  have field: "sse_field n (n @ '': '' @ v) = Some v" for n v by (simp add: sse_field_def starts_with_def)
  have "sse_field ''id'' (''id: '' @ v) = Some v" "sse_field ''event'' (''event: '' @ v) = Some v"
    "sse_field ''data'' (''data: '' @ v) = Some v" for v
    using field [of "''id''" v] field [of "''event''" v] field [of "''data''" v] by simp_all
  then show ?thesis
    unfolding sse_frame_lines [OF assms] by (simp only: sse_events.simps prod.case option.case py_int_str_int
        loads_dumps_text [OF styles_ok(3) assms])
qed

subsection \<open>Properties\<close>

text \<open>C24: A stream hands over every matching event once and in log order, however the log grows meanwhile. At any
  moment the frames sent, with those it holds, are the matching events between the requested position and the one scanned to; left
  alone it comes to rest after finitely many moves having sent all the matching events of the log after
  the requested position.\<close>

theorem stream_serves_all:
  assumes "el_ok lg" "0 < max_batch" "sse_reaches el_read_after el_append max_batch sub (feed_start lg after) s"
  shows "fd_out s @ feed_due sub s = map to_frame (filter (stream_matches sub)
        (filter (\<lambda>e. after < seq e \<and> seq e \<le> feed_front s) (el_contents (fd_log s))))
    \<and> (\<exists>k. fd_pc ((feed_advance el_read_after max_batch sub ^^ k) s) = Sleeping
        \<and> fd_out ((feed_advance el_read_after max_batch sub ^^ k) s)
          = map to_frame (filter (stream_matches sub) (filter (\<lambda>e. after < seq e) (el_contents (fd_log s)))))"
proof -
  have inv: "elog.feed_inv sub after s" using elog.sse_reaches_inv [OF assms(3) elog.feed_start_inv [OF assms(1)]] .
  then show ?thesis using elog.feed_serves_all [OF inv assms(2)] by (auto simp: elog.feed_inv_def frames_in_def)
qed

text \<open>C25: A reconnection has no gap and no repetition, wherever the connection broke. A client that resumes with the
  id of the last frame it received (of none, with the id it had), while the log went on growing, has
  received over both connections, in order and once each, exactly the matching events up to where the second
  reader has handed over.\<close>

theorem stream_resume_zero_gap:
  assumes "el_ok lg" "0 \<le> after" "sse_reaches el_read_after el_append max_batch sub (feed_start lg after) s"
    and "last_id = (if fd_out s = [] then after else sf_seq (last (fd_out s)))"
    and "sse_reaches el_read_after el_append max_batch' sub (feed_start (fd_log s) (parse_last_event_id (Some (str_int last_id)))) t"
  shows "fd_out s @ fd_out t @ feed_due sub t = map to_frame (filter (stream_matches sub)
        (filter (\<lambda>e. after < seq e \<and> seq e \<le> feed_front t) (el_contents (fd_log t))))"
proof -
  have inv: "elog.feed_inv sub after s" using elog.sse_reaches_inv [OF assms(3) elog.feed_start_inv [OF assms(1)]] .
  have "0 \<le> last_id" using elog.handed_over_window(2) [OF inv] assms(2,4) by (simp add: resume_point_def)
  moreover have "str_int last_id \<noteq> []" using str_int_head [of last_id] by auto
  ultimately have "parse_last_event_id (Some (str_int last_id)) = resume_point after (fd_out s)"
    by (simp add: parse_last_event_id_def resume_point_def assms(4))
  then show ?thesis using elog.resumed_feed(1) [OF assms(1,3)] assms(5) by (simp add: frames_in_def)
qed

text \<open>A WebSocket connection sends the feed in order and without loss, through a queue that never holds more than
  256 frames: what it has sent, followed by what is queued, is what the reader has handed over, the matching events
  after the position the client asked for. A slow client only stops the reader.\<close>

theorem websocket_in_order_bounded:
  assumes "el_ok lg" "ws_reaches el_read_after el_append max_batch sub (ws_start lg after) c"
  shows "wc_sent c @ ws_queue c @ feed_due sub (wc_feed c) = map to_frame (filter (stream_matches sub)
        (filter (\<lambda>e. after < seq e \<and> seq e \<le> feed_front (wc_feed c)) (el_contents (fd_log (wc_feed c)))))
    \<and> length (ws_queue c) \<le> 256"
proof -
  have "ws_inv (ws_start lg after)" by (simp add: ws_inv_def ws_start_def ws_queue_def feed_start_def)
  from ws_reaches_feed [OF assms(2) this] have c: "ws_inv c"
    "sse_reaches el_read_after el_append max_batch sub (feed_start lg after) (wc_feed c)" by (simp_all add: ws_start_def)
  have "elog.feed_inv sub after (wc_feed c)" using elog.sse_reaches_inv [OF c(2) elog.feed_start_inv [OF assms(1)]] .
  with c(1) show ?thesis
    by (simp add: elog.feed_inv_def frames_in_def ws_inv_def ws_queue_max_def)
qed

text \<open>A read that raises ends the producer and nothing else. From then on, once the queue is empty, the
  connection stays open and sends no frame again, however the log grows and whatever else happens, until the client leaves.\<close>

theorem websocket_stalls_on_read_error:
  assumes "read (fd_log (wc_feed c)) (fd_cursor (wc_feed c)) max_batch = None" "fd_pc (wc_feed c) = Reading"
    and "wc_pc c \<noteq> WsClosed" "\<not> wc_stop c" "wc_sent c = fd_out (wc_feed c)"
  shows "\<exists>d. ws_step read add max_batch sub c d \<and> fd_pc (wc_feed d) = Failed
    \<and> (\<forall>e. ws_reaches read add max_batch sub d e \<longrightarrow> wc_sent e = wc_sent c \<and> ws_queue e = [] \<and> (wc_pc e = WsClosed \<longrightarrow> wc_stop e))"
proof -
  let ?d = "c\<lparr>wc_feed := feed_advance read max_batch sub (wc_feed c)\<rparr>"
  have adv: "feed_advance read max_batch sub (wc_feed c) = (wc_feed c)\<lparr>fd_pc := Failed\<rparr>"
    using assms(1,2) by (simp add: feed_advance_def)
  have "ws_step read add max_batch sub c ?d"
    using assms(3-5) by (intro ws_produce) (simp_all add: ws_queue_def adv)
  moreover have "ws_stalled (wc_sent c) ?d" using assms(3,5) by (simp add: ws_stalled_def adv)
  ultimately show ?thesis
    using ws_stalled_reaches by (intro exI [of _ ?d]) (fastforce simp: adv ws_stalled_def ws_queue_def)
qed

text \<open>The token of a deactivated subscription still opens its stream.\<close>

lemma inactive_subscription_streams:
  assumes "get r i = Inr (Some sub)" "su_token_hash sub = Some (hash_stream_token token)" "token \<noteq> []" "\<not> su_active sub"
  shows "resolve_stream_sub get i (Some token) r = Inr sub"
  using assms by (simp_all add: resolve_stream_sub_def lift_result_def verify_stream_token_def ct_equal_iff)

text \<open>A client that reads the response text gets the frames back: for frames whose data holds no float, the text splits
  into exactly one event per frame, in order, with its position as the id, its type and its data, whatever texts the
  data contains.\<close>

theorem sse_text_read_back:
  assumes "list_all (\<lambda>f. json_plain (JObj (sf_data f))) (fd_out s)"
  shows "sse_events (sse_lines (sse_text s)) = Some (map (\<lambda>f. (sf_seq f, et_value (sf_event_type f), JObj (sf_data f))) (fd_out s))"
proof -
  have "sse_events (sse_lines (concat (map sse_frame fs)))
      = Some (map (\<lambda>f. (sf_seq f, et_value (sf_event_type f), JObj (sf_data f))) fs)"
    if "list_all (\<lambda>f. json_plain (JObj (sf_data f))) fs" for fs
    using that by (induction fs) (simp_all add: sse_events_frame)
  then show ?thesis using assms by (simp add: sse_text_def)
qed

subsection \<open>Concrete runs\<close>

lemma example_stream_match: "stream_matches example_poll_sub (flatten (with_seq 1 parked_example))"
  by (simp add: stream_matches_def example_poll_sub_def)

theorem stream_serves_all_witness:
  "\<exists>k. fd_pc ((feed_advance el_read_after 500 example_poll_sub ^^ k) ((feed_start el_init 0)\<lparr>fd_log := example_poll_log\<rparr>)) = Sleeping
     \<and> fd_out ((feed_advance el_read_after 500 example_poll_sub ^^ k) ((feed_start el_init 0)\<lparr>fd_log := example_poll_log\<rparr>))
       = [to_frame (flatten (with_seq 1 parked_example))]"
proof -
  let ?s = "(feed_start el_init 0)\<lparr>fd_log := example_poll_log\<rparr>"
  have "sse_step el_read_after el_append 500 example_poll_sub (feed_start el_init 0) ?s"
    using example_poll_log_facts(3) by (intro sse_append) (simp add: feed_start_def)
  then have "sse_reaches el_read_after el_append 500 example_poll_sub (feed_start el_init 0) ?s" by (rule r_into_rtranclp)
  from stream_serves_all [OF el_ok_init _ this] show ?thesis by (simp add: example_poll_log_facts(2) example_stream_match)
qed

theorem stream_resume_zero_gap_witness:
  "\<exists>t. sse_reaches el_read_after el_append 500 example_poll_sub (feed_start example_poll_log (parse_last_event_id (Some (str_int 0)))) t
     \<and> fd_out t = [to_frame (flatten (with_seq 1 parked_example))]"
proof -
  let ?a = "feed_start example_poll_log 0" and ?f = "feed_advance el_read_after 500 example_poll_sub"
  have id: "parse_last_event_id (Some (str_int 0)) = 0" using str_int_head [of 0] by (auto simp: parse_last_event_id_def)
  obtain k where k: "fd_pc ((?f ^^ k) ?a) = Sleeping" "fd_out ((?f ^^ k) ?a) = [to_frame (flatten (with_seq 1 parked_example))]"
    using elog.feed_serves_all [OF elog.feed_start_inv [OF example_poll_log_facts(1), of example_poll_sub 0], of 500]
    by (auto simp: feed_start_def example_poll_log_facts(2) example_stream_match)
  have reach: "sse_reaches el_read_after el_append 500 example_poll_sub (feed_start example_poll_log (parse_last_event_id (Some (str_int 0)))) ((?f ^^ k) ?a)"
    unfolding id by (rule elog.funpow_reaches)
  have "fd_out ?a @ fd_out ((?f ^^ k) ?a) @ feed_due example_poll_sub ((?f ^^ k) ?a) = map to_frame (filter (stream_matches example_poll_sub)
        (filter (\<lambda>e. 0 < seq e \<and> seq e \<le> feed_front ((?f ^^ k) ?a)) (el_contents (fd_log ((?f ^^ k) ?a)))))"
    by (rule stream_resume_zero_gap [OF example_poll_log_facts(1), of 0 500 example_poll_sub ?a 0 500])
      (use reach in \<open>simp_all add: feed_start_def\<close>)
  with reach k(2) show ?thesis by blast
qed

theorem websocket_in_order_bounded_witness:
  "length (ws_queue ((ws_start el_init 0)\<lparr>wc_stop := True\<rparr>)) \<le> 256"
  using websocket_in_order_bounded [OF el_ok_init, of 500 example_poll_sub 0 "(ws_start el_init 0)\<lparr>wc_stop := True\<rparr>"]
    r_into_rtranclp [of "ws_step el_read_after el_append 500 example_poll_sub", OF ws_gone] by blast

theorem websocket_stalls_on_read_error_witness:
  "\<exists>d. ws_step (\<lambda>l q n. None) el_append 500 example_poll_sub
       (ws_start el_init 0\<lparr>wc_feed := (feed_start el_init 0)\<lparr>fd_pc := Reading\<rparr>\<rparr>) d \<and> fd_pc (wc_feed d) = Failed"
  using websocket_stalls_on_read_error [of "\<lambda>l q n. None" "ws_start el_init 0\<lparr>wc_feed := (feed_start el_init 0)\<lparr>fd_pc := Reading\<rparr>\<rparr>"
      500 el_append example_poll_sub] by (auto simp: ws_start_def feed_start_def)

theorem sse_text_read_back_witness:
  "sse_events (sse_lines (sse_text \<lparr>fd_log = el_init, fd_cursor = 7, fd_pc = Sleeping,
       fd_out = [\<lparr>sf_seq = 7, sf_event_type = RATING_CHANGED, sf_data = [(''t'', JStr [CHR ''a'', newline, newline, CHR ''b''])]\<rparr>]\<rparr>))
     = Some [(7, et_value RATING_CHANGED, JObj [(''t'', JStr [CHR ''a'', newline, newline, CHR ''b''])])]"
  using sse_text_read_back [of "\<lparr>fd_log = el_init, fd_cursor = 7, fd_pc = Sleeping,
       fd_out = [\<lparr>sf_seq = 7, sf_event_type = RATING_CHANGED, sf_data = [(''t'', JStr [CHR ''a'', newline, newline, CHR ''b''])]\<rparr>]\<rparr>"]
  by (simp add: dict_ok_def)

end
