(* ===== verification/Inbound.thy ===== *)
theory Inbound
  imports Webhook_Engine Web_Errors Rating_Source
begin

text \<open>
  The ingest of the market's own webhooks (\<open>web/routes/inbound.py\<close>): the check of the signature over the
  raw body, the normalization of an invoice into a base event with a deterministic identifier, the
  in-process set of keys and the append. \<open>parse\<close> is the validation library's reading of a body, None when
  it refuses it; \<open>other\<close> is the client's category \<open>OTHER\<close>, the bucket the account sources share.
\<close>

subsection \<open>The invoice\<close>

record inbound_invoice =
  ii_invoice_id :: string
  ii_status :: string
  ii_event_id :: "string option"
  ii_amount :: "string option"
  ii_currency :: "string option"

definition dedup_key :: "inbound_invoice \<Rightarrow> string" where
  "dedup_key b =
     (case ii_event_id b of
        Some i \<Rightarrow> if i = [] then ii_invoice_id b @ '':'' @ ii_status b else i
      | None \<Rightarrow> ii_invoice_id b @ '':'' @ ii_status b)"

definition state_to_event :: "(string \<times> event_type) list" where
  "state_to_event = [(''paid'', INVOICE_PAID), (''created'', INVOICE_CREATED), (''expired'', INVOICE_EXPIRED)]"

definition invoice_event_type :: "inbound_invoice \<Rightarrow> event_type" where
  "invoice_event_type b = (case map_of state_to_event (ii_status b) of None \<Rightarrow> INVOICE_CREATED | Some t \<Rightarrow> t)"

definition normalize :: "inbound_invoice \<Rightarrow> datetime \<Rightarrow> domain_event" where
  "normalize b ts =
     (let t = invoice_event_type b; dedup = dedup_key b in
      \<lparr>event_id = make_event_id (ii_invoice_id b) t dedup 0, aggregate_id = ii_invoice_id b, occurred_at = ts,
       content_hash = dedup, schema_version = 1, seq = 0,
       payload = [(''invoice_id'', JStr (ii_invoice_id b)), (''status'', JStr (ii_status b)),
                  (''amount'', json_opt_str (ii_amount b)), (''currency'', json_opt_str (ii_currency b))],
       body = BaseEvent t\<rparr>)"

subsection \<open>The handler\<close>

definition verify_signature :: "byte list \<Rightarrow> string option \<Rightarrow> string \<Rightarrow> unit web_result" where
  "verify_signature raw header secret =
     (if secret = [] then Inl (Web (WebhookSignatureInvalid ''webhook secret not configured''))
      else case header of
             None \<Rightarrow> Inl (Web (WebhookSignatureInvalid ''missing signature''))
           | Some h \<Rightarrow>
               if h = [] \<or> \<not> starts_with h ''sha256='' then Inl (Web (WebhookSignatureInvalid ''missing signature''))
               else (case compare_digest_str (drop (length ''sha256='') h) (hmac_hex secret raw) of
                       None \<Rightarrow> Inl (Unhandled TypeError)
                     | Some ok \<Rightarrow> if ok then Inr () else Inl (Web (WebhookSignatureInvalid ''signature mismatch''))))"

record 'l inbound_state =
  ib_log :: 'l
  ib_seen :: "string list"

definition receive_invoice ::
  "(domain_event list \<Rightarrow> last_seen_batch \<Rightarrow> 'l \<Rightarrow> int result \<times> 'l) \<Rightarrow> category \<Rightarrow> (byte list \<Rightarrow> inbound_invoice option)
     \<Rightarrow> string \<Rightarrow> datetime \<Rightarrow> byte list \<Rightarrow> string option \<Rightarrow> 'l inbound_state \<Rightarrow> unit web_result \<times> 'l inbound_state" where
  "receive_invoice app other parse secret now raw header s =
     (case verify_signature raw header secret of
        Inl x \<Rightarrow> (Inl x, s)
      | Inr _ \<Rightarrow>
          (case parse raw of
             None \<Rightarrow> (Inl (Web (BadRequest ''malformed invoice body'')), s)
           | Some b \<Rightarrow>
               (let key = dedup_key b in
                if key \<in> set (ib_seen s) then (Inr (), s)
                else case app [normalize b now] (marker_batch other 0) (ib_log s) of
                       (Inl x, l) \<Rightarrow> (Inl (Unhandled x), s\<lparr>ib_log := l\<rparr>)
                     | (Inr _, l) \<Rightarrow> (Inr (), s\<lparr>ib_log := l, ib_seen := List.insert key (ib_seen s)\<rparr>))))"

subsection \<open>Facts\<close>

text \<open>The only accepted header is the one the engine itself would sign the body with.\<close>

lemma verify_signature_iff:
  "verify_signature raw header secret = Inr () \<longleftrightarrow> secret \<noteq> [] \<and> header = Some (signature_header secret raw)"
proof (cases "secret = []")
  case False
  show ?thesis
  proof (cases header)
    case (Some h)
    have "verify_signature raw header secret = Inr () \<longleftrightarrow> verify_webhook secret raw (Some h) = Inr True"
    proof (cases "h = [] \<or> \<not> starts_with h ''sha256=''")
      case True
      then show ?thesis using False by (auto simp: Some verify_signature_def verify_webhook_def signature_scheme_def)
    next
      case False
      then show ?thesis
        using \<open>secret \<noteq> []\<close> hmac_hex_ascii [of secret raw]
        by (simp add: Some verify_signature_def verify_webhook_def signature_scheme_def sign_webhook_def compare_digest_str_def
            eq_commute)
    qed
    then show ?thesis using False by (simp add: Some verify_webhook_iff)
  qed (simp add: verify_signature_def)
qed (simp add: verify_signature_def)

lemma verify_signature_errors:
  "verify_signature raw header secret = Inl x \<Longrightarrow>
     x = Unhandled TypeError \<or> (\<exists>r. x = Web (WebhookSignatureInvalid r))"
  by (auto simp: verify_signature_def split: if_splits option.splits)

lemma normalize_id [simp]:
  "event_id (normalize b ts) = make_event_id (ii_invoice_id b) (invoice_event_type b) (dedup_key b) 0"
  "ev_type (normalize b ts) = invoice_event_type b"
  by (simp_all add: normalize_def Let_def ev_type_def)

lemma normalize_any_time: "event_id (normalize b ts) = event_id (normalize b ts')"
  by simp

text \<open>What an accepted request went through.\<close>

lemma receive_accepted:
  assumes "receive_invoice app other parse secret now raw header s = (Inr (), s')"
  obtains b where "verify_signature raw header secret = Inr ()" "parse raw = Some b"
    and "dedup_key b \<in> set (ib_seen s) \<Longrightarrow> s' = s"
    and "dedup_key b \<notin> set (ib_seen s) \<Longrightarrow>
      \<exists>k. app [normalize b now] (marker_batch other 0) (ib_log s) = (Inr k, ib_log s')
        \<and> set (ib_seen s') = insert (dedup_key b) (set (ib_seen s))"
  using assms that
  by (auto simp: receive_invoice_def Let_def split: sum.splits option.splits if_splits prod.splits)

lemma receive_refused:
  assumes "receive_invoice app other parse secret now raw header s = (Inl x, s')"
  shows "ib_seen s' = ib_seen s"
    and "s' = s \<or> (\<exists>b y. app [normalize b now] (marker_batch other 0) (ib_log s) = (Inl y, ib_log s'))"
  using assms
  by (auto simp: receive_invoice_def Let_def split: sum.splits option.splits if_splits prod.splits)

context event_log
begin

lemma receive_keeps_ok:
  assumes "log_ok (ib_log s)" "receive_invoice append_log other parse secret now raw header s = (r, s')"
  shows "log_ok (ib_log s')"
proof (cases r)
  case (Inl x)
  with receive_refused(2) [of append_log other parse secret now raw header s x s'] assms append_keeps_ok
  show ?thesis by blast
next
  case (Inr u)
  then have "receive_invoice append_log other parse secret now raw header s = (Inr (), s')" using assms(2) by simp
  then show ?thesis using assms(1) append_keeps_ok by (elim receive_accepted) blast
qed

lemma receive_refused_contents:
  assumes "log_ok (ib_log s)" "receive_invoice append_log other parse secret now raw header s = (Inl x, s')"
  shows "contents (ib_log s') = contents (ib_log s)"
  using receive_refused(2) [OF assms(2)] append_failed assms(1) by blast

text \<open>An accepted invoice with an unknown key is in the log afterwards, once; nothing else is added.\<close>

lemma receive_new_contents:
  assumes ok: "log_ok (ib_log s)"
    and app: "append_log [normalize b now] (marker_batch other 0) (ib_log s) = (Inr k, ib_log s')"
  shows "event_id (normalize b now) \<in> event_id ` set (contents (ib_log s'))"
    and "contents (ib_log s') = contents (ib_log s)
      \<or> (\<exists>e. contents (ib_log s') = contents (ib_log s) @ [e] \<and> with_seq 0 e = with_seq 0 (obs (normalize b now)))"
proof -
  show "event_id (normalize b now) \<in> event_id ` set (contents (ib_log s'))"
    using appended_ids [OF ok app] by auto
  obtain new where new: "contents (ib_log s') = contents (ib_log s) @ new"
    "map (with_seq 0) new = map (\<lambda>e. with_seq 0 (obs e)) (fresh_events (map event_id (contents (ib_log s))) [normalize b now])"
    using append_done [OF ok app] by blast
  show "contents (ib_log s') = contents (ib_log s)
      \<or> (\<exists>e. contents (ib_log s') = contents (ib_log s) @ [e] \<and> with_seq 0 e = with_seq 0 (obs (normalize b now)))"
    using new by (auto split: if_splits)
qed

text \<open>A replay is harmless whatever happened in between, a restart that lost the keys included.\<close>

lemma receive_replayed:
  assumes ok: "log_ok (ib_log s2)" and parse: "parse raw = Some b"
    and known: "event_id (normalize b now0) \<in> event_id ` set (contents (ib_log s2))"
    and step: "receive_invoice append_log other parse secret now raw header s2 = (r, s3)"
  shows "contents (ib_log s3) = contents (ib_log s2)"
proof (cases r)
  case (Inl x)
  then show ?thesis using receive_refused_contents ok step by blast
next
  case (Inr u)
  then have "receive_invoice append_log other parse secret now raw header s2 = (Inr (), s3)" using step by simp
  then show ?thesis
  proof (cases rule: receive_accepted)
    case (1 b')
    have b': "b' = b" using 1(2) parse by simp
    show ?thesis
    proof (cases "dedup_key b \<in> set (ib_seen s2)")
      case True
      then show ?thesis using 1(3) by (simp add: b')
    next
      case False
      then obtain k where "append_log [normalize b now] (marker_batch other 0) (ib_log s2) = (Inr k, ib_log s3)"
        using 1(4) by (auto simp: b')
      from append_known [OF ok this] known show ?thesis by simp
    qed
  qed
qed

end

subsection \<open>The bucket it shares with the account sources\<close>

text \<open>An accepted invoice with a new key sets the poll epoch of the shared bucket back to 0.\<close>

context source_stores
begin

lemma receive_epoch:
  assumes "receive_invoice append_log other parse secret now raw header s = (Inr (), s')"
    and "parse raw = Some b" "dedup_key b \<notin> set (ib_seen s)" "log_ok (ib_log s)"
  shows "log_epoch (ib_log s') c = (if c = other then 0 else log_epoch (ib_log s) c)"
    and "map_of (log_baseline (ib_log s') c) = map_of (log_baseline (ib_log s) c)"
    and "event_id ` set (contents (ib_log s)) \<subseteq> event_id ` set (contents (ib_log s'))"
proof -
  obtain k where app: "append_log [normalize b now] (marker_batch other 0) (ib_log s) = (Inr k, ib_log s')"
    using assms(1)
  proof (cases rule: receive_accepted)
    case (1 b')
    with assms(2,3) that show thesis by auto
  qed
  show "log_epoch (ib_log s') c = (if c = other then 0 else log_epoch (ib_log s) c)"
    using log_epoch_append [OF app, of c] by (simp add: marker_batch_def)
  show "map_of (log_baseline (ib_log s') c) = map_of (log_baseline (ib_log s) c)"
    using log_get_append [OF assms(4) marker_batch_ok app, of c]
    by (auto simp: marker_batch_def batch_lookup_def fun_eq_iff)
  show "event_id ` set (contents (ib_log s)) \<subseteq> event_id ` set (contents (ib_log s'))"
    using elog.appended_ids [OF assms(4) app] by auto
qed

text \<open>A poll that sees other counters than the stored ones sends one event, named by the new epoch.\<close>

lemma rating_poll_change:
  assumes "log_ok (ss_log s)" "rating_poll trunc sops (Inr p) alias bucket ts s = (Inr n, s')"
    and "map_of (log_baseline (ss_log s) bucket) (rating_key (pr_user_id p)) = Some (rating_entry q)"
    and "(pr_likes p, pr_dislikes p) \<noteq> (pr_likes q, pr_dislikes q)"
  shows "log_ok (ss_log s')" "n = 1" "log_epoch (ss_log s') bucket = log_epoch (ss_log s) bucket + 1"
    and "map_of (log_baseline (ss_log s') bucket) (rating_key (pr_user_id p)) = Some (rating_entry p)"
    and "event_id ` set (contents (ss_log s')) =
      insert (event_id (rating_event p 0 0 None (log_epoch (ss_log s) bucket + 1) ts')) (event_id ` set (contents (ss_log s)))"
    and "event_id (rating_event p 0 0 None (log_epoch (ss_log s) bucket + 1) ts') \<in> event_id ` set (contents (ss_log s))
      \<Longrightarrow> contents (ss_log s') = contents (ss_log s)"
proof -
  let ?e = "rating_event p (pr_likes p - pr_likes q) (pr_dislikes p - pr_dislikes q) alias (log_epoch (ss_log s) bucket + 1) ts"
  let ?b = "\<lparr>lb_category = bucket, lb_epoch = log_epoch (ss_log s) bucket + 1,
             lb_upserts = [(rating_key (pr_user_id p), rating_entry p)], lb_drops = []\<rparr>"
  have plan: "rating_plan trunc sops p alias bucket ts (ss_log s) = ([?e], ?b)"
    using assms(3,4) by (auto simp: rating_plan_def Let_def rating_entry_def decode_encode_rating)
  then obtain k where send: "send sops [?e] ?b s = (Inr k, s')" and n: "n = 1"
    using assms(2) by (auto simp: rating_poll_def split: prod.splits sum.splits)
  have bok: "batch_ok ?b" by (simp add: batch_ok_def dict_ok_def)
  have id: "event_id ?e = event_id (rating_event p 0 0 None (log_epoch (ss_log s) bucket + 1) ts')"
    by (simp add: rating_event_def)
  note sd = send_done [OF send assms(1)]
  show "log_ok (ss_log s')" "n = 1" by (fact sd(1), fact n)
  show "log_epoch (ss_log s') bucket = log_epoch (ss_log s) bucket + 1" using sd(5) [of bucket] by simp
  show "map_of (log_baseline (ss_log s') bucket) (rating_key (pr_user_id p)) = Some (rating_entry p)"
    using sd(6) [OF bok, of bucket] by (simp add: batch_lookup_def)
  show "event_id ` set (contents (ss_log s')) =
      insert (event_id (rating_event p 0 0 None (log_epoch (ss_log s) bucket + 1) ts')) (event_id ` set (contents (ss_log s)))"
    unfolding sd(3) id [symmetric] by simp
  assume "event_id (rating_event p 0 0 None (log_epoch (ss_log s) bucket + 1) ts') \<in> event_id ` set (contents (ss_log s))"
  then have "fresh_events (map event_id (contents (ss_log s))) [?e] = []" unfolding id [symmetric] by simp
  with sd(2) show "contents (ss_log s') = contents (ss_log s)" by auto
qed

end

subsection \<open>Properties\<close>

text \<open>C26: What one request does to the durable log. It is accepted only with the signature the engine itself
  would put on the raw body under a configured secret, and only if the body parses; its key is then
  known, and a key that was not is in the log under the invoice's deterministic identifier. Every
  request, accepted or not, leaves the log well formed and adds nothing to it, except an accepted one
  that adds exactly the event of its invoice at the end.\<close>

theorem invoice_ingest_effect:
  assumes "el_ok (ib_log s)" "receive_invoice el_append other parse secret now raw header s = (r, s')"
  shows "el_ok (ib_log s') \<and> set (ib_seen s) \<subseteq> set (ib_seen s')
    \<and> (r = Inr () \<longrightarrow> secret \<noteq> [] \<and> header = Some (signature_header secret raw)
         \<and> (\<exists>b. parse raw = Some b \<and> dedup_key b \<in> set (ib_seen s')
              \<and> (dedup_key b \<in> set (ib_seen s) \<or> event_id (normalize b now) \<in> event_id ` set (el_contents (ib_log s')))))
    \<and> (el_contents (ib_log s') = el_contents (ib_log s)
       \<or> r = Inr () \<and> (\<exists>b e. parse raw = Some b \<and> el_contents (ib_log s') = el_contents (ib_log s) @ [e]
                         \<and> with_seq 0 e = with_seq 0 (flatten (normalize b now))))"
proof (cases r)
  case (Inl x)
  with assms(2) have step: "receive_invoice el_append other parse secret now raw header s = (Inl x, s')" by simp
  show ?thesis
    using elog.receive_keeps_ok [OF assms] elog.receive_refused_contents [OF assms(1) step] receive_refused(1) [OF step]
    by (simp add: Inl)
next
  case (Inr u)
  with assms(2) have step: "receive_invoice el_append other parse secret now raw header s = (Inr (), s')" by simp
  then show ?thesis
  proof (cases rule: receive_accepted)
    case (1 b)
    have sig: "secret \<noteq> []" "header = Some (signature_header secret raw)" using 1(1) verify_signature_iff by auto
    show ?thesis
    proof (cases "dedup_key b \<in> set (ib_seen s)")
      case True
      then show ?thesis using 1(2,3) sig assms(1) by (simp add: Inr)
    next
      case False
      then obtain k where app: "el_append [normalize b now] (marker_batch other 0) (ib_log s) = (Inr k, ib_log s')"
        and seen: "set (ib_seen s') = insert (dedup_key b) (set (ib_seen s))" using 1(4) by blast
      show ?thesis
        using elog.receive_keeps_ok [OF assms] elog.receive_new_contents [OF assms(1) app] 1(2) sig seen
        by (auto simp: Inr simp del: normalize_id)
    qed
  qed
qed

definition example_invoice :: inbound_invoice where
  "example_invoice = \<lparr>ii_invoice_id = ''7'', ii_status = ''paid'', ii_event_id = None, ii_amount = None, ii_currency = None\<rparr>"

definition example_receive ::
  "string option \<Rightarrow> event_db inbound_state \<Rightarrow> unit web_result \<times> event_db inbound_state" where
  "example_receive header =
     receive_invoice el_append ''other'' (\<lambda>raw. Some example_invoice) ''k'' (the (from_timestamp_utc 0)) [] header"

lemma example_invoice_fits: "event_fits (normalize example_invoice ts)"
  by (simp add: event_fits_def normalize_def Let_def dedup_key_def example_invoice_def)

text \<open>The append of one event that fits.\<close>

lemma append_one_fits:
  assumes "event_fits e"
  shows "\<exists>k l. el_append [e] (marker_batch ''other'' n) s = (Inr k, l)"
  using assms by (simp add: el_append_def batch_fits_def marker_batch_def)

lemma example_receive_accepted:
  assumes "ib_seen s = []"
  shows "\<exists>s1. example_receive (Some (signature_header ''k'' [])) s = (Inr (), s1)"
  using append_one_fits [OF example_invoice_fits, of "the (from_timestamp_utc 0)" 0 "ib_log s"] assms
    verify_signature_iff [of "[]" "Some (signature_header ''k'' [])" "''k''"]
  by (auto simp: example_receive_def receive_invoice_def)

theorem invoice_ingest_effect_witness:
  "\<exists>s1. example_receive (Some (signature_header ''k'' [])) \<lparr>ib_log = el_init, ib_seen = []\<rparr> = (Inr (), s1)
     \<and> event_id (normalize example_invoice (the (from_timestamp_utc 0))) \<in> event_id ` set (el_contents (ib_log s1))"
proof -
  let ?s = "\<lparr>ib_log = el_init, ib_seen = []\<rparr>"
  obtain s1 where s1: "example_receive (Some (signature_header ''k'' [])) ?s = (Inr (), s1)"
    using example_receive_accepted [of ?s] by auto
  from invoice_ingest_effect [OF _ s1 [unfolded example_receive_def]] el_ok_init s1 show ?thesis by fastforce
qed

text \<open>A replayed webhook is harmless: after an invoice was accepted under a new key, the same body, sent again at
  any time, with any header, to a process that may have lost its set of keys, and after any other
  appends, leaves the events of the log as they are.\<close>

theorem invoice_replay_idempotent:
  assumes "el_ok (ib_log s)" "receive_invoice el_append other parse secret now raw header s = (Inr (), s1)"
    and "parse raw = Some b" "dedup_key b \<notin> set (ib_seen s)"
    and "el_ok (ib_log s2)" "event_id ` set (el_contents (ib_log s1)) \<subseteq> event_id ` set (el_contents (ib_log s2))"
    and "receive_invoice el_append other parse secret' now' raw header' s2 = (r, s3)"
  shows "el_contents (ib_log s3) = el_contents (ib_log s2)"
  using assms(2)
proof (cases rule: receive_accepted)
  case (1 b')
  then obtain k where app: "el_append [normalize b now] (marker_batch other 0) (ib_log s) = (Inr k, ib_log s1)"
    using assms(3,4) by auto
  have "event_id (normalize b now) \<in> event_id ` set (el_contents (ib_log s2))"
    using elog.receive_new_contents(1) [OF assms(1) app] assms(6) by blast
  from elog.receive_replayed [OF assms(5) assms(3) this assms(7)] show ?thesis .
qed

theorem invoice_replay_idempotent_witness:
  "\<exists>s1 s3. example_receive (Some (signature_header ''k'' [])) \<lparr>ib_log = el_init, ib_seen = []\<rparr> = (Inr (), s1)
     \<and> example_receive (Some (signature_header ''k'' [])) (s1\<lparr>ib_seen := []\<rparr>) = (Inr (), s3)
     \<and> el_contents (ib_log s3) = el_contents (ib_log s1)"
proof -
  let ?s = "\<lparr>ib_log = el_init, ib_seen = []\<rparr>"
  obtain s1 where s1: "example_receive (Some (signature_header ''k'' [])) ?s = (Inr (), s1)"
    using example_receive_accepted [of ?s] by auto
  obtain s3 where s3: "example_receive (Some (signature_header ''k'' [])) (s1\<lparr>ib_seen := []\<rparr>) = (Inr (), s3)"
    using example_receive_accepted [of "s1\<lparr>ib_seen := []\<rparr>"] by auto
  have "el_ok (ib_log s1)"
    using elog.receive_keeps_ok [OF _ s1 [unfolded example_receive_def]] el_ok_init by simp
  with invoice_replay_idempotent [OF _ s1 [unfolded example_receive_def] _ _ _ _ s3 [unfolded example_receive_def]]
    el_ok_init s1 s3 show ?thesis by fastforce
qed

text \<open>The ingest hides changes of the account sources. It writes poll epoch 0 into the bucket the rating
  source names its events by: when the rating of an account goes from \<open>q\<close> to \<open>p\<close>, an invoice comes in,
  and the rating goes back to \<open>q\<close> and to \<open>p\<close> again, the last poll says it sent its one event and stores
  \<open>p\<close>, but the event has the identifier of the first one, and the log drops it: no consumer ever
  sees the last change.\<close>

theorem invoice_hides_rating_change:
  assumes "el_ok (ss_log s0)" "db_get_poll_epoch (el_baseline (ss_log s0)) other = 1"
    and "map_of (db_get_baseline (el_baseline (ss_log s0)) other) (rating_key u) = Some (rating_entry q)"
    and "pr_user_id q = u" "pr_user_id p = u" "(pr_likes p, pr_dislikes p) \<noteq> (pr_likes q, pr_dislikes q)"
    and "rating_poll trunc sql_source_ops (Inr p) alias other t1 s0 = (Inr n1, s1)"
    and "receive_invoice el_append other parse secret now raw header \<lparr>ib_log = ss_log s1, ib_seen = seen\<rparr> = (Inr (), i)"
    and "parse raw = Some b" "dedup_key b \<notin> set seen"
    and "rating_poll trunc sql_source_ops (Inr q) alias other t3 (s1\<lparr>ss_log := ib_log i\<rparr>) = (Inr n3, s3)"
    and "rating_poll trunc sql_source_ops (Inr p) alias other t4 s3 = (Inr n4, s4)"
  shows "n4 = 1 \<and> el_contents (ss_log s4) = el_contents (ss_log s3)
    \<and> map_of (db_get_baseline (el_baseline (ss_log s4)) other) (rating_key u) = Some (rating_entry p)"
proof -
  let ?l1 = "\<lparr>ib_log = ss_log s1, ib_seen = seen\<rparr>"
  let ?s2 = "s1\<lparr>ss_log := ib_log i\<rparr>"
  let ?id = "event_id (rating_event p 0 0 None 2 t1)"
  note polls = assms(7,11,12) [folded sql_source_ops_eq]
  note one = ssrc.rating_poll_change [OF assms(1) polls(1), unfolded assms(2,5), OF assms(3,6)]
  have ok1: "el_ok (ib_log ?l1)" using one(1) by simp
  note inv = ssrc.receive_epoch [OF assms(8,9) _ ok1] 
  have ok2: "el_ok (ss_log ?s2)" using elog.receive_keeps_ok [OF ok1 assms(8)] by simp
  have base2: "map_of (db_get_baseline (el_baseline (ss_log ?s2)) other) (rating_key (pr_user_id q)) = Some (rating_entry p)"
    using inv(2) [of other] assms(10) one(4) assms(4) by simp
  have ep2: "db_get_poll_epoch (el_baseline (ss_log ?s2)) other = 0" using inv(1) [of other] assms(10) by simp
  have id2: "?id \<in> event_id ` set (el_contents (ss_log ?s2))" using inv(3) assms(10) one(5) [of t1] by auto
  note three = ssrc.rating_poll_change [OF ok2 polls(2) base2 assms(6) [symmetric], unfolded ep2]
  have base3: "map_of (db_get_baseline (el_baseline (ss_log s3)) other) (rating_key (pr_user_id p)) = Some (rating_entry q)"
    using three(4) assms(4,5) by simp
  have ep3: "db_get_poll_epoch (el_baseline (ss_log s3)) other = 1" using three(3) by simp
  note four = ssrc.rating_poll_change [OF three(1) polls(3) base3 assms(6), unfolded ep3]
  have "?id \<in> event_id ` set (el_contents (ss_log s3))" using three(5) [of t1] id2 by blast
  with four(2,4) four(6) [of t1] assms(5) show ?thesis by simp
qed

lemma rating_poll_returns:
  assumes "length (encode_rating (pr_likes p) (pr_dislikes p)) \<le> 128" "event_fits (rating_event p 0 0 None 0 ts)"
  shows "\<exists>n s'. rating_poll trunc sql_source_ops (Inr p) None ''other'' ts s = (Inr n, s')"
proof -
  have "event_fits (rating_event p dl dd None n ts)" for dl dd n
    using assms(2) by (simp add: event_fits_def rating_event_def)
  with assms(1) show ?thesis
    by (auto simp: rating_poll_def rating_plan_def Let_def send_def el_append_def batch_fits_def rating_entry_def
        split: option.splits prod.splits)
qed

theorem invoice_hides_rating_change_witness:
  "\<exists>s0 s1 i s3 s4.
     rating_poll (\<lambda>t. None) sql_source_ops (Inr \<lparr>pr_user_id = 4, pr_likes = 11, pr_dislikes = 0\<rparr>) None ''other''
       (the (from_timestamp_utc 0)) s0 = (Inr 1, s1)
     \<and> example_receive (Some (signature_header ''k'' [])) \<lparr>ib_log = ss_log s1, ib_seen = []\<rparr> = (Inr (), i)
     \<and> rating_poll (\<lambda>t. None) sql_source_ops (Inr \<lparr>pr_user_id = 4, pr_likes = 11, pr_dislikes = 0\<rparr>) None ''other''
         (the (from_timestamp_utc 0)) s3 = (Inr 1, s4)
     \<and> el_contents (ss_log s4) = el_contents (ss_log s3)"
proof -
  let ?q = "\<lparr>pr_user_id = 4, pr_likes = 10, pr_dislikes = 0\<rparr>" and ?p = "\<lparr>pr_user_id = 4, pr_likes = 11, pr_dislikes = 0\<rparr>"
  let ?t = "the (from_timestamp_utc 0)"
  let ?s = "\<lparr>ss_log = el_init, ss_cursors = [], ss_seen = [], ss_notified = 0\<rparr> :: (event_db, cursor_table, memory_seen) source_state"
  have fits: "length (encode_rating 10 0) \<le> 128" "length (encode_rating 11 0) \<le> 128"
    by (simp_all add: encode_rating_def default_style_def quote_str_def escape_char_def str_int_def nat_digits.simps)
  have efits: "event_fits (rating_event ?q 0 0 None 0 ?t)" "event_fits (rating_event ?p 0 0 None 0 ?t)"
    by (simp_all add: event_fits_def rating_event_def str_int_def nat_digits.simps)
  have "\<exists>s0. rating_poll (\<lambda>t. None) sql_source_ops (Inr ?q) None ''other'' ?t ?s = (Inr 0, s0)
      \<and> db_last_seen (el_baseline (ss_log s0)) = [((''other'', rating_key 4), rating_entry ?q)]
      \<and> db_poll_epoch (el_baseline (ss_log s0)) = [(''other'', 1)]"
    using fits(1) by (simp add: rating_poll_def rating_plan_def Let_def send_def el_append_def el_init_def db_init_def
        db_get_baseline_def db_get_poll_epoch_def db_apply_def batch_fits_def rows_max_def rating_entry_def)
  then obtain s0 where s0: "rating_poll (\<lambda>t. None) sql_source_ops (Inr ?q) None ''other'' ?t ?s = (Inr 0, s0)"
    "db_last_seen (el_baseline (ss_log s0)) = [((''other'', rating_key 4), rating_entry ?q)]"
    "db_poll_epoch (el_baseline (ss_log s0)) = [(''other'', 1)]" by blast
  have ok0: "el_ok (ss_log s0)"
    using ssrc.rating_poll_done(1) [OF _ s0(1) [folded sql_source_ops_eq]] el_ok_init by simp
  have base: "map_of (db_get_baseline (el_baseline (ss_log s0)) ''other'') (rating_key 4) = Some (rating_entry ?q)"
    and ep: "db_get_poll_epoch (el_baseline (ss_log s0)) ''other'' = 1"
    by (simp_all add: db_get_baseline_def db_get_poll_epoch_def s0)
  obtain n1 s1 where p1: "rating_poll (\<lambda>t. None) sql_source_ops (Inr ?p) None ''other'' ?t s0 = (Inr n1, s1)"
    using rating_poll_returns [of ?p ?t "\<lambda>t. None" s0] fits efits by auto
  have one: "n1 = 1"
    using ssrc.rating_poll_change(2) [OF ok0 p1 [folded sql_source_ops_eq], of ?q] base by simp
  obtain i where inv: "example_receive (Some (signature_header ''k'' [])) \<lparr>ib_log = ss_log s1, ib_seen = []\<rparr> = (Inr (), i)"
    using example_receive_accepted [of "\<lparr>ib_log = ss_log s1, ib_seen = []\<rparr>"] by auto
  obtain n3 s3 where p3: "rating_poll (\<lambda>t. None) sql_source_ops (Inr ?q) None ''other'' ?t (s1\<lparr>ss_log := ib_log i\<rparr>) = (Inr n3, s3)"
    using rating_poll_returns [of ?q ?t "\<lambda>t. None" "s1\<lparr>ss_log := ib_log i\<rparr>"] fits efits by auto
  obtain n4 s4 where p4: "rating_poll (\<lambda>t. None) sql_source_ops (Inr ?p) None ''other'' ?t s3 = (Inr n4, s4)"
    using rating_poll_returns [of ?p ?t "\<lambda>t. None" s3] fits efits by auto
  have "n4 = 1 \<and> el_contents (ss_log s4) = el_contents (ss_log s3)"
    using invoice_hides_rating_change [OF ok0 ep base _ _ _ p1 inv [unfolded example_receive_def] _ _ p3 p4] by simp
  with p1 inv p4 one show ?thesis by blast
qed

end
