(* ===== verification/Daemon_Ops.thy ===== *)
theory Daemon_Ops
  imports Polling
begin

text \<open>
  The operations of the command line (\<open>__main__.py\<close>: \<open>replay\<close>, \<open>redrive\<close>, \<open>prune\<close>) and the retention worker
  with its pruners (\<open>daemon/retention.py\<close>). A pruner deletes in batches, one transaction each; which rows
  a \<open>LIMIT\<close> without an order picks is an argument with the database's promise \<open>sql_limit\<close>. What other
  processes do to the cursors between the read and the commit of a command is an argument too.
\<close>

subsection \<open>Retention\<close>

definition days_per_month :: int where
  "days_per_month = 30"

text \<open>The instants of the first and of the last moment a \<open>datetime\<close> can hold.\<close>

definition first_instant :: int where
  "first_instant = 86400 * 1000000"

definition last_instant :: int where
  "last_instant = 3652060 * 86400 * 1000000 - 1"

definition retention_cutoff :: "datetime \<Rightarrow> int \<Rightarrow> int result" where
  "retention_cutoff now months =
     (let days = days_per_month * months; cutoff = instant 0 now - days * 86400 * 1000000 in
      if \<bar>days\<bar> \<le> 999999999 \<and> first_instant \<le> cutoff \<and> cutoff \<le> last_instant then Inr cutoff else Inl OverflowError)"

definition row_instant :: "event_row \<Rightarrow> int" where
  "row_instant r = instant (case utc_offset (er_occurred_at r) of None \<Rightarrow> 0 | Some off \<Rightarrow> off) (er_occurred_at r)"

definition prunable :: "int \<Rightarrow> int \<Rightarrow> event_row \<Rightarrow> bool" where
  "prunable watermark cutoff r \<longleftrightarrow> er_seq r \<le> watermark \<and> row_instant r < cutoff"

text \<open>The \<open>while True\<close> of \<open>prune_below\<close>: None is a loop that never ends.\<close>

partial_function (option) prune_loop ::
  "(nat \<Rightarrow> int list \<Rightarrow> int list) \<Rightarrow> nat \<Rightarrow> int \<Rightarrow> int \<Rightarrow> int \<Rightarrow> event_row list \<Rightarrow> (int \<times> event_row list) option" where
  "prune_loop limit batch watermark cutoff acc rows =
     (let ids = limit batch (map er_seq (filter (prunable watermark cutoff) rows));
          rows' = filter (\<lambda>r. er_seq r \<notin> set ids) rows;
          deleted = int (length rows) - int (length rows')
      in if deleted < int batch then Some (acc + deleted, rows')
         else prune_loop limit batch watermark cutoff (acc + deleted) rows')"

definition pg_prune_below ::
  "(nat \<Rightarrow> int list \<Rightarrow> int list) \<Rightarrow> nat \<Rightarrow> datetime \<Rightarrow> int \<Rightarrow> int \<Rightarrow> event_db \<Rightarrow> (int result \<times> event_db) option" where
  "pg_prune_below limit batch now watermark months l =
     (case retention_cutoff now months of
        Inl x \<Rightarrow> Some (Inl x, l)
      | Inr cutoff \<Rightarrow>
          map_option (\<lambda>(acc, rows). (Inr acc, l\<lparr>el_rows := rows\<rparr>)) (prune_loop limit batch watermark cutoff 0 (el_rows l)))"

definition null_prune_below :: "int \<Rightarrow> int \<Rightarrow> 'l \<Rightarrow> (int result \<times> 'l) option" where
  "null_prune_below watermark months l = Some (Inr 0, l)"

definition retention_run_once ::
  "('c \<Rightarrow> int option) \<Rightarrow> (int \<Rightarrow> int \<Rightarrow> 'l \<Rightarrow> (int result \<times> 'l) option) \<Rightarrow> int \<Rightarrow> 'c \<Rightarrow> 'l \<Rightarrow> (int result \<times> 'l) option" where
  "retention_run_once watermark prune_below months c l =
     (case watermark c of None \<Rightarrow> Some (Inr 0, l) | Some w \<Rightarrow> prune_below w months l)"

text \<open>The command \<open>prune\<close>: the worker with the default batch size, over the SQL stores.\<close>

definition prune_command ::
  "(nat \<Rightarrow> int list \<Rightarrow> int list) \<Rightarrow> datetime \<Rightarrow> int \<Rightarrow> cursor_table \<Rightarrow> event_db \<Rightarrow> (int result \<times> event_db) option" where
  "prune_command limit now months = retention_run_once sc_watermark (pg_prune_below limit 10000 now) months"

subsection \<open>Replay and redrive\<close>

definition replay_cursor ::
  "('l, 'c, 'd) bus_ops \<Rightarrow> ('c \<Rightarrow> 'c) \<Rightarrow> string \<Rightarrow> int \<Rightarrow> 'c \<Rightarrow> unit result \<times> 'c" where
  "replay_cursor ops between consumer from_seq c =
     op_commit ops consumer from_seq (version (op_get ops c consumer)) (between c)"

definition redrive ::
  "('l, 'c, 'd) bus_ops \<Rightarrow> (string \<Rightarrow> 'd \<Rightarrow> dead_letter list option \<times> 'd) \<Rightarrow> ('c \<Rightarrow> 'c) \<Rightarrow> string \<Rightarrow> 'c \<Rightarrow> 'd
     \<Rightarrow> unit result \<times> 'c \<times> 'd" where
  "redrive ops drain between consumer c d =
     (case drain consumer d of
        (None, d') \<Rightarrow> (Inl (StoreError ''drain''), c, d')
      | (Some parked, d') \<Rightarrow>
          if parked = [] then (Inr (), c, d')
          else (let min_seq = Min (set (map dl_seq parked)) in
                case op_commit ops consumer (max (min_seq - 1) 0) (version (op_get ops c consumer)) (between c) of
                  (r, c') \<Rightarrow> (r, c', d')))"

subsection \<open>What a \<open>LIMIT\<close> promises\<close>

definition sql_limit :: "(nat \<Rightarrow> int list \<Rightarrow> int list) \<Rightarrow> bool" where
  "sql_limit limit \<longleftrightarrow>
     (\<forall>n xs. distinct xs \<longrightarrow> distinct (limit n xs) \<and> set (limit n xs) \<subseteq> set xs \<and> length (limit n xs) = min n (length xs))"

lemma sql_limit_take: "sql_limit take"
  by (auto simp: sql_limit_def dest: in_set_takeD)

text \<open>One batch over rows with distinct positions.\<close>

lemma batch_deletes:
  assumes "sql_limit limit" "ascending er_seq rows"
    and ids_def: "ids = limit batch (map er_seq (filter P rows))"
    and rows'_def: "rows' = filter (\<lambda>r. er_seq r \<notin> set ids) rows"
  shows "int (length rows) - int (length rows') = int (min batch (length (filter P rows)))"
    and "ascending er_seq rows'" "filter (\<lambda>r. \<not> P r) rows' = filter (\<lambda>r. \<not> P r) rows"
    and "length (filter P rows) < batch \<Longrightarrow> rows' = filter (\<lambda>r. \<not> P r) rows"
proof -
  have dist: "distinct (map er_seq rows)"
    using assms(2) by (simp add: ascending_def strict_sorted_iff)
  then have inj: "inj_on er_seq (set rows)" by (simp add: distinct_map)
  have "distinct (map er_seq (filter P rows))" using dist by (rule distinct_map_filter)
  with assms(1) have ids: "distinct ids" "set ids \<subseteq> er_seq ` set (filter P rows)" "length ids = min batch (length (filter P rows))"
    unfolding ids_def sql_limit_def by (metis (no_types, lifting) list.set_map, metis (no_types, lifting) list.set_map, metis length_map)
  have picked: "er_seq r \<in> set ids \<Longrightarrow> P r" if "r \<in> set rows" for r
    using ids(2) inj that by (auto dest: inj_onD)
  have "length (filter (\<lambda>r. er_seq r \<in> set ids) rows) = length ids"
  proof -
    let ?xs = "map er_seq (filter (\<lambda>r. er_seq r \<in> set ids) rows)"
    have "set ?xs = set ids" using ids(2) by auto
    moreover have "distinct ?xs" using dist by (rule distinct_map_filter)
    ultimately have "length ?xs = length ids" using ids(1) by (metis distinct_card)
    then show ?thesis by simp
  qed
  then show "int (length rows) - int (length rows') = int (min batch (length (filter P rows)))"
    using sum_length_filter_compl [of "\<lambda>r. er_seq r \<in> set ids" rows] ids(3) by (simp add: rows'_def)
  show "ascending er_seq rows'" using assms(2) by (simp add: rows'_def ascending_filter)
  show "filter (\<lambda>r. \<not> P r) rows' = filter (\<lambda>r. \<not> P r) rows"
    unfolding rows'_def filter_filter using picked by (intro filter_cong) auto
  assume less: "length (filter P rows) < batch"
  have "card (set (map er_seq (filter P rows))) = card (set ids)"
    using distinct_card [OF distinct_map_filter [OF dist, of P]] distinct_card [OF ids(1)] ids(3) less by simp
  then have "set ids = set (map er_seq (filter P rows))"
    using ids(2) by (intro card_subset_eq) simp_all
  then show "rows' = filter (\<lambda>r. \<not> P r) rows"
    unfolding rows'_def using picked by (intro filter_cong) auto
qed

lemma prune_loop_done:
  assumes "sql_limit limit" "0 < batch" "ascending er_seq rows"
  shows "prune_loop limit batch w cutoff acc rows
       = Some (acc + int (length (filter (prunable w cutoff) rows)), filter (\<lambda>r. \<not> prunable w cutoff r) rows)"
  using assms(3)
proof (induction "length rows" arbitrary: rows acc rule: less_induct)
  case less
  let ?P = "prunable w cutoff"
  define ids where "ids = limit batch (map er_seq (filter ?P rows))"
  define rows' where "rows' = filter (\<lambda>r. er_seq r \<notin> set ids) rows"
  let ?del = "int (length rows) - int (length rows')"
  note b = batch_deletes [OF assms(1) less.prems ids_def rows'_def]
  have step: "prune_loop limit batch w cutoff acc rows
      = (if ?del < int batch then Some (acc + ?del, rows') else prune_loop limit batch w cutoff (acc + ?del) rows')"
    by (subst prune_loop.simps) (simp add: Let_def ids_def [symmetric] rows'_def [symmetric])
  show ?case
  proof (cases "length (filter ?P rows) < batch")
    case True
    then show ?thesis using b(1,4) step by simp
  next
    case False
    have lens: "length (filter ?P xs) + length (filter (\<lambda>r. \<not> ?P r) xs) = length xs" for xs
      by (rule sum_length_filter_compl)
    have "length rows' < length rows" using b(1) False assms(2) by simp
    from less.hyps [OF this b(2)] b(1,3) False step lens [of rows] lens [of rows'] show ?thesis by simp
  qed
qed

text \<open>A batch size of 0 deletes nothing and never ends.\<close>

lemma prune_loop_zero:
  assumes "sql_limit limit" "ascending er_seq rows"
  shows "prune_loop limit 0 w cutoff acc rows = None"
proof -
  have never: "lim = limit \<longrightarrow> ascending er_seq rows \<longrightarrow> batch \<noteq> 0"
    if "prune_loop lim batch w cutoff acc rows = Some y" for lim batch w cutoff acc rows y
  proof (rule prune_loop.raw_induct [OF _ that, of "\<lambda>lim batch w cutoff acc rows y. lim = limit \<longrightarrow> ascending er_seq rows \<longrightarrow> batch \<noteq> 0"],
      intro impI notI)
    fix loop lim batch w cutoff acc rows y
    assume IH: "\<And>lim batch w cutoff acc rows y. loop lim batch w cutoff acc rows = Some y
        \<Longrightarrow> lim = limit \<longrightarrow> ascending er_seq rows \<longrightarrow> batch \<noteq> 0"
      and step: "(let ids = lim batch (map er_seq (filter (prunable w cutoff) rows));
          rows' = filter (\<lambda>r. er_seq r \<notin> set ids) rows;
          deleted = int (length rows) - int (length rows')
        in if deleted < int batch then Some (acc + deleted, rows') else loop lim batch w cutoff (acc + deleted) rows') = Some y"
      and a: "lim = limit" "ascending er_seq rows" "batch = 0"
    define ids where "ids = limit 0 (map er_seq (filter (prunable w cutoff) rows))"
    define rows' where "rows' = filter (\<lambda>r. er_seq r \<notin> set ids) rows"
    note b = batch_deletes [OF assms(1) a(2) ids_def rows'_def]
    have "loop limit 0 w cutoff acc rows' = Some y"
      using step b(1) by (simp add: a Let_def ids_def [symmetric] rows'_def [symmetric])
    from IH [OF this] b(2) show False by simp
  qed
  show ?thesis
  proof (rule ccontr)
    assume "prune_loop limit 0 w cutoff acc rows \<noteq> None"
    then obtain y where "prune_loop limit 0 w cutoff acc rows = Some y" by blast
    from never [OF this] assms(2) show False by simp
  qed
qed

subsection \<open>The log after a prune\<close>

definition event_instant :: "domain_event \<Rightarrow> int" where
  "event_instant e = instant (case utc_offset (occurred_at e) of None \<Rightarrow> 0 | Some off \<Rightarrow> off) (occurred_at e)"

lemma pruned_log:
  assumes "el_ok l"
  shows "el_ok (l\<lparr>el_rows := filter (\<lambda>r. \<not> prunable w cutoff r) (el_rows l)\<rparr>)"
    and "el_contents (l\<lparr>el_rows := filter (\<lambda>r. \<not> prunable w cutoff r) (el_rows l)\<rparr>)
       = filter (\<lambda>e. \<not> (seq e \<le> w \<and> event_instant e < cutoff)) (el_contents l)"
proof -
  show "el_ok (l\<lparr>el_rows := filter (\<lambda>r. \<not> prunable w cutoff r) (el_rows l)\<rparr>)"
    using assms by (auto simp: el_ok_def rows_ok_def ascending_filter distinct_map_filter)
  show "el_contents (l\<lparr>el_rows := filter (\<lambda>r. \<not> prunable w cutoff r) (el_rows l)\<rparr>)
       = filter (\<lambda>e. \<not> (seq e \<le> w \<and> event_instant e < cutoff)) (el_contents l)"
    by (simp add: el_contents_def filter_map comp_def prunable_def row_instant_def event_instant_def row_event_def)
qed

text \<open>Whoever reads from a position at or above the watermark cannot tell the difference.\<close>

lemma pruned_reads:
  assumes "el_ok l" "w \<le> q"
  shows "el_read_after (l\<lparr>el_rows := filter (\<lambda>r. \<not> prunable w cutoff r) (el_rows l)\<rparr>) q n = el_read_after l q n"
proof -
  have "filter (\<lambda>e. q < seq e) (filter (\<lambda>e. \<not> (seq e \<le> w \<and> event_instant e < cutoff)) (el_contents l))
      = filter (\<lambda>e. q < seq e) (el_contents l)"
    unfolding filter_filter using assms(2) by (intro filter_cong) auto
  then show ?thesis
    using elog.read_page [OF pruned_log(1) [OF assms(1)]] elog.read_page [OF assms(1)]
    by (simp add: page_after_def pruned_log(2) [OF assms(1)])
qed

lemma prune_done:
  assumes "el_ok l" "sql_limit limit" "0 < batch" "retention_cutoff now months = Inr cutoff"
  shows "pg_prune_below limit batch now w months l
       = Some (Inr (int (length (filter (prunable w cutoff) (el_rows l)))),
               l\<lparr>el_rows := filter (\<lambda>r. \<not> prunable w cutoff r) (el_rows l)\<rparr>)"
  using assms prune_loop_done [OF assms(2,3), of "el_rows l" w cutoff 0]
  by (simp add: pg_prune_below_def el_ok_def rows_ok_def)

subsection \<open>Redrive over any stores\<close>

context bus_stores
begin

lemma redrive_rewinds:
  assumes "cursors_ok c" "dlq_ok d" "list_for name d = Some ds" "ds \<noteq> []"
  defines "q \<equiv> max (Min (set (map dl_seq ds)) - 1) 0"
  obtains c' where "redrive ops drain (\<lambda>c. c) name c d = (Inr (), c', snd (drain name d))"
    and "cursors_ok c'" "last_seq (get_cursor c' name) = q"
    and "\<And>other. other \<noteq> name \<Longrightarrow> get_cursor c' other = get_cursor c other"
    and "dlq_ok (snd (drain name d))" "list_for name (snd (drain name d)) = Some []"
proof -
  have dr: "drain name d = (Some ds, snd (drain name d))"
    using dead.drain_gives [OF assms(2), of name] assms(3) by (cases "drain name d") simp
  obtain c' where c': "commit_cursor name q (version (get_cursor c name)) c = (Inr (), c')" "cursors_ok c'"
    "get_cursor c' name = \<lparr>last_seq = q, version = version (get_cursor c name) + 1\<rparr>"
    "\<forall>other. other \<noteq> name \<longrightarrow> get_cursor c' other = get_cursor c other"
    using curs.commit_matching [OF assms(1) refl, of name q] by blast
  have "redrive ops drain (\<lambda>c. c) name c d = (Inr (), c', snd (drain name d))"
    using c'(1) assms(4) by (subst redrive_def, subst dr) (simp add: ops_def q_def Let_def)
  with that c' dead.drain_clears [OF assms(2), of name] show thesis by simp
qed

text \<open>A commit of another process in between makes the command raise, after it emptied the store.\<close>

lemma redrive_interrupted:
  assumes "cursors_ok c" "dlq_ok d" "list_for name d = Some ds" "ds \<noteq> []"
    and "cursors_ok (between c)" "version (get_cursor (between c) name) \<noteq> version (get_cursor c name)"
  shows "\<exists>x d'. redrive ops drain between name c d = (Inl x, between c, d') \<and> dlq_ok d' \<and> list_for name d' = Some []"
proof -
  have dr: "drain name d = (Some ds, snd (drain name d))"
    using dead.drain_gives [OF assms(2), of name] assms(3) by (cases "drain name d") simp
  show ?thesis
    using curs.commit_stale [OF assms(5,6)] assms(4) dead.drain_clears [OF assms(2), of name]
    by (subst redrive_def, subst dr) (simp add: ops_def Let_def)
qed

end

subsection \<open>Edges\<close>

text \<open>A consumer without a cursor does not hold retention back: an old event it would read first is deleted.\<close>

lemma retention_ignores_new_consumers:
  assumes "el_ok l" "sql_limit limit" "0 < batch" "retention_cutoff now months = Inr cutoff"
    and "sc_watermark c = Some w" "e \<in> set (el_contents l)" "seq e \<le> w" "event_instant e < cutoff"
    and "name \<notin> set (dict_keys c)"
  shows "\<exists>n l'. retention_run_once sc_watermark (pg_prune_below limit batch now) months c l = Some (Inr n, l')
    \<and> last_seq (sc_get c name) < seq e \<and> e \<notin> set (el_contents l')"
proof -
  let ?l = "l\<lparr>el_rows := filter (\<lambda>r. \<not> prunable w cutoff r) (el_rows l)\<rparr>"
  have "retention_run_once sc_watermark (pg_prune_below limit batch now) months c l
      = Some (Inr (int (length (filter (prunable w cutoff) (el_rows l)))), ?l)"
    using prune_done [OF assms(1-4)] assms(5) by (simp add: retention_run_once_def)
  moreover have "last_seq (sc_get c name) < seq e"
    using scur.absent_cursor [OF assms(9)] elog.contents_positive [OF assms(1,6)] by (simp add: cursor0_def)
  moreover have "e \<notin> set (el_contents ?l)"
    using assms(7,8) by (simp add: pruned_log(2) [OF assms(1)])
  ultimately show ?thesis by blast
qed

text \<open>A redrive of letters ahead of the cursor moves the cursor forward, over events not read yet.\<close>

lemma redrive_may_skip:
  assumes "sc_ok c" "dq_ok d" "dq_list_for name d = Some ds" "ds \<noteq> []"
    and "last_seq (sc_get c name) < q" "q < Min (set (map dl_seq ds))" "0 < q"
  shows "\<exists>c' d'. redrive sql_ops dq_drain (\<lambda>c. c) name c d = (Inr (), c', d') \<and> q \<le> last_seq (sc_get c' name)"
proof -
  obtain c' where "redrive sbus.ops dq_drain (\<lambda>c. c) name c d = (Inr (), c', snd (dq_drain name d))"
    "last_seq (sc_get c' name) = max (Min (set (map dl_seq ds)) - 1) 0"
    using sbus.redrive_rewinds [OF assms(1-4)] by blast
  moreover have "q \<le> max (Min (set (map dl_seq ds)) - 1) 0" using assms(6) by simp
  ultimately show ?thesis unfolding sbus.ops_def by metis
qed

subsection \<open>Properties\<close>

text \<open>C27: Retention never takes an event a registered consumer has yet to read. With a positive batch size a run
  over the SQL stores ends, reports how many events it deleted, leaves a well-formed log that has lost
  exactly the events that are both at or below the lowest cursor and older than the cutoff, and every
  pump of a consumer that has a cursor does over the pruned log what it does over the full one.\<close>

theorem retention_keeps_unread:
  assumes "el_ok l" "sc_ok c" "sql_limit limit" "0 < batch" "retention_cutoff now months = Inr cutoff"
    and "con_name con \<in> set (dict_keys c)" "bs_cursors s = c"
  shows "\<exists>n l' w. retention_run_once sc_watermark (pg_prune_below limit batch now) months c l = Some (Inr n, l')
    \<and> el_ok l' \<and> n = int (length (el_contents l)) - int (length (el_contents l'))
    \<and> sc_watermark c = Some w
    \<and> el_contents l' = filter (\<lambda>e. \<not> (seq e \<le> w \<and> event_instant e < cutoff)) (el_contents l)
    \<and> pump_consumer cfg sql_ops l' con s = pump_consumer cfg sql_ops l con s"
proof -
  from assms(6) obtain w where w: "sc_watermark c = Some w" by (cases c) (auto simp: sc_watermark_def)
  let ?P = "prunable w cutoff"
  let ?l = "l\<lparr>el_rows := filter (\<lambda>r. \<not> ?P r) (el_rows l)\<rparr>"
  have run: "retention_run_once sc_watermark (pg_prune_below limit batch now) months c l
      = Some (Inr (int (length (filter ?P (el_rows l)))), ?l)"
    using prune_done [OF assms(1,3,4,5)] w by (simp add: retention_run_once_def)
  have count: "int (length (filter ?P (el_rows l))) = int (length (el_contents l)) - int (length (el_contents ?l))"
    using sum_length_filter_compl [of ?P "el_rows l"] by (simp add: el_contents_def)
  have "w \<le> last_seq (sc_get c (con_name con))"
    using scur.watermark_below [OF assms(2) w assms(6)] .
  from pruned_reads [OF assms(1) this]
  have "pump_consumer cfg sql_ops ?l con s = pump_consumer cfg sql_ops l con s"
    by (simp add: pump_consumer_def Let_def assms(7))
  with run count w pruned_log [OF assms(1)] show ?thesis by blast
qed

text \<open>C28: The deletion loop ends exactly when the batch size is positive: whatever rows the database picks for a
  batch, a positive size ends, and a size of 0 deletes nothing, finds 0 not below 0, and runs forever.\<close>

theorem prune_ends_iff:
  assumes "el_ok l" "sql_limit limit" "retention_cutoff now months = Inr cutoff"
  shows "pg_prune_below limit batch now w months l \<noteq> None \<longleftrightarrow> 0 < batch"
proof (cases "batch = 0")
  case True
  with prune_loop_zero [OF assms(2), of "el_rows l" w cutoff 0] assms(1,3) show ?thesis
    by (simp add: pg_prune_below_def el_ok_def rows_ok_def)
next
  case False
  with prune_done [OF assms(1,2) _ assms(3)] show ?thesis by simp
qed

text \<open>C29: A redrive with no other writer delivers the parked events again. The command succeeds, empties the
  consumer's letters and moves its cursor just before the earliest of them; enough pumps then handle,
  in order, every wanted event from there on, each letter's event that the log still has among them,
  and only the ones that fail again are parked.\<close>

theorem redrive_redelivers:
  assumes "el_ok lg" "sc_ok c" "dq_ok d" "list_all (\<lambda>e. valid_dt (occurred_at e)) (el_contents lg)"
    and "dq_list_for (con_name con) d = Some ds" "ds \<noteq> []"
    and "rest = filter (\<lambda>e. max (Min (set (map dl_seq ds)) - 1) 0 < seq e) (el_contents lg)"
    and "length rest \<le> k * bc_read_limit cfg" "outcomes cfg con rest w = (rs, w')"
  shows "\<exists>c' d' s'. redrive sql_ops dq_drain (\<lambda>c. c) (con_name con) c d = (Inr (), c', d')
    \<and> dq_list_for (con_name con) d' = Some []
    \<and> pump_times cfg sql_ops lg con k \<lparr>bs_cursors = c', bs_dlq = d', bs_world = w, bs_waits = []\<rparr>
        = (Inr (int (length rs)), s')
    \<and> map fst rs = filter (wants con) rest
    \<and> {e \<in> set (el_contents lg). wants con e \<and> seq e \<in> dl_seq ` set ds} \<subseteq> set (map fst rs)
    \<and> dq_list_for (con_name con) (bs_dlq s')
        = Some (map (\<lambda>(e, err). \<lparr>dl_consumer = con_name con, dl_seq = seq e, dl_event = flatten e, dl_reason = err\<rparr>) (parked_of rs))"
proof -
  let ?q = "max (Min (set (map dl_seq ds)) - 1) 0"
  obtain c' where c': "redrive sbus.ops dq_drain (\<lambda>c. c) (con_name con) c d = (Inr (), c', snd (dq_drain (con_name con) d))"
    "sc_ok c'" "last_seq (sc_get c' (con_name con)) = ?q"
    and d': "dq_ok (snd (dq_drain (con_name con) d))" "dq_list_for (con_name con) (snd (dq_drain (con_name con) d)) = Some []"
    using sbus.redrive_rewinds [OF assms(2,3,5,6)] by blast
  let ?d = "snd (dq_drain (con_name con) d)"
  let ?s = "\<lparr>bs_cursors = c', bs_dlq = ?d, bs_world = w, bs_waits = []\<rparr>"
  have pk: "\<forall>e\<in>set (el_contents lg). wants con e \<longrightarrow> valid_dt (occurred_at e)"
    using assms(4) by (simp add: list_all_iff)
  have rest: "rest = filter (\<lambda>e. last_seq (sc_get (bs_cursors ?s) (con_name con)) < seq e) (el_contents lg)"
    by (simp only: assms(7) c'(3) bus_state.simps)
  have all: "take (k * bc_read_limit cfg) rest = rest" using assms(8) by simp
  have ok: "sc_ok (bs_cursors ?s)" "dq_ok (bs_dlq ?s)" using c'(2) d'(1) by simp_all
  obtain s' where s': "pump_times cfg sbus.ops lg con k ?s = (Inr (int (length (filter (wants con) rest))), s')"
    "sbus.pumped cfg con rest ?s s'"
    using sbus.pump_times_pumped [OF assms(1) ok pk rest, of cfg k] unfolding all by blast
  have ev: "map fst rs = filter (wants con) rest" using outcomes_events [of cfg con rest w] assms(9) by simp
  have sub: "{e \<in> set (el_contents lg). wants con e \<and> seq e \<in> dl_seq ` set ds} \<subseteq> set (map fst rs)"
  proof
    fix e assume "e \<in> {e \<in> set (el_contents lg). wants con e \<and> seq e \<in> dl_seq ` set ds}"
    then have e: "e \<in> set (el_contents lg)" "wants con e" "seq e \<in> set (map dl_seq ds)" by auto
    from e(3) have "Min (set (map dl_seq ds)) \<le> seq e" by (intro Min_le) simp_all
    moreover have "0 < seq e" using elog.contents_positive [OF assms(1) e(1)] .
    ultimately have "?q < seq e" by simp
    with e show "e \<in> set (map fst rs)" by (simp add: ev assms(7))
  qed
  have letter: "sbus.letter (con_name con) = (\<lambda>(e, err). \<lparr>dl_consumer = con_name con, dl_seq = seq e, dl_event = flatten e, dl_reason = err\<rparr>)"
    by (simp add: fun_eq_iff sbus.letter_def)
  have len: "length (filter (wants con) rest) = length rs" by (metis ev length_map)
  have "dq_list_for (con_name con) (bs_dlq s')
      = Some (map (\<lambda>(e, err). \<lparr>dl_consumer = con_name con, dl_seq = seq e, dl_event = flatten e, dl_reason = err\<rparr>) (parked_of rs))"
    using s'(2) assms(9) d'(2) by (simp add: sbus.pumped_def Let_def letter)
  with c'(1) d'(2) s'(1) ev sub show ?thesis
    unfolding sbus.ops_def len by blast
qed

text \<open>A redrive that another writer interrupts loses the letters. If the consumer's cursor is committed by
  anyone between the command's read and its commit, the command raises a conflict and moves nothing,
  but the letters were already drained: nothing of them is left, and the consumer will not read
  their events again.\<close>

theorem interrupted_redrive_loses_letters:
  assumes "sc_ok c" "dq_ok d" "dq_list_for name d = Some ds" "ds \<noteq> []"
    and "sc_commit name q (version (sc_get c name)) c = (Inr (), between c)"
  shows "\<exists>x d'. redrive sql_ops dq_drain between name c d = (Inl x, between c, d') \<and> dq_list_for name d' = Some []"
proof -
  have "sc_ok (between c)" "version (sc_get (between c) name) \<noteq> version (sc_get c name)"
    using scur.commit_matching [OF assms(1) refl, of name q] assms(5) by auto
  from sbus.redrive_interrupted [OF assms(1-4), of between, OF this] show ?thesis
    unfolding sbus.ops_def by blast
qed

subsection \<open>Examples\<close>

definition prune_day :: datetime where
  "prune_day = \<lparr>dt_year = 2025, dt_month = 1, dt_day = 1, dt_hour = 0, dt_minute = 0, dt_second = 0, dt_micro = 0, utc_offset = Some 0\<rparr>"

definition example_cursors :: cursor_table where
  "example_cursors = [(''probe'', \<lparr>cr_last_seq = 1, cr_version = 1\<rparr>)]"

definition example_letters :: dlq_db where
  "example_letters = dq_park ''probe'' (with_seq 1 parked_example) ''boom'' dq_init"

lemma example_cutoff: "retention_cutoff prune_day 3 = Inr (instant 0 prune_day - 90 * 86400 * 1000000)"
  by code_simp

lemma example_event_old: "event_instant (flatten (with_seq 1 parked_example)) < instant 0 prune_day - 90 * 86400 * 1000000"
proof -
  have "event_instant (flatten (with_seq 1 parked_example)) = instant 0 (occurred_at parked_example)"
    by (simp add: event_instant_def flatten_def with_seq_def parked_example_def)
  also have "\<dots> < instant 0 prune_day - 90 * 86400 * 1000000" by code_simp
  finally show ?thesis .
qed

lemma example_cursors_facts: "sc_ok example_cursors" "sc_watermark example_cursors = Some 1"
  "con_name example_consumer \<in> set (dict_keys example_cursors)"
  by (simp_all add: example_cursors_def sc_ok_def sc_watermark_def dict_ok_def example_consumer_def)

lemma example_letters_facts: "dq_ok example_letters"
  "\<exists>x. dq_list_for ''probe'' example_letters = Some [x] \<and> dl_seq x = 1"
proof -
  have i: "dq_ok dq_init" "dq_list_for ''probe'' dq_init = Some []"
    by (simp_all add: dq_ok_def dq_init_def dq_list_for_def dq_select_def)
  have v: "valid_dt (occurred_at (with_seq 1 parked_example))"
    by (simp add: valid_dt_def parked_example_def with_seq_def days_in_month_def leap_year_def)
  from sdlq.parked_listed [OF i(1) v i(2)] show "dq_ok example_letters"
    "\<exists>x. dq_list_for ''probe'' example_letters = Some [x] \<and> dl_seq x = 1"
    by (simp_all add: example_letters_def)
qed

theorem retention_keeps_unread_witness:
  "\<exists>l'. prune_command take prune_day 3 example_cursors example_poll_log = Some (Inr 1, l') \<and> el_contents l' = []
     \<and> pump_consumer default_bus_config sql_ops l' example_consumer
          \<lparr>bs_cursors = example_cursors, bs_dlq = dq_init, bs_world = [], bs_waits = []\<rparr>
       = pump_consumer default_bus_config sql_ops example_poll_log example_consumer
          \<lparr>bs_cursors = example_cursors, bs_dlq = dq_init, bs_world = [], bs_waits = []\<rparr>"
  using retention_keeps_unread [OF example_poll_log_facts(1) example_cursors_facts(1) sql_limit_take _ example_cutoff
      example_cursors_facts(3), of 10000 "\<lparr>bs_cursors = example_cursors, bs_dlq = dq_init, bs_world = [], bs_waits = []\<rparr>" default_bus_config]
    example_event_old
  by (auto simp: prune_command_def example_cursors_facts(2) example_poll_log_facts(2))

theorem prune_ends_iff_witness:
  "pg_prune_below take 0 prune_day 1 3 example_poll_log = None \<and> pg_prune_below take 1 prune_day 1 3 example_poll_log \<noteq> None"
  using prune_ends_iff [OF example_poll_log_facts(1) sql_limit_take example_cutoff, of 0 1]
    prune_ends_iff [OF example_poll_log_facts(1) sql_limit_take example_cutoff, of 1 1] by (metis less_numeral_extra(1,3))

theorem redrive_redelivers_witness:
  "\<exists>c' d' s'. redrive sql_ops dq_drain (\<lambda>c. c) ''probe'' example_cursors example_letters = (Inr (), c', d')
     \<and> pump_times default_bus_config sql_ops example_poll_log example_consumer 1
          \<lparr>bs_cursors = c', bs_dlq = d', bs_world = [], bs_waits = []\<rparr> = (Inr 1, s')"
proof -
  obtain x where x: "dq_list_for (con_name example_consumer) example_letters = Some [x]" "dl_seq x = 1"
    using example_letters_facts(2) by (auto simp: example_consumer_def)
  have v: "list_all (\<lambda>e. valid_dt (occurred_at e)) (el_contents example_poll_log)"
    by (simp add: example_poll_log_facts(2) valid_dt_def parked_example_def days_in_month_def leap_year_def flatten_def with_seq_def)
  have w: "wants example_consumer (flatten (with_seq 1 parked_example))"
    by (simp add: wants_def example_consumer_def sub_matches_def) (simp add: ev_type_def parked_example_def)
  obtain rs w' where o: "outcomes default_bus_config example_consumer [flatten (with_seq 1 parked_example)] [] = (rs, w')"
    by fastforce
  have n: "length rs = 1"
    using outcomes_events [of default_bus_config example_consumer "[flatten (with_seq 1 parked_example)]" "[]"] o w
    by (metis filter.simps fst_conv length_map length_Cons list.size(3) One_nat_def)
  have r: "[flatten (with_seq 1 parked_example)]
      = filter (\<lambda>e. max (Min (set (map dl_seq [x])) - 1) 0 < seq e) (el_contents example_poll_log)"
    by (simp add: x(2) example_poll_log_facts(2))
  have l: "length [flatten (with_seq 1 parked_example)] \<le> 1 * bc_read_limit default_bus_config"
    by (simp add: default_bus_config_def)
  have name: "con_name example_consumer = ''probe''" by (simp add: example_consumer_def)
  from redrive_redelivers [OF example_poll_log_facts(1) example_cursors_facts(1) example_letters_facts(1) v x(1) _ r l o] n
  show ?thesis unfolding name by auto
qed

theorem interrupted_redrive_loses_letters_witness:
  "\<exists>x d'. redrive sql_ops dq_drain (\<lambda>c. snd (sc_commit ''probe'' 1 1 c)) ''probe'' example_cursors example_letters
       = (Inl x, snd (sc_commit ''probe'' 1 1 example_cursors), d') \<and> dq_list_for ''probe'' d' = Some []"
proof -
  obtain x where x: "dq_list_for ''probe'' example_letters = Some [x]" using example_letters_facts(2) by blast
  have "sc_commit ''probe'' 1 (version (sc_get example_cursors ''probe'')) example_cursors
      = (Inr (), snd (sc_commit ''probe'' 1 1 example_cursors))"
    by (simp add: example_cursors_def sc_commit_def sc_update_def sc_get_def)
  from interrupted_redrive_loses_letters [where between = "\<lambda>c. snd (sc_commit ''probe'' 1 1 c)", OF example_cursors_facts(1) example_letters_facts(1) x _ this]
  show ?thesis by simp
qed

end
