(* ===== verification/Auto_Update.thy ===== *)
theory Auto_Update
  imports Webhook_Engine Rating_Source Catch_Up_Bus Py_Datetime "HOL-Library.Sublist"
begin

text \<open>
  The auto-updater (\<open>scripts/autoupdate.py\<close>) and the health probe (\<open>scripts/health.py\<close>). The host the
  script acts on is an argument: what a command, an HTTP probe, a notification and a sleep do to a world
  of any type. \<open>up_commands\<close> and \<open>up_notes\<close> record what was run and sent; the program does not keep
  them. Printing is left out. A command that cannot be started raises, which here is \<open>Crashed\<close>.
\<close>

subsection \<open>Configuration\<close>

record health_gate_config =
  hg_url :: string
  hg_timeout :: rat
  hg_retries :: int
  hg_interval :: rat

record auto_config =
  au_enabled :: bool
  au_poll_interval :: rat
  au_git_ref :: string
  au_repo_url :: string
  au_migrate :: bool
  au_e2e_gate :: bool
  au_rollback_on_failure :: bool
  au_health_gate :: health_gate_config
  au_window_start :: string
  au_window_end :: string
  au_webhook :: string

definition health_gate_default :: health_gate_config where
  "health_gate_default = \<lparr>hg_url = ''http://127.0.0.1:27543/healthz'', hg_timeout = 3, hg_retries = 30, hg_interval = 2\<rparr>"

text \<open>
  \<open>load\<close> of the parsed file; \<open>num\<close> and \<open>trunc\<close> read a number's text as \<open>float\<close> and \<open>int\<close> do. The \<open>get\<close> of
  something that is no mapping raises \<open>AttributeError\<close>; the \<open>TypeError\<close> of \<open>int\<close> is given as its \<open>ValueError\<close>.
\<close>

definition conf_get :: "json \<Rightarrow> string \<Rightarrow> json option result" where
  "conf_get j k = (case j of JObj kvs \<Rightarrow> Inr (map_of kvs k) | _ \<Rightarrow> Inl (RuntimeError ''AttributeError''))"

definition conf_section :: "(string \<Rightarrow> rat) \<Rightarrow> json option \<Rightarrow> json" where
  "conf_section num v = (case v of None \<Rightarrow> JObj [] | Some j \<Rightarrow> if json_truth num j then j else JObj [])"

definition conf_bool :: "(string \<Rightarrow> rat) \<Rightarrow> json \<Rightarrow> string \<Rightarrow> bool \<Rightarrow> bool result" where
  "conf_bool num j k d =
     bind_result (conf_get j k) (\<lambda>v. Inr (case v of None \<Rightarrow> d | Some x \<Rightarrow> json_truth num x))"

definition conf_str :: "json \<Rightarrow> string \<Rightarrow> string \<Rightarrow> string result" where
  "conf_str j k d = bind_result (conf_get j k) (\<lambda>v. Inr (case v of None \<Rightarrow> d | Some x \<Rightarrow> py_str x))"

definition conf_float :: "(string \<Rightarrow> rat) \<Rightarrow> (string \<Rightarrow> rat option) \<Rightarrow> json \<Rightarrow> string \<Rightarrow> rat \<Rightarrow> rat result" where
  "conf_float num num_str j k d =
     bind_result (conf_get j k) (\<lambda>v. case v of None \<Rightarrow> Inr d | Some x \<Rightarrow> json_float num num_str x)"

definition conf_int :: "(string \<Rightarrow> int option) \<Rightarrow> json \<Rightarrow> string \<Rightarrow> int \<Rightarrow> int result" where
  "conf_int trunc j k d =
     bind_result (conf_get j k) (\<lambda>v. case v of
         None \<Rightarrow> Inr d
       | Some x \<Rightarrow> (case int_of_json trunc x of None \<Rightarrow> Inl ValueError | Some i \<Rightarrow> Inr i))"

definition load_config ::
  "(string \<Rightarrow> rat) \<Rightarrow> (string \<Rightarrow> rat option) \<Rightarrow> (string \<Rightarrow> int option) \<Rightarrow> json \<Rightarrow> auto_config result" where
  "load_config num num_str trunc parsed =
     (let raw = conf_section num (Some parsed) in
      bind_result (conf_get raw ''health_gate'') (\<lambda>h.
      bind_result (conf_get raw ''window'') (\<lambda>w.
      bind_result (conf_get raw ''notify'') (\<lambda>n.
      let h = conf_section num h; w = conf_section num w; n = conf_section num n in
      bind_result (conf_bool num raw ''enabled'' False) (\<lambda>enabled.
      bind_result (conf_float num num_str raw ''poll_interval'' 300) (\<lambda>interval.
      bind_result (conf_str raw ''git_ref'' ''master'') (\<lambda>git_ref.
      bind_result (conf_str raw ''repo_url'' ''origin'') (\<lambda>repo_url.
      bind_result (conf_bool num raw ''migrate'' True) (\<lambda>migrate.
      bind_result (conf_bool num raw ''e2e_gate'' True) (\<lambda>e2e.
      bind_result (conf_bool num raw ''rollback_on_failure'' True) (\<lambda>rollback.
      bind_result (conf_str h ''url'' (hg_url health_gate_default)) (\<lambda>url.
      bind_result (conf_float num num_str h ''timeout'' (hg_timeout health_gate_default)) (\<lambda>tmo.
      bind_result (conf_int trunc h ''retries'' (hg_retries health_gate_default)) (\<lambda>retries.
      bind_result (conf_float num num_str h ''interval'' (hg_interval health_gate_default)) (\<lambda>pause.
      bind_result (conf_str w ''start'' []) (\<lambda>wstart.
      bind_result (conf_str w ''end'' []) (\<lambda>wend.
      bind_result (conf_str n ''webhook'' []) (\<lambda>webhook.
        Inr \<lparr>au_enabled = enabled, au_poll_interval = interval, au_git_ref = git_ref, au_repo_url = repo_url,
             au_migrate = migrate, au_e2e_gate = e2e, au_rollback_on_failure = rollback,
             au_health_gate = \<lparr>hg_url = url, hg_timeout = tmo, hg_retries = retries, hg_interval = pause\<rparr>,
             au_window_start = wstart, au_window_end = wend, au_webhook = webhook\<rparr>))))))))))))))))))"

subsection \<open>The host and the runner's state\<close>

record process =
  pr_code :: int
  pr_stdout :: string
  pr_stderr :: string

text \<open>The four notifications; the text of the second holds a dash outside Latin-1.\<close>

datatype update_note = RollingUpdate string string | AbortedByGate string string | UpdateOk string | UpdateFailed string bool

record 'w host =
  h_run :: "string list \<Rightarrow> 'w \<Rightarrow> (string + process) \<times> 'w"
  h_post :: "string \<Rightarrow> update_note \<Rightarrow> 'w \<Rightarrow> 'w"
  h_probe :: "string \<Rightarrow> rat \<Rightarrow> 'w \<Rightarrow> (string + int option) \<times> 'w"
  h_sleep :: "rat \<Rightarrow> 'w \<Rightarrow> 'w"
  h_clock :: "'w \<Rightarrow> datetime"

record 'w updater =
  up_world :: 'w
  up_commands :: "string list list"
  up_notes :: "update_note list"

datatype update_error =
    CommandFailed "string list" int string
  | E2EGateFailed string
  | HealthGateFailed string bool
  | Crashed string

definition then_do :: "('e + 'a) \<times> 's \<Rightarrow> ('a \<Rightarrow> 's \<Rightarrow> ('e + 'b) \<times> 's) \<Rightarrow> ('e + 'b) \<times> 's" where
  "then_do r f = (case r of (Inl e, s) \<Rightarrow> (Inl e, s) | (Inr a, s) \<Rightarrow> f a s)"

definition run_cmd :: "'w host \<Rightarrow> string list \<Rightarrow> 'w updater \<Rightarrow> (update_error + process) \<times> 'w updater" where
  "run_cmd host cmd s =
     (case h_run host cmd (up_world s) of
        (r, w) \<Rightarrow> (case r of Inl x \<Rightarrow> Inl (Crashed x) | Inr p \<Rightarrow> Inr p,
                   s\<lparr>up_world := w, up_commands := up_commands s @ [cmd]\<rparr>))"

definition sh :: "'w host \<Rightarrow> string list \<Rightarrow> 'w updater \<Rightarrow> (update_error + process) \<times> 'w updater" where
  "sh host cmd s =
     then_do (run_cmd host cmd s) (\<lambda>p s.
       (if pr_code p \<noteq> 0 then Inl (CommandFailed cmd (pr_code p) (pr_stderr p)) else Inr p, s))"

definition git_rev_parse :: "'w host \<Rightarrow> string \<Rightarrow> 'w updater \<Rightarrow> (update_error + string) \<times> 'w updater" where
  "git_rev_parse host ref s = then_do (sh host [''git'', ''rev-parse'', ref] s) (\<lambda>p s. (Inr (py_strip (pr_stdout p)), s))"

record update_check =
  uc_local :: string
  uc_remote :: string

definition check_update :: "auto_config \<Rightarrow> 'w host \<Rightarrow> 'w updater \<Rightarrow> (update_error + update_check) \<times> 'w updater" where
  "check_update cfg host s =
     then_do (run_cmd host [''git'', ''fetch'', ''--tags'', ''--prune'', au_repo_url cfg, au_git_ref cfg] s) (\<lambda>_ s.
     then_do (git_rev_parse host ''HEAD'' s) (\<lambda>local s.
     then_do (case git_rev_parse host ''FETCH_HEAD'' s of
                (Inl (CommandFailed c n e), s1) \<Rightarrow> git_rev_parse host (au_repo_url cfg @ ''/'' @ au_git_ref cfg) s1
              | other \<Rightarrow> other) (\<lambda>remote s.
       (Inr \<lparr>uc_local = local, uc_remote = remote\<rparr>, s))))"

definition clock_hm :: "datetime \<Rightarrow> string" where
  "clock_hm d = pad_left 2 (dt_hour d) @ '':'' @ pad_left 2 (dt_minute d)"

definition in_window :: "auto_config \<Rightarrow> datetime \<Rightarrow> bool" where
  "in_window cfg time =
     (let a = au_window_start cfg; b = au_window_end cfg in
      if a = [] \<or> b = [] then True
      else let now = clock_hm time in
           if a < b then a < now \<and> now < b else a < now \<or> now < b)"

definition notify_update :: "auto_config \<Rightarrow> 'w host \<Rightarrow> update_note \<Rightarrow> 'w updater \<Rightarrow> 'w updater" where
  "notify_update cfg host note s =
     (if au_webhook cfg = [] then s
      else s\<lparr>up_world := h_post host (au_webhook cfg) note (up_world s), up_notes := up_notes s @ [note]\<rparr>)"

text \<open>\<open>left\<close> attempts of the health gate.\<close>

fun health_gate :: "'w host \<Rightarrow> health_gate_config \<Rightarrow> nat \<Rightarrow> 'w updater \<Rightarrow> (update_error + bool) \<times> 'w updater" where
  "health_gate host hg 0 s = (Inr False, s)"
| "health_gate host hg (Suc left) s =
     (case h_probe host (hg_url hg) (hg_timeout hg) (up_world s) of
        (Inl x, w) \<Rightarrow> (Inl (Crashed x), s\<lparr>up_world := w\<rparr>)
      | (Inr reply, w) \<Rightarrow>
          if (case reply of None \<Rightarrow> False | Some status \<Rightarrow> 200 \<le> status \<and> status < 300)
          then (Inr True, s\<lparr>up_world := w\<rparr>)
          else health_gate host hg left
                 (s\<lparr>up_world := (if left = 0 then w else h_sleep host (hg_interval hg) w)\<rparr>))"

subsection \<open>A rollout\<close>

definition apply_ref :: "'w host \<Rightarrow> string \<Rightarrow> 'w updater \<Rightarrow> (update_error + unit) \<times> 'w updater" where
  "apply_ref host sha s =
     then_do (run_cmd host [''git'', ''merge'', ''--ff-only'', sha] s) (\<lambda>p s.
       if pr_code p = 0 then (Inr (), s)
       else then_do (sh host [''git'', ''reset'', ''--hard'', sha] s) (\<lambda>_ s. (Inr (), s)))"

definition pytest_cmd :: "string list" where
  "pytest_cmd = [''uv'', ''run'', ''python'', ''-m'', ''pytest'', ''-m'', ''e2e'', ''-q'']"

definition e2e_gate :: "auto_config \<Rightarrow> 'w host \<Rightarrow> update_check \<Rightarrow> 'w updater \<Rightarrow> (update_error + unit) \<times> 'w updater" where
  "e2e_gate cfg host chk s =
     (if \<not> au_e2e_gate cfg then (Inr (), s)
      else
        then_do (run_cmd host pytest_cmd s) (\<lambda>p s.
          if pr_code p = 0 then (Inr (), s)
          else
            then_do (sh host [''git'', ''reset'', ''--hard'', uc_local chk] s) (\<lambda>_ s.
            then_do (run_cmd host [''uv'', ''sync'', ''--extra'', ''engine''] s) (\<lambda>_ s.
              (Inl (E2EGateFailed (uc_local chk)),
               notify_update cfg host (AbortedByGate (uc_remote chk) (uc_local chk)) s)))))"

definition compose_cmd :: "string \<Rightarrow> string list \<Rightarrow> string list" where
  "compose_cmd repo_root args =
     [''docker'', ''compose'', ''-f'', repo_root @ ''/deploy/docker-compose.yml'', ''--env-file'', repo_root @ ''/.env''] @ args"

definition compose_build :: "string \<Rightarrow> string list" where
  "compose_build repo_root = compose_cmd repo_root [''build'', ''engine'']"

definition compose_up :: "string \<Rightarrow> string list" where
  "compose_up repo_root = compose_cmd repo_root [''up'', ''-d'', ''engine'']"

definition migrate_cmd :: "string list" where
  "migrate_cmd = [''bash'', ''scripts/migrate.sh'']"

definition rollback_cmd :: "string \<Rightarrow> string list" where
  "rollback_cmd prev = [''bash'', ''scripts/rollback.sh'', ''--to'', prev]"

definition deploy :: "auto_config \<Rightarrow> 'w host \<Rightarrow> string \<Rightarrow> 'w updater \<Rightarrow> (update_error + unit) \<times> 'w updater" where
  "deploy cfg host repo_root s =
     then_do (sh host (compose_build repo_root) s) (\<lambda>_ s.
     then_do (if au_migrate cfg then then_do (sh host migrate_cmd s) (\<lambda>_ s. (Inr (), s)) else (Inr (), s)) (\<lambda>_ s.
     then_do (sh host (compose_up repo_root) s) (\<lambda>_ s. (Inr (), s))))"

definition finish_rollout :: "auto_config \<Rightarrow> 'w host \<Rightarrow> update_check \<Rightarrow> 'w updater \<Rightarrow> (update_error + unit) \<times> 'w updater" where
  "finish_rollout cfg host chk s =
     then_do (health_gate host (au_health_gate cfg) (nat (hg_retries (au_health_gate cfg))) s) (\<lambda>healthy s.
       if healthy then (Inr (), notify_update cfg host (UpdateOk (uc_remote chk)) s)
       else
         then_do (if au_rollback_on_failure cfg
                  then then_do (sh host (rollback_cmd (uc_local chk)) s) (\<lambda>_ s. (Inr True, s))
                  else (Inr False, s)) (\<lambda>rolled_back s.
           (Inl (HealthGateFailed (uc_remote chk) rolled_back),
            notify_update cfg host (UpdateFailed (uc_remote chk) rolled_back) s)))"

definition sync_cmd :: "string list" where
  "sync_cmd = [''uv'', ''sync'', ''--extra'', ''engine'', ''--extra'', ''dev'']"

definition roll_out :: "auto_config \<Rightarrow> 'w host \<Rightarrow> string \<Rightarrow> update_check \<Rightarrow> 'w updater \<Rightarrow> (update_error + unit) \<times> 'w updater" where
  "roll_out cfg host repo_root chk s =
     then_do (apply_ref host (uc_remote chk) (notify_update cfg host (RollingUpdate (uc_local chk) (uc_remote chk)) s)) (\<lambda>_ s.
     then_do (sh host sync_cmd s) (\<lambda>_ s.
     then_do (e2e_gate cfg host chk s) (\<lambda>_ s.
     then_do (deploy cfg host repo_root s) (\<lambda>_ s.
       finish_rollout cfg host chk s))))"

definition run_once :: "auto_config \<Rightarrow> 'w host \<Rightarrow> string \<Rightarrow> 'w updater \<Rightarrow> (update_error + unit) \<times> 'w updater" where
  "run_once cfg host repo_root s =
     (if \<not> au_enabled cfg then (Inr (), s)
      else then_do (check_update cfg host s) (\<lambda>chk s.
        if uc_local chk = uc_remote chk then (Inr (), s)
        else if \<not> in_window cfg (h_clock host (up_world s)) then (Inr (), s)
        else roll_out cfg host repo_root chk s))"

text \<open>The first \<open>n\<close> passes of \<open>run_forever\<close>: what ended it early, if anything did.\<close>

fun run_passes :: "auto_config \<Rightarrow> 'w host \<Rightarrow> string \<Rightarrow> nat \<Rightarrow> 'w updater \<Rightarrow> string option \<times> 'w updater" where
  "run_passes cfg host repo_root 0 s = (None, s)"
| "run_passes cfg host repo_root (Suc n) s =
     (case run_once cfg host repo_root s of
        (Inl (Crashed x), s1) \<Rightarrow> (Some x, s1)
      | (_, s1) \<Rightarrow> run_passes cfg host repo_root n (s1\<lparr>up_world := h_sleep host (au_poll_interval cfg) (up_world s1)\<rparr>))"

text \<open>The exit code of a single pass; an exception outside the runner's tree is not caught.\<close>

definition main_once :: "auto_config \<Rightarrow> 'w host \<Rightarrow> string \<Rightarrow> 'w updater \<Rightarrow> (string + int) \<times> 'w updater" where
  "main_once cfg host repo_root s =
     (case run_once cfg host repo_root s of
        (Inl (Crashed x), s1) \<Rightarrow> (Inl x, s1)
      | (Inl _, s1) \<Rightarrow> (Inr 1, s1)
      | (Inr _, s1) \<Rightarrow> (Inr 0, s1))"

subsection \<open>The standalone probe\<close>

text \<open>A request ends with a status or with the text of its error. \<open>results\<close> is unbound when there is no attempt.\<close>

definition health_base :: "string option \<Rightarrow> string option \<Rightarrow> string" where
  "health_base env_host env_port =
     (let host = (case env_host of None \<Rightarrow> ''127.0.0.1'' | Some h \<Rightarrow> if h = ''0.0.0.0'' then ''127.0.0.1'' else h);
          port = (case env_port of None \<Rightarrow> ''27543'' | Some p \<Rightarrow> p)
      in ''http://'' @ host @ '':'' @ port)"

definition probe_reply :: "string + int \<Rightarrow> bool \<times> string" where
  "probe_reply r = (case r of Inl reason \<Rightarrow> (False, reason) | Inr status \<Rightarrow> (200 \<le> status \<and> status < 300, ''HTTP '' @ str_int status))"

definition probe_endpoints :: "bool \<Rightarrow> string list" where
  "probe_endpoints require_ready = [''/healthz''] @ (if require_ready then [''/readyz''] else [])"

fun probe_all :: "(string \<Rightarrow> 'w \<Rightarrow> (string + int) \<times> 'w) \<Rightarrow> string list \<Rightarrow> 'w \<Rightarrow> (bool \<times> string) list \<times> 'w" where
  "probe_all probe [] w = ([], w)"
| "probe_all probe (u # us) w =
     (case probe u w of (r, w1) \<Rightarrow> (case probe_all probe us w1 of (rs, w2) \<Rightarrow> (probe_reply r # rs, w2)))"

fun probe_attempts ::
  "(string \<Rightarrow> 'w \<Rightarrow> (string + int) \<times> 'w) \<Rightarrow> ('w \<Rightarrow> 'w) \<Rightarrow> string list \<Rightarrow> nat \<Rightarrow> 'w \<Rightarrow> int \<times> 'w" where
  "probe_attempts probe pause urls 0 w = (1, w)"
| "probe_attempts probe pause urls (Suc left) w =
     (case probe_all probe urls w of
        (rs, w1) \<Rightarrow> if list_all fst rs then (0, w1)
                   else probe_attempts probe pause urls left (if left = 0 then w1 else pause w1))"

definition health_main ::
  "(string \<Rightarrow> 'w \<Rightarrow> (string + int) \<times> 'w) \<Rightarrow> ('w \<Rightarrow> 'w) \<Rightarrow> string \<Rightarrow> bool \<Rightarrow> int \<Rightarrow> 'w \<Rightarrow> int result \<times> 'w" where
  "health_main probe pause base require_ready retries w =
     (if retries \<le> 0 then (Inl (RuntimeError ''UnboundLocalError''), w)
      else (case probe_attempts probe pause (map (\<lambda>e. base @ e) (probe_endpoints require_ready)) (nat retries) w of
              (status, w') \<Rightarrow> (Inr status, w')))"

text \<open>The probe exits with 0 exactly when in one of its attempts every endpoint answered with a success.\<close>

fun attempt_start :: "(string \<Rightarrow> 'w \<Rightarrow> (string + int) \<times> 'w) \<Rightarrow> ('w \<Rightarrow> 'w) \<Rightarrow> string list \<Rightarrow> nat \<Rightarrow> 'w \<Rightarrow> 'w" where
  "attempt_start probe pause urls 0 w = w"
| "attempt_start probe pause urls (Suc k) w = attempt_start probe pause urls k (pause (snd (probe_all probe urls w)))"

lemma probe_attempts_zero:
  "fst (probe_attempts probe pause urls n w) = 0 \<longleftrightarrow>
     (\<exists>k<n. list_all fst (fst (probe_all probe urls (attempt_start probe pause urls k w))))"
proof (induction n arbitrary: w)
  case (Suc n)
  obtain rs w1 where p: "probe_all probe urls w = (rs, w1)" by fastforce
  show ?case
  proof (cases n)
    case 0
    then show ?thesis by (simp add: p)
  next
    case (Suc m)
    have "(\<exists>k<Suc n. list_all fst (fst (probe_all probe urls (attempt_start probe pause urls k w))))
      \<longleftrightarrow> list_all fst rs \<or> (\<exists>k<n. list_all fst (fst (probe_all probe urls (attempt_start probe pause urls k (pause w1)))))"
      by (simp add: ex_less_Suc_first p)
    with Suc.IH [of "pause w1"] Suc show ?thesis by (simp add: p)
  qed
qed simp

lemma probe_needs_an_attempt: "retries \<le> 0 \<Longrightarrow> fst (health_main probe pause base r retries w) = Inl (RuntimeError ''UnboundLocalError'')"
  by (simp add: health_main_def)

subsection \<open>Which commands a step runs\<close>

text \<open>The commands that touch the database or the running service.\<close>

definition deploys :: "string list \<Rightarrow> bool" where
  "deploys c \<longleftrightarrow> c \<noteq> [] \<and> hd c \<in> {''docker'', ''bash''}"

lemma then_do_cases:
  assumes "then_do (r, s) f = (x, s')"
  obtains e where "r = Inl e" "x = Inl e" "s' = s" | a where "r = Inr a" "f a s = (x, s')"
  using assms by (cases r) (auto simp: then_do_def)

lemma run_cmd_commands: "run_cmd host c s = (r, s') \<Longrightarrow> up_commands s' = up_commands s @ [c]"
  by (auto simp: run_cmd_def split: prod.splits)

lemma sh_commands: "sh host c s = (r, s') \<Longrightarrow> up_commands s' = up_commands s @ [c]"
  by (auto simp: sh_def then_do_def run_cmd_commands split: prod.splits sum.splits if_splits dest: run_cmd_commands)

lemma notify_commands [simp]: "up_commands (notify_update cfg host n s) = up_commands s"
  by (simp add: notify_update_def)

lemma health_gate_commands: "health_gate host hg k s = (r, s') \<Longrightarrow> up_commands s' = up_commands s"
proof (induction host hg k s rule: health_gate.induct)
  case (2 host hg left s)
  then show ?case by (fastforce split: prod.splits sum.splits if_splits)
qed simp

lemma then_do_run:
  assumes "then_do (run_cmd host c s) f = (r, s')"
  obtains x s1 where "r = Inl (Crashed x)" "s' = s1" "up_commands s1 = up_commands s @ [c]" "run_cmd host c s = (Inl (Crashed x), s1)"
  | p s1 where "f p s1 = (r, s')" "up_commands s1 = up_commands s @ [c]" "run_cmd host c s = (Inr p, s1)"
proof -
  obtain q s1 where q: "run_cmd host c s = (q, s1)" by fastforce
  have cs: "up_commands s1 = up_commands s @ [c]" by (rule run_cmd_commands [OF q])
  show thesis
  proof (cases q)
    case (Inl e)
    then obtain x where "e = Crashed x" using q by (auto simp: run_cmd_def split: prod.splits sum.splits)
    then show thesis using that(1) [of x s1] assms q cs Inl by (simp add: then_do_def)
  next
    case (Inr p)
    then show thesis using that(2) [of p s1] assms q cs by (simp add: then_do_def)
  qed
qed

lemma then_do_sh:
  assumes "then_do (sh host c s) f = (r, s')"
  obtains e where "r = Inl e" "up_commands s' = up_commands s @ [c]" "sh host c s = (Inl e, s')"
    "(\<exists>x. e = Crashed x) \<or> (\<exists>n t. e = CommandFailed c n t \<and> n \<noteq> 0)"
  | p s1 where "f p s1 = (r, s')" "up_commands s1 = up_commands s @ [c]" "sh host c s = (Inr p, s1)"
proof -
  obtain q s1 where q: "sh host c s = (q, s1)" by fastforce
  have cs: "up_commands s1 = up_commands s @ [c]" by (rule sh_commands [OF q])
  show thesis
  proof (cases q)
    case (Inl e)
    have "(\<exists>x. e = Crashed x) \<or> (\<exists>n t. e = CommandFailed c n t \<and> n \<noteq> 0)"
      using q unfolding sh_def Inl by (elim then_do_run) (auto split: if_splits)
    then show thesis using that(1) [of e] assms q cs Inl by (simp add: then_do_def)
  next
    case (Inr p)
    then show thesis using that(2) [of p s1] assms q cs by (simp add: then_do_def)
  qed
qed

lemma sh_result:
  assumes "sh host c s = (r, s')"
  shows "up_commands s' = up_commands s @ [c] \<and> (\<forall>e. r = Inl e \<longrightarrow> (\<exists>x. e = Crashed x) \<or> (\<exists>n t. e = CommandFailed c n t \<and> n \<noteq> 0))"
proof -
  have "then_do (sh host c s) (\<lambda>p s. (Inr p, s)) = (r, s')" using assms by (cases r) (simp_all add: then_do_def)
  then show ?thesis by (cases rule: then_do_sh) auto
qed

lemma apply_ref_commands:
  assumes "apply_ref host sha s = (r, s')"
  shows "\<exists>new. up_commands s' = up_commands s @ new \<and> filter deploys new = []"
  using assms unfolding apply_ref_def
  by (elim then_do_run) (auto simp: deploys_def split: if_splits elim!: then_do_sh)

lemma e2e_gate_commands:
  assumes "e2e_gate cfg host chk s = (r, s')"
  shows "\<exists>new. up_commands s' = up_commands s @ new \<and> filter deploys new = []
      \<and> (au_e2e_gate cfg \<longrightarrow> pytest_cmd \<in> set new)
      \<and> (\<forall>p. r = Inl (E2EGateFailed p) \<longrightarrow> p = uc_local chk \<and> [''git'', ''reset'', ''--hard'', p] \<in> set new)"
proof (cases "au_e2e_gate cfg")
  case False
  then show ?thesis using assms by (auto simp: e2e_gate_def)
next
  case True
  have "then_do (run_cmd host pytest_cmd s) (\<lambda>p s.
          if pr_code p = 0 then (Inr (), s)
          else
            then_do (sh host [''git'', ''reset'', ''--hard'', uc_local chk] s) (\<lambda>_ s.
            then_do (run_cmd host [''uv'', ''sync'', ''--extra'', ''engine''] s) (\<lambda>_ s.
              (Inl (E2EGateFailed (uc_local chk)),
               notify_update cfg host (AbortedByGate (uc_remote chk) (uc_local chk)) s)))) = (r, s')"
    using assms True by (simp add: e2e_gate_def)
  moreover have "\<not> deploys pytest_cmd" by (simp add: deploys_def pytest_cmd_def)
  ultimately show ?thesis
    by (elim then_do_run) (auto simp: deploys_def split: if_splits elim!: then_do_sh then_do_run)
qed

definition deploy_plan :: "auto_config \<Rightarrow> string \<Rightarrow> string list list" where
  "deploy_plan cfg repo_root = [compose_build repo_root] @ (if au_migrate cfg then [migrate_cmd] else []) @ [compose_up repo_root]"

lemma deploys_cmds: "deploys (compose_build repo_root)" "deploys migrate_cmd" "deploys (compose_up repo_root)" "deploys (rollback_cmd prev)"
  by (simp_all add: deploys_def compose_build_def compose_up_def compose_cmd_def migrate_cmd_def rollback_cmd_def)

lemma deploy_commands:
  assumes "deploy cfg host repo_root s = (r, s')"
  shows "\<exists>new. up_commands s' = up_commands s @ new \<and> list_all deploys new \<and> prefix new (deploy_plan cfg repo_root)
      \<and> (r = Inr () \<longrightarrow> new = deploy_plan cfg repo_root)
      \<and> (\<forall>p. r \<noteq> Inl (E2EGateFailed p))"
  using assms unfolding deploy_def
proof (cases rule: then_do_sh)
  case (1 e)
  then show ?thesis by (auto simp: deploy_plan_def deploys_cmds)
next
  case (2 p s1)
  show ?thesis
  proof (cases "au_migrate cfg")
    case False
    from 2(1) False have "then_do (sh host (compose_up repo_root) s1) (\<lambda>_ s. (Inr (), s)) = (r, s')"
      by (simp add: then_do_def)
    then show ?thesis
      by (cases rule: then_do_sh) (auto simp: 2(2) False deploy_plan_def deploys_cmds)
  next
    case True
    obtain q s2 where q: "sh host migrate_cmd s1 = (q, s2)" by fastforce
    note c2 = sh_commands [OF q]
    show ?thesis
    proof (cases q)
      case (Inl e)
      then have "(\<exists>x. e = Crashed x) \<or> (\<exists>n t. e = CommandFailed migrate_cmd n t)" "r = Inl e" "s' = s2"
        using 2(1) True q sh_result [OF q] by (auto simp: then_do_def)
      then show ?thesis by (auto simp: c2 2(2) True deploy_plan_def deploys_cmds)
    next
      case (Inr p2)
      with 2(1) True q have "then_do (sh host (compose_up repo_root) s2) (\<lambda>_ s. (Inr (), s)) = (r, s')"
        by (simp add: then_do_def)
      then show ?thesis
        by (cases rule: then_do_sh) (auto simp: c2 2(2) True deploy_plan_def deploys_cmds)
    qed
  qed
qed

lemma finish_commands:
  assumes "finish_rollout cfg host chk s = (r, s')"
  shows "\<exists>new. up_commands s' = up_commands s @ new \<and> (new = [] \<or> au_rollback_on_failure cfg \<and> new = [rollback_cmd (uc_local chk)])
      \<and> (r = Inr () \<longrightarrow> new = []) \<and> (\<forall>p. r \<noteq> Inl (E2EGateFailed p))"
proof -
  obtain q s1 where q: "health_gate host (au_health_gate cfg) (nat (hg_retries (au_health_gate cfg))) s = (q, s1)" by fastforce
  note c1 = health_gate_commands [OF q]
  have crash: "q = Inl e \<Longrightarrow> \<exists>x. e = Crashed x" for e
  proof -
    have "health_gate host hg k s = (Inl e, s1) \<Longrightarrow> \<exists>x. e = Crashed x" for hg k s s1
      by (induction host hg k s rule: health_gate.induct) (auto split: prod.splits sum.splits if_splits)
    then show "q = Inl e \<Longrightarrow> \<exists>x. e = Crashed x" using q by blast
  qed
  from assms show ?thesis unfolding finish_rollout_def q
    by (elim then_do_cases)
      (auto simp: c1 then_do_def split: if_splits prod.splits sum.splits dest!: sh_result crash)
qed

text \<open>A rollout, phase by phase.\<close>

lemma roll_out_phases:
  assumes "roll_out cfg host repo_root chk s = (r, s')"
  obtains e s1 where "apply_ref host (uc_remote chk) (notify_update cfg host (RollingUpdate (uc_local chk) (uc_remote chk)) s) = (Inl e, s1)"
      "r = Inl e" "s' = s1"
  | s1 e s2 where "apply_ref host (uc_remote chk) (notify_update cfg host (RollingUpdate (uc_local chk) (uc_remote chk)) s) = (Inr (), s1)"
      "sh host sync_cmd s1 = (Inl e, s2)" "r = Inl e" "s' = s2"
  | s1 p s2 e s3 where "apply_ref host (uc_remote chk) (notify_update cfg host (RollingUpdate (uc_local chk) (uc_remote chk)) s) = (Inr (), s1)"
      "sh host sync_cmd s1 = (Inr p, s2)" "e2e_gate cfg host chk s2 = (Inl e, s3)" "r = Inl e" "s' = s3"
  | s1 p s2 s3 e s4 where "apply_ref host (uc_remote chk) (notify_update cfg host (RollingUpdate (uc_local chk) (uc_remote chk)) s) = (Inr (), s1)"
      "sh host sync_cmd s1 = (Inr p, s2)" "e2e_gate cfg host chk s2 = (Inr (), s3)" "deploy cfg host repo_root s3 = (Inl e, s4)" "r = Inl e" "s' = s4"
  | s1 p s2 s3 s4 where "apply_ref host (uc_remote chk) (notify_update cfg host (RollingUpdate (uc_local chk) (uc_remote chk)) s) = (Inr (), s1)"
      "sh host sync_cmd s1 = (Inr p, s2)" "e2e_gate cfg host chk s2 = (Inr (), s3)" "deploy cfg host repo_root s3 = (Inr (), s4)"
      "finish_rollout cfg host chk s4 = (r, s')"
proof -
  obtain r1 s1 where 1: "apply_ref host (uc_remote chk) (notify_update cfg host (RollingUpdate (uc_local chk) (uc_remote chk)) s) = (r1, s1)"
    by fastforce
  obtain r2 s2 where 2: "sh host sync_cmd s1 = (r2, s2)" by fastforce
  obtain r3 s3 where 3: "e2e_gate cfg host chk s2 = (r3, s3)" by fastforce
  obtain r4 s4 where 4: "deploy cfg host repo_root s3 = (r4, s4)" by fastforce
  have eq: "then_do (r1, s1) (\<lambda>_ s. then_do (sh host sync_cmd s) (\<lambda>_ s. then_do (e2e_gate cfg host chk s) (\<lambda>_ s.
     then_do (deploy cfg host repo_root s) (\<lambda>_ s. finish_rollout cfg host chk s)))) = (r, s')"
    using assms unfolding roll_out_def 1 .
  show thesis
  proof (cases r1)
    case (Inl e)
    with eq have "r = Inl e" "s' = s1" by (simp_all add: then_do_def)
    with 1 Inl that(1) show thesis by blast
  next
    case r1: (Inr u)
    show thesis
    proof (cases r2)
      case (Inl e)
      with eq r1 have "r = Inl e" "s' = s2" by (simp_all add: then_do_def 2)
      with 1 2 r1 Inl that(2) show thesis by simp
    next
      case r2: (Inr p)
      show thesis
      proof (cases r3)
        case (Inl e)
        with eq r1 r2 have "r = Inl e" "s' = s3" by (simp_all add: then_do_def 2 3)
        with 1 2 3 r1 r2 Inl that(3) show thesis by simp
      next
        case r3: (Inr v)
        show thesis
        proof (cases r4)
          case (Inl e)
          with eq r1 r2 r3 have "r = Inl e" "s' = s4" by (simp_all add: then_do_def 2 3 4)
          with 1 2 3 4 r1 r2 r3 Inl that(4) show thesis by simp
        next
          case (Inr x)
          with eq r1 r2 r3 have "finish_rollout cfg host chk s4 = (r, s')" by (simp add: then_do_def 2 3 4)
          with 1 2 3 4 r1 r2 r3 Inr that(5) show thesis by simp
        qed
      qed
    qed
  qed
qed

definition gate_fails :: "'w host \<Rightarrow> bool" where
  "gate_fails host \<longleftrightarrow> (\<forall>w p w'. h_run host pytest_cmd w = (Inr p, w') \<longrightarrow> pr_code p \<noteq> 0)"

lemma failing_gate_stops:
  assumes "gate_fails host" "au_e2e_gate cfg" "e2e_gate cfg host chk s = (r, s')"
  shows "r \<noteq> Inr ()"
proof
  assume r: "r = Inr ()"
  have "then_do (run_cmd host pytest_cmd s) (\<lambda>p s.
          if pr_code p = 0 then (Inr (), s)
          else
            then_do (sh host [''git'', ''reset'', ''--hard'', uc_local chk] s) (\<lambda>_ s.
            then_do (run_cmd host [''uv'', ''sync'', ''--extra'', ''engine''] s) (\<lambda>_ s.
              (Inl (E2EGateFailed (uc_local chk)),
               notify_update cfg host (AbortedByGate (uc_remote chk) (uc_local chk)) s)))) = (Inr (), s')"
    using assms(2,3) by (simp add: e2e_gate_def r)
  then show False
  proof (cases rule: then_do_run)
    case (2 p s1)
    have "pr_code p \<noteq> 0"
      using 2(3) assms(1) by (auto simp: run_cmd_def gate_fails_def split: prod.splits sum.splits)
    with 2(1) show False by (auto elim!: then_do_sh then_do_run)
  qed simp
qed

lemma roll_out_commands:
  assumes "roll_out cfg host repo_root chk s = (r, s')"
  shows "\<exists>new. up_commands s' = up_commands s @ new
    \<and> prefix (filter deploys new)
        (deploy_plan cfg repo_root @ (if au_rollback_on_failure cfg then [rollback_cmd (uc_local chk)] else []))
    \<and> (r = Inr () \<longrightarrow> filter deploys new = deploy_plan cfg repo_root)
    \<and> (gate_fails host \<and> au_e2e_gate cfg \<longrightarrow> filter deploys new = [])
    \<and> (\<forall>p. r = Inl (E2EGateFailed p) \<longrightarrow> p = uc_local chk \<and> filter deploys new = [] \<and> [''git'', ''reset'', ''--hard'', p] \<in> set new)"
  using assms
proof (cases rule: roll_out_phases)
  case (1 e s1)
  from apply_ref_commands [OF 1(1)] obtain new where "up_commands s1 = up_commands s @ new" "filter deploys new = []" by auto
  moreover have "\<forall>p. e \<noteq> E2EGateFailed p"
    using 1(1) unfolding apply_ref_def by (elim then_do_run) (auto split: if_splits elim!: then_do_sh)
  ultimately show ?thesis using 1 by auto
next
  case (2 s1 e s2)
  from apply_ref_commands [OF 2(1)] obtain new where "up_commands s1 = up_commands s @ new" "filter deploys new = []" by auto
  moreover note sh_result [OF 2(2)]
  moreover have "\<not> deploys sync_cmd" by (simp add: deploys_def sync_cmd_def)
  ultimately show ?thesis using 2 by (intro exI [of _ "new @ [sync_cmd]"]) auto
next
  case (3 s1 p s2 e s3)
  from apply_ref_commands [OF 3(1)] obtain new where new: "up_commands s1 = up_commands s @ new" "filter deploys new = []" by auto
  from e2e_gate_commands [OF 3(3)] obtain new' where "up_commands s3 = up_commands s2 @ new'" "filter deploys new' = []"
    "\<forall>p. Inl e = Inl (E2EGateFailed p) \<longrightarrow> p = uc_local chk \<and> [''git'', ''reset'', ''--hard'', p] \<in> set new'" by blast
  moreover have "\<not> deploys sync_cmd" by (simp add: deploys_def sync_cmd_def)
  ultimately show ?thesis
    using 3 new sh_result [OF 3(2)] by (intro exI [of _ "new @ [sync_cmd] @ new'"]) auto
next
  case (4 s1 p s2 s3 e s4)
  from apply_ref_commands [OF 4(1)] obtain new where new: "up_commands s1 = up_commands s @ new" "filter deploys new = []" by auto
  from e2e_gate_commands [OF 4(3)] obtain new' where "up_commands s3 = up_commands s2 @ new'" "filter deploys new' = []" by blast
  moreover from deploy_commands [OF 4(4)] obtain new'' where "up_commands s4 = up_commands s3 @ new''" "list_all deploys new''"
    "prefix new'' (deploy_plan cfg repo_root)" "\<forall>p. Inl e \<noteq> Inl (E2EGateFailed p)" by (auto simp: sum.inject)
  moreover have "\<not> deploys sync_cmd" by (simp add: deploys_def sync_cmd_def)
  moreover have "filter deploys new'' = new''" if "list_all deploys new''" for new''
    using that by (simp add: filter_id_conv list_all_iff)
  ultimately show ?thesis
    using 4(5,6) new sh_result [OF 4(2)] failing_gate_stops [OF _ _ 4(3)]
    by (intro exI [of _ "new @ [sync_cmd] @ new' @ new''"]) (auto intro: prefix_prefix)
next
  case (5 s1 p s2 s3 s4)
  from apply_ref_commands [OF 5(1)] obtain new where new: "up_commands s1 = up_commands s @ new" "filter deploys new = []" by auto
  from e2e_gate_commands [OF 5(3)] obtain new' where "up_commands s3 = up_commands s2 @ new'" "filter deploys new' = []" by blast
  moreover from deploy_commands [OF 5(4)] have "up_commands s4 = up_commands s3 @ deploy_plan cfg repo_root" by blast
  moreover from finish_commands [OF 5(5)] obtain new'' where "up_commands s' = up_commands s4 @ new''"
    "new'' = [] \<or> au_rollback_on_failure cfg \<and> new'' = [rollback_cmd (uc_local chk)]"
    "r = Inr () \<longrightarrow> new'' = []" "\<forall>p. r \<noteq> Inl (E2EGateFailed p)" by blast
  moreover have "\<not> deploys sync_cmd" by (simp add: deploys_def sync_cmd_def)
  moreover have "filter deploys (deploy_plan cfg repo_root) = deploy_plan cfg repo_root"
    by (simp add: deploy_plan_def deploys_cmds)
  ultimately show ?thesis
    using new sh_result [OF 5(2)] failing_gate_stops [OF _ _ 5(3)]
    by (intro exI [of _ "new @ [sync_cmd] @ new' @ deploy_plan cfg repo_root @ new''"]) (auto simp: deploys_cmds)
qed

subsection \<open>What the runner relies on of git\<close>

text \<open>
  \<open>head\<close> is the commit the checkout is on, \<open>upstream\<close> the one the tracked ref has, \<open>ahead a b\<close> that \<open>b\<close> has
  \<open>a\<close> as a proper ancestor. A fetch and \<open>rev-parse\<close> report them; a merge that is only to fast-forward moves the head
  when the commit is ahead; nothing but git moves the head; and the ref does not move.
\<close>

definition keeps_refs :: "('w \<Rightarrow> string) \<Rightarrow> ('w \<Rightarrow> string) \<Rightarrow> 'w \<Rightarrow> 'w \<Rightarrow> bool" where
  "keeps_refs head upstream w w' \<longleftrightarrow> head w' = head w \<and> upstream w' = upstream w"

definition git_laws ::
  "auto_config \<Rightarrow> 'w host \<Rightarrow> ('w \<Rightarrow> string) \<Rightarrow> ('w \<Rightarrow> string) \<Rightarrow> (string \<Rightarrow> string \<Rightarrow> bool) \<Rightarrow> bool" where
  "git_laws cfg host head upstream ahead \<longleftrightarrow>
     (\<forall>w. \<exists>p w'. h_run host [''git'', ''fetch'', ''--tags'', ''--prune'', au_repo_url cfg, au_git_ref cfg] w = (Inr p, w')
        \<and> keeps_refs head upstream w w')
   \<and> (\<forall>w. \<exists>p w'. h_run host [''git'', ''rev-parse'', ''HEAD''] w = (Inr p, w') \<and> pr_code p = 0
        \<and> py_strip (pr_stdout p) = head w \<and> keeps_refs head upstream w w')
   \<and> (\<forall>w. \<exists>p w'. h_run host [''git'', ''rev-parse'', ''FETCH_HEAD''] w = (Inr p, w') \<and> pr_code p = 0
        \<and> py_strip (pr_stdout p) = upstream w \<and> keeps_refs head upstream w w')
   \<and> (\<forall>w sha p w'. h_run host [''git'', ''merge'', ''--ff-only'', sha] w = (Inr p, w') \<longrightarrow> upstream w' = upstream w
        \<and> head w' = (if pr_code p = 0 \<and> ahead (head w) sha then sha else head w))
   \<and> (\<forall>w sha p w'. h_run host [''git'', ''reset'', ''--hard'', sha] w = (Inr p, w') \<longrightarrow> upstream w' = upstream w
        \<and> head w' = (if pr_code p = 0 then sha else head w))
   \<and> (\<forall>w c r w'. h_run host c w = (r, w') \<longrightarrow> c \<noteq> [] \<longrightarrow> hd c \<noteq> ''git'' \<longrightarrow> take 2 c \<noteq> [''bash'', ''scripts/rollback.sh'']
        \<longrightarrow> keeps_refs head upstream w w')
   \<and> (\<forall>w x. keeps_refs head upstream w (h_sleep host x w))
   \<and> (\<forall>w u n. keeps_refs head upstream w (h_post host u n w))"

lemma git_lawsD:
  assumes "git_laws cfg host head upstream ahead"
  shows "\<forall>w. \<exists>p w'. h_run host [''git'', ''fetch'', ''--tags'', ''--prune'', au_repo_url cfg, au_git_ref cfg] w = (Inr p, w')
        \<and> keeps_refs head upstream w w'"
    and "\<forall>w. \<exists>p w'. h_run host [''git'', ''rev-parse'', ''HEAD''] w = (Inr p, w') \<and> pr_code p = 0
        \<and> py_strip (pr_stdout p) = head w \<and> keeps_refs head upstream w w'"
    and "\<forall>w. \<exists>p w'. h_run host [''git'', ''rev-parse'', ''FETCH_HEAD''] w = (Inr p, w') \<and> pr_code p = 0
        \<and> py_strip (pr_stdout p) = upstream w \<and> keeps_refs head upstream w w'"
    and "\<forall>w sha p w'. h_run host [''git'', ''merge'', ''--ff-only'', sha] w = (Inr p, w') \<longrightarrow> upstream w' = upstream w
        \<and> head w' = (if pr_code p = 0 \<and> ahead (head w) sha then sha else head w)"
    and "\<forall>w sha p w'. h_run host [''git'', ''reset'', ''--hard'', sha] w = (Inr p, w') \<longrightarrow> upstream w' = upstream w
        \<and> head w' = (if pr_code p = 0 then sha else head w)"
    and "\<forall>w c r w'. h_run host c w = (r, w') \<longrightarrow> c \<noteq> [] \<longrightarrow> hd c \<noteq> ''git'' \<longrightarrow> take 2 c \<noteq> [''bash'', ''scripts/rollback.sh'']
        \<longrightarrow> keeps_refs head upstream w w'"
    and "\<forall>w x. keeps_refs head upstream w (h_sleep host x w)"
    and "\<forall>w u n. keeps_refs head upstream w (h_post host u n w)"
  using assms unfolding git_laws_def by - (elim conjE, assumption)+

lemma sh_keeps:
  assumes "git_laws cfg host head upstream ahead" "sh host c s = (r, s')"
    and "c \<noteq> []" "hd c \<noteq> ''git''" "take 2 c \<noteq> [''bash'', ''scripts/rollback.sh'']"
  shows "keeps_refs head upstream (up_world s) (up_world s')"
proof -
  obtain q w where q: "h_run host c (up_world s) = (q, w)" by fastforce
  have "up_world s' = w"
    using assms(2) q by (auto simp: sh_def run_cmd_def then_do_def split: sum.splits if_splits)
  moreover have "keeps_refs head upstream (up_world s) w"
    using git_lawsD(6) [OF assms(1), rule_format, OF q assms(3,4,5)] .
  ultimately show ?thesis by simp
qed

lemma notify_keeps:
  assumes "git_laws cfg host head upstream ahead"
  shows "keeps_refs head upstream (up_world s) (up_world (notify_update cfg host n s))"
  using git_lawsD(8) [OF assms] by (simp add: notify_update_def keeps_refs_def)

lemma check_update_reports:
  assumes "git_laws cfg host head upstream ahead"
  shows "\<exists>s'. check_update cfg host s = (Inr \<lparr>uc_local = head (up_world s), uc_remote = upstream (up_world s)\<rparr>, s')
    \<and> keeps_refs head upstream (up_world s) (up_world s')
    \<and> (\<exists>new. up_commands s' = up_commands s @ new \<and> filter deploys new = [])"
proof -
  obtain p1 w1 where 1: "h_run host [''git'', ''fetch'', ''--tags'', ''--prune'', au_repo_url cfg, au_git_ref cfg] (up_world s) = (Inr p1, w1)"
    "keeps_refs head upstream (up_world s) w1" using git_lawsD(1) [OF assms] by blast
  obtain p2 w2 where 2: "h_run host [''git'', ''rev-parse'', ''HEAD''] w1 = (Inr p2, w2)" "pr_code p2 = 0"
    "py_strip (pr_stdout p2) = head w1" "keeps_refs head upstream w1 w2" using git_lawsD(2) [OF assms] by blast
  obtain p3 w3 where 3: "h_run host [''git'', ''rev-parse'', ''FETCH_HEAD''] w2 = (Inr p3, w3)" "pr_code p3 = 0"
    "py_strip (pr_stdout p3) = upstream w2" "keeps_refs head upstream w2 w3" using git_lawsD(3) [OF assms] by blast
  show ?thesis
    using 1 2 3 by (simp add: check_update_def run_cmd_def sh_def git_rev_parse_def then_do_def keeps_refs_def deploys_def)
qed

text \<open>A pass of a checkout that is where the ref is does nothing.\<close>

lemma current_checkout_idle:
  assumes "git_laws cfg host head upstream ahead" "head (up_world s) = upstream (up_world s)"
  shows "\<exists>s'. run_once cfg host repo_root s = (Inr (), s') \<and> keeps_refs head upstream (up_world s) (up_world s')
    \<and> (\<exists>new. up_commands s' = up_commands s @ new \<and> filter deploys new = [])"
proof (cases "au_enabled cfg")
  case False
  then show ?thesis by (auto simp: run_once_def keeps_refs_def)
next
  case True
  with check_update_reports [OF assms(1), of s] assms(2) show ?thesis by (auto simp: run_once_def then_do_def)
qed

lemma current_checkout_stays_idle:
  assumes "git_laws cfg host head upstream ahead" "head (up_world s) = upstream (up_world s)"
  shows "\<exists>s'. run_passes cfg host repo_root n s = (None, s')
    \<and> (\<exists>new. up_commands s' = up_commands s @ new \<and> filter deploys new = [])"
  using assms(2)
proof (induction n arbitrary: s)
  case (Suc n)
  obtain s1 new where s1: "run_once cfg host repo_root s = (Inr (), s1)" "keeps_refs head upstream (up_world s) (up_world s1)"
    "up_commands s1 = up_commands s @ new" "filter deploys new = []"
    using current_checkout_idle [OF assms(1) Suc.prems] by blast
  let ?s = "s1\<lparr>up_world := h_sleep host (au_poll_interval cfg) (up_world s1)\<rparr>"
  have "head (up_world ?s) = upstream (up_world ?s)"
    using git_lawsD(7) [OF assms(1)] s1(2) Suc.prems by (simp add: keeps_refs_def)
  from Suc.IH [OF this] s1(1,3,4) show ?case by fastforce
qed simp

text \<open>The head is on the new commit once it was applied, and stays there when a later step's command fails.\<close>

lemma apply_ref_moves:
  assumes "git_laws cfg host head upstream ahead" "apply_ref host sha s = (Inr (), s')" "ahead (head (up_world s)) sha"
  shows "head (up_world s') = sha" "upstream (up_world s') = upstream (up_world s)"
proof -
  obtain q w where q: "h_run host [''git'', ''merge'', ''--ff-only'', sha] (up_world s) = (q, w)" by fastforce
  then obtain p where p: "q = Inr p" using assms(2) by (cases q) (simp_all add: apply_ref_def run_cmd_def then_do_def)
  have m: "upstream w = upstream (up_world s)" "pr_code p = 0 \<Longrightarrow> head w = sha"
    using git_lawsD(4) [OF assms(1), rule_format, of sha "up_world s" p w] assms(3) q p by simp_all
  have "head (up_world s') = sha \<and> upstream (up_world s') = upstream (up_world s)"
  proof (cases "pr_code p = 0")
    case True
    then have "up_world s' = w" using assms(2) q p by (auto simp: apply_ref_def run_cmd_def then_do_def)
    with m True show ?thesis by simp
  next
    case False
    obtain q2 w2 where q2: "h_run host [''git'', ''reset'', ''--hard'', sha] w = (q2, w2)" by fastforce
    then obtain p2 where p2: "q2 = Inr p2" "pr_code p2 = 0" "up_world s' = w2"
      using assms(2) q p False by (cases q2) (auto simp: apply_ref_def run_cmd_def then_do_def sh_def split: if_splits)
    then have "upstream w2 = upstream w" "head w2 = sha"
      using git_lawsD(5) [OF assms(1), rule_format, of sha w p2 w2] q2 by simp_all
    with m(1) p2(3) show ?thesis by simp
  qed
  then show "head (up_world s') = sha" "upstream (up_world s') = upstream (up_world s)" by simp_all
qed

lemma e2e_gate_keeps:
  assumes "git_laws cfg host head upstream ahead" "e2e_gate cfg host chk s = (r, s')"
  shows "r = Inr () \<Longrightarrow> keeps_refs head upstream (up_world s) (up_world s')"
    and "r = Inl (CommandFailed c n t) \<Longrightarrow> hd c = ''git''"
proof -
  have "(r = Inr () \<longrightarrow> keeps_refs head upstream (up_world s) (up_world s')) \<and> (\<forall>c n t. r = Inl (CommandFailed c n t) \<longrightarrow> hd c = ''git'')"
  proof (cases "au_e2e_gate cfg")
    case False
    then show ?thesis using assms(2) by (auto simp: e2e_gate_def keeps_refs_def)
  next
    case True
    have "then_do (run_cmd host pytest_cmd s) (\<lambda>p s.
          if pr_code p = 0 then (Inr (), s)
          else
            then_do (sh host [''git'', ''reset'', ''--hard'', uc_local chk] s) (\<lambda>_ s.
            then_do (run_cmd host [''uv'', ''sync'', ''--extra'', ''engine''] s) (\<lambda>_ s.
              (Inl (E2EGateFailed (uc_local chk)),
               notify_update cfg host (AbortedByGate (uc_remote chk) (uc_local chk)) s)))) = (r, s')"
      using assms(2) True by (simp add: e2e_gate_def)
    then show ?thesis
    proof (cases rule: then_do_run)
      case (2 p s1)
      have "keeps_refs head upstream (up_world s) (up_world s1)"
      proof -
        obtain q w where q: "h_run host pytest_cmd (up_world s) = (q, w)" by fastforce
        then have "up_world s1 = w" using 2(3) by (auto simp: run_cmd_def split: sum.splits)
        moreover have "keeps_refs head upstream (up_world s) w"
          by (rule git_lawsD(6) [OF assms(1), rule_format, OF q]) (simp_all add: pytest_cmd_def)
        ultimately show ?thesis by simp
      qed
      with 2(1) show ?thesis by (auto split: if_splits elim!: then_do_sh then_do_run)
    qed simp
  qed
  then show "r = Inr () \<Longrightarrow> keeps_refs head upstream (up_world s) (up_world s')"
    "r = Inl (CommandFailed c n t) \<Longrightarrow> hd c = ''git''" by auto
qed

lemma keeps_refs_trans: "keeps_refs head upstream w w1 \<Longrightarrow> keeps_refs head upstream w1 w2 \<Longrightarrow> keeps_refs head upstream w w2"
  by (simp add: keeps_refs_def)

lemma deploy_keeps:
  assumes "git_laws cfg host head upstream ahead" "deploy cfg host repo_root s = (r, s')"
  shows "keeps_refs head upstream (up_world s) (up_world s')"
proof -
  have shk: "keeps_refs head upstream (up_world s) (up_world s')"
    if "sh host c s = (r, s')" "c \<in> {compose_build repo_root, migrate_cmd, compose_up repo_root}" for c r s s'
    using sh_keeps [OF assms(1) that(1)] that(2)
    by (auto simp: compose_build_def compose_up_def compose_cmd_def migrate_cmd_def)
  obtain q1 s1 where 1: "sh host (compose_build repo_root) s = (q1, s1)" by fastforce
  obtain q2 s2 where 2: "sh host migrate_cmd s1 = (q2, s2)" by fastforce
  obtain q3 s3 where 3: "sh host (compose_up repo_root) (if au_migrate cfg then s2 else s1) = (q3, s3)" by fastforce
  note k = shk [OF 1] shk [OF 2] shk [OF 3]
  have "s' = s1 \<or> s' = s2 \<and> au_migrate cfg \<or> s' = s3"
    using assms(2) 1 2 3 by (auto simp: deploy_def then_do_def split: sum.splits if_splits)
  with k show ?thesis by (auto split: if_splits intro: keeps_refs_trans)
qed

lemma finish_error:
  assumes "finish_rollout cfg host chk s = (Inl (CommandFailed c n t), s')"
  shows "c = rollback_cmd (uc_local chk)"
proof -
  obtain q s1 where q: "health_gate host (au_health_gate cfg) (nat (hg_retries (au_health_gate cfg))) s = (q, s1)" by fastforce
  have "q \<noteq> Inl (CommandFailed c n t)"
  proof -
    have "fst (health_gate host hg k s) \<noteq> Inl (CommandFailed c n t)" for hg k s
      by (induction host hg k s rule: health_gate.induct) (auto split: prod.splits sum.splits if_splits)
    then show ?thesis using q by (metis fst_conv)
  qed
  then show ?thesis
    using assms q
    by (auto simp: finish_rollout_def then_do_def split: sum.splits if_splits prod.splits dest!: sh_result)
qed

text \<open>The steps after the checkout was moved whose command may fail.\<close>

definition late_cmds :: "string \<Rightarrow> string list list" where
  "late_cmds repo_root = [sync_cmd, compose_build repo_root, migrate_cmd, compose_up repo_root]"

lemma late_cmds_facts:
  assumes "c \<in> set (late_cmds repo_root)"
  shows "hd c \<noteq> ''git''" "c \<noteq> rollback_cmd prev"
  using assms
  by (auto simp: late_cmds_def sync_cmd_def compose_build_def compose_up_def compose_cmd_def migrate_cmd_def rollback_cmd_def)

lemma roll_out_left_ahead:
  assumes "git_laws cfg host head upstream ahead" "roll_out cfg host repo_root chk s = (Inl (CommandFailed c n t), s')"
    and "c \<in> set (late_cmds repo_root)" "ahead (head (up_world s)) (uc_remote chk)"
  shows "head (up_world s') = uc_remote chk" "upstream (up_world s') = upstream (up_world s)"
proof -
  let ?s0 = "notify_update cfg host (RollingUpdate (uc_local chk) (uc_remote chk)) s"
  note n0 = notify_keeps [OF assms(1), of s "RollingUpdate (uc_local chk) (uc_remote chk)"]
  have sync: "keeps_refs head upstream (up_world s1) (up_world s2)" if "sh host sync_cmd s1 = (r, s2)" for r s1 s2
    using sh_keeps [OF assms(1) that] by (simp add: sync_cmd_def)
  have moved: "head (up_world s1) = uc_remote chk \<and> upstream (up_world s1) = upstream (up_world s)"
    if "apply_ref host (uc_remote chk) ?s0 = (Inr (), s1)" for s1
    using apply_ref_moves [OF assms(1) that] n0 assms(4) by (simp add: keeps_refs_def)
  have "head (up_world s') = uc_remote chk \<and> upstream (up_world s') = upstream (up_world s)"
    using assms(2)
  proof (cases rule: roll_out_phases)
    case (1 e s1)
    have "hd c = ''git''"
      using 1 unfolding apply_ref_def by (elim then_do_run) (auto split: if_splits elim!: then_do_sh)
    with late_cmds_facts(1) [OF assms(3)] show ?thesis by simp
  next
    case (2 s1 e s2)
    with moved [OF 2(1)] sync [OF 2(2)] show ?thesis by (simp add: keeps_refs_def)
  next
    case (3 s1 p s2 e s3)
    with e2e_gate_keeps(2) [OF assms(1) 3(3)] late_cmds_facts(1) [OF assms(3)] show ?thesis by auto
  next
    case (4 s1 p s2 s3 e s4)
    with moved [OF 4(1)] sync [OF 4(2)] e2e_gate_keeps(1) [OF assms(1) 4(3)] deploy_keeps [OF assms(1) 4(4)]
    show ?thesis by (simp add: keeps_refs_def)
  next
    case (5 s1 p s2 s3 s4)
    with finish_error [OF 5(5)] late_cmds_facts(2) [OF assms(3)] show ?thesis by blast
  qed
  then show "head (up_world s') = uc_remote chk" "upstream (up_world s') = upstream (up_world s)" by simp_all
qed

subsection \<open>The window in minutes\<close>

definition minute_text :: "nat \<Rightarrow> string" where
  "minute_text m = pad_left 2 (int (m div 60)) @ '':'' @ pad_left 2 (int (m mod 60))"

lemma pad2: "n < 100 \<Longrightarrow> pad_left 2 (int n) = [digit_char (n div 10), digit_char (n mod 10)]"
proof -
  assume n: "n < 100"
  have z: "CHR ''0'' = digit_char 0" by code_simp
  show ?thesis
  proof (cases "n < 10")
    case True
    then show ?thesis by (simp add: pad_left_def str_int_def nat_digits.simps [of n] z)
  next
    case False
    with n have "n div 10 < 10" by simp
    with False show ?thesis by (simp add: pad_left_def str_int_def nat_digits.simps [of n] nat_digits.simps [of "n div 10"])
  qed
qed

lemma div_mod_less:
  fixes x y b :: nat
  shows "x < y \<longleftrightarrow> x div b < y div b \<or> x div b = y div b \<and> x mod b < y mod b"
proof -
  consider "x div b < y div b" | "y div b < x div b" | "x div b = y div b" by linarith
  then show ?thesis
  proof cases
    case 1
    then have "x < y" by (metis div_le_mono linorder_not_less)
    with 1 show ?thesis by simp
  next
    case 2
    then have "y < x" by (metis div_le_mono linorder_not_less)
    with 2 show ?thesis by simp
  next
    case 3
    have "x = b * (x div b) + x mod b" "y = b * (x div b) + y mod b" by (simp, subst 3, simp)
    with 3 show ?thesis by linarith
  qed
qed

lemma div_mod_eq:
  fixes x y b :: nat
  shows "x = y \<longleftrightarrow> x div b = y div b \<and> x mod b = y mod b"
  by (metis div_mult_mod_eq)

lemma digit_char_less: "a < 10 \<Longrightarrow> b < 10 \<Longrightarrow> digit_char a < digit_char b \<longleftrightarrow> a < b"
  by (simp add: digit_char_def less_char_def)

lemma digit_char_eq: "a < 10 \<Longrightarrow> b < 10 \<Longrightarrow> digit_char a = digit_char b \<longleftrightarrow> a = b"
  by (metis digit_val_digit_char)

text \<open>The texts of the day's minutes are in the order of the minutes.\<close>

lemma minute_text_less:
  assumes "m < 1440" "k < 1440"
  shows "minute_text m < minute_text k \<longleftrightarrow> m < k"
proof -
  let ?a = "m div 60" and ?b = "m mod 60" and ?c = "k div 60" and ?d = "k mod 60"
  have h: "?a < 100" "?b < 100" "?c < 100" "?d < 100" using assms by auto
  have t: "\<And>x. x < 100 \<Longrightarrow> x div 10 < (10::nat)" by simp
  have "minute_text m < minute_text k \<longleftrightarrow>
      ?a div 10 < ?c div 10 \<or> ?a div 10 = ?c div 10 \<and> (?a mod 10 < ?c mod 10 \<or> ?a mod 10 = ?c mod 10 \<and>
        (?b div 10 < ?d div 10 \<or> ?b div 10 = ?d div 10 \<and> ?b mod 10 < ?d mod 10))"
    using t [OF h(1)] t [OF h(2)] t [OF h(3)] t [OF h(4)]
    by (simp add: minute_text_def pad2 [OF h(1)] pad2 [OF h(2)] pad2 [OF h(3)] pad2 [OF h(4)] digit_char_less digit_char_eq)
  also have "\<dots> \<longleftrightarrow> ?a < ?c \<or> ?a = ?c \<and> ?b < ?d"
    by (simp only: div_mod_less [of ?a ?c 10] div_mod_less [of ?b ?d 10] div_mod_eq [of ?a ?c 10]) blast
  also have "\<dots> \<longleftrightarrow> m < k"
    by (rule div_mod_less [symmetric])
  finally show ?thesis .
qed

subsection \<open>Properties\<close>

text \<open>C30: What a rollout may do to the database and the service, and in which order. Whatever happens, the commands
  it runs on them are a prefix of build, migration (if configured), start, rollback (if configured);
  success ran exactly build, migration and start; when the gate is on and its suite fails, none is run;
  and a rollout stopped by the gate has reset the checkout to the commit it came from.\<close>

theorem rollout_order:
  assumes "roll_out cfg host repo_root chk s = (r, s')"
  shows "\<exists>new. up_commands s' = up_commands s @ new
    \<and> prefix (filter deploys new)
        ([compose_build repo_root] @ (if au_migrate cfg then [migrate_cmd] else []) @ [compose_up repo_root]
         @ (if au_rollback_on_failure cfg then [rollback_cmd (uc_local chk)] else []))
    \<and> (r = Inr () \<longrightarrow> filter deploys new
          = [compose_build repo_root] @ (if au_migrate cfg then [migrate_cmd] else []) @ [compose_up repo_root])
    \<and> (au_e2e_gate cfg \<and> gate_fails host \<longrightarrow> filter deploys new = [])
    \<and> (\<forall>p. r = Inl (E2EGateFailed p) \<longrightarrow> p = uc_local chk \<and> filter deploys new = [] \<and> [''git'', ''reset'', ''--hard'', p] \<in> set new)"
  using roll_out_commands [OF assms] by (auto simp: deploy_plan_def)

text \<open>C31: An update that fails after the checkout was moved is never finished. If the pass ends because the
  dependency sync, the image build, the migration or the start failed, then from there on, as long as
  the tracked ref does not move, every pass of the loop finds the checkout up to date and builds,
  migrates and starts nothing: the failed update is not retried.\<close>

theorem half_applied_update_stuck:
  assumes "git_laws cfg host head upstream ahead" "ahead (head (up_world s)) (upstream (up_world s))"
    and "run_once cfg host repo_root s = (Inl (CommandFailed c n t), s1)" "c \<in> set (late_cmds repo_root)"
  shows "\<exists>s2 new. run_passes cfg host repo_root k s1 = (None, s2) \<and> up_commands s2 = up_commands s1 @ new
    \<and> filter deploys new = [] \<and> head (up_world s1) = upstream (up_world s)"
proof -
  obtain s0 where s0: "check_update cfg host s = (Inr \<lparr>uc_local = head (up_world s), uc_remote = upstream (up_world s)\<rparr>, s0)"
    "keeps_refs head upstream (up_world s) (up_world s0)"
    using check_update_reports [OF assms(1), of s] by blast
  let ?chk = "\<lparr>uc_local = head (up_world s), uc_remote = upstream (up_world s)\<rparr>"
  have "roll_out cfg host repo_root ?chk s0 = (Inl (CommandFailed c n t), s1)"
    using assms(3) s0(1) by (auto simp: run_once_def then_do_def split: if_splits)
  from roll_out_left_ahead [OF assms(1) this assms(4)] assms(2) s0(2)
  have at: "head (up_world s1) = upstream (up_world s)" "upstream (up_world s1) = upstream (up_world s)"
    by (simp_all add: keeps_refs_def)
  then have "head (up_world s1) = upstream (up_world s1)" by simp
  from current_checkout_stays_idle [OF assms(1) this, of repo_root k] at(1) show ?thesis by blast
qed

text \<open>The maintenance window as minutes of the day. For bounds written as zero-padded times the comparison of
  texts is the comparison of minutes: a window whose start is before its end holds strictly between
  them, any other one is open after its start and before its end, across midnight; with equal bounds it
  is closed for that one minute only.\<close>

theorem window_in_minutes:
  assumes "au_window_start cfg = minute_text a" "au_window_end cfg = minute_text b" "a < 1440" "b < 1440"
    and "dt_hour d = int (m div 60)" "dt_minute d = int (m mod 60)" "m < 1440"
  shows "in_window cfg d \<longleftrightarrow> (if a < b then a < m \<and> m < b else a < m \<or> m < b)"
proof -
  have "minute_text x \<noteq> []" for x by (simp add: minute_text_def)
  moreover have "clock_hm d = minute_text m" using assms(5,6) by (simp add: clock_hm_def minute_text_def)
  ultimately show ?thesis
    using assms(1-4,7) by (simp add: in_window_def minute_text_less)
qed

subsection \<open>Examples\<close>

text \<open>A host whose world is the head and the tracked commit, and on which some commands fail.\<close>

definition demo_host :: "(string list \<Rightarrow> bool) \<Rightarrow> (string \<times> string) host" where
  "demo_host bad =
     \<lparr>h_run = (\<lambda>c (head, up).
         if c = [''git'', ''rev-parse'', ''HEAD''] then (Inr \<lparr>pr_code = 0, pr_stdout = head, pr_stderr = []\<rparr>, (head, up))
         else if c = [''git'', ''rev-parse'', ''FETCH_HEAD''] then (Inr \<lparr>pr_code = 0, pr_stdout = up, pr_stderr = []\<rparr>, (head, up))
         else if take 3 c = [''git'', ''merge'', ''--ff-only''] \<or> take 3 c = [''git'', ''reset'', ''--hard'']
           then (if py_strip (last c) = last c then (Inr \<lparr>pr_code = 0, pr_stdout = [], pr_stderr = []\<rparr>, (last c, up))
                 else (Inr \<lparr>pr_code = 128, pr_stdout = [], pr_stderr = []\<rparr>, (head, up)))
         else (Inr \<lparr>pr_code = (if bad c then 1 else 0), pr_stdout = [], pr_stderr = []\<rparr>, (head, up))),
      h_post = (\<lambda>u n w. w), h_probe = (\<lambda>u x w. (Inr (Some 200), w)), h_sleep = (\<lambda>x w. w),
      h_clock = (\<lambda>w. the (from_timestamp_utc 0))\<rparr>"

definition demo_config :: auto_config where
  "demo_config = \<lparr>au_enabled = True, au_poll_interval = 300, au_git_ref = ''master'', au_repo_url = ''origin'', au_migrate = True,
     au_e2e_gate = True, au_rollback_on_failure = True, au_health_gate = health_gate_default,
     au_window_start = [], au_window_end = [], au_webhook = []\<rparr>"

definition demo_start :: "(string \<times> string) updater" where
  "demo_start = \<lparr>up_world = (''a'', ''b''), up_commands = [], up_notes = []\<rparr>"

lemma demo_strip: "py_strip ''a'' = ''a''" "py_strip ''b'' = ''b''"
  by (simp_all add: py_strip_def is_space_def)

lemma take3_hd: "take 3 c = x # xs \<Longrightarrow> hd c = x"
  by (cases c) auto

lemma demo_git_laws: "git_laws demo_config (demo_host bad) (\<lambda>w. py_strip (fst w)) (\<lambda>w. py_strip (snd w)) (\<lambda>a b. True)"
  unfolding git_laws_def
  by (intro conjI allI impI) (auto simp: demo_host_def demo_config_def keeps_refs_def split: if_splits dest: take3_hd)

theorem rollout_order_witness:
  "\<exists>s' new. roll_out demo_config (demo_host (\<lambda>c. c = pytest_cmd)) ''/r'' \<lparr>uc_local = ''a'', uc_remote = ''b''\<rparr> demo_start
       = (Inl (E2EGateFailed ''a''), s')
     \<and> up_commands s' = new \<and> filter deploys new = [] \<and> [''git'', ''reset'', ''--hard'', ''a''] \<in> set new"
proof -
  obtain s' where s': "roll_out demo_config (demo_host (\<lambda>c. c = pytest_cmd)) ''/r'' \<lparr>uc_local = ''a'', uc_remote = ''b''\<rparr> demo_start
      = (Inl (E2EGateFailed ''a''), s')"
    by (simp add: roll_out_def apply_ref_def e2e_gate_def then_do_def run_cmd_def sh_def demo_host_def demo_config_def demo_start_def
        notify_update_def pytest_cmd_def sync_cmd_def demo_strip)
  from rollout_order [OF s'] have "\<exists>new. up_commands s' = new \<and> filter deploys new = [] \<and> [''git'', ''reset'', ''--hard'', ''a''] \<in> set new"
    by (auto simp: demo_start_def)
  with s' show ?thesis by blast
qed

theorem half_applied_update_stuck_witness:
  "\<exists>s1 s2. run_once demo_config (demo_host (\<lambda>c. c = migrate_cmd)) ''/r'' demo_start = (Inl (CommandFailed migrate_cmd 1 []), s1)
     \<and> run_passes demo_config (demo_host (\<lambda>c. c = migrate_cmd)) ''/r'' 3 s1 = (None, s2)
     \<and> filter deploys (drop (length (up_commands s1)) (up_commands s2)) = []"
proof -
  let ?host = "demo_host (\<lambda>c. c = migrate_cmd)"
  have "\<exists>s1. run_once demo_config ?host ''/r'' demo_start = (Inl (CommandFailed migrate_cmd 1 []), s1)"
    by (simp add: run_once_def check_update_def git_rev_parse_def in_window_def roll_out_def apply_ref_def e2e_gate_def deploy_def
        then_do_def run_cmd_def sh_def demo_host_def demo_config_def demo_start_def notify_update_def pytest_cmd_def sync_cmd_def
        compose_build_def compose_cmd_def migrate_cmd_def demo_strip)
  then obtain s1 where s1: "run_once demo_config ?host ''/r'' demo_start = (Inl (CommandFailed migrate_cmd 1 []), s1)" by blast
  have "migrate_cmd \<in> set (late_cmds ''/r'')" by (simp add: late_cmds_def)
  from half_applied_update_stuck [OF demo_git_laws TrueI s1 this, of 3] s1 show ?thesis by fastforce
qed

theorem window_in_minutes_witness:
  "in_window (demo_config\<lparr>au_window_start := minute_text 1320, au_window_end := minute_text 120\<rparr>)
     \<lparr>dt_year = 2024, dt_month = 1, dt_day = 1, dt_hour = 1, dt_minute = 30, dt_second = 0, dt_micro = 0, utc_offset = Some 0\<rparr>
   \<and> minute_text 1320 = ''22:00''"
proof
  show "in_window (demo_config\<lparr>au_window_start := minute_text 1320, au_window_end := minute_text 120\<rparr>)
     \<lparr>dt_year = 2024, dt_month = 1, dt_day = 1, dt_hour = 1, dt_minute = 30, dt_second = 0, dt_micro = 0, utc_offset = Some 0\<rparr>"
    by (subst window_in_minutes [where a = 1320 and b = 120 and m = 90]) simp_all
  show "minute_text 1320 = ''22:00''" by code_simp
qed

end
