(* ===== verification/Daemon_Lease.thy ===== *)
theory Daemon_Lease
  imports Errors Eventus_Prelude
begin

text \<open>
  The single-owner lease (\<open>daemon/lease.py\<close>). The database's advisory locks are an argument, with what
  the lease relies on of them as \<open>advisory_laws\<close>: locks belong to sessions, are counted per session and
  go with the session. A fleet is a list of daemons that share one database, each with its own lease
  object; a daemon may acquire, release or die.
\<close>

subsection \<open>The lease\<close>

text \<open>Sessions have the type \<open>'k\<close>, the server's state \<open>'w\<close>. A connection attempt may raise.\<close>

record ('w, 'k) lock_server =
  sv_connect :: "'w \<Rightarrow> 'k result \<times> 'w"
  sv_try_lock :: "'k \<Rightarrow> int \<Rightarrow> 'w \<Rightarrow> bool result \<times> 'w"
  sv_unlock :: "'k \<Rightarrow> int \<Rightarrow> 'w \<Rightarrow> unit result \<times> 'w"
  sv_close :: "'k \<Rightarrow> 'w \<Rightarrow> 'w"

record 'k lease =
  ls_key :: int
  ls_conn :: "'k option"

definition new_lease :: "int \<Rightarrow> 'k lease" where
  "new_lease key = \<lparr>ls_key = key, ls_conn = None\<rparr>"

definition lease_acquire :: "('w, 'k) lock_server \<Rightarrow> 'k lease \<Rightarrow> 'w \<Rightarrow> unit result \<times> 'k lease \<times> 'w" where
  "lease_acquire srv l w =
     (case sv_connect srv w of
        (Inl x, w1) \<Rightarrow> (Inl x, l, w1)
      | (Inr conn, w1) \<Rightarrow>
          (case sv_try_lock srv conn (ls_key l) w1 of
             (Inl x, w2) \<Rightarrow> (Inl x, l, w2)
           | (Inr got, w2) \<Rightarrow>
             if \<not> got then (Inl (Engine (AlreadyRunning (ls_key l))), l, sv_close srv conn w2)
             else (Inr (), l\<lparr>ls_conn := Some conn\<rparr>, w2)))"

definition lease_release :: "('w, 'k) lock_server \<Rightarrow> 'k lease \<Rightarrow> 'w \<Rightarrow> unit result \<times> 'k lease \<times> 'w" where
  "lease_release srv l w =
     (case ls_conn l of
        None \<Rightarrow> (Inr (), l, w)
      | Some conn \<Rightarrow>
          (case sv_unlock srv conn (ls_key l) w of
             (Inl x, w1) \<Rightarrow> (Inl x, l, w1)
           | (Inr _, w1) \<Rightarrow> (Inr (), l\<lparr>ls_conn := None\<rparr>, sv_close srv conn w1)))"

text \<open>\<open>NullLease\<close> always succeeds and holds nothing.\<close>

definition null_acquire :: "'w \<Rightarrow> unit result \<times> 'w" where
  "null_acquire w = (Inr (), w)"

definition null_release :: "'w \<Rightarrow> 'w" where
  "null_release w = w"

subsection \<open>A fleet of daemons\<close>

text \<open>A daemon that dies loses its lease object, and the server closes its session.\<close>

datatype fleet_op = Acquire nat | Release nat | Die nat

fun fleet_step :: "('w, 'k) lock_server \<Rightarrow> fleet_op \<Rightarrow> 'k lease list \<times> 'w \<Rightarrow> 'k lease list \<times> 'w" where
  "fleet_step srv (Acquire i) (ls, w) =
     (if i < length ls then (case lease_acquire srv (ls ! i) w of (r, l, w') \<Rightarrow> (ls[i := l], w')) else (ls, w))"
| "fleet_step srv (Release i) (ls, w) =
     (if i < length ls then (case lease_release srv (ls ! i) w of (r, l, w') \<Rightarrow> (ls[i := l], w')) else (ls, w))"
| "fleet_step srv (Die i) (ls, w) =
     (if i < length ls then
        (ls[i := new_lease (ls_key (ls ! i))], case ls_conn (ls ! i) of None \<Rightarrow> w | Some conn \<Rightarrow> sv_close srv conn w)
      else (ls, w))"

fun fleet_run :: "('w, 'k) lock_server \<Rightarrow> fleet_op list \<Rightarrow> 'k lease list \<times> 'w \<Rightarrow> 'k lease list \<times> 'w" where
  "fleet_run srv [] s = s"
| "fleet_run srv (a # acts) s = fleet_run srv acts (fleet_step srv a s)"

definition holds_lease :: "'k lease \<Rightarrow> bool" where
  "holds_lease l \<longleftrightarrow> ls_conn l \<noteq> None"

subsection \<open>What the lease relies on of the server\<close>

text \<open>\<open>held w key\<close> is the session that holds a lock with the number of its holds, \<open>live w\<close> the open sessions.\<close>

definition lock_free :: "('k \<times> nat) option \<Rightarrow> 'k \<Rightarrow> bool" where
  "lock_free h conn \<longleftrightarrow> (case h of None \<Rightarrow> True | Some (c, n) \<Rightarrow> c = conn)"

definition advisory_laws ::
  "('w, 'k) lock_server \<Rightarrow> ('w \<Rightarrow> int \<Rightarrow> ('k \<times> nat) option) \<Rightarrow> ('w \<Rightarrow> 'k set) \<Rightarrow> bool" where
  "advisory_laws srv held live \<longleftrightarrow>
     (\<forall>w key conn n. held w key = Some (conn, n) \<longrightarrow> conn \<in> live w)
   \<and> (\<forall>w x w'. sv_connect srv w = (Inl x, w') \<longrightarrow> held w' = held w \<and> live w' = live w)
   \<and> (\<forall>w conn w'. sv_connect srv w = (Inr conn, w') \<longrightarrow> conn \<notin> live w \<and> live w' = insert conn (live w) \<and> held w' = held w)
   \<and> (\<forall>w conn key got w'. conn \<in> live w \<longrightarrow> sv_try_lock srv conn key w = (got, w') \<longrightarrow> live w' = live w \<and> got = Inr (lock_free (held w key) conn)
        \<and> held w' = (if lock_free (held w key) conn then (held w)(key \<mapsto> (conn, case held w key of None \<Rightarrow> 1 | Some (c, n) \<Rightarrow> n + 1)) else held w))
   \<and> (\<forall>w conn key. conn \<in> live w \<longrightarrow> fst (sv_unlock srv conn key w) = Inr ()
        \<and> live (snd (sv_unlock srv conn key w)) = live w \<and> held (snd (sv_unlock srv conn key w)) =
        (case held w key of
           None \<Rightarrow> held w
         | Some (c, n) \<Rightarrow> if c \<noteq> conn then held w
                           else if n \<le> 1 then (held w)(key := None) else (held w)(key \<mapsto> (c, n - 1))))
   \<and> (\<forall>w conn. live (sv_close srv conn w) = live w - {conn} \<and> held (sv_close srv conn w) =
        (\<lambda>key. case held w key of None \<Rightarrow> None | Some (c, n) \<Rightarrow> if c = conn then None else Some (c, n)))"

lemma advisory_lawsD:
  assumes "advisory_laws srv held live"
  shows "\<forall>w key conn n. held w key = Some (conn, n) \<longrightarrow> conn \<in> live w"
    and "\<forall>w x w'. sv_connect srv w = (Inl x, w') \<longrightarrow> held w' = held w \<and> live w' = live w"
    and "\<forall>w conn w'. sv_connect srv w = (Inr conn, w') \<longrightarrow> conn \<notin> live w \<and> live w' = insert conn (live w) \<and> held w' = held w"
    and "\<forall>w conn key got w'. conn \<in> live w \<longrightarrow> sv_try_lock srv conn key w = (got, w') \<longrightarrow> live w' = live w \<and> got = Inr (lock_free (held w key) conn)
        \<and> held w' = (if lock_free (held w key) conn then (held w)(key \<mapsto> (conn, case held w key of None \<Rightarrow> 1 | Some (c, n) \<Rightarrow> n + 1)) else held w)"
    and "\<forall>w conn key. conn \<in> live w \<longrightarrow> fst (sv_unlock srv conn key w) = Inr ()
        \<and> live (snd (sv_unlock srv conn key w)) = live w \<and> held (snd (sv_unlock srv conn key w)) =
        (case held w key of
           None \<Rightarrow> held w
         | Some (c, n) \<Rightarrow> if c \<noteq> conn then held w
                           else if n \<le> 1 then (held w)(key := None) else (held w)(key \<mapsto> (c, n - 1)))"
    and "\<forall>w conn. live (sv_close srv conn w) = live w - {conn} \<and> held (sv_close srv conn w) =
        (\<lambda>key. case held w key of None \<Rightarrow> None | Some (c, n) \<Rightarrow> if c = conn then None else Some (c, n))"
  using assms unfolding advisory_laws_def by - (elim conjE, assumption)+

lemma try_lock_result:
  assumes "advisory_laws srv held live" "conn \<in> live w"
  obtains w' where "sv_try_lock srv conn key w = (Inr (lock_free (held w key) conn), w')"
proof -
  obtain got w' where "sv_try_lock srv conn key w = (got, w')" by fastforce
  with advisory_lawsD(4) [OF assms(1), rule_format, OF assms(2) this] that show thesis by simp
qed

text \<open>Every lease that holds has its own live session, which has the lock once.\<close>

definition fleet_ok :: "('w \<Rightarrow> int \<Rightarrow> ('k \<times> nat) option) \<Rightarrow> 'k lease list \<times> 'w \<Rightarrow> bool" where
  "fleet_ok held s \<longleftrightarrow> (\<forall>i conn. i < length (fst s) \<longrightarrow> ls_conn (fst s ! i) = Some conn \<longrightarrow>
      held (snd s) (ls_key (fst s ! i)) = Some (conn, 1)
      \<and> (\<forall>j. j < length (fst s) \<longrightarrow> ls_conn (fst s ! j) = Some conn \<longrightarrow> j = i))"

lemma acquire_effect:
  assumes laws: "advisory_laws srv held live" and acq: "lease_acquire srv l w = (r, l', w')"
  shows "(\<exists>x. r = Inl x) \<and> l' = l \<and> held w' = held w
       \<or> (\<exists>conn. r = Inr () \<and> l' = l\<lparr>ls_conn := Some conn\<rparr> \<and> conn \<notin> live w \<and> held w (ls_key l) = None
            \<and> held w' = (held w)(ls_key l \<mapsto> (conn, 1)))"
proof -
  obtain q w1 where q: "sv_connect srv w = (q, w1)" by fastforce
  show ?thesis
  proof (cases q)
    case (Inl x)
    then show ?thesis
      using acq q advisory_lawsD(2) [OF laws, rule_format, of w x w1] by (auto simp: lease_acquire_def)
  next
    case (Inr conn)
    have c: "conn \<notin> live w" "live w1 = insert conn (live w)" "held w1 = held w"
      using advisory_lawsD(3) [OF laws, rule_format, of w conn w1] q Inr by simp_all
    define got where "got = lock_free (held w (ls_key l)) conn"
    obtain w2 where g: "sv_try_lock srv conn (ls_key l) w1 = (Inr got, w2)"
      using try_lock_result [OF laws, of conn w1 "ls_key l"] c unfolding got_def by auto
    have t: "live w2 = live w1"
      "got \<longleftrightarrow> (case held w (ls_key l) of None \<Rightarrow> True | Some (c, n) \<Rightarrow> c = conn)"
      "held w2 = (if got then (held w)(ls_key l \<mapsto> (conn, case held w (ls_key l) of None \<Rightarrow> 1 | Some (c, n) \<Rightarrow> n + 1)) else held w)"
      using advisory_lawsD(4) [OF laws, rule_format, of conn w1 "ls_key l" "Inr got" w2] g c by (simp_all add: got_def lock_free_def)
    have other: "held w key = Some (k, n) \<Longrightarrow> k \<noteq> conn" for key k n
      using advisory_lawsD(1) [OF laws] c(1) by blast
    show ?thesis
    proof (cases got)
      case True
      then have "held w (ls_key l) = None" using t(2) other by (auto split: option.splits)
      then show ?thesis using acq q g c t True by (auto simp: lease_acquire_def Inr)
    next
      case False
      have "held (sv_close srv conn w2) = held w"
        using advisory_lawsD(6) [OF laws] t(3) False other by (auto simp: fun_eq_iff split: option.splits)
      then show ?thesis using acq q g False by (auto simp: lease_acquire_def Inr)
    qed
  qed
qed

text \<open>With a session at hand the acquire succeeds exactly when nobody has the lock.\<close>

lemma acquire_result:
  assumes laws: "advisory_laws srv held live" and acq: "lease_acquire srv l w = (r, l', w')"
    and c: "sv_connect srv w = (Inr conn, w1)"
  shows "r = (if held w (ls_key l) = None then Inr () else Inl (Engine (AlreadyRunning (ls_key l))))"
proof -
  have w1: "conn \<notin> live w" "live w1 = insert conn (live w)" "held w1 = held w"
    using advisory_lawsD(3) [OF laws, rule_format, OF c] by simp_all
  define got where "got = lock_free (held w (ls_key l)) conn"
  obtain w2 where g: "sv_try_lock srv conn (ls_key l) w1 = (Inr got, w2)"
    using try_lock_result [OF laws, of conn w1 "ls_key l"] w1 unfolding got_def by auto
  have "got \<longleftrightarrow> (case held w (ls_key l) of None \<Rightarrow> True | Some (c, n) \<Rightarrow> c = conn)"
    by (simp add: got_def lock_free_def)
  moreover have "held w (ls_key l) = Some (k, n) \<Longrightarrow> k \<noteq> conn" for k n
    using advisory_lawsD(1) [OF laws] w1(1) by blast
  ultimately have "got \<longleftrightarrow> held w (ls_key l) = None" by (auto split: option.splits)
  with acq c g show ?thesis by (auto simp: lease_acquire_def)
qed

lemma closed_session:
  assumes "advisory_laws srv held live" "held w key = Some (conn, 1)" "w' = sv_close srv conn w \<or> w' = sv_close srv conn (snd (sv_unlock srv conn key w))"
  shows "held w' k = Some (c, n) \<longleftrightarrow> held w k = Some (c, n) \<and> c \<noteq> conn"
proof -
  have "conn \<in> live w" using advisory_lawsD(1) [OF assms(1)] assms(2) by blast
  then have u: "held (snd (sv_unlock srv conn key w)) = (held w)(key := None)"
    using advisory_lawsD(5) [OF assms(1), rule_format, of conn w key] assms(2) by simp
  have c: "held (sv_close srv conn v) k = (case held v k of None \<Rightarrow> None | Some (c, n) \<Rightarrow> if c = conn then None else Some (c, n))" for v
    using advisory_lawsD(6) [OF assms(1), rule_format, of conn v] by simp
  from assms(3) show ?thesis
  proof
    assume "w' = sv_close srv conn w"
    with c [of w] show ?thesis by (auto split: option.splits if_splits)
  next
    assume "w' = sv_close srv conn (snd (sv_unlock srv conn key w))"
    with c [of "snd (sv_unlock srv conn key w)"] u assms(2) show ?thesis by (auto split: option.splits if_splits)
  qed
qed

lemma fleet_step_ok:
  assumes laws: "advisory_laws srv held live" and ok: "fleet_ok held (ls, w)"
  shows "fleet_ok held (fleet_step srv act (ls, w))"
proof -
  have live: "held w key = Some (conn, n) \<Longrightarrow> conn \<in> live w" for key conn n
    using advisory_lawsD(1) [OF laws] by blast
  have held: "held w (ls_key (ls ! i)) = Some (conn, 1)" if "i < length ls" "ls_conn (ls ! i) = Some conn" for i conn
    using ok that by (simp add: fleet_ok_def)
  have inj: "j = i" if "i < length ls" "j < length ls" "ls_conn (ls ! i) = Some conn" "ls_conn (ls ! j) = Some conn" for i j conn
    using ok that by (auto simp: fleet_ok_def)
  have gone: "fleet_ok held (ls[i := l], w')"
    if i: "i < length ls" "ls_conn (ls ! i) = Some conn" and l: "ls_conn l = None"
      and w': "w' = sv_close srv conn w \<or> w' = sv_close srv conn (snd (sv_unlock srv conn (ls_key (ls ! i)) w))" for i l conn w'
  proof -
    note h = closed_session [OF laws held [OF i] w']
    show ?thesis
      unfolding fleet_ok_def
    proof (intro allI impI conjI)
      fix j c assume j: "j < length (fst (ls[i := l], w'))" "ls_conn (fst (ls[i := l], w') ! j) = Some c"
      then have ne: "j \<noteq> i" and lj: "j < length ls" "ls_conn (ls ! j) = Some c" using l i(1) by (cases "j = i"; simp)+
      have "c \<noteq> conn" using inj [OF i(1) lj(1) i(2)] lj(2) ne by blast
      then show "held (snd (ls[i := l], w')) (ls_key (fst (ls[i := l], w') ! j)) = Some (c, 1)"
        using h held [OF lj] ne by (simp add: nth_list_update)
      fix m assume "m < length (fst (ls[i := l], w'))" "ls_conn (fst (ls[i := l], w') ! m) = Some c"
      then have "m < length ls" "ls_conn (ls ! m) = Some c" using l i(1) by (cases "m = i"; simp)+
      with inj lj show "m = j" by blast
    qed
  qed
  show ?thesis
  proof (cases act)
    case (Acquire i)
    show ?thesis
    proof (cases "i < length ls")
      case True
      obtain r l w' where acq: "lease_acquire srv (ls ! i) w = (r, l, w')" by (metis prod_cases3)
      from acquire_effect [OF laws acq] show ?thesis
      proof (elim disjE exE conjE)
        fix x assume "r = Inl x" "l = ls ! i" "held w' = held w"
        then show ?thesis using ok acq True by (simp add: Acquire fleet_ok_def)
      next
        fix conn assume a: "l = (ls ! i)\<lparr>ls_conn := Some conn\<rparr>" "conn \<notin> live w" "held w (ls_key (ls ! i)) = None"
          "held w' = (held w)(ls_key (ls ! i) \<mapsto> (conn, 1))"
        have other: "c \<noteq> conn \<and> ls_key (ls ! j) \<noteq> ls_key (ls ! i)" if "j < length ls" "ls_conn (ls ! j) = Some c" for j c
          using held [OF that] live a(2,3) by auto
        then have free: "j < length ls \<Longrightarrow> ls_conn (ls ! j) \<noteq> Some conn"
          "j < length ls \<Longrightarrow> ls_key (ls ! j) = ls_key (ls ! i) \<Longrightarrow> ls_conn (ls ! j) = None" for j
          by (blast, metis option.exhaust)
        show ?thesis
          using True acq a(1,4) held inj free
          by (auto simp: Acquire fleet_ok_def nth_list_update split: if_splits)
      qed
    qed (use ok in \<open>simp add: Acquire\<close>)
  next
    case (Release i)
    show ?thesis
    proof (cases "i < length ls \<and> ls_conn (ls ! i) \<noteq> None")
      case True
      then obtain conn where c: "i < length ls" "ls_conn (ls ! i) = Some conn" by blast
      have "fst (sv_unlock srv conn (ls_key (ls ! i)) w) = Inr ()"
        using advisory_lawsD(5) [OF laws, rule_format, of conn w "ls_key (ls ! i)"] live [OF held [OF c]] by simp
      then obtain w1 where "sv_unlock srv conn (ls_key (ls ! i)) w = (Inr (), w1)" by (metis prod.collapse)
      then show ?thesis using c gone [OF c, of "(ls ! i)\<lparr>ls_conn := None\<rparr>"] by (simp add: Release lease_release_def)
    qed (use ok in \<open>auto simp: Release lease_release_def list_update_id\<close>)
  next
    case (Die i)
    show ?thesis
    proof (cases "i < length ls \<and> ls_conn (ls ! i) \<noteq> None")
      case True
      then show ?thesis using gone [of i _ "new_lease (ls_key (ls ! i))"] by (auto simp: Die new_lease_def)
    next
      case False
      have "ls[i := new_lease (ls_key (ls ! i))] = ls" if "i < length ls" "ls_conn (ls ! i) = None"
        using that by (intro list_update_same_conv [THEN iffD2]) (simp_all add: new_lease_def)
      with False ok show ?thesis by (auto simp: Die)
    qed
  qed
qed

lemma fleet_run_ok:
  assumes "advisory_laws srv held live" "fleet_ok held s"
  shows "fleet_ok held (fleet_run srv acts s)"
  using assms(2)
proof (induction acts arbitrary: s)
  case (Cons a acts)
  from fleet_step_ok [OF assms(1), of "fst s" "snd s" a] Cons show ?case by simp
qed simp

text \<open>A lease whose session the server closed on its own still believes it holds: it never looks again.\<close>

lemma lost_session_unnoticed:
  assumes "advisory_laws srv held live" "held w key = Some (conn, 1)"
    and "lease_acquire srv \<lparr>ls_key = key, ls_conn = None\<rparr> (sv_close srv conn w) = (r, l, w')"
    and "\<exists>other w1. sv_connect srv (sv_close srv conn w) = (Inr other, w1)"
  shows "r = Inr () \<and> holds_lease l \<and> holds_lease \<lparr>ls_key = key, ls_conn = Some conn\<rparr>"
proof -
  obtain other w1 where c: "sv_connect srv (sv_close srv conn w) = (Inr other, w1)" using assms(4) by blast
  have free: "held (sv_close srv conn w) key = None"
    using advisory_lawsD(6) [OF assms(1), rule_format, of conn w] assms(2) by simp
  have w1: "held w1 = held (sv_close srv conn w)" "live w1 = insert other (live (sv_close srv conn w))"
    using advisory_lawsD(3) [OF assms(1), rule_format, OF c] by simp_all
  obtain w2 where g: "sv_try_lock srv other key w1 = (Inr True, w2)"
    using try_lock_result [OF assms(1), of other w1 key] w1 free by (auto simp: lock_free_def)
  with assms(3) c g show ?thesis by (auto simp: lease_acquire_def holds_lease_def)
qed

subsection \<open>Properties\<close>

text \<open>C32: Two daemons never hold the lease at once. Whatever a fleet on one database does, acquiring, releasing and
  dying in any order, two leases of one key that both hold are the same lease. An acquire that gets a
  session succeeds exactly when no session has the lock and raises \<open>AlreadyRunning\<close> otherwise, and an
  acquire that raises leaves the lease and all locks as they were.\<close>

theorem single_owner:
  assumes "advisory_laws srv held live" "list_all (\<lambda>l. ls_conn l = None) ls" "fleet_run srv acts (ls, w) = (ls', w')"
    and "lease_acquire srv (ls' ! i) w' = (r, l, w'')" "sv_connect srv w' = (Inr conn, w1)"
  shows "(j < length ls' \<and> k < length ls' \<and> ls_key (ls' ! j) = ls_key (ls' ! k) \<and> holds_lease (ls' ! j) \<and> holds_lease (ls' ! k) \<longrightarrow> j = k)
    \<and> r = (if held w' (ls_key (ls' ! i)) = None then Inr () else Inl (Engine (AlreadyRunning (ls_key (ls' ! i)))))
    \<and> (r \<noteq> Inr () \<longrightarrow> l = ls' ! i \<and> held w'' = held w')"
proof -
  have start: "fleet_ok held (ls, w)" using assms(2) by (auto simp: fleet_ok_def list_all_length)
  have ok: "fleet_ok held (ls', w')" using fleet_run_ok [OF assms(1) start, of acts] assms(3) by simp
  have one: "j = k" if a: "j < length ls'" "k < length ls'" "ls_key (ls' ! j) = ls_key (ls' ! k)" "holds_lease (ls' ! j)" "holds_lease (ls' ! k)"
  proof -
    obtain c d where c: "ls_conn (ls' ! j) = Some c" "ls_conn (ls' ! k) = Some d" using a(4,5) by (auto simp: holds_lease_def)
    then have "held w' (ls_key (ls' ! j)) = Some (c, 1)" "held w' (ls_key (ls' ! k)) = Some (d, 1)"
      using ok a(1,2) by (simp_all add: fleet_ok_def)
    then have "d = c" using a(3) by simp
    with ok a(1,2) c show "j = k" by (auto simp: fleet_ok_def)
  qed
  from acquire_effect [OF assms(1,4)] one acquire_result [OF assms(1,4,5)] show ?thesis by auto
qed

text \<open>A server whose state is the table of locks and the open sessions; a new session has a new number.\<close>

type_synonym demo_locks = "(int, nat \<times> nat) dict \<times> nat list"

definition demo_held :: "demo_locks \<Rightarrow> int \<Rightarrow> (nat \<times> nat) option" where
  "demo_held w key = (case map_of (fst w) key of None \<Rightarrow> None | Some (c, n) \<Rightarrow> if c \<in> set (snd w) then Some (c, n) else None)"

definition demo_fresh :: "demo_locks \<Rightarrow> nat" where
  "demo_fresh w = Suc (sum_list (snd w @ map (\<lambda>(k, c, n). c) (fst w)))"

definition demo_server :: "(demo_locks, nat) lock_server" where
  "demo_server =
     \<lparr>sv_connect = (\<lambda>w. (Inr (demo_fresh w), (fst w, demo_fresh w # snd w))),
      sv_try_lock = (\<lambda>conn key w.
        case demo_held w key of
          None \<Rightarrow> (Inr True, (AList.update key (conn, 1) (fst w), snd w))
        | Some (c, n) \<Rightarrow> if c = conn then (Inr True, (AList.update key (conn, n + 1) (fst w), snd w)) else (Inr False, w)),
      sv_unlock = (\<lambda>conn key w.
        case demo_held w key of
          None \<Rightarrow> (Inr (), w)
        | Some (c, n) \<Rightarrow> if c \<noteq> conn then (Inr (), w)
                        else if n \<le> 1 then (Inr (), (AList.delete key (fst w), snd w))
                        else (Inr (), (AList.update key (c, n - 1) (fst w), snd w))),
      sv_close = (\<lambda>conn w. (fst w, removeAll conn (snd w)))\<rparr>"

lemma demo_fresh_new: "c \<in> set (snd w) \<Longrightarrow> c < demo_fresh w" "(k, c, n) \<in> set (fst w) \<Longrightarrow> c < demo_fresh w"
proof -
  have "x \<in> set xs \<Longrightarrow> x < Suc (sum_list xs)" for x :: nat and xs
    using member_le_sum_list [of x xs] by simp
  from this [of _ "snd w @ map (\<lambda>(k, c, n). c) (fst w)"]
  show "c \<in> set (snd w) \<Longrightarrow> c < demo_fresh w" "(k, c, n) \<in> set (fst w) \<Longrightarrow> c < demo_fresh w"
    unfolding demo_fresh_def by (simp, force)
qed

lemma demo_held_update: "c \<in> set l \<Longrightarrow> demo_held (AList.update key (c, n) t, l) = (demo_held (t, l))(key \<mapsto> (c, n))"
  by (simp add: fun_eq_iff demo_held_def update_conv' split: option.split)

lemma demo_held_delete: "demo_held (AList.delete key t, l) = (demo_held (t, l))(key := None)"
  by (simp add: fun_eq_iff demo_held_def delete_conv' split: option.split)

lemma demo_advisory_laws: "advisory_laws demo_server demo_held (\<lambda>w. set (snd w))"
  unfolding advisory_laws_def
proof (intro conjI allI impI, goal_cases)
  case (4 w conn w')
  then show ?case using demo_fresh_new(1) [of conn w] by (auto simp: demo_server_def)
next
  case (6 w conn w')
  have "map_of (fst w) key = Some (c, n) \<Longrightarrow> c \<noteq> demo_fresh w" for key c n
    using demo_fresh_new(2) [of key c n w] map_of_SomeD by fastforce
  with 6 show ?case by (auto simp: demo_server_def demo_held_def fun_eq_iff split: option.splits)
next
  case (9 w conn key got w')
  show ?case
  proof (cases "demo_held w key")
    case None
    with 9 have "got = Inr True" "w' = (AList.update key (conn, 1) (fst w), snd w)" by (simp_all add: demo_server_def)
    with 9(1) None show ?thesis by (simp add: demo_held_update lock_free_def)
  next
    case (Some p)
    then obtain c n where p: "demo_held w key = Some (c, n)" by (cases p) simp
    show ?thesis
    proof (cases "c = conn")
      case True
      with 9 p have "got = Inr True" "w' = (AList.update key (conn, n + 1) (fst w), snd w)" by (simp_all add: demo_server_def)
      with 9(1) p True show ?thesis by (simp add: demo_held_update lock_free_def)
    next
      case False
      with 9 p show ?thesis by (simp add: demo_server_def lock_free_def)
    qed
  qed
next
  case (10 w conn key)
  then show ?case by (simp add: demo_server_def split: option.split)
next
  case (11 w conn key)
  then show ?case by (simp add: demo_server_def split: option.split)
next
  case (12 w conn key)
  show ?case
  proof (cases "demo_held w key")
    case (Some p)
    then obtain c n where "demo_held w key = Some (c, n)" by (cases p) simp
    moreover from this have "c \<in> set (snd w)" by (auto simp: demo_held_def split: option.splits if_splits)
    ultimately show ?thesis by (auto simp: demo_server_def demo_held_update demo_held_delete)
  qed (simp add: demo_server_def)
next
  case (14 w conn)
  then show ?case by (auto simp: demo_server_def demo_held_def fun_eq_iff split: option.split)
qed (auto simp: demo_server_def demo_held_def lock_free_def split: option.splits if_splits)

theorem single_owner_witness:
  "\<exists>l w. lease_acquire demo_server (fst (fleet_run demo_server [Acquire 0] ([new_lease 7, new_lease 7], ([], []))) ! 1)
       (snd (fleet_run demo_server [Acquire 0] ([new_lease 7, new_lease 7], ([], [])))) = (Inl (Engine (AlreadyRunning 7)), l, w)
     \<and> holds_lease (fst (fleet_run demo_server [Acquire 0] ([new_lease 7, new_lease 7], ([], []))) ! 0)"
proof -
  obtain ls' w' where run: "fleet_run demo_server [Acquire 0] ([new_lease 7, new_lease 7], ([], [])) = (ls', w')" using prod.exhaust by blast
  then have s: "ls' ! 1 = new_lease 7" "holds_lease (ls' ! 0)" "demo_held w' 7 \<noteq> None"
    by (auto simp: lease_acquire_def demo_server_def demo_held_def new_lease_def holds_lease_def)
  obtain r l w2 where acq: "lease_acquire demo_server (ls' ! 1) w' = (r, l, w2)" by (metis prod_cases3)
  have con: "sv_connect demo_server w' = (Inr (demo_fresh w'), (fst w', demo_fresh w' # snd w'))" by (simp add: demo_server_def)
  have "list_all (\<lambda>l. ls_conn l = None) [new_lease 7, new_lease 7]" by (simp add: new_lease_def)
  from single_owner [OF demo_advisory_laws this run acq con] s have "r = Inl (Engine (AlreadyRunning 7))"
    by (simp add: new_lease_def)
  with acq run s(2) show ?thesis by simp
qed

end
