(* ===== verification/Engine.thy ===== *)
theory Engine
  imports Daemon_Lease Source_Manager Engine_Config Payments_Source Rating_Source Daemon_Ops Secret_Box
begin

text \<open>
  The engine (\<open>engine.py\<close>): what it wires from its configuration, the runtime operations on sources and
  consumers, one drain, the reconcile loop, and \<open>run\<close> with its lease. A source is its name and cadence
  for the manager and a poll for a drain; the client objects and the task group are arguments.
\<close>

subsection \<open>Wiring\<close>

datatype source_kind =
    CategoryPoll category
  | PaymentsPoll string
  | NotificationsPoll
  | ConversationsPoll
  | GuaranteePoll
  | RatingPoll
  | RatingRotation nat
  | ExtraSource string

fun kind_name :: "source_kind \<Rightarrow> string" where
  "kind_name (CategoryPoll c) = ''source:'' @ c"
| "kind_name (PaymentsPoll token) = ''source:payments:'' @ token"
| "kind_name NotificationsPoll = ''source:notifications''"
| "kind_name ConversationsPoll = ''source:conversations''"
| "kind_name GuaranteePoll = ''source:guarantee''"
| "kind_name RatingPoll = ''source:rating''"
| "kind_name (RatingRotation n) = ''rating-rotation''"
| "kind_name (ExtraSource name) = name"

type_synonym wired_source = "source_kind \<times> cadence"

definition token_id :: "engine_config \<Rightarrow> string" where
  "token_id cfg = (case ec_tokens cfg of [] \<Rightarrow> ''default'' | token # _ \<Rightarrow> token)"

definition build_event_sources :: "engine_config \<Rightarrow> wired_source list" where
  "build_event_sources cfg =
     [(PaymentsPoll (token_id cfg), source_cadence cfg (ec_payments_cadence cfg)),
      (NotificationsPoll, source_cadence cfg (ec_notif_cadence cfg)),
      (ConversationsPoll, source_cadence cfg (ec_conversations_cadence cfg)),
      (GuaranteePoll, source_cadence cfg (ec_guarantee_check_interval cfg))]"

text \<open>The rating sources of \<open>clients\<close> accounts: one alone, or a rotation over all.\<close>

definition build_rating_source :: "engine_config \<Rightarrow> nat \<Rightarrow> wired_source result" where
  "build_rating_source cfg clients =
     (if clients = 1 then Inr (RatingPoll, source_cadence cfg (ec_rating_cadence cfg))
      else bind_result (new_rotation (replicate clients (\<lambda>s. (Inr 0, s :: unit))) (ec_rating_accounts_per_tick cfg)) (\<lambda>_.
             Inr (RatingRotation clients, source_cadence cfg (ec_rating_cadence cfg))))"

definition guarantee_seeder_name :: string where
  "guarantee_seeder_name = ''guarantee_seeder''"

text \<open>What the constructor leaves behind; the bus's bound on concurrency is None for 0.\<close>

record engine_wiring =
  ew_manager :: manager
  ew_sources :: "wired_source list"
  ew_consumers :: "string list"
  ew_bus :: bus_config
  ew_bus_concurrency :: "int option"
  ew_confirm_cap :: int
  ew_reconciler :: bool

definition source_refs :: "wired_source list \<Rightarrow> source_ref list" where
  "source_refs srcs =
     map (\<lambda>(i, k, c). \<lparr>sr_name = kind_name k, sr_id = i, sr_cadence = c\<rparr>) (enumerate 0 srcs)"

definition wired_bus :: "engine_config \<Rightarrow> bus_config" where
  "wired_bus cfg = default_bus_config\<lparr>bc_max_attempts := nat (ec_max_handle_attempts cfg),
     bc_backoff_base := ec_catchup_backoff_base cfg, bc_backoff_max := ec_catchup_backoff_max cfg\<rparr>"

definition new_engine ::
  "engine_config \<Rightarrow> string list \<Rightarrow> nat \<Rightarrow> wired_source list \<Rightarrow> bool \<Rightarrow> bool \<Rightarrow> engine_wiring result" where
  "new_engine cfg consumers rating_clients extra_sources has_repo has_box =
     bind_result (if rating_clients = 0 then Inr []
                  else bind_result (build_rating_source cfg rating_clients) (\<lambda>s. Inr [s])) (\<lambda>rating.
     let srcs = map (\<lambda>c. (CategoryPoll c, source_cadence cfg (ec_default_cadence cfg))) (ec_categories cfg)
                @ build_event_sources cfg @ rating @ extra_sources in
     bind_result (new_manager (source_refs srcs)) (\<lambda>m.
       Inr \<lparr>ew_manager = m, ew_sources = srcs, ew_consumers = consumers @ [guarantee_seeder_name],
            ew_bus = wired_bus cfg,
            ew_bus_concurrency = (if ec_bus_max_concurrent_consumers cfg = 0 then None else Some (ec_bus_max_concurrent_consumers cfg)),
            ew_confirm_cap = confirm_cap cfg, ew_reconciler = (has_repo \<and> has_box)\<rparr>))"

text \<open>
  \<open>build\<close>, the daemon's engine: the box needs its key, the API client is made from the tokens and the base
  address (an argument, it may raise); the engine then has a repository, a box and the lease of the configured key,
  but no rating clients. \<open>build_memory\<close> has neither repository nor box.
\<close>

definition build_engine ::
  "(string list \<Rightarrow> string option \<Rightarrow> unit result) \<Rightarrow> engine_config \<Rightarrow> string list \<Rightarrow> wired_source list
     \<Rightarrow> box_error + (secret_box \<times> 'k lease \<times> engine_wiring) result" where
  "build_engine make_client cfg consumers extra_sources =
     (case new_box (ec_token_enc_key cfg) [] of
        Inl e \<Rightarrow> Inl e
      | Inr box \<Rightarrow> Inr (
          bind_result (make_client (ec_tokens cfg) (ec_lzt_api_base_url cfg)) (\<lambda>_.
          bind_result (new_engine cfg consumers 0 extra_sources True True) (\<lambda>w.
            Inr (box, new_lease (ec_advisory_lock_key cfg), w)))))"

definition build_memory :: "engine_config \<Rightarrow> string list \<Rightarrow> nat \<Rightarrow> wired_source list \<Rightarrow> engine_wiring result" where
  "build_memory cfg consumers rating_clients extra_sources = new_engine cfg consumers rating_clients extra_sources False False"

subsection \<open>Runtime operations\<close>

text \<open>\<open>remove_module\<close> raises when no consumer has the name; the cursor stays.\<close>

definition add_module :: "'w consumer \<Rightarrow> 'w consumer list \<Rightarrow> 'w consumer list" where
  "add_module con cons = register con cons"

definition remove_module :: "string \<Rightarrow> 'w consumer list \<Rightarrow> 'w consumer list result" where
  "remove_module name cons =
     (case unregister name cons of (found, rest) \<Rightarrow> if found then Inr rest else Inl (Engine (ConsumerNotFound name)))"

subsection \<open>One drain\<close>

fun poll_all :: "('s \<Rightarrow> int result \<times> 's) list \<Rightarrow> 's \<Rightarrow> int result \<times> 's" where
  "poll_all [] s = (Inr 0, s)"
| "poll_all (poll # polls) s =
     (case poll s of
        (Inl x, s1) \<Rightarrow> (Inl x, s1)
      | (Inr n, s1) \<Rightarrow>
          (case poll_all polls s1 of
             (Inl x, s2) \<Rightarrow> (Inl x, s2)
           | (Inr m, s2) \<Rightarrow> (Inr (n + m), s2)))"

text \<open>The rest of the engine's state a drain works on; \<open>delivery\<close> is the webhook delivery's pump, if there is one.\<close>

record ('l, 'c, 'e, 'd, 'w) drain_state =
  ds_stores :: "('l, 'c, 'e) source_state"
  ds_dlq :: 'd
  ds_world :: 'w
  ds_waits :: "rat list"

definition drain_once ::
  "bus_config \<Rightarrow> ('l, 'c, 'd) bus_ops \<Rightarrow> (('l, 'c, 'e) source_state \<Rightarrow> int result \<times> ('l, 'c, 'e) source_state) list
     \<Rightarrow> 'w consumer list
     \<Rightarrow> (('l, 'c, 'e, 'd, 'w) drain_state \<Rightarrow> unit result \<times> ('l, 'c, 'e, 'd, 'w) drain_state) option
     \<Rightarrow> ('l, 'c, 'e, 'd, 'w) drain_state \<Rightarrow> int result \<times> ('l, 'c, 'e, 'd, 'w) drain_state" where
  "drain_once cfg ops polls cons delivery s =
     (case poll_all polls (ds_stores s) of
        (Inl x, t) \<Rightarrow> (Inl x, s\<lparr>ds_stores := t\<rparr>)
      | (Inr emitted, t) \<Rightarrow>
          (case pump_once cfg ops (ss_log t) cons
                  \<lparr>bs_cursors = ss_cursors t, bs_dlq = ds_dlq s, bs_world = ds_world s, bs_waits = ds_waits s\<rparr> of
             (r, b) \<Rightarrow>
               (let s1 = \<lparr>ds_stores = t\<lparr>ss_cursors := bs_cursors b\<rparr>, ds_dlq = bs_dlq b, ds_world = bs_world b,
                          ds_waits = bs_waits b\<rparr> in
                case r of
                  Inl x \<Rightarrow> (Inl x, s1)
                | Inr _ \<Rightarrow>
                    (case delivery of
                       None \<Rightarrow> (Inr emitted, s1)
                     | Some pump \<Rightarrow>
                         (case pump s1 of (Inl x, s2) \<Rightarrow> (Inl x, s2) | (Inr _, s2) \<Rightarrow> (Inr emitted, s2))))))"

subsection \<open>The reconcile loop and the run\<close>

text \<open>\<open>n\<close> rounds of \<open>_reconcile_loop\<close>: an exception of a round is swallowed, then it waits.\<close>

fun reconcile_loop :: "('s \<Rightarrow> unit result \<times> 's) \<Rightarrow> ('s \<Rightarrow> 's) \<Rightarrow> nat \<Rightarrow> 's \<Rightarrow> 's" where
  "reconcile_loop rec wait 0 s = s"
| "reconcile_loop rec wait (Suc n) s = reconcile_loop rec wait n (wait (snd (rec s)))"

text \<open>
  \<open>run\<close>: the lease, then the seeding of tokens (if the engine has a repository and a box) and the task group, then
  in any case the release and, when that returns, the close of the client. An exception of the \<open>finally\<close> part replaces the
  one on its way. The tasks and the close act on a world next to the lock server's.
\<close>

definition engine_run ::
  "('k, 's) lock_server \<Rightarrow> ('w \<Rightarrow> unit result \<times> 'w) option \<Rightarrow> ('w \<Rightarrow> unit result \<times> 'w) \<Rightarrow> ('w \<Rightarrow> unit result \<times> 'w)
     \<Rightarrow> 's lease \<Rightarrow> 'k \<Rightarrow> 'w \<Rightarrow> unit result \<times> 's lease \<times> 'k \<times> 'w" where
  "engine_run srv seed tasks close l k w =
     (case lease_acquire srv l k of
        (Inl x, l1, k1) \<Rightarrow> (Inl x, l1, k1, w)
      | (Inr _, l1, k1) \<Rightarrow>
          (let (r, w1) = (case seed of
                            None \<Rightarrow> tasks w
                          | Some seed \<Rightarrow> (case seed w of (Inl x, w1) \<Rightarrow> (Inl x, w1) | (Inr _, w1) \<Rightarrow> tasks w1));
               (rel, l2, k2) = lease_release srv l1 k1
           in case rel of
                Inl x \<Rightarrow> (Inl x, l2, k2, w1)
              | Inr _ \<Rightarrow>
                  (case close w1 of
                     (Inl x, w2) \<Rightarrow> (Inl x, l2, k2, w2)
                   | (Inr _, w2) \<Rightarrow> (r, l2, k2, w2))))"

text \<open>The rounds go on whatever a round raised.\<close>

lemma reconcile_loop_rounds: "reconcile_loop rec wait n s = ((\<lambda>s. wait (snd (rec s))) ^^ n) s"
  by (induction n arbitrary: s) (simp_all add: funpow_Suc_right del: funpow.simps(2))

subsection \<open>Facts about the wiring\<close>

lemma register_all:
  "distinct (dict_keys (sm_sources m) @ map sr_name srcs) \<Longrightarrow>
     \<exists>m'. register_sources srcs m = Inr m' \<and> sm_sources m' = sm_sources m @ map (\<lambda>s. (sr_name s, s)) srcs"
proof (induction srcs arbitrary: m)
  case (Cons s srcs)
  let ?m = "m\<lparr>sm_sources := AList.update (sr_name s) s (sm_sources m), sm_starts := (sm_starts m)(sr_name s := 0)\<rparr>"
  have new: "sr_name s \<notin> set (dict_keys (sm_sources m))" using Cons.prems by auto
  then have up: "AList.update (sr_name s) s (sm_sources m) = sm_sources m @ [(sr_name s, s)]" by (rule update_absent)
  have "distinct (dict_keys (sm_sources ?m) @ map sr_name srcs)" using Cons.prems by (simp add: up)
  from Cons.IH [OF this] obtain m' where "register_sources srcs ?m = Inr m'"
    "sm_sources m' = sm_sources ?m @ map (\<lambda>s. (sr_name s, s)) srcs" by blast
  moreover have "register_source s m = Inr ?m" using new by (simp only: register_source_def if_False)
  ultimately show ?case by (simp add: up)
qed simp

lemma register_clash:
  "\<not> distinct (map sr_name srcs) \<or> set (map sr_name srcs) \<inter> set (dict_keys (sm_sources m)) \<noteq> {} \<Longrightarrow>
     \<exists>n. register_sources srcs m = Inl (Engine (DuplicateSource n))"
proof (induction srcs arbitrary: m)
  case (Cons s srcs)
  show ?case
  proof (cases "sr_name s \<in> set (dict_keys (sm_sources m))")
    case True
    then show ?thesis by (simp add: register_source_def)
  next
    case False
    let ?m = "m\<lparr>sm_sources := AList.update (sr_name s) s (sm_sources m), sm_starts := (sm_starts m)(sr_name s := 0)\<rparr>"
    have up: "dict_keys (sm_sources ?m) = dict_keys (sm_sources m) @ [sr_name s]"
      using update_absent [OF False, of s] by simp
    have "\<not> distinct (map sr_name srcs) \<or> set (map sr_name srcs) \<inter> set (dict_keys (sm_sources ?m)) \<noteq> {}"
      unfolding up using Cons.prems False by auto
    from Cons.IH [OF this] have "\<exists>n. register_sources srcs ?m = Inl (Engine (DuplicateSource n))" .
    moreover have "register_source s m = Inr ?m" using False by (simp only: register_source_def if_False)
    ultimately show ?thesis by simp
  qed
qed simp

lemma source_refs_names: "map sr_name (source_refs srcs) = map (\<lambda>(k, c). kind_name k) srcs"
proof -
  have "map sr_name (map (\<lambda>(i, k, c). \<lparr>sr_name = kind_name k, sr_id = i, sr_cadence = c\<rparr>) (enumerate j srcs)) = map (\<lambda>(k, c). kind_name k) srcs" for j
    by (induction srcs arbitrary: j) auto
  then show ?thesis by (simp add: source_refs_def)
qed

lemma source_refs_cadences: "map sr_cadence (source_refs srcs) = map snd srcs"
proof -
  have "map sr_cadence (map (\<lambda>(i, k, c). \<lparr>sr_name = kind_name k, sr_id = i, sr_cadence = c\<rparr>) (enumerate j srcs)) = map snd srcs" for j
    by (induction srcs arbitrary: j) auto
  then show ?thesis by (simp add: source_refs_def)
qed

lemma new_manager_result:
  "if distinct (map sr_name srcs)
   then \<exists>m. new_manager srcs = Inr m \<and> sm_sources m = map (\<lambda>s. (sr_name s, s)) srcs
   else \<exists>n. new_manager srcs = Inl (Engine (DuplicateSource n))"
  using register_all [of "\<lparr>sm_sources = [], sm_tasks = [], sm_restart_attempts = [], sm_changed = False, sm_stop = False,
      sm_starts = (\<lambda>_. 0), sm_pc = Reconcile\<rparr>" srcs]
    register_clash [of srcs "\<lparr>sm_sources = [], sm_tasks = [], sm_restart_attempts = [], sm_changed = False, sm_stop = False,
      sm_starts = (\<lambda>_. 0), sm_pc = Reconcile\<rparr>"]
  by (simp add: new_manager_def)

lemma register_sources_tasks: "register_sources srcs m = Inr m' \<Longrightarrow> sm_tasks m' = sm_tasks m"
  by (induction srcs arbitrary: m) (auto simp: register_source_def bind_result_Inr_iff split: if_splits)

lemma new_manager_tasks: "new_manager srcs = Inr m \<Longrightarrow> sm_tasks m = []"
  unfolding new_manager_def by (drule register_sources_tasks) simp

text \<open>The sources a configuration asks for.\<close>

definition wanted_sources :: "engine_config \<Rightarrow> nat \<Rightarrow> wired_source list \<Rightarrow> wired_source list" where
  "wanted_sources cfg rating_clients extra_sources =
     map (\<lambda>c. (CategoryPoll c, source_cadence cfg (ec_default_cadence cfg))) (ec_categories cfg)
     @ build_event_sources cfg
     @ (if rating_clients = 0 then []
        else [(if rating_clients = 1 then RatingPoll else RatingRotation rating_clients, source_cadence cfg (ec_rating_cadence cfg))])
     @ extra_sources"

lemma build_rating_result:
  assumes "0 < n"
  shows "build_rating_source cfg n =
    (if n = 1 then Inr (RatingPoll, source_cadence cfg (ec_rating_cadence cfg))
     else if ec_rating_accounts_per_tick cfg \<le> 0 then Inl (Engine (InvalidAccountsPerTick (ec_rating_accounts_per_tick cfg)))
     else Inr (RatingRotation n, source_cadence cfg (ec_rating_cadence cfg)))"
  using assms by (simp add: build_rating_source_def new_rotation_def)

lemma new_engine_result:
  "new_engine cfg consumers n extra_sources has_repo has_box =
    (if 2 \<le> n \<and> ec_rating_accounts_per_tick cfg \<le> 0 then Inl (Engine (InvalidAccountsPerTick (ec_rating_accounts_per_tick cfg)))
     else bind_result (new_manager (source_refs (wanted_sources cfg n extra_sources))) (\<lambda>m.
       Inr \<lparr>ew_manager = m, ew_sources = wanted_sources cfg n extra_sources, ew_consumers = consumers @ [guarantee_seeder_name],
            ew_bus = wired_bus cfg,
            ew_bus_concurrency = (if ec_bus_max_concurrent_consumers cfg = 0 then None else Some (ec_bus_max_concurrent_consumers cfg)),
            ew_confirm_cap = confirm_cap cfg, ew_reconciler = (has_repo \<and> has_box)\<rparr>))"
proof -
  consider "n = 0" | "n = 1" | "2 \<le> n" by linarith
  then show ?thesis
    by cases (simp_all add: new_engine_def Let_def wanted_sources_def build_rating_result)
qed

subsection \<open>A drain over the SQL stores\<close>

text \<open>Every consumer whose pending events fit one page reaches the head of the log.\<close>

context bus_stores
begin

lemma pump_once_reaches:
  assumes "log_ok lg" "cursors_ok (bs_cursors s)" "dlq_ok (bs_dlq s)" "distinct (map con_name cons)"
    and "\<forall>e\<in>set (contents lg). parkable e"
    and "\<forall>con\<in>set cons. length (filter (\<lambda>e. last_seq (get_cursor (bs_cursors s) (con_name con)) < seq e) (contents lg)) \<le> bc_read_limit cfg"
  shows "\<exists>n s'. pump_once cfg ops lg cons s = (Inr n, s') \<and> cursors_ok (bs_cursors s') \<and> dlq_ok (bs_dlq s')
    \<and> (\<forall>con\<in>set cons. \<forall>e\<in>set (contents lg). seq e \<le> last_seq (get_cursor (bs_cursors s') (con_name con)))
    \<and> (\<forall>name. name \<notin> con_name ` set cons \<longrightarrow> get_cursor (bs_cursors s') name = get_cursor (bs_cursors s) name)"
  using assms(2-4,6)
proof (induction cons arbitrary: s)
  case (Cons con cons)
  let ?q = "last_seq (get_cursor (bs_cursors s) (con_name con))"
  have "\<forall>e\<in>set (contents lg). wants con e \<longrightarrow> parkable e" using assms(5) by blast
  from pump_consumer_pumped [OF assms(1) Cons.prems(1,2) this refl, of cfg]
  obtain m s1 where s1: "pump_consumer cfg ops lg con s = (Inr m, s1)"
    "pumped cfg con (page_after seq (contents lg) ?q (bc_read_limit cfg)) s s1" by blast
  have page: "page_after seq (contents lg) ?q (bc_read_limit cfg) = filter (\<lambda>e. ?q < seq e) (contents lg)"
    using Cons.prems(4) by (simp add: page_after_def)
  have p: "cursors_ok (bs_cursors s1)" "dlq_ok (bs_dlq s1)"
    "last_seq (get_cursor (bs_cursors s1) (con_name con)) = last_pos seq ?q (filter (\<lambda>e. ?q < seq e) (contents lg))"
    "\<forall>other. other \<noteq> con_name con \<longrightarrow> get_cursor (bs_cursors s1) other = get_cursor (bs_cursors s) other"
    using s1(2) by (auto simp: pumped_def Let_def page split: prod.splits)
  have here: "seq e \<le> last_seq (get_cursor (bs_cursors s1) (con_name con))" if "e \<in> set (contents lg)" for e
  proof (cases "?q < seq e")
    case True
    then have "e \<in> set (filter (\<lambda>e. ?q < seq e) (contents lg))" using that by simp
    with last_pos_upper [OF ascending_filter [OF elog.contents_ascending [OF assms(1)]]] show ?thesis unfolding p(3) by blast
  next
    case False
    have "?q \<le> last_pos seq ?q (filter (\<lambda>e. ?q < seq e) (contents lg))"
      by (intro last_pos_mono) (auto simp: elog.contents_ascending [OF assms(1)] ascending_filter)
    with False p(3) show ?thesis by simp
  qed
  have "\<forall>c\<in>set cons. length (filter (\<lambda>e. last_seq (get_cursor (bs_cursors s1) (con_name c)) < seq e) (contents lg)) \<le> bc_read_limit cfg"
  proof
    fix c assume c: "c \<in> set cons"
    then have "con_name c \<noteq> con_name con" using Cons.prems(3) by (auto simp: image_iff)
    then have "get_cursor (bs_cursors s1) (con_name c) = get_cursor (bs_cursors s) (con_name c)" using p(4) by blast
    then show "length (filter (\<lambda>e. last_seq (get_cursor (bs_cursors s1) (con_name c)) < seq e) (contents lg)) \<le> bc_read_limit cfg"
      using Cons.prems(4) c by simp
  qed
  from Cons.IH [OF p(1,2) _ this] Cons.prems(3) obtain n s2 where s2: "pump_once cfg ops lg cons s1 = (Inr n, s2)"
    "cursors_ok (bs_cursors s2)" "dlq_ok (bs_dlq s2)"
    "\<forall>c\<in>set cons. \<forall>e\<in>set (contents lg). seq e \<le> last_seq (get_cursor (bs_cursors s2) (con_name c))"
    "\<forall>name. name \<notin> con_name ` set cons \<longrightarrow> get_cursor (bs_cursors s2) name = get_cursor (bs_cursors s1) name" by auto
  have "get_cursor (bs_cursors s2) (con_name con) = get_cursor (bs_cursors s1) (con_name con)"
    using s2(5) Cons.prems(3) by simp
  then have "\<forall>c\<in>set (con # cons). \<forall>e\<in>set (contents lg). seq e \<le> last_seq (get_cursor (bs_cursors s2) (con_name c))"
    using s2(4) here by simp
  moreover have "\<forall>name. name \<notin> con_name ` set (con # cons) \<longrightarrow> get_cursor (bs_cursors s2) name = get_cursor (bs_cursors s) name"
    using s2(5) p(4) by simp
  ultimately show ?case using s1(1) s2(1-3) by simp
qed simp

end

subsection \<open>Properties\<close>

text \<open>C33: The constructor's result is well formed, or one of two typed errors says what is wrong with the configuration.
  With \<open>0 < min \<le> max\<close> it holds one source per configured category, the four event sources, the rating source or its
  rotation and the extra ones, in this order and under pairwise distinct names, each with its cadence inside its
  bounds; nothing runs yet; the seeder is the last consumer, and a poll may confirm at least one lot. A name used
  twice is \<open>DuplicateSource\<close>, and a rotation without accounts per tick is refused first.\<close>

theorem engine_wiring_typed:
  assumes "0 < ec_min_cadence cfg" "ec_min_cadence cfg \<le> ec_max_cadence cfg" "\<forall>(k, cad)\<in>set extra_sources. cadence_ok cad"
    and "names = map (\<lambda>c. ''source:'' @ c) (ec_categories cfg)
           @ [''source:payments:'' @ (if ec_tokens cfg = [] then ''default'' else hd (ec_tokens cfg)), ''source:notifications'',
              ''source:conversations'', ''source:guarantee'']
           @ (if clients = 0 then [] else if clients = 1 then [''source:rating''] else [''rating-rotation''])
           @ map (kind_name \<circ> fst) extra_sources"
  shows "case new_engine cfg consumers clients extra_sources has_repo has_box of
      Inr w \<Rightarrow> distinct names \<and> dict_keys (sm_sources (ew_manager w)) = names
        \<and> (\<forall>(name, s)\<in>set (sm_sources (ew_manager w)). sr_name s = name \<and> cadence_ok (sr_cadence s))
        \<and> sm_tasks (ew_manager w) = [] \<and> last (ew_consumers w) = guarantee_seeder_name \<and> butlast (ew_consumers w) = consumers
        \<and> 1 \<le> ew_confirm_cap w \<and> (ew_reconciler w \<longleftrightarrow> has_repo \<and> has_box)
    | Inl x \<Rightarrow> if 2 \<le> clients \<and> ec_rating_accounts_per_tick cfg \<le> 0
              then x = Engine (InvalidAccountsPerTick (ec_rating_accounts_per_tick cfg))
              else \<not> distinct names \<and> (\<exists>n. x = Engine (DuplicateSource n))"
proof -
  let ?srcs = "wanted_sources cfg clients extra_sources"
  have names: "map sr_name (source_refs ?srcs) = names"
    by (simp add: source_refs_names wanted_sources_def assms(4) build_event_sources_def token_id_def comp_def split_def split: list.split)
  have "\<forall>c\<in>set (map snd ?srcs). cadence_ok c"
    using assms(1-3) by (auto simp: wanted_sources_def build_event_sources_def source_cadence_def new_cadence_ok)
  then have cads: "\<forall>s\<in>set (source_refs ?srcs). cadence_ok (sr_cadence s)"
    unfolding source_refs_cadences [symmetric] by simp
  show ?thesis
  proof (cases "distinct names")
    case True
    then obtain m where "new_manager (source_refs ?srcs) = Inr m" "sm_sources m = map (\<lambda>s. (sr_name s, s)) (source_refs ?srcs)"
      "sm_tasks m = []"
      using new_manager_result [of "source_refs ?srcs"] new_manager_tasks [of "source_refs ?srcs"] by (auto simp: names)
    then show ?thesis using True cads names confirm_cap_positive [of cfg] by (auto simp: new_engine_result comp_def)
  next
    case False
    then obtain n where "new_manager (source_refs ?srcs) = Inl (Engine (DuplicateSource n))"
      using new_manager_result [of "source_refs ?srcs"] by (auto simp: names)
    then show ?thesis using False by (simp add: new_engine_result)
  qed
qed

theorem engine_wiring_typed_witness:
  "\<exists>w. new_engine default_config [''feed''] 3 [] True True = Inr w
     \<and> dict_keys (sm_sources (ew_manager w)) = [''source:steam'', ''source:payments:default'', ''source:notifications'',
         ''source:conversations'', ''source:guarantee'', ''rating-rotation'']"
  using engine_wiring_typed [of default_config "[]" _ 3 "[''feed'']" True True, OF _ _ _ refl]
  by (cases "new_engine default_config [''feed''] 3 [] True True") (simp_all add: default_config_def)


text \<open>The lease frames the run. The seeding and the tasks run only between a successful acquire and the release: when the
  acquire raises, the world is untouched and the run raises the same. Otherwise the release comes last whatever the
  seeding and the tasks did; when it returns, the lease is free, the client is closed, and the outcome is the
  close's error or else the seeding's or the tasks'. When the release raises, that is the outcome, the lease still
  counts as held and the client is not closed.\<close>

theorem run_under_lease:
  assumes "lease_acquire srv l k = (r, l1, k1)" "lease_release srv l1 k1 = (rel, l2, k2)"
    and "engine_run srv seed tasks close l k w = (res, l3, k3, w3)"
    and "(r1, w1) = (case seed of None \<Rightarrow> tasks w
                     | Some f \<Rightarrow> if \<exists>x. fst (f w) = Inl x then (Inl (projl (fst (f w))), snd (f w)) else tasks (snd (f w)))"
  shows "case r of
      Inl x \<Rightarrow> res = Inl x \<and> l3 = l1 \<and> k3 = k1 \<and> w3 = w
    | Inr _ \<Rightarrow> l3 = l2 \<and> k3 = k2
        \<and> (case rel of
              Inl x \<Rightarrow> res = Inl x \<and> l2 = l1 \<and> holds_lease l3 \<and> w3 = w1
            | Inr _ \<Rightarrow> \<not> holds_lease l3 \<and> w3 = snd (close w1) \<and> res = (case fst (close w1) of Inl x \<Rightarrow> Inl x | Inr _ \<Rightarrow> r1))"
proof (cases r)
  case (Inr u)
  have "(case seed of None \<Rightarrow> tasks w
      | Some seed \<Rightarrow> (case seed w of (Inl x, w1) \<Rightarrow> (Inl x, w1) | (Inr _, w1) \<Rightarrow> tasks w1)) = (r1, w1)"
    using assms(4) by (auto split: option.splits prod.splits sum.splits)
  moreover have "case rel of Inl _ \<Rightarrow> l2 = l1 \<and> holds_lease l2 | Inr _ \<Rightarrow> \<not> holds_lease l2"
    using assms(2) by (auto simp: lease_release_def holds_lease_def split: option.splits prod.splits sum.splits)
  ultimately show ?thesis using assms(1-3)
    by (auto simp: engine_run_def Inr Let_def split: prod.splits sum.splits)
next
  case (Inl x)
  with assms(1,3) show ?thesis by (auto simp: engine_run_def)
qed

text \<open>A run over the demonstration server whose tasks fail: the failure comes out, and the lease is free again.\<close>

theorem run_under_lease_witness:
  "\<exists>l k. engine_run demo_server None (\<lambda>w. (Inl ValueError, w + 1)) (\<lambda>w. (Inr (), w * 2)) (new_lease 7) ([], []) (3 :: int)
     = (Inl ValueError, l, k, 8) \<and> \<not> holds_lease l"
proof -
  obtain r l1 k1 where a: "lease_acquire demo_server (new_lease 7) ([], []) = (r, l1, k1)" by (metis prod_cases3)
  obtain rel l2 k2 where b: "lease_release demo_server l1 k1 = (rel, l2, k2)" by (metis prod_cases3)
  obtain res l3 k3 w3 where c: "engine_run demo_server None (\<lambda>w. (Inl ValueError, w + 1)) (\<lambda>w. (Inr (), w * 2))
    (new_lease 7) ([], []) (3 :: int) = (res, l3, k3, w3)" by (metis prod_cases4)
  have "r = Inr ()" "rel = Inr ()"
    using a b by (auto simp: lease_acquire_def lease_release_def demo_server_def demo_held_def new_lease_def split: option.splits)
  with run_under_lease [OF a b c, of "Inl ValueError" 4] c show ?thesis by auto
qed

definition example_drain :: "(event_db, cursor_table, memory_seen, dlq_db, domain_event list) drain_state" where
  "example_drain = \<lparr>ds_stores = \<lparr>ss_log = el_init, ss_cursors = [], ss_seen = [], ss_notified = 0\<rparr>,
     ds_dlq = dq_init, ds_world = [], ds_waits = []\<rparr>"


end
