(* ===== verification/Migrations.thy ===== *)
theory Migrations
  imports Subscriptions "HOL-Library.Multiset"
begin

text \<open>
  The schema migrations (\<open>alembic/versions\<close>) over a small model of the database: tables with typed columns, constraints and
  rows of cells, and indexes. The two that move data rewrite every subscription: 0004 gives each a context, 0005
  turns the free filters into a typed scope. The tables the ORM declares are written down from the
  models and compared with what the migrations make.
\<close>

subsection \<open>Tables, columns and rows\<close>

datatype sql_type =
    BigIntType | IntType | VarChar nat | TextType | BoolType | TimeType | UuidType | JsonbType | TextArray
  | NumericType nat nat | BytesType

datatype cell = CNull | CInt int | CStr string | CBool bool | CTime datetime | CJson json | CArray "string list"

datatype server_default = NoDefault | DefaultCell cell | DefaultNow

record column =
  cl_name :: string
  cl_type :: sql_type
  cl_nullable :: bool
  cl_key :: bool
  cl_default :: server_default

type_synonym cells = "(string, cell) dict"

record table =
  tb_columns :: "column list"
  tb_unique :: "string list"
  tb_foreign :: "(string \<times> string \<times> string) list"
  tb_rows :: "cells list"

record database =
  dt_tables :: "(string, table) dict"
  dt_indexes :: "(string, string \<times> string list) dict"

definition empty_database :: database where
  "empty_database = \<lparr>dt_tables = [], dt_indexes = []\<rparr>"

text \<open>The ways the migrations write a column.\<close>

definition col :: "string \<Rightarrow> sql_type \<Rightarrow> column" where
  "col n t = \<lparr>cl_name = n, cl_type = t, cl_nullable = False, cl_key = False, cl_default = NoDefault\<rparr>"

definition key_col :: "string \<Rightarrow> sql_type \<Rightarrow> column" where
  "key_col n t = (col n t)\<lparr>cl_key := True\<rparr>"

definition null_col :: "string \<Rightarrow> sql_type \<Rightarrow> column" where
  "null_col n t = (col n t)\<lparr>cl_nullable := True\<rparr>"

definition default_col :: "string \<Rightarrow> sql_type \<Rightarrow> server_default \<Rightarrow> column" where
  "default_col n t d = (col n t)\<lparr>cl_default := d\<rparr>"

subsection \<open>Operations\<close>

text \<open>An operation on a table, column or index that is there already or not there raises.\<close>

definition schema_error :: exn where
  "schema_error = StoreError ''ProgrammingError''"

definition create_table :: "string \<Rightarrow> column list \<Rightarrow> string list \<Rightarrow> (string \<times> string \<times> string) list \<Rightarrow> database \<Rightarrow> database result" where
  "create_table name cols uniq fks db =
     (if name \<in> set (dict_keys (dt_tables db)) then Inl schema_error
      else Inr (db\<lparr>dt_tables := dt_tables db @ [(name, \<lparr>tb_columns = cols, tb_unique = uniq, tb_foreign = fks, tb_rows = []\<rparr>)]\<rparr>))"

definition drop_table :: "string \<Rightarrow> database \<Rightarrow> database result" where
  "drop_table name db =
     (if name \<in> set (dict_keys (dt_tables db))
      then Inr (db\<lparr>dt_tables := AList.delete name (dt_tables db),
                   dt_indexes := filter (\<lambda>(i, t, cs). t \<noteq> name) (dt_indexes db)\<rparr>)
      else Inl schema_error)"

definition create_index :: "string \<Rightarrow> string \<Rightarrow> string list \<Rightarrow> database \<Rightarrow> database result" where
  "create_index i t cs db =
     (if i \<in> set (dict_keys (dt_indexes db)) \<or> t \<notin> set (dict_keys (dt_tables db)) then Inl schema_error
      else Inr (db\<lparr>dt_indexes := dt_indexes db @ [(i, t, cs)]\<rparr>))"

definition drop_index :: "string \<Rightarrow> database \<Rightarrow> database result" where
  "drop_index i db =
     (if i \<in> set (dict_keys (dt_indexes db)) then Inr (db\<lparr>dt_indexes := AList.delete i (dt_indexes db)\<rparr>)
      else Inl schema_error)"

definition on_table :: "string \<Rightarrow> (table \<Rightarrow> table result) \<Rightarrow> database \<Rightarrow> database result" where
  "on_table name f db =
     (case map_of (dt_tables db) name of
        None \<Rightarrow> Inl schema_error
      | Some t \<Rightarrow> bind_result (f t) (\<lambda>t'. Inr (db\<lparr>dt_tables := AList.update name t' (dt_tables db)\<rparr>)))"

text \<open>A new column takes its default in the rows that are there; without one it must be nullable or the table empty.\<close>

definition add_col :: "column \<Rightarrow> table \<Rightarrow> table result" where
  "add_col c t =
     (if cl_name c \<in> set (map cl_name (tb_columns t)) then Inl schema_error
      else case cl_default c of
        DefaultCell v \<Rightarrow> Inr (t\<lparr>tb_columns := tb_columns t @ [c], tb_rows := map (\<lambda>r. r @ [(cl_name c, v)]) (tb_rows t)\<rparr>)
      | _ \<Rightarrow> if cl_nullable c \<or> tb_rows t = []
            then Inr (t\<lparr>tb_columns := tb_columns t @ [c], tb_rows := map (\<lambda>r. r @ [(cl_name c, CNull)]) (tb_rows t)\<rparr>)
            else Inl (StoreError ''NotNullViolation''))"

definition undefault_col :: "string \<Rightarrow> table \<Rightarrow> table result" where
  "undefault_col cn t =
     (if cn \<in> set (map cl_name (tb_columns t))
      then Inr (t\<lparr>tb_columns := map (\<lambda>c. if cl_name c = cn then c\<lparr>cl_default := NoDefault\<rparr> else c) (tb_columns t)\<rparr>)
      else Inl schema_error)"

definition drop_col :: "string \<Rightarrow> table \<Rightarrow> table result" where
  "drop_col cn t =
     (if cn \<in> set (map cl_name (tb_columns t))
      then Inr (t\<lparr>tb_columns := filter (\<lambda>c. cl_name c \<noteq> cn) (tb_columns t), tb_rows := map (AList.delete cn) (tb_rows t)\<rparr>)
      else Inl schema_error)"

definition map_rows :: "(cells \<Rightarrow> cells) \<Rightarrow> table \<Rightarrow> table result" where
  "map_rows f t = Inr (t\<lparr>tb_rows := map f (tb_rows t)\<rparr>)"

definition add_column :: "string \<Rightarrow> column \<Rightarrow> database \<Rightarrow> database result" where
  "add_column name c = on_table name (add_col c)"

definition drop_default :: "string \<Rightarrow> string \<Rightarrow> database \<Rightarrow> database result" where
  "drop_default name cn = on_table name (undefault_col cn)"

definition drop_column :: "string \<Rightarrow> string \<Rightarrow> database \<Rightarrow> database result" where
  "drop_column name cn = on_table name (drop_col cn)"

definition update_rows :: "string \<Rightarrow> (cells \<Rightarrow> cells) \<Rightarrow> database \<Rightarrow> database result" where
  "update_rows name f = on_table name (map_rows f)"

fun run_ops :: "(database \<Rightarrow> database result) list \<Rightarrow> database \<Rightarrow> database result" where
  "run_ops [] db = Inr db"
| "run_ops (op # ops) db = bind_result (op db) (run_ops ops)"

subsection \<open>JSON in the database\<close>

text \<open>
  \<open>filters ? k\<close> and \<open>filters ->> k\<close> on an object; the database's text of a value that is no string is an argument.
  \<open>jsonb_build_object\<close> of a NULL is a JSON null.
\<close>

definition jsonb_has :: "json \<Rightarrow> string \<Rightarrow> bool" where
  "jsonb_has j k \<longleftrightarrow> json_item j k \<noteq> None"

definition jsonb_text :: "(json \<Rightarrow> string) \<Rightarrow> json \<Rightarrow> string \<Rightarrow> string option" where
  "jsonb_text txt j k =
     (case json_item j k of None \<Rightarrow> None | Some JNull \<Rightarrow> None | Some (JStr s) \<Rightarrow> Some s | Some v \<Rightarrow> Some (txt v))"

definition json_opt :: "string option \<Rightarrow> json" where
  "json_opt v = (case v of None \<Rightarrow> JNull | Some s \<Rightarrow> JStr s)"

definition json_cell :: "string \<Rightarrow> cells \<Rightarrow> json" where
  "json_cell cn r = (case map_of r cn of Some (CJson j) \<Rightarrow> j | _ \<Rightarrow> JNull)"

subsection \<open>The migrations\<close>

definition up_0001 :: "database \<Rightarrow> database result" where
  "up_0001 = run_ops
     [create_table ''event_log''
        [key_col ''seq'' BigIntType, col ''event_id'' UuidType, col ''event_type'' (VarChar 64),
         default_col ''schema_version'' IntType (DefaultCell (CInt 1)), col ''aggregate_id'' (VarChar 128),
         col ''occurred_at'' TimeType, default_col ''content_hash'' (VarChar 128) (DefaultCell (CStr [])),
         col ''payload'' JsonbType, null_col ''tenant_id'' (VarChar 64)] [''event_id''] [],
      create_index ''ix_event_log_occurred_at'' ''event_log'' [''occurred_at''],
      create_table ''consumer_cursor''
        [key_col ''consumer_name'' (VarChar 128), default_col ''last_seq'' BigIntType (DefaultCell (CInt 0)),
         default_col ''version'' IntType (DefaultCell (CInt 0)), default_col ''updated_at'' TimeType DefaultNow] [] [],
      create_table ''last_seen''
        [key_col ''category'' (VarChar 64), key_col ''item_id'' BigIntType, col ''price'' (NumericType 20 8),
         default_col ''content_hash'' (VarChar 128) (DefaultCell (CStr [])),
         default_col ''miss_count'' IntType (DefaultCell (CInt 0)), default_col ''last_polled_at'' TimeType DefaultNow,
         null_col ''tenant_id'' (VarChar 64)] [] [],
      create_table ''poll_epoch''
        [key_col ''category'' (VarChar 64), default_col ''epoch'' BigIntType (DefaultCell (CInt 0))] [] [],
      create_table ''dead_letter''
        [key_col ''id'' BigIntType, col ''consumer_name'' (VarChar 128), col ''seq'' BigIntType, col ''event_id'' UuidType,
         default_col ''reason'' TextType (DefaultCell (CStr [])), default_col ''failed_at'' TimeType DefaultNow,
         col ''payload'' JsonbType] [] [],
      create_index ''ix_dead_letter_consumer_name'' ''dead_letter'' [''consumer_name'']]"

definition down_0001 :: "database \<Rightarrow> database result" where
  "down_0001 = run_ops [drop_index ''ix_dead_letter_consumer_name'', drop_table ''dead_letter'', drop_table ''poll_epoch'',
     drop_table ''last_seen'', drop_table ''consumer_cursor'', drop_index ''ix_event_log_occurred_at'', drop_table ''event_log'']"

definition sub_columns_0002 :: "column list" where
  "sub_columns_0002 =
        [key_col ''subscription_id'' (VarChar 64), col ''transport'' (VarChar 32), col ''endpoint'' (VarChar 1024),
         col ''event_types'' TextArray, default_col ''filters'' JsonbType (DefaultCell (CJson (JObj []))),
         null_col ''secret'' (VarChar 128), null_col ''stream_token_hash'' (VarChar 128),
         default_col ''active'' BoolType (DefaultCell (CBool True)), default_col ''created_at'' TimeType DefaultNow,
         null_col ''tenant_id'' (VarChar 64)]"

definition up_0002 :: "database \<Rightarrow> database result" where
  "up_0002 = run_ops
     [create_table ''subscription''
        sub_columns_0002 [] [],
      create_index ''ix_subscription_active'' ''subscription'' [''active'']]"

definition down_0002 :: "database \<Rightarrow> database result" where
  "down_0002 = run_ops [drop_index ''ix_subscription_active'', drop_table ''subscription'']"

definition up_0003 :: "database \<Rightarrow> database result" where
  "up_0003 = run_ops
     [create_table ''token_account''
        [key_col ''account_id'' (VarChar 64), col ''token_ciphertext'' BytesType,
         default_col ''metadata'' JsonbType (DefaultCell (CJson (JObj []))),
         default_col ''categories'' TextArray (DefaultCell (CArray [])), default_col ''active'' BoolType (DefaultCell (CBool True)),
         default_col ''created_at'' TimeType DefaultNow] [] [],
      create_index ''ix_token_account_active'' ''token_account'' [''active''],
      create_table ''token_alias''
        [key_col ''alias'' (VarChar 128), col ''account_id'' (VarChar 64),
         default_col ''is_primary'' BoolType (DefaultCell (CBool False)), default_col ''created_at'' TimeType DefaultNow]
        [] [(''account_id'', ''token_account'', ''account_id'')],
      create_index ''ix_token_alias_account'' ''token_alias'' [''account_id'']]"

definition down_0003 :: "database \<Rightarrow> database result" where
  "down_0003 = run_ops [drop_index ''ix_token_alias_account'', drop_table ''token_alias'',
     drop_index ''ix_token_account_active'', drop_table ''token_account'']"

text \<open>0004: the webhook's context for everyone, then each other transport its own kind.\<close>

definition set_own_ctx :: "cells \<Rightarrow> cells" where
  "set_own_ctx r =
     (case map_of r ''transport'' of
        Some (CStr t) \<Rightarrow> if t \<noteq> ''webhook'' then AList.update ''ctx'' (CJson (JObj [(''kind'', JStr t)])) r else r
      | _ \<Rightarrow> r)"

definition up_0004 :: "database \<Rightarrow> database result" where
  "up_0004 = run_ops
     [add_column ''subscription'' (default_col ''ctx'' JsonbType (DefaultCell (CJson (JObj [(''kind'', JStr ''webhook'')])))),
      update_rows ''subscription'' set_own_ctx,
      drop_default ''subscription'' ''ctx'']"

definition down_0004 :: "database \<Rightarrow> database result" where
  "down_0004 = run_ops [drop_column ''subscription'' ''ctx'']"

text \<open>0005: the two known filter keys become a scope, the category first; the downgrade turns them back.\<close>

definition scope_of_filters :: "(json \<Rightarrow> string) \<Rightarrow> json \<Rightarrow> json" where
  "scope_of_filters txt j =
     (if jsonb_has j ''category''
      then JObj [(''kind'', JStr ''category''), (''category'', json_opt (jsonb_text txt j ''category''))]
      else if jsonb_has j ''account_alias''
      then JObj [(''kind'', JStr ''account''), (''account_alias'', json_opt (jsonb_text txt j ''account_alias''))]
      else JObj [(''kind'', JStr ''none'')])"

definition filters_of_scope :: "(json \<Rightarrow> string) \<Rightarrow> json \<Rightarrow> json" where
  "filters_of_scope txt j =
     (if jsonb_text txt j ''kind'' = Some ''category'' then JObj [(''category'', json_opt (jsonb_text txt j ''category''))]
      else if jsonb_text txt j ''kind'' = Some ''account'' then JObj [(''account_alias'', json_opt (jsonb_text txt j ''account_alias''))]
      else JObj [])"

definition up_0005 :: "(json \<Rightarrow> string) \<Rightarrow> database \<Rightarrow> database result" where
  "up_0005 txt = run_ops
     [add_column ''subscription'' (default_col ''scope'' JsonbType (DefaultCell (CJson (JObj [(''kind'', JStr ''none'')])))),
      update_rows ''subscription'' (\<lambda>r. AList.update ''scope'' (CJson (scope_of_filters txt (json_cell ''filters'' r))) r),
      drop_default ''subscription'' ''scope'',
      drop_column ''subscription'' ''filters'']"

definition down_0005 :: "(json \<Rightarrow> string) \<Rightarrow> database \<Rightarrow> database result" where
  "down_0005 txt = run_ops
     [add_column ''subscription'' (default_col ''filters'' JsonbType (DefaultCell (CJson (JObj [])))),
      update_rows ''subscription'' (\<lambda>r. AList.update ''filters'' (CJson (filters_of_scope txt (json_cell ''scope'' r))) r),
      drop_default ''subscription'' ''filters'',
      drop_column ''subscription'' ''scope'']"

definition upgrade_head :: "(json \<Rightarrow> string) \<Rightarrow> database \<Rightarrow> database result" where
  "upgrade_head txt = run_ops [up_0001, up_0002, up_0003, up_0004, up_0005 txt]"

definition downgrade_base :: "(json \<Rightarrow> string) \<Rightarrow> database \<Rightarrow> database result" where
  "downgrade_base txt = run_ops [down_0005 txt, down_0004, down_0003, down_0002, down_0001]"

subsection \<open>What the ORM declares\<close>

text \<open>
  A model's columns with type, nullability and key; its defaults are made by the program, so they are no part of
  it. \<open>orm_package_tables\<close> are the models of the package \<open>orm\<close>, which is all the migration
  environment imports; the other models are those of \<open>web/orm\<close>. The last component of a table are the indexed columns.
\<close>

type_synonym orm_table = "string \<times> (string \<times> sql_type \<times> bool \<times> bool) list \<times> string list \<times> (string \<times> string \<times> string) list \<times> string list"

definition event_log_model :: orm_table where
  "event_log_model = (''event_log'',
     [(''seq'', BigIntType, False, True), (''event_id'', UuidType, False, False), (''event_type'', VarChar 64, False, False),
      (''schema_version'', IntType, False, False), (''aggregate_id'', VarChar 128, False, False),
      (''occurred_at'', TimeType, False, False), (''content_hash'', VarChar 128, False, False),
      (''payload'', JsonbType, False, False), (''tenant_id'', VarChar 64, True, False)], [''event_id''], [], [''occurred_at''])"

definition cursor_model :: orm_table where
  "cursor_model = (''consumer_cursor'',
     [(''consumer_name'', VarChar 128, False, True), (''last_seq'', BigIntType, False, False), (''version'', IntType, False, False),
      (''updated_at'', TimeType, False, False)], [], [], [])"

definition last_seen_model :: orm_table where
  "last_seen_model = (''last_seen'',
     [(''category'', VarChar 64, False, True), (''item_id'', BigIntType, False, True), (''price'', NumericType 20 8, False, False),
      (''content_hash'', VarChar 128, False, False), (''miss_count'', IntType, False, False),
      (''last_polled_at'', TimeType, False, False), (''tenant_id'', VarChar 64, True, False)], [], [], [])"

definition poll_epoch_model :: orm_table where
  "poll_epoch_model = (''poll_epoch'', [(''category'', VarChar 64, False, True), (''epoch'', BigIntType, False, False)], [], [], [])"

definition dead_letter_model :: orm_table where
  "dead_letter_model = (''dead_letter'',
     [(''id'', BigIntType, False, True), (''consumer_name'', VarChar 128, False, False), (''seq'', BigIntType, False, False),
      (''event_id'', UuidType, False, False), (''reason'', TextType, False, False), (''failed_at'', TimeType, False, False),
      (''payload'', JsonbType, False, False)], [], [], [''consumer_name''])"

definition subscription_model :: orm_table where
  "subscription_model = (''subscription'',
     [(''subscription_id'', VarChar 64, False, True), (''transport'', VarChar 32, False, False), (''endpoint'', VarChar 1024, False, False),
      (''event_types'', TextArray, False, False), (''scope'', JsonbType, False, False), (''ctx'', JsonbType, False, False),
      (''secret'', VarChar 128, True, False), (''stream_token_hash'', VarChar 128, True, False), (''active'', BoolType, False, False),
      (''created_at'', TimeType, False, False), (''tenant_id'', VarChar 64, True, False)], [], [], [])"

definition token_account_model :: orm_table where
  "token_account_model = (''token_account'',
     [(''account_id'', VarChar 64, False, True), (''token_ciphertext'', BytesType, False, False), (''metadata'', JsonbType, False, False),
      (''categories'', TextArray, False, False), (''active'', BoolType, False, False), (''created_at'', TimeType, False, False)], [], [], [])"

definition token_alias_model :: orm_table where
  "token_alias_model = (''token_alias'',
     [(''alias'', VarChar 128, False, True), (''account_id'', VarChar 64, False, False), (''is_primary'', BoolType, False, False),
      (''created_at'', TimeType, False, False)], [], [(''account_id'', ''token_account'', ''account_id'')], [])"

definition orm_package_tables :: "orm_table list" where
  "orm_package_tables = [event_log_model, cursor_model, last_seen_model, poll_epoch_model, dead_letter_model]"

definition orm_tables :: "orm_table list" where
  "orm_tables = orm_package_tables @ [subscription_model, token_account_model, token_alias_model]"

text \<open>A table as a model would declare it; the index columns are left to a comparison of their own.\<close>

definition column_facts :: "column \<Rightarrow> string \<times> sql_type \<times> bool \<times> bool" where
  "column_facts c = (cl_name c, cl_type c, cl_nullable c, cl_key c)"

definition same_table :: "orm_table \<Rightarrow> string \<times> table \<Rightarrow> bool" where
  "same_table m nt = (case m of (name, cols, uniq, fks, ix) \<Rightarrow> case nt of (name', t) \<Rightarrow>
     name = name' \<and> set cols = set (map column_facts (tb_columns t)) \<and> length cols = length (tb_columns t)
     \<and> uniq = tb_unique t \<and> fks = tb_foreign t)"

text \<open>The indexes of the models, under the names the library gives them.\<close>

definition orm_indexes :: "orm_table list \<Rightarrow> (string \<times> string \<times> string list) list" where
  "orm_indexes ms = concat (map (\<lambda>(name, cols, uniq, fks, ix). map (\<lambda>c. (''ix_'' @ name @ ''_'' @ c, name, [c])) ix) ms)"

subsection \<open>A subscription through 0004 and 0005\<close>

text \<open>What one row becomes, and how the repository's model reads it.\<close>

definition row_0004 :: "cells \<Rightarrow> cells" where
  "row_0004 r = set_own_ctx (r @ [(''ctx'', CJson (JObj [(''kind'', JStr ''webhook'')]))])"

definition row_0005 :: "(json \<Rightarrow> string) \<Rightarrow> cells \<Rightarrow> cells" where
  "row_0005 txt r = AList.delete ''filters'' (AList.update ''scope'' (CJson (scope_of_filters txt (json_cell ''filters'' r)))
     (r @ [(''scope'', CJson (JObj [(''kind'', JStr ''none'')]))]))"

definition row_undo_0005 :: "(json \<Rightarrow> string) \<Rightarrow> cells \<Rightarrow> cells" where
  "row_undo_0005 txt r = AList.delete ''scope'' (AList.update ''filters'' (CJson (filters_of_scope txt (json_cell ''scope'' r)))
     (r @ [(''filters'', CJson (JObj []))]))"

definition str_cell :: "string \<Rightarrow> cells \<Rightarrow> string option" where
  "str_cell cn r = (case map_of r cn of Some (CStr s) \<Rightarrow> Some s | _ \<Rightarrow> None)"

text \<open>The row object the ORM makes of the cells; None when a cell has another type than its column.\<close>

definition row_of_cells :: "cells \<Rightarrow> sub_row option" where
  "row_of_cells r =
     (case (str_cell ''subscription_id'' r, str_cell ''transport'' r, str_cell ''endpoint'' r, map_of r ''event_types'',
            map_of r ''active'', map_of r ''created_at'', map_of r ''scope'', map_of r ''ctx'') of
        (Some i, Some tr, Some ep, Some (CArray ts), Some (CBool act), Some (CTime made), Some (CJson sc), Some (CJson cx)) \<Rightarrow>
          Some \<lparr>sr_subscription_id = i, sr_transport = tr, sr_endpoint = ep, sr_event_types = ts, sr_scope = sc, sr_ctx = cx,
            sr_secret = str_cell ''secret'' r, sr_token_hash = str_cell ''stream_token_hash'' r, sr_active = act,
            sr_created_at = made\<rparr>
      | _ \<Rightarrow> None)"

text \<open>The columns of a subscription at 0003.\<close>

definition sub_names_0003 :: "string list" where
  "sub_names_0003 = [''subscription_id'', ''transport'', ''endpoint'', ''event_types'', ''filters'', ''secret'', ''stream_token_hash'',
     ''active'', ''created_at'', ''tenant_id'']"


lemma on_table_compose:
  "bind_result (on_table n f db) (on_table n g) = on_table n (\<lambda>t. bind_result (f t) g) db"
  by (cases "map_of (dt_tables db) n") (simp_all add: on_table_def bind_result_def update_conv' split: sum.split)

lemma on_table_done:
  assumes "map_of (dt_tables db) n = Some t" "f t = Inr t'"
  shows "on_table n f db = Inr (db\<lparr>dt_tables := AList.update n t' (dt_tables db)\<rparr>)"
  using assms by (simp add: on_table_def)

lemmas column_defs = col_def key_col_def null_col_def default_col_def
lemmas table_ops = add_column_def update_rows_def drop_default_def drop_column_def

text \<open>A column that is added with a default, filled, and then loses the default.\<close>

lemma fill_new_column:
  assumes "cn \<notin> set (map cl_name (tb_columns t))"
  shows "bind_result (add_col (default_col cn ty (DefaultCell v)) t) (\<lambda>t. bind_result (map_rows f t) (undefault_col cn))
    = Inr (t\<lparr>tb_columns := tb_columns t @ [col cn ty], tb_rows := map (\<lambda>r. f (r @ [(cn, v)])) (tb_rows t)\<rparr>)"
proof -
  have "map (\<lambda>c. if cl_name c = cn then c\<lparr>cl_default := NoDefault\<rparr> else c) (tb_columns t) = tb_columns t"
    using assms by (intro map_idI) auto
  with assms show ?thesis by (simp add: add_col_def map_rows_def undefault_col_def default_col_def col_def comp_def)
qed

lemma drop_col_done:
  assumes "cn \<in> set (map cl_name (tb_columns t))"
  shows "drop_col cn t = Inr (t\<lparr>tb_columns := filter (\<lambda>c. cl_name c \<noteq> cn) (tb_columns t), tb_rows := map (AList.delete cn) (tb_rows t)\<rparr>)"
  using assms by (simp add: drop_col_def)

lemma bind_result_assoc: "bind_result (bind_result r f) g = bind_result r (\<lambda>x. bind_result (f x) g)"
  by (cases r) simp_all

lemma run_ops_fun: "run_ops [] = Inr" "run_ops [op] = op" "run_ops (op # op' # ops) = (\<lambda>db. bind_result (op db) (run_ops (op' # ops)))"
  by (auto simp: fun_eq_iff bind_result_def split: sum.split)

lemma json_cell_append: "cn \<noteq> k \<Longrightarrow> json_cell cn (r @ [(k, v)]) = json_cell cn r"
  by (cases "map_of r cn") (simp_all add: json_cell_def map_add_def)

text \<open>One data migration on its table.\<close>

lemma up_0004_table:
  assumes "map_of (dt_tables db) ''subscription'' = Some t" "''ctx'' \<notin> set (map cl_name (tb_columns t))"
    and "t' = t\<lparr>tb_columns := tb_columns t @ [col ''ctx'' JsonbType], tb_rows := map row_0004 (tb_rows t)\<rparr>"
  shows "up_0004 db = Inr (db\<lparr>dt_tables := AList.update ''subscription'' t' (dt_tables db)\<rparr>)"
proof -
  let ?c = "default_col ''ctx'' JsonbType (DefaultCell (CJson (JObj [(''kind'', JStr ''webhook'')])))"
  have "up_0004 db = on_table ''subscription'' (\<lambda>t. bind_result (add_col ?c t) (\<lambda>t. bind_result (map_rows set_own_ctx t) (undefault_col ''ctx''))) db"
    unfolding on_table_compose [symmetric] by (simp add: up_0004_def table_ops bind_result_assoc run_ops_fun del: run_ops.simps)
  moreover have "bind_result (add_col ?c t) (\<lambda>t. bind_result (map_rows set_own_ctx t) (undefault_col ''ctx'')) = Inr t'"
    unfolding fill_new_column [OF assms(2)] by (simp add: assms(3) row_0004_def [abs_def])
  ultimately show ?thesis using on_table_done [OF assms(1)] by simp
qed

lemma up_0005_table:
  assumes "map_of (dt_tables db) ''subscription'' = Some t" "''scope'' \<notin> set (map cl_name (tb_columns t))"
    and "''filters'' \<in> set (map cl_name (tb_columns t))"
    and "t' = t\<lparr>tb_columns := filter (\<lambda>c. cl_name c \<noteq> ''filters'') (tb_columns t) @ [col ''scope'' JsonbType],
                tb_rows := map (row_0005 txt) (tb_rows t)\<rparr>"
  shows "up_0005 txt db = Inr (db\<lparr>dt_tables := AList.update ''subscription'' t' (dt_tables db)\<rparr>)"
proof -
  let ?c = "default_col ''scope'' JsonbType (DefaultCell (CJson (JObj [(''kind'', JStr ''none'')])))"
  let ?f = "\<lambda>r. AList.update ''scope'' (CJson (scope_of_filters txt (json_cell ''filters'' r))) r"
  let ?F = "\<lambda>t. bind_result (add_col ?c t) (\<lambda>t. bind_result (map_rows ?f t) (undefault_col ''scope''))"
  have "up_0005 txt db = on_table ''subscription'' (\<lambda>t. bind_result (?F t) (drop_col ''filters'')) db"
    unfolding on_table_compose [symmetric] by (simp add: up_0005_def table_ops bind_result_assoc run_ops_fun del: run_ops.simps)
  moreover have "bind_result (?F t) (drop_col ''filters'') = Inr t'"
    using assms(3) unfolding fill_new_column [OF assms(2)]
    by (simp add: drop_col_def assms(4) row_0005_def [abs_def] comp_def col_def json_cell_append)
  ultimately show ?thesis using on_table_done [OF assms(1)] by simp
qed

lemma down_0005_table:
  assumes "map_of (dt_tables db) ''subscription'' = Some t" "''filters'' \<notin> set (map cl_name (tb_columns t))"
    and "''scope'' \<in> set (map cl_name (tb_columns t))"
    and "t' = t\<lparr>tb_columns := filter (\<lambda>c. cl_name c \<noteq> ''scope'') (tb_columns t) @ [col ''filters'' JsonbType],
                tb_rows := map (row_undo_0005 txt) (tb_rows t)\<rparr>"
  shows "down_0005 txt db = Inr (db\<lparr>dt_tables := AList.update ''subscription'' t' (dt_tables db)\<rparr>)"
proof -
  let ?c = "default_col ''filters'' JsonbType (DefaultCell (CJson (JObj [])))"
  let ?f = "\<lambda>r. AList.update ''filters'' (CJson (filters_of_scope txt (json_cell ''scope'' r))) r"
  let ?F = "\<lambda>t. bind_result (add_col ?c t) (\<lambda>t. bind_result (map_rows ?f t) (undefault_col ''filters''))"
  have "down_0005 txt db = on_table ''subscription'' (\<lambda>t. bind_result (?F t) (drop_col ''scope'')) db"
    unfolding on_table_compose [symmetric] by (simp add: down_0005_def table_ops bind_result_assoc run_ops_fun del: run_ops.simps)
  moreover have "bind_result (?F t) (drop_col ''scope'') = Inr t'"
    using assms(3) unfolding fill_new_column [OF assms(2)]
    by (simp add: drop_col_def assms(4) row_undo_0005_def [abs_def] comp_def col_def json_cell_append)
  ultimately show ?thesis using on_table_done [OF assms(1)] by simp
qed

subsection \<open>Subscriptions of 0003\<close>

text \<open>The cells of a subscription at 0003: its own columns, the filters and a tenant.\<close>

definition opt_cell :: "string option \<Rightarrow> cell" where
  "opt_cell v = (case v of None \<Rightarrow> CNull | Some s \<Rightarrow> CStr s)"

definition old_cells :: "sub_row \<Rightarrow> (string \<times> string) list \<Rightarrow> cells" where
  "old_cells row fs = [(''subscription_id'', CStr (sr_subscription_id row)), (''transport'', CStr (sr_transport row)),
     (''endpoint'', CStr (sr_endpoint row)), (''event_types'', CArray (sr_event_types row)),
     (''filters'', CJson (JObj (map (\<lambda>(k, v). (k, JStr v)) fs))), (''secret'', opt_cell (sr_secret row)),
     (''stream_token_hash'', opt_cell (sr_token_hash row)), (''active'', CBool (sr_active row)),
     (''created_at'', CTime (sr_created_at row)), (''tenant_id'', CNull)]"

definition scope_from :: "(string \<times> string) list \<Rightarrow> sub_scope" where
  "scope_from fs =
     (case map_of fs ''category'' of
        Some c \<Rightarrow> CategoryScope c
      | None \<Rightarrow> (case map_of fs ''account_alias'' of Some a \<Rightarrow> AccountScope a | None \<Rightarrow> NoScope))"

lemma scope_of_string_filters:
  "scope_of_filters txt (JObj (map (\<lambda>(k, v). (k, JStr v)) fs)) = scope_json (scope_from fs)"
proof -
  have m: "map_of (map (\<lambda>(k, v). (k, JStr v)) fs) k = map_option JStr (map_of fs k)" for k
    by (induction fs) auto
  show ?thesis
    by (simp add: scope_of_filters_def jsonb_has_def jsonb_text_def json_item_def m scope_from_def json_opt_def split: option.split)
qed

lemma map_row_0004:
  assumes "map_of r ''transport'' = Some (CStr t)" "map_of r ''ctx'' = None"
  shows "map_of (row_0004 r) = (map_of r)(''ctx'' \<mapsto> CJson (JObj [(''kind'', JStr t)]))"
proof -
  have "map_of (r @ [(''ctx'', v)]) = (map_of r)(''ctx'' \<mapsto> v)" for v
    using assms(2) by (auto simp: fun_eq_iff map_add_def split: option.split)
  then show ?thesis using assms(1) by (simp add: row_0004_def set_own_ctx_def update_conv' del: map_of_append)
qed

lemma map_row_0005:
  assumes "map_of r ''scope'' = None" "json_cell ''filters'' r = JObj (map (\<lambda>(k, v). (k, JStr v)) fs)"
  shows "map_of (row_0005 txt r) = (map_of r)(''filters'' := None, ''scope'' \<mapsto> CJson (scope_json (scope_from fs)))"
proof -
  have "map_of (r @ [(''scope'', v)]) = (map_of r)(''scope'' \<mapsto> v)" for v
    using assms(1) by (auto simp: fun_eq_iff map_add_def split: option.split)
  then show ?thesis
    by (simp add: row_0005_def update_conv' delete_conv' assms(2) scope_of_string_filters fun_upd_twist del: map_of_append)
qed

lemma old_cells_lookup:
  "map_of (old_cells row fs) ''subscription_id'' = Some (CStr (sr_subscription_id row))"
  "map_of (old_cells row fs) ''transport'' = Some (CStr (sr_transport row))"
  "map_of (old_cells row fs) ''endpoint'' = Some (CStr (sr_endpoint row))"
  "map_of (old_cells row fs) ''event_types'' = Some (CArray (sr_event_types row))"
  "map_of (old_cells row fs) ''filters'' = Some (CJson (JObj (map (\<lambda>(k, v). (k, JStr v)) fs)))"
  "map_of (old_cells row fs) ''secret'' = Some (opt_cell (sr_secret row))"
  "map_of (old_cells row fs) ''stream_token_hash'' = Some (opt_cell (sr_token_hash row))"
  "map_of (old_cells row fs) ''active'' = Some (CBool (sr_active row))"
  "map_of (old_cells row fs) ''created_at'' = Some (CTime (sr_created_at row))"
  "map_of (old_cells row fs) ''ctx'' = None" "map_of (old_cells row fs) ''scope'' = None"
  by (simp_all add: old_cells_def)

lemma opt_cell_back: "(case opt_cell v of CStr s \<Rightarrow> Some s | _ \<Rightarrow> None) = v"
  by (simp add: opt_cell_def split: option.split)

lemma migrated_row:
  "row_of_cells (row_0005 txt (row_0004 (old_cells row fs)))
    = Some (row\<lparr>sr_scope := scope_json (scope_from fs), sr_ctx := JObj [(''kind'', JStr (sr_transport row))]\<rparr>)"
proof -
  let ?r = "row_0004 (old_cells row fs)"
  have r: "map_of ?r = (map_of (old_cells row fs))(''ctx'' \<mapsto> CJson (JObj [(''kind'', JStr (sr_transport row))]))"
    by (rule map_row_0004) (simp_all only: old_cells_lookup)
  have "map_of ?r ''scope'' = None" "json_cell ''filters'' ?r = JObj (map (\<lambda>(k, v). (k, JStr v)) fs)"
    by (simp_all add: r json_cell_def old_cells_lookup)
  from map_row_0005 [OF this] have m: "map_of (row_0005 txt ?r)
      = (map_of ?r)(''filters'' := None, ''scope'' \<mapsto> CJson (scope_json (scope_from fs)))" .
  show ?thesis
    by (simp add: row_of_cells_def str_cell_def m r old_cells_lookup opt_cell_back)
qed

lemma filters_back: "filters_of_scope txt (scope_json sc) = JObj (map (\<lambda>(k, v). (k, JStr v)) (to_filters sc))"
  by (cases sc) (simp_all add: filters_of_scope_def jsonb_text_def json_item_def json_opt_def)

lemma read_own_ctx:
  "transport_of_value tr = Inr k \<Longrightarrow> ctx_of_json text_rat (JObj [(''kind'', JStr tr)]) = Inr (default_ctx_for k)"
  by (auto simp: transport_of_value_def ctx_of_json_def json_text_def json_item_def delay_of_json_def split: if_splits)

lemma read_scope:
  "scope_of_json known (scope_json sc) = (case sc of CategoryScope c \<Rightarrow> if known c then Inr sc else Inl ValidationError | _ \<Rightarrow> Inr sc)"
  by (cases sc) (simp_all add: scope_of_json_def json_text_def json_item_def)

lemma undone_row:
  assumes "''scope'' \<notin> dom (map_of r)" "json_cell ''filters'' r = JObj (map (\<lambda>(k, v). (k, JStr v)) fs)"
  shows "map_of (row_undo_0005 txt (row_0005 txt r))
    = (map_of r)(''filters'' \<mapsto> CJson (JObj (map (\<lambda>(k, v). (k, JStr v)) (to_filters (scope_from fs)))))"
proof -
  have n: "map_of r ''scope'' = None" using assms(1) by (simp add: domIff)
  from map_row_0005 [OF n assms(2)] have m: "map_of (row_0005 txt r)
      = (map_of r)(''filters'' := None, ''scope'' \<mapsto> CJson (scope_json (scope_from fs)))" .
  have "map_of (row_0005 txt r @ [(''filters'', v)]) = (map_of r)(''scope'' \<mapsto> CJson (scope_json (scope_from fs)), ''filters'' \<mapsto> v)" for v
    by (auto simp: fun_eq_iff map_add_def m split: option.split)
  moreover have "json_cell ''scope'' (row_0005 txt r) = scope_json (scope_from fs)"
    by (simp add: json_cell_def m)
  ultimately show ?thesis
    using n by (auto simp: row_undo_0005_def update_conv' delete_conv' filters_back fun_eq_iff simp del: map_of_append)
qed

subsection \<open>Properties\<close>


text \<open>C36: The data migrations 0004 and 0005 keep every subscription. On a database with subscriptions as 0003 stores them, whatever
  their string filters, both succeed and touch no other table; each row keeps its columns and becomes readable by the
  repository as the subscription of its transport with that transport's empty context and the scope its
  filters name (the category before the account), and a scope made from at most one known key matches the events
  the filters matched. A row whose category the client library does not know is the only one that cannot be read.\<close>

theorem migrated_subscriptions:
  assumes "map_of (dt_tables db) ''subscription'' = Some t" "map cl_name (tb_columns t) = sub_names_0003"
    and "tb_rows t = map (\<lambda>(row, fs). old_cells row fs) olds"
  shows "\<exists>db' t'. run_ops [up_0004, up_0005 txt] db = Inr db' \<and> map_of (dt_tables db') ''subscription'' = Some t'
    \<and> (\<forall>n. n \<noteq> ''subscription'' \<longrightarrow> map_of (dt_tables db') n = map_of (dt_tables db) n) \<and> dt_indexes db' = dt_indexes db
    \<and> map cl_name (tb_columns t') = filter (\<lambda>n. n \<noteq> ''filters'') sub_names_0003 @ [''ctx'', ''scope'']
    \<and> list_all2 (\<lambda>(row, fs) r. \<exists>row'. row_of_cells r = Some row'
          \<and> (\<forall>k ts. transport_of_value (sr_transport row) = Inr k \<and> types_of_values (sr_event_types row) = Inr ts \<longrightarrow>
               sub_of_row text_rat known row' =
                 (if \<exists>c. map_of fs ''category'' = Some c \<and> \<not> known c then Inl ValidationError
                  else Inr \<lparr>su_id = sr_subscription_id row, su_transport = k, su_endpoint = sr_endpoint row, su_event_types = ts,
                       su_created_at = sr_created_at row, su_ctx = default_ctx_for k, su_scope = scope_from fs,
                       su_secret = sr_secret row, su_token_hash = sr_token_hash row, su_active = sr_active row\<rparr>))
          \<and> (length fs \<le> 1 \<and> fst ` set fs \<subseteq> {''category'', ''account_alias''} \<longrightarrow> to_filters (scope_from fs) = fs))
        olds (tb_rows t')"
proof -
  let ?t4 = "t\<lparr>tb_columns := tb_columns t @ [col ''ctx'' JsonbType], tb_rows := map row_0004 (tb_rows t)\<rparr>"
  let ?db4 = "db\<lparr>dt_tables := AList.update ''subscription'' ?t4 (dt_tables db)\<rparr>"
  let ?t5 = "?t4\<lparr>tb_columns := filter (\<lambda>c. cl_name c \<noteq> ''filters'') (tb_columns ?t4) @ [col ''scope'' JsonbType],
    tb_rows := map (row_0005 txt) (tb_rows ?t4)\<rparr>"
  let ?db5 = "?db4\<lparr>dt_tables := AList.update ''subscription'' ?t5 (dt_tables ?db4)\<rparr>"
  have n: "cl_name ` set (tb_columns t) = set sub_names_0003" using assms(2) by (metis set_map)
  have "up_0004 db = Inr ?db4" by (rule up_0004_table [OF assms(1) _ refl]) (simp add: n sub_names_0003_def)
  moreover have "up_0005 txt ?db4 = Inr ?db5"
    by (rule up_0005_table [of _ ?t4, OF _ _ _ refl]) (simp_all add: update_conv' n col_def sub_names_0003_def)
  ultimately have run: "run_ops [up_0004, up_0005 txt] db = Inr ?db5" by simp
  have names: "map cl_name (tb_columns ?t5) = filter (\<lambda>n. n \<noteq> ''filters'') sub_names_0003 @ [''ctx'', ''scope'']"
    by (simp add: assms(2) [symmetric] filter_map comp_def col_def)
  let ?row = "\<lambda>row fs. row\<lparr>sr_scope := scope_json (scope_from fs), sr_ctx := JObj [(''kind'', JStr (sr_transport row))]\<rparr>"
  have read: "sub_of_row text_rat known (?row row fs) =
      (if \<exists>c. map_of fs ''category'' = Some c \<and> \<not> known c then Inl ValidationError
       else Inr \<lparr>su_id = sr_subscription_id row, su_transport = k, su_endpoint = sr_endpoint row, su_event_types = ts,
            su_created_at = sr_created_at row, su_ctx = default_ctx_for k, su_scope = scope_from fs,
            su_secret = sr_secret row, su_token_hash = sr_token_hash row, su_active = sr_active row\<rparr>)"
    if "transport_of_value (sr_transport row) = Inr k" "types_of_values (sr_event_types row) = Inr ts" for row fs k ts
    using that by (auto simp: sub_of_row_def read_own_ctx read_scope scope_from_def split: option.splits)
  have same: "to_filters (scope_from fs) = fs" if "length fs \<le> 1" "fst ` set fs \<subseteq> {''category'', ''account_alias''}" for fs
    using that by (cases fs) (auto simp: scope_from_def)
  have "list_all2 (\<lambda>(row, fs) r. row_of_cells r = Some (?row row fs)) olds (tb_rows ?t5)"
    by (auto simp: assms(3) list_all2_conv_all_nth migrated_row split: prod.split)
  then have "list_all2 (\<lambda>(row, fs) r. \<exists>row'. row_of_cells r = Some row'
          \<and> (\<forall>k ts. transport_of_value (sr_transport row) = Inr k \<and> types_of_values (sr_event_types row) = Inr ts \<longrightarrow>
               sub_of_row text_rat known row' =
                 (if \<exists>c. map_of fs ''category'' = Some c \<and> \<not> known c then Inl ValidationError
                  else Inr \<lparr>su_id = sr_subscription_id row, su_transport = k, su_endpoint = sr_endpoint row, su_event_types = ts,
                       su_created_at = sr_created_at row, su_ctx = default_ctx_for k, su_scope = scope_from fs,
                       su_secret = sr_secret row, su_token_hash = sr_token_hash row, su_active = sr_active row\<rparr>))
          \<and> (length fs \<le> 1 \<and> fst ` set fs \<subseteq> {''category'', ''account_alias''} \<longrightarrow> to_filters (scope_from fs) = fs))
        olds (tb_rows ?t5)"
    by (rule list_all2_mono) (use read same in \<open>fastforce split: prod.splits\<close>)
  with run names show ?thesis
    by (intro exI [of _ ?db5] exI [of _ ?t5]) (simp add: update_conv' del: map_map)
qed

text \<open>Migration 0005 can be undone up to the filters the program never used: after the upgrade and the downgrade the table
  has the same columns again, every row has all its cells again, and its filters are those its scope matches, which is
  one known key at most; a second key and every other key are lost.\<close>

theorem scope_migration_undone:
  assumes "map_of (dt_tables db) ''subscription'' = Some t" "''scope'' \<notin> set (map cl_name (tb_columns t))"
    and "filter (\<lambda>c. cl_name c = ''filters'') (tb_columns t) = [c]" "column_facts c = (''filters'', JsonbType, False, False)"
    and "list_all2 (\<lambda>r fs. ''scope'' \<notin> dom (map_of r) \<and> json_cell ''filters'' r = JObj (map (\<lambda>(k, v). (k, JStr v)) fs)) (tb_rows t) filters"
  shows "\<exists>db' t'. run_ops [up_0005 txt, down_0005 txt] db = Inr db' \<and> map_of (dt_tables db') ''subscription'' = Some t'
    \<and> mset (map column_facts (tb_columns t')) = mset (map column_facts (tb_columns t))
    \<and> map map_of (tb_rows t')
        = map2 (\<lambda>r fs. (map_of r)(''filters'' \<mapsto> CJson (JObj (map (\<lambda>(k, v). (k, JStr v)) (to_filters (scope_from fs)))))) (tb_rows t) filters"
proof -
  let ?t5 = "t\<lparr>tb_columns := filter (\<lambda>c. cl_name c \<noteq> ''filters'') (tb_columns t) @ [col ''scope'' JsonbType],
    tb_rows := map (row_0005 txt) (tb_rows t)\<rparr>"
  let ?db5 = "db\<lparr>dt_tables := AList.update ''subscription'' ?t5 (dt_tables db)\<rparr>"
  let ?t6 = "?t5\<lparr>tb_columns := filter (\<lambda>c. cl_name c \<noteq> ''scope'') (tb_columns ?t5) @ [col ''filters'' JsonbType],
    tb_rows := map (row_undo_0005 txt) (tb_rows ?t5)\<rparr>"
  let ?db6 = "?db5\<lparr>dt_tables := AList.update ''subscription'' ?t6 (dt_tables ?db5)\<rparr>"
  have "c \<in> set (filter (\<lambda>c. cl_name c = ''filters'') (tb_columns t))" unfolding assms(3) by simp
  then have f: "''filters'' \<in> set (map cl_name (tb_columns t))" using image_eqI [of "''filters''" cl_name c] by simp
  have "up_0005 txt db = Inr ?db5" by (rule up_0005_table [OF assms(1,2) f refl])
  moreover have "down_0005 txt ?db5 = Inr ?db6"
    by (rule down_0005_table [of _ ?t5, OF _ _ _ refl]) (auto simp: update_conv' col_def)
  ultimately have run: "run_ops [up_0005 txt, down_0005 txt] db = Inr ?db6" by simp
  have ns: "\<forall>c\<in>set (tb_columns t). cl_name c \<noteq> ''scope''" using assms(2) by (metis image_eqI set_map)
  have "filter (\<lambda>c. cl_name c \<noteq> ''scope'') (tb_columns ?t5) = filter (\<lambda>c. cl_name c \<noteq> ''filters'') (tb_columns t)"
    using ns by (auto simp: col_def intro!: filter_cong)
  moreover have parts: "mset (tb_columns t) = mset (filter (\<lambda>c. cl_name c \<noteq> ''filters'') (tb_columns t)) + {#c#}"
    using arg_cong [OF assms(3), of mset]
    by (subst multiset_partition [of "mset (tb_columns t)" "\<lambda>c. cl_name c \<noteq> ''filters''"]) simp
  moreover have "column_facts (col ''filters'' JsonbType) = column_facts c"
    unfolding assms(4) by (simp add: column_facts_def col_def)
  ultimately have cols: "mset (map column_facts (tb_columns ?t6)) = mset (map column_facts (tb_columns t))"
    unfolding mset_map parts by simp
  have "map map_of (tb_rows ?t6)
        = map2 (\<lambda>r fs. (map_of r)(''filters'' \<mapsto> CJson (JObj (map (\<lambda>(k, v). (k, JStr v)) (to_filters (scope_from fs)))))) (tb_rows t) filters"
    using assms(5) by (auto simp: list_all2_conv_all_nth undone_row intro!: nth_equalityI)
  with run cols show ?thesis by (intro exI [of _ ?db6] exI [of _ ?t6]) (simp add: update_conv')
qed

subsection \<open>A concrete table\<close>

definition example_old_row :: sub_row where
  "example_old_row = \<lparr>sr_subscription_id = ''p1'', sr_transport = ''polling'', sr_endpoint = ''client'', sr_event_types = [''item_sold''],
     sr_scope = JNull, sr_ctx = JNull, sr_secret = None, sr_token_hash = None, sr_active = True,
     sr_created_at = the (from_timestamp_utc 0)\<rparr>"

definition example_old_table :: table where
  "example_old_table = \<lparr>tb_columns = sub_columns_0002, tb_unique = [], tb_foreign = [],
     tb_rows = [old_cells example_old_row [(''category'', ''steam''), (''color'', ''red'')]]\<rparr>"

definition example_old_db :: database where
  "example_old_db = \<lparr>dt_tables = [(''subscription'', example_old_table)], dt_indexes = []\<rparr>"

lemma example_columns: "map cl_name (tb_columns example_old_table) = sub_names_0003"
  by (simp add: example_old_table_def sub_columns_0002_def column_defs sub_names_0003_def)

theorem migrated_subscriptions_witness:
  "\<exists>db' t' r row'. run_ops [up_0004, up_0005 (\<lambda>_. [])] example_old_db = Inr db' \<and> map_of (dt_tables db') ''subscription'' = Some t'
     \<and> tb_rows t' = [r] \<and> row_of_cells r = Some row'
     \<and> (\<forall>ts. types_of_values [''item_sold''] = Inr ts \<longrightarrow>
          (\<exists>s. sub_of_row (\<lambda>_. 0) (\<lambda>c. c = ''steam'') row' = Inr s \<and> su_ctx s = PollingCtx 0 \<and> su_scope s = CategoryScope ''steam''))"
proof -
  have t: "map_of (dt_tables example_old_db) ''subscription'' = Some example_old_table" by (simp add: example_old_db_def)
  have rows: "tb_rows example_old_table = map (\<lambda>(row, fs). old_cells row fs) [(example_old_row, [(''category'', ''steam''), (''color'', ''red'')])]"
    by (simp add: example_old_table_def)
  have p: "transport_of_value (sr_transport example_old_row) = Inr POLLING"
    by (simp add: transport_of_value_def example_old_row_def)
  from migrated_subscriptions [OF t example_columns rows, of "\<lambda>_. []" "\<lambda>_. 0" "\<lambda>c. c = ''steam''"] p show ?thesis
    by (fastforce simp: list_all2_Cons1 example_old_row_def scope_from_def)
qed

theorem scope_migration_undone_witness:
  "\<exists>db' t' r. run_ops [up_0005 (\<lambda>_. []), down_0005 (\<lambda>_. [])] example_old_db = Inr db'
     \<and> map_of (dt_tables db') ''subscription'' = Some t' \<and> tb_rows t' = [r]
     \<and> map_of r ''filters'' = Some (CJson (JObj [(''category'', JStr ''steam'')])) \<and> map_of r ''transport'' = Some (CStr ''polling'')"
proof -
  let ?fs = "[[(''category'', ''steam''), (''color'', ''red'')]]"
  have t: "map_of (dt_tables example_old_db) ''subscription'' = Some example_old_table" by (simp add: example_old_db_def)
  have c: "''scope'' \<notin> set (map cl_name (tb_columns example_old_table))"
    "filter (\<lambda>c. cl_name c = ''filters'') (tb_columns example_old_table) = [default_col ''filters'' JsonbType (DefaultCell (CJson (JObj [])))]"
    "column_facts (default_col ''filters'' JsonbType (DefaultCell (CJson (JObj [])))) = (''filters'', JsonbType, False, False)"
    by (simp_all add: example_old_table_def sub_columns_0002_def column_defs column_facts_def)
  have r: "list_all2 (\<lambda>r fs. ''scope'' \<notin> dom (map_of r) \<and> json_cell ''filters'' r = JObj (map (\<lambda>(k, v). (k, JStr v)) fs))
    (tb_rows example_old_table) ?fs"
    by (simp add: example_old_table_def old_cells_def json_cell_def)
  from scope_migration_undone [OF t c r, of "\<lambda>_. []"] obtain db' t' where m:
    "run_ops [up_0005 (\<lambda>_. []), down_0005 (\<lambda>_. [])] example_old_db = Inr db'" "map_of (dt_tables db') ''subscription'' = Some t'"
    "map map_of (tb_rows t') = [(map_of (old_cells example_old_row (hd ?fs)))(''filters'' \<mapsto> CJson (JObj [(''category'', JStr ''steam'')]))]"
    by (auto simp: example_old_table_def scope_from_def)
  then obtain x where "tb_rows t' = [x]" by (cases "tb_rows t'") auto
  with m show ?thesis by (auto simp: old_cells_def example_old_row_def fun_upd_def fun_eq_iff)
qed

end
