(* ===== verification/Decimal_Text.thy ===== *)
theory Decimal_Text
  imports Py_Text
begin

text \<open>
  \<open>Decimal(text)\<close> of Python's \<open>decimal\<close> module for finite numbers, and its round trip with \<open>str\<close>. None stands
  for \<open>InvalidOperation\<close>; the texts of infinities and NaNs are not decimals of the model. A negative
  zero is a zero here.
\<close>

definition read_sign :: "string \<Rightarrow> bool \<times> string" where
  "read_sign s =
     (case s of
        c # cs \<Rightarrow> if c = CHR ''-'' then (True, cs) else if c = CHR ''+'' then (False, cs) else (False, s)
      | [] \<Rightarrow> (False, []))"

definition exponent_value :: "string \<Rightarrow> int option" where
  "exponent_value r =
     (case r of
        [] \<Rightarrow> Some 0
      | c # cs \<Rightarrow>
          if c = CHR ''e'' \<or> c = CHR ''E'' then
            (case read_sign cs of (neg, ds) \<Rightarrow>
               if ds \<noteq> [] \<and> list_all is_digit ds then Some ((if neg then - 1 else 1) * int (digits_value ds)) else None)
          else None)"

definition read_fraction :: "string \<Rightarrow> string \<times> string" where
  "read_fraction r =
     (case r of
        c # cs \<Rightarrow> if c = CHR ''.'' then (takeWhile is_digit cs, dropWhile is_digit cs) else ([], r)
      | [] \<Rightarrow> ([], []))"

definition read_decimal :: "string \<Rightarrow> decimal option" where
  "read_decimal s =
     (let (neg, r) = read_sign (filter (\<lambda>c. c \<noteq> CHR ''_'') (py_strip s));
          ip = takeWhile is_digit r;
          (fp, r2) = read_fraction (dropWhile is_digit r)
      in if ip @ fp = [] then None
         else map_option (\<lambda>e. Decimal ((if neg then - 1 else 1) * int (digits_value (ip @ fp))) (e - int (length fp)))
                (exponent_value r2))"

text \<open>A text in parts: sign, digits, an optional fraction and an optional exponent.\<close>

definition frac_text :: "string \<Rightarrow> string" where
  "frac_text fp = (if fp = [] then [] else CHR ''.'' # fp)"

definition exp_text :: "string \<Rightarrow> bool" where
  "exp_text ex \<longleftrightarrow> ex = [] \<or> (\<exists>r. ex = CHR ''E'' # r)"

lemma span_digits:
  assumes "list_all is_digit ds" "r = [] \<or> \<not> is_digit (hd r)"
  shows "takeWhile is_digit (ds @ r) = ds" "dropWhile is_digit (ds @ r) = r"
proof -
  have "takeWhile is_digit r = [] \<and> dropWhile is_digit r = r" using assms(2) by (cases r) auto
  with assms(1) show "takeWhile is_digit (ds @ r) = ds" "dropWhile is_digit (ds @ r) = r"
    by (simp_all add: list_all_iff takeWhile_append2 dropWhile_append2)
qed

lemma marks_no_digits: "\<not> is_digit (CHR ''.'')" "\<not> is_digit (CHR ''E'')" "\<not> is_digit (CHR ''-'')" "\<not> is_digit (CHR ''_'')" "\<not> is_digit (CHR ''+'')"
  by (simp_all add: is_digit_def)

lemma read_parts:
  assumes "ip \<noteq> []" "list_all is_digit ip" "list_all is_digit fp" "exp_text ex" "exponent_value ex = Some x"
    and "list_all (\<lambda>c. \<not> is_space c \<and> c \<noteq> CHR ''_'') ex"
  shows "read_decimal ((if neg then ''-'' else []) @ ip @ frac_text fp @ ex)
    = Some (Decimal ((if neg then - 1 else 1) * int (digits_value (ip @ fp))) (x - int (length fp)))"
proof -
  let ?body = "ip @ frac_text fp @ ex"
  let ?s = "(if neg then ''-'' else []) @ ?body"
  have digit: "\<not> is_space c \<and> c \<noteq> CHR ''_'' \<and> c \<noteq> CHR ''-'' \<and> c \<noteq> CHR ''+''" if "is_digit c" for c
    using that digit_not_space digit_not_sign by (auto simp: is_digit_def)
  define plain where "plain c \<longleftrightarrow> \<not> is_space c \<and> c \<noteq> CHR ''_''" for c
  have "list_all plain ip" "list_all plain fp"
    using assms(2,3) digit by (auto simp: list_all_iff plain_def)
  moreover have "list_all plain ex" using assms(6) unfolding plain_def [abs_def] .
  moreover have "plain (CHR ''-'')" "plain (CHR ''.'')" by (simp_all add: plain_def is_space_def)
  ultimately have "list_all plain ?s" by (simp add: frac_text_def)
  then have all: "\<forall>c\<in>set ?s. \<not> is_space c \<and> c \<noteq> CHR ''_''" unfolding list_all_iff by (metis plain_def)
  have ne: "?s \<noteq> []" using assms(1) by simp
  have "\<not> is_space (hd ?s)" "\<not> is_space (last ?s)" using hd_in_set [OF ne] last_in_set [OF ne] all by blast+
  then have "py_strip ?s = ?s" by (rule py_strip_ends [OF ne])
  moreover have "filter (\<lambda>c. c \<noteq> CHR ''_'') ?s = ?s" using all by (intro filter_True) blast
  ultimately have f: "filter (\<lambda>c. c \<noteq> CHR ''_'') (py_strip ?s) = ?s" by simp
  have "hd ip \<noteq> CHR ''-'' \<and> hd ip \<noteq> CHR ''+''" using assms(1,2) digit by (cases ip) auto
  then have sign: "read_sign ?s = (neg, ?body)" using assms(1) by (cases ip) (auto simp: read_sign_def)
  have rest: "frac_text fp @ ex = [] \<or> \<not> is_digit (hd (frac_text fp @ ex))"
    using assms(4) by (auto simp: frac_text_def exp_text_def marks_no_digits)
  have ex: "ex = [] \<or> \<not> is_digit (hd ex)" "fp = [] \<longrightarrow> ex = [] \<or> hd ex \<noteq> CHR ''.''"
    using assms(4) by (auto simp: exp_text_def marks_no_digits)
  have frac: "read_fraction (frac_text fp @ ex) = (fp, ex)"
    using span_digits [OF assms(3) ex(1)] ex(2) by (cases ex) (auto simp: frac_text_def read_fraction_def)
  show ?thesis
    using assms(1,5) by (simp add: read_decimal_def f sign span_digits [OF assms(2) rest] frac)
qed

lemma nat_digits_list: "list_all is_digit (nat_digits n)"
  by (simp add: list_all_iff nat_digits_all_digits)

lemma exponent_str_int:
  fixes i :: int
  defines "ex \<equiv> ''E'' @ (if 0 \<le> i then ''+'' else []) @ str_int i"
  shows "exponent_value ex = Some i" "exp_text ex" "list_all (\<lambda>c. \<not> is_space c \<and> c \<noteq> CHR ''_'') ex"
proof -
  have digit: "\<not> is_space c \<and> c \<noteq> CHR ''_''" if "is_digit c" for c
    using that digit_not_space by (auto simp: is_digit_def)
  show "exponent_value ex = Some i"
    by (simp add: ex_def exponent_value_def read_sign_def str_int_def nat_digits_list)
  show "exp_text ex" by (simp add: ex_def exp_text_def)
  have "\<forall>c\<in>set (nat_digits n). \<not> is_space c \<and> c \<noteq> CHR ''_''" for n
    using nat_digits_all_digits digit by blast
  then show "list_all (\<lambda>c. \<not> is_space c \<and> c \<noteq> CHR ''_'') ex"
    by (auto simp: ex_def str_int_def list_all_iff is_space_def)
qed

lemma dec_str_parts:
  "\<exists>ip fp ex x. dec_str d = (if coef d < 0 then ''-'' else []) @ ip @ frac_text fp @ ex
     \<and> ip \<noteq> [] \<and> list_all is_digit ip \<and> list_all is_digit fp \<and> exp_text ex \<and> exponent_value ex = Some x
     \<and> list_all (\<lambda>c. \<not> is_space c \<and> c \<noteq> CHR ''_'') ex
     \<and> digits_value (ip @ fp) = nat \<bar>coef d\<bar> \<and> x - int (length fp) = expo d"
proof -
  define ds where "ds = nat_digits (nat \<bar>coef d\<bar>)"
  have ds: "ds \<noteq> []" "list_all is_digit ds" "digits_value ds = nat \<bar>coef d\<bar>"
    by (simp_all add: ds_def nat_digits_list)
  have no_ex: "exp_text []" "exponent_value [] = Some 0" "list_all (\<lambda>c. \<not> is_space c \<and> c \<noteq> CHR ''_'') []"
    by (simp_all add: exp_text_def exponent_value_def)
  have zero: "is_digit (CHR ''0'')" by (simp add: is_digit_def)
  have cut: "list_all is_digit (take n ds)" "list_all is_digit (drop n ds)" for n
    using ds(2) by (auto simp: list_all_iff dest: in_set_takeD in_set_dropD)
  let ?left = "expo d + int (length ds)"
  let ?sg = "if coef d < 0 then ''-'' else []"
  consider (small) "expo d \<le> 0" "- 6 < ?left" "?left \<le> 0" | (whole) "expo d = 0"
    | (cut) "expo d < 0" "0 < ?left" | (sci) "\<not> (expo d \<le> 0 \<and> - 6 < ?left)"
    by linarith
  then show ?thesis
  proof cases
    case small
    let ?z = "replicate (nat (- ?left)) (CHR ''0'')"
    have "dec_str d = ?sg @ ''0'' @ frac_text (?z @ ds) @ []"
      using small ds(1) by (simp add: dec_str_def Let_def ds_def frac_text_def)
    moreover have "digits_value (''0'' @ ?z @ ds) = nat \<bar>coef d\<bar>"
      using digits_value_zeros [of "Suc (nat (- ?left))" ds] ds(3) by simp
    moreover have "list_all is_digit (?z @ ds)" using ds(2) zero by (auto simp: list_all_iff)
    ultimately show ?thesis using small no_ex zero
      by (intro exI [of _ "''0''"] exI [of _ "?z @ ds"] exI [of _ "[]"] exI [of _ 0]) simp
  next
    case whole
    then have "dec_str d = ?sg @ ds @ frac_text [] @ []"
      using ds(1) by (simp add: dec_str_def Let_def ds_def frac_text_def)
    then show ?thesis using whole ds no_ex
      by (intro exI [of _ ds] exI [of _ "[]"] exI [of _ "[]"] exI [of _ 0]) simp
  next
    case cut
    let ?n = "nat ?left"
    have n: "0 < ?n" "?n < length ds" "drop ?n ds \<noteq> []" using cut by auto
    then have "dec_str d = ?sg @ take ?n ds @ frac_text (drop ?n ds) @ []"
      using cut by (simp add: dec_str_def Let_def ds_def [symmetric] frac_text_def)
    moreover have "take ?n ds \<noteq> []" using n ds(1) by simp
    ultimately show ?thesis using cut n ds no_ex \<open>\<And>n. list_all is_digit (take n ds)\<close> \<open>\<And>n. list_all is_digit (drop n ds)\<close>
      by (intro exI [of _ "take ?n ds"] exI [of _ "drop ?n ds"] exI [of _ "[]"] exI [of _ 0]) auto
  next
    case sci
    have len: "1 \<le> length ds" using ds(1) by (cases ds) auto
    then have left: "?left \<noteq> 1" using sci by linarith
    let ?ex = "''E'' @ (if 0 \<le> ?left - 1 then ''+'' else []) @ str_int (?left - 1)"
    have point: "(if expo d \<le> 0 \<and> - 6 < ?left then ?left else 1) = 1" by (rule if_not_P [OF sci])
    have "dec_str d = ?sg @ take 1 ds @ frac_text (drop 1 ds) @ ?ex"
    proof (cases "length ds = 1")
      case True
      then show ?thesis using left unfolding dec_str_def Let_def ds_def [symmetric] point by (simp add: frac_text_def)
    next
      case False
      then have "drop 1 ds \<noteq> []" "\<not> int (length ds) \<le> 1" using len by auto
      then show ?thesis using left unfolding dec_str_def Let_def ds_def [symmetric] point by (simp add: frac_text_def)
    qed
    moreover have "take 1 ds \<noteq> []" using ds(1) by simp
    ultimately show ?thesis using exponent_str_int [of "?left - 1"] ds len \<open>\<And>n. list_all is_digit (take n ds)\<close> \<open>\<And>n. list_all is_digit (drop n ds)\<close>
      by (intro exI [of _ "take 1 ds"] exI [of _ "drop 1 ds"] exI [of _ ?ex] exI [of _ "?left - 1"]) auto
  qed
qed

lemma decimal_text_roundtrip: "read_decimal (dec_str d) = Some d"
proof -
  obtain ip fp ex x where p: "dec_str d = (if coef d < 0 then ''-'' else []) @ ip @ frac_text fp @ ex"
    "ip \<noteq> []" "list_all is_digit ip" "list_all is_digit fp" "exp_text ex" "exponent_value ex = Some x"
    "list_all (\<lambda>c. \<not> is_space c \<and> c \<noteq> CHR ''_'') ex"
    "digits_value (ip @ fp) = nat \<bar>coef d\<bar>" "x - int (length fp) = expo d"
    using dec_str_parts [of d] by blast
  have "(if coef d < 0 then - 1 else 1) * int (nat \<bar>coef d\<bar>) = coef d" by simp
  with read_parts [OF p(2-7), of "coef d < 0"] p(1,8,9) show ?thesis by (cases d) simp
qed

end
