(* ===== verification/Redis_Baseline.thy ===== *)
theory Redis_Baseline
  imports Snapshot_Diff Json_Text Decimal_Text
begin

text \<open>
  The hot mirror of the baseline in Redis (\<open>baseline/cache.py\<close>): the text of an entry, the keys, and the operations on the
  server's hashes. The server is an argument with the documented behaviour of its commands as \<open>hash_laws\<close>: a command
  or a transaction that returns has taken effect, one that raises has taken effect wholly or not at all.
\<close>

subsection \<open>The text of an entry\<close>

definition cache_key :: "category \<Rightarrow> string" where
  "cache_key c = ''lastseen:'' @ c"

definition encode_entry :: "baseline_entry \<Rightarrow> string" where
  "encode_entry e = json_dumps default_style
     (JObj [(''price'', JStr (dec_str (be_price e))), (''content_hash'', JStr (be_hash e)), (''miss_count'', JInt (miss_count e))])"

text \<open>\<open>str\<close> and \<open>int\<close> of a decoded value; \<open>repr\<close> is the text of a container or float, \<open>trunc\<close> the integer of a float literal.\<close>

fun value_str :: "(json \<Rightarrow> string) \<Rightarrow> json \<Rightarrow> string" where
  "value_str repr (JStr s) = s"
| "value_str repr (JInt i) = str_int i"
| "value_str repr JNull = ''None''"
| "value_str repr (JBool b) = (if b then ''True'' else ''False'')"
| "value_str repr j = repr j"

fun value_int :: "(string \<Rightarrow> int) \<Rightarrow> json \<Rightarrow> int result" where
  "value_int trunc (JInt i) = Inr i"
| "value_int trunc (JBool b) = Inr (if b then 1 else 0)"
| "value_int trunc (JFloat t) = Inr (trunc t)"
| "value_int trunc (JStr s) = (case py_int s of None \<Rightarrow> Inl ValueError | Some i \<Rightarrow> Inr i)"
| "value_int trunc j = Inl TypeError"

definition entry_item :: "json \<Rightarrow> string \<Rightarrow> json result" where
  "entry_item j k = (case json_item j k of None \<Rightarrow> Inl KeyError | Some v \<Rightarrow> Inr v)"

definition decode_entry :: "(json \<Rightarrow> string) \<Rightarrow> (string \<Rightarrow> int) \<Rightarrow> string \<Rightarrow> baseline_entry result" where
  "decode_entry repr trunc raw =
     (case json_loads raw of
        None \<Rightarrow> Inl ValueError
      | Some data \<Rightarrow>
          bind_result (entry_item data ''price'') (\<lambda>p.
          case read_decimal (value_str repr p) of
            None \<Rightarrow> Inl (StoreError ''InvalidOperation'')
          | Some price \<Rightarrow>
              bind_result (entry_item data ''content_hash'') (\<lambda>h.
              bind_result (entry_item data ''miss_count'') (\<lambda>m.
              bind_result (value_int trunc m) (\<lambda>n.
                Inr \<lparr>be_price = price, be_hash = value_str repr h, miss_count = n\<rparr>)))))"

lemma entry_roundtrip: "decode_entry repr trunc (encode_entry e) = Inr e"
proof -
  have "json_loads (encode_entry e)
      = Some (JObj [(''price'', JStr (dec_str (be_price e))), (''content_hash'', JStr (be_hash e)), (''miss_count'', JInt (miss_count e))])"
    unfolding encode_entry_def by (rule loads_dumps_text) (simp_all add: styles_ok dict_ok_def)
  then show ?thesis by (simp add: decode_entry_def entry_item_def json_item_def decimal_text_roundtrip)
qed

subsection \<open>The server\<close>

datatype redis_cmd =
    DelKey string
  | HSet string "(string \<times> string) list"
  | HDel string string

text \<open>Commands run together are one transaction; reading a field may raise too.\<close>

record 'w hash_server =
  hs_exec :: "redis_cmd list \<Rightarrow> 'w \<Rightarrow> unit result \<times> 'w"
  hs_get :: "string \<Rightarrow> string \<Rightarrow> 'w \<Rightarrow> string option result"

type_synonym hashes = "string \<Rightarrow> string \<Rightarrow> string option"

fun cmd_effect :: "redis_cmd \<Rightarrow> hashes \<Rightarrow> hashes" where
  "cmd_effect (DelKey k) h = h(k := (\<lambda>_. None))"
| "cmd_effect (HSet k m) h = h(k := h k ++ map_of (rev m))"
| "cmd_effect (HDel k f) h = h(k := (h k)(f := None))"

definition hash_laws :: "'w hash_server \<Rightarrow> ('w \<Rightarrow> hashes) \<Rightarrow> bool" where
  "hash_laws srv view \<longleftrightarrow>
     (\<forall>cmds w w'. hs_exec srv cmds w = (Inr (), w') \<longrightarrow> view w' = fold cmd_effect cmds (view w))
   \<and> (\<forall>cmds w x w'. hs_exec srv cmds w = (Inl x, w') \<longrightarrow> view w' = view w \<or> view w' = fold cmd_effect cmds (view w))
   \<and> (\<forall>k f w v. hs_get srv k f w = Inr v \<longrightarrow> v = view w k f)"

subsection \<open>The cache\<close>

definition cache_warm :: "'w hash_server \<Rightarrow> category \<Rightarrow> (int, baseline_entry) dict \<Rightarrow> 'w \<Rightarrow> unit result \<times> 'w" where
  "cache_warm srv c entries =
     hs_exec srv (DelKey (cache_key c)
       # (if entries = [] then [] else [HSet (cache_key c) (map (\<lambda>(i, e). (str_int i, encode_entry e)) entries)]))"

definition cache_get :: "(json \<Rightarrow> string) \<Rightarrow> (string \<Rightarrow> int) \<Rightarrow> 'w hash_server \<Rightarrow> category \<Rightarrow> int \<Rightarrow> 'w \<Rightarrow> baseline_entry option result" where
  "cache_get repr trunc srv c i w =
     bind_result (hs_get srv (cache_key c) (str_int i) w) (\<lambda>raw.
       case raw of None \<Rightarrow> Inr None | Some t \<Rightarrow> bind_result (decode_entry repr trunc t) (\<lambda>e. Inr (Some e)))"

definition cache_put :: "'w hash_server \<Rightarrow> category \<Rightarrow> int \<Rightarrow> baseline_entry \<Rightarrow> 'w \<Rightarrow> unit result \<times> 'w" where
  "cache_put srv c i e = hs_exec srv [HSet (cache_key c) [(str_int i, encode_entry e)]]"

definition cache_drop :: "'w hash_server \<Rightarrow> category \<Rightarrow> int \<Rightarrow> 'w \<Rightarrow> unit result \<times> 'w" where
  "cache_drop srv c i = hs_exec srv [HDel (cache_key c) (str_int i)]"

definition cache_clear :: "'w hash_server \<Rightarrow> category \<Rightarrow> 'w \<Rightarrow> unit result \<times> 'w" where
  "cache_clear srv c = hs_exec srv [DelKey (cache_key c)]"

subsection \<open>The map it implements\<close>

text \<open>A history of writes, each of which may raise; the next one comes anyway.\<close>

datatype cache_op =
    Warm category "(int, baseline_entry) dict"
  | Put category int baseline_entry
  | Drop category int
  | Clear category

fun run_cache_op :: "'w hash_server \<Rightarrow> cache_op \<Rightarrow> 'w \<Rightarrow> unit result \<times> 'w" where
  "run_cache_op srv (Warm c es) w = cache_warm srv c es w"
| "run_cache_op srv (Put c i e) w = cache_put srv c i e w"
| "run_cache_op srv (Drop c i) w = cache_drop srv c i w"
| "run_cache_op srv (Clear c) w = cache_clear srv c w"

fun cache_history :: "'w hash_server \<Rightarrow> cache_op list \<Rightarrow> 'w \<Rightarrow> unit result list \<times> 'w" where
  "cache_history srv [] w = ([], w)"
| "cache_history srv (a # acts) w =
     (case run_cache_op srv a w of (r, w1) \<Rightarrow> (case cache_history srv acts w1 of (rs, w2) \<Rightarrow> (r # rs, w2)))"

type_synonym mirror = "category \<Rightarrow> int \<Rightarrow> baseline_entry option"

fun mirror_op :: "cache_op \<Rightarrow> mirror \<Rightarrow> mirror" where
  "mirror_op (Warm c es) m = m(c := map_of es)"
| "mirror_op (Put c i e) m = m(c := (m c)(i \<mapsto> e))"
| "mirror_op (Drop c i) m = m(c := (m c)(i := None))"
| "mirror_op (Clear c) m = m(c := (\<lambda>_. None))"

text \<open>A write that raised counts or not, as the flag says.\<close>

fun mirror_run :: "(cache_op \<times> bool) list \<Rightarrow> mirror \<Rightarrow> mirror" where
  "mirror_run [] m = m"
| "mirror_run ((a, took) # acts) m = mirror_run acts (if took then mirror_op a m else m)"

fun op_ok :: "cache_op \<Rightarrow> bool" where
  "op_ok (Warm c es) \<longleftrightarrow> dict_ok es"
| "op_ok _ \<longleftrightarrow> True"

definition mirrors :: "hashes \<Rightarrow> mirror \<Rightarrow> bool" where
  "mirrors h m \<longleftrightarrow> (\<forall>c i. h (cache_key c) (str_int i) = map_option encode_entry (m c i))"

lemma cache_key_inj [simp]: "cache_key c = cache_key d \<longleftrightarrow> c = d"
  by (simp add: cache_key_def)

lemma map_of_rev:
  assumes "distinct (map fst xs)" shows "map_of (rev xs) = map_of xs"
proof
  fix k
  have "map_of (rev xs) k = Some v \<longleftrightarrow> map_of xs k = Some v" for v
    using assms by (simp add: map_of_eq_Some_iff rev_map [symmetric])
  then show "map_of (rev xs) k = map_of xs k" by (metis option.exhaust)
qed

lemma encoded_dict:
  "dict_ok es \<Longrightarrow> map_of (rev (map (\<lambda>(i, e). (str_int i, encode_entry e)) es)) (str_int i) = map_option encode_entry (map_of es i)"
proof -
  assume "dict_ok es"
  then have "distinct (map fst (map (\<lambda>(i, e). (str_int i, encode_entry e)) es))"
    by (simp add: dict_ok_def comp_def split_def distinct_map inj_on_def str_int_inj)
  then have "map_of (rev (map (\<lambda>(i, e). (str_int i, encode_entry e)) es)) = map_of (map (\<lambda>(i, e). (str_int i, encode_entry e)) es)"
    by (rule map_of_rev)
  moreover have "map_of (map (\<lambda>(i, e). (str_int i, encode_entry e)) es) (str_int i) = map_option encode_entry (map_of es i)"
    by (induction es) (auto simp: str_int_inj)
  ultimately show ?thesis by simp
qed

text \<open>The commands an operation sends, and that they do what the operation does to the map.\<close>

fun op_cmds :: "cache_op \<Rightarrow> redis_cmd list" where
  "op_cmds (Warm c es) = DelKey (cache_key c)
     # (if es = [] then [] else [HSet (cache_key c) (map (\<lambda>(i, e). (str_int i, encode_entry e)) es)])"
| "op_cmds (Put c i e) = [HSet (cache_key c) [(str_int i, encode_entry e)]]"
| "op_cmds (Drop c i) = [HDel (cache_key c) (str_int i)]"
| "op_cmds (Clear c) = [DelKey (cache_key c)]"

lemma run_cache_op_cmds: "run_cache_op srv a w = hs_exec srv (op_cmds a) w"
  by (cases a) (simp_all add: cache_warm_def cache_put_def cache_drop_def cache_clear_def)

lemma cmds_mirror:
  assumes "mirrors h m" "op_ok a"
  shows "mirrors (fold cmd_effect (op_cmds a) h) (mirror_op a m)"
  using assms by (cases a) (auto simp: mirrors_def str_int_inj map_add_def encoded_dict split: option.split)

subsection \<open>Properties\<close>

text \<open>C37: The cache implements a map from categories and lots to entries. After any history of warms, puts, drops and clears, some of
  which may have raised, it mirrors the map those operations leave when each one that returned counts and each
  one that raised counts wholly or not at all; and every read that returns gives exactly the map's entry, price and
  counter as they were put, or None where the map has none.\<close>

theorem cache_mirrors_baseline:
  assumes "hash_laws srv view" "mirrors (view w) m" "list_all op_ok acts" "cache_history srv acts w = (rs, w')"
  shows "\<exists>took. length took = length acts \<and> length rs = length acts
    \<and> (\<forall>k<length acts. rs ! k = Inr () \<longrightarrow> took ! k)
    \<and> mirrors (view w') (mirror_run (zip acts took) m)
    \<and> (\<forall>c i v. cache_get repr trunc srv c i w' = Inr v \<longrightarrow> v = mirror_run (zip acts took) m c i)
    \<and> (\<forall>c i x. cache_get repr trunc srv c i w' = Inl x \<longrightarrow> hs_get srv (cache_key c) (str_int i) w' = Inl x)"
proof -
  have "\<exists>took. length took = length acts \<and> length rs = length acts \<and> (\<forall>k<length acts. rs ! k = Inr () \<longrightarrow> took ! k)
    \<and> mirrors (view w') (mirror_run (zip acts took) m)"
    using assms(2-4)
  proof (induction acts arbitrary: w m rs)
    case (Cons a acts)
    obtain r w1 rs1 where s: "run_cache_op srv a w = (r, w1)" "cache_history srv acts w1 = (rs1, w')" "rs = r # rs1"
      using Cons.prems(3) by (auto split: prod.splits)
    obtain b where b: "r = Inr () \<longrightarrow> b" "view w1 = (if b then fold cmd_effect (op_cmds a) (view w) else view w)"
      using assms(1) s(1) unfolding run_cache_op_cmds hash_laws_def by (cases r) (auto, metis+)
    have "mirrors (view w1) (if b then mirror_op a m else m)"
      using cmds_mirror [OF Cons.prems(1), of a] Cons.prems(1,2) b(2) by simp
    from Cons.IH [OF this _ s(2)] Cons.prems(2) obtain took where t: "length took = length acts" "length rs1 = length acts"
      "\<forall>k<length acts. rs1 ! k = Inr () \<longrightarrow> took ! k" "mirrors (view w') (mirror_run (zip acts took) (if b then mirror_op a m else m))" by auto
    have "\<forall>k<length (a # acts). rs ! k = Inr () \<longrightarrow> (b # took) ! k"
      using t(3) b(1) s(3) by (auto simp: nth_Cons split: nat.split)
    with t s(3) show ?case by (intro exI [of _ "b # took"]) simp
  qed simp
  then obtain took where t: "length took = length acts" "length rs = length acts" "\<forall>k<length acts. rs ! k = Inr () \<longrightarrow> took ! k"
    and m: "mirrors (view w') (mirror_run (zip acts took) m)" by blast
  let ?m = "mirror_run (zip acts took) m"
  have get: "cache_get repr trunc srv c i w' = (case hs_get srv (cache_key c) (str_int i) w' of Inl x \<Rightarrow> Inl x | Inr _ \<Rightarrow> Inr (?m c i))" for c i
  proof (cases "hs_get srv (cache_key c) (str_int i) w'")
    case (Inr v)
    then have "v = view w' (cache_key c) (str_int i)" using assms(1) unfolding hash_laws_def by blast
    then have "v = map_option encode_entry (?m c i)" using m by (simp add: mirrors_def)
    then show ?thesis by (cases "?m c i") (simp_all add: cache_get_def Inr entry_roundtrip)
  qed (simp add: cache_get_def)
  have "\<forall>c i v. cache_get repr trunc srv c i w' = Inr v \<longrightarrow> v = ?m c i"
    "\<forall>c i x. cache_get repr trunc srv c i w' = Inl x \<longrightarrow> hs_get srv (cache_key c) (str_int i) w' = Inl x"
    unfolding get by (auto split: sum.splits)
  with t m show ?thesis by blast
qed

text \<open>A server that never fails; its state is what its hashes hold.\<close>

definition plain_server :: "hashes hash_server" where
  "plain_server = \<lparr>hs_exec = (\<lambda>cmds h. (Inr (), fold cmd_effect cmds h)), hs_get = (\<lambda>k f h. Inr (h k f))\<rparr>"

theorem cache_mirrors_baseline_witness:
  "cache_get (\<lambda>_. []) (\<lambda>_. 0) plain_server ''steam'' 7
     (snd (cache_history plain_server
        [Warm ''steam'' [(7, \<lparr>be_price = Decimal 150 (- 2), be_hash = ''h'', miss_count = 0\<rparr>)],
         Put ''steam'' 7 \<lparr>be_price = Decimal 15 (- 1), be_hash = ''h'', miss_count = 2\<rparr>] (\<lambda>_ _. None)))
   = Inr (Some \<lparr>be_price = Decimal 15 (- 1), be_hash = ''h'', miss_count = 2\<rparr>)"
proof -
  let ?e = "\<lparr>be_price = Decimal 15 (- 1), be_hash = ''h'', miss_count = 2\<rparr>"
  let ?acts = "[Warm ''steam'' [(7, \<lparr>be_price = Decimal 150 (- 2), be_hash = ''h'', miss_count = 0\<rparr>)], Put ''steam'' 7 ?e]"
  have laws: "hash_laws plain_server (\<lambda>h. h)" by (simp add: hash_laws_def plain_server_def)
  have start: "mirrors ((\<lambda>h. h) (\<lambda>_ _. None)) (\<lambda>_ _. None)" by (simp add: mirrors_def)
  have ok: "list_all op_ok ?acts" by (simp add: dict_ok_def)
  obtain rs w where run: "cache_history plain_server ?acts (\<lambda>_ _. None) = (rs, w)" by fastforce
  have rs: "rs ! 1 = Inr ()"
    using run by (auto simp: cache_put_def cache_warm_def plain_server_def)
  obtain v where get: "cache_get (\<lambda>_. []) (\<lambda>_. 0) plain_server ''steam'' 7 w = Inr v"
    using cache_mirrors_baseline [OF laws start ok run, of "\<lambda>_. []" "\<lambda>_. 0"]
    by (cases "cache_get (\<lambda>_. []) (\<lambda>_. 0) plain_server ''steam'' 7 w") (auto simp: plain_server_def)
  from cache_mirrors_baseline [OF laws start ok run, of "\<lambda>_. []" "\<lambda>_. 0"] obtain took where t: "length took = length ?acts"
    "took ! 1" "v = mirror_run (zip ?acts took) (\<lambda>_ _. None) ''steam'' 7"
    using rs get by force
  then obtain x y where "took = [x, y]" by (auto simp: length_Suc_conv)
  with t have "v = Some ?e" by simp
  with get run show ?thesis by simp
qed

end
