(* ===== verification/Bus_Supervisor.thy ===== *)
theory Bus_Supervisor
  imports Bus_Workers
begin

text \<open>
  The supervisor of the bus (\<open>CatchUpBus.run\<close> with its reconciliation, its wait for membership changes and its drain)
  and the bound on concurrent pumps. As for the source manager, a step is the code between two awaits, and
  registrations, changes of what a provider answers, notifications, the stop and the ends of workers may fall
  between any two. What a worker does is \<open>Bus_Workers\<close>; here it is its two events and its end.
\<close>

subsection \<open>The supervisor\<close>

text \<open>How a worker's task ended: None when it returned, else its exception.\<close>

record bus_worker =
  bw_stop :: bool
  bw_wake :: bool
  bw_end :: "exn option option"

text \<open>
  Reading the consumers (a provider is awaited), with its answer, stopping the workers no longer wanted, awaiting one of them
  (which has left the table), waiting, woken, draining with the exception on its way out, or finished.
\<close>

datatype bus_pc =
    BusReading
  | BusAnswered "string list"
  | BusStopping "string list" "string list"
  | BusAwaiting "string list" bus_worker "string list"
  | BusWaiting
  | BusWoken
  | BusDraining "exn option" "string list"
  | BusFinished "exn option"

text \<open>\<open>bv_live\<close> are the consumers' names, registered ones or what the provider would answer; \<open>bv_notify_due\<close> says that the
  provider's set changed and \<open>notify_membership\<close> is still to come. The program does not keep the latter.\<close>

record bus_super =
  bv_live :: "string list"
  bv_workers :: "(string, bus_worker) dict"
  bv_changed :: bool
  bv_notify_due :: bool
  bv_stop :: bool
  bv_pc :: bus_pc

definition bus_start :: "string list \<Rightarrow> bus_super" where
  "bus_start live = \<lparr>bv_live = live, bv_workers = [], bv_changed = (live \<noteq> []), bv_notify_due = False, bv_stop = False, bv_pc = BusReading\<rparr>"

definition new_worker :: bus_worker where
  "new_worker = \<lparr>bw_stop = False, bw_wake = False, bw_end = None\<rparr>"

definition stop_worker :: "bus_worker \<Rightarrow> bus_worker" where
  "stop_worker w = w\<lparr>bw_stop := True, bw_wake := True\<rparr>"

fun add_workers :: "string list \<Rightarrow> (string, bus_worker) dict \<Rightarrow> (string, bus_worker) dict" where
  "add_workers [] ws = ws"
| "add_workers (n # ns) ws = add_workers ns (if n \<in> set (dict_keys ws) then ws else ws @ [(n, new_worker)])"

definition map_workers :: "(bus_worker \<Rightarrow> bus_worker) \<Rightarrow> (string, bus_worker) dict \<Rightarrow> (string, bus_worker) dict" where
  "map_workers f ws = map (\<lambda>(n, w). (n, f w)) ws"

lemma map_workers_keys [simp]: "dict_keys (map_workers f ws) = dict_keys ws"
  by (induction ws) (auto simp: map_workers_def)

lemma map_workers_values [simp]: "snd ` set (map_workers f ws) = f ` snd ` set ws"
  by (force simp: map_workers_def)

definition bus_notify :: "bus_super \<Rightarrow> bus_super" where
  "bus_notify s = s\<lparr>bv_workers := map_workers (\<lambda>w. w\<lparr>bw_wake := True\<rparr>) (bv_workers s)\<rparr>"

definition notify_membership :: "bus_super \<Rightarrow> bus_super" where
  "notify_membership s = s\<lparr>bv_changed := True, bv_notify_due := False\<rparr>"

definition drain_workers :: "exn option \<Rightarrow> bus_super \<Rightarrow> bus_super" where
  "drain_workers x s = s\<lparr>bv_workers := map_workers stop_worker (bv_workers s),
     bv_pc := BusDraining x (dict_keys (bv_workers s))\<rparr>"

text \<open>The first part of a reconciliation, up to its first await: the missing workers start.\<close>

definition start_wanted :: "string list \<Rightarrow> bus_super \<Rightarrow> bus_super" where
  "start_wanted wanted s =
     (let ws = add_workers wanted (bv_workers s) in
      s\<lparr>bv_workers := ws, bv_pc := BusStopping wanted (filter (\<lambda>n. n \<notin> set wanted) (dict_keys ws))\<rparr>)"

inductive bus_step :: "bus_super \<Rightarrow> bus_super \<Rightarrow> bool" where
  bv_register: "bus_step s (s\<lparr>bv_live := bv_live s @ [n], bv_changed := True\<rparr>)"
| bv_unregister: "n \<in> set (bv_live s) \<Longrightarrow> bus_step s (s\<lparr>bv_live := remove1 n (bv_live s), bv_changed := True\<rparr>)"
| bv_provider: "bus_step s (s\<lparr>bv_live := live, bv_notify_due := True\<rparr>)"
| bv_membership: "bus_step s (notify_membership s)"
| bv_appended: "bus_step s (bus_notify s)"
| bv_request_stop: "bus_step s (s\<lparr>bv_stop := True\<rparr>)"
| bv_worker_ends: "map_of (bv_workers s) n = Some w \<Longrightarrow> bw_end w = None \<Longrightarrow> e \<noteq> None \<or> bw_stop w \<Longrightarrow>
     bus_step s (s\<lparr>bv_workers := AList.update n (w\<lparr>bw_end := Some e\<rparr>) (bv_workers s)\<rparr>)"
| bv_awaited_ends: "bv_pc s = BusAwaiting wanted w ns \<Longrightarrow> bw_end w = None \<Longrightarrow>
     bus_step s (s\<lparr>bv_pc := BusAwaiting wanted (w\<lparr>bw_end := Some e\<rparr>) ns\<rparr>)"
| bv_answer: "bv_pc s = BusReading \<Longrightarrow> bus_step s (s\<lparr>bv_pc := BusAnswered (bv_live s)\<rparr>)"
| bv_answer_raises: "bv_pc s = BusReading \<Longrightarrow> bus_step s (drain_workers (Some x) s)"
| bv_start: "bv_pc s = BusAnswered wanted \<Longrightarrow> bus_step s (start_wanted wanted s)"
| bv_stop_worker: "bv_pc s = BusStopping wanted (n # ns) \<Longrightarrow> map_of (bv_workers s) n = Some w \<Longrightarrow>
     bus_step s (s\<lparr>bv_workers := AList.delete n (bv_workers s), bv_pc := BusAwaiting wanted (stop_worker w) ns\<rparr>)"
| bv_awaited: "bv_pc s = BusAwaiting wanted w ns \<Longrightarrow> bw_end w = Some None \<Longrightarrow> bus_step s (s\<lparr>bv_pc := BusStopping wanted ns\<rparr>)"
| bv_await_raises: "bv_pc s = BusAwaiting wanted w ns \<Longrightarrow> bw_end w = Some (Some x) \<Longrightarrow> bus_step s (drain_workers (Some x) s)"
| bv_reconciled: "bv_pc s = BusStopping wanted [] \<Longrightarrow> \<not> bv_stop s \<Longrightarrow> bus_step s (s\<lparr>bv_pc := BusWaiting\<rparr>)"
| bv_reconciled_exit: "bv_pc s = BusStopping wanted [] \<Longrightarrow> bv_stop s \<Longrightarrow> bus_step s (drain_workers None s)"
| bv_wake: "bv_pc s = BusWaiting \<Longrightarrow> bv_stop s \<or> bv_changed s \<Longrightarrow> bus_step s (s\<lparr>bv_pc := BusWoken\<rparr>)"
| bv_clear: "bv_pc s = BusWoken \<Longrightarrow> \<not> bv_stop s \<Longrightarrow> bus_step s (s\<lparr>bv_changed := False, bv_pc := BusReading\<rparr>)"
| bv_clear_exit: "bv_pc s = BusWoken \<Longrightarrow> bv_stop s \<Longrightarrow> bus_step s (drain_workers None (s\<lparr>bv_changed := False\<rparr>))"
| bv_drain_one: "bv_pc s = BusDraining x (n # ns) \<Longrightarrow> map_of (bv_workers s) n = Some w \<Longrightarrow> bw_end w = Some None \<Longrightarrow>
     bus_step s (s\<lparr>bv_pc := BusDraining x ns\<rparr>)"
| bv_drain_raises: "bv_pc s = BusDraining x (n # ns) \<Longrightarrow> map_of (bv_workers s) n = Some w \<Longrightarrow> bw_end w = Some (Some y) \<Longrightarrow>
     bus_step s (s\<lparr>bv_pc := BusFinished (Some y)\<rparr>)"
| bv_drained: "bv_pc s = BusDraining x [] \<Longrightarrow> bus_step s (s\<lparr>bv_workers := [], bv_pc := BusFinished x\<rparr>)"

inductive bus_reaches :: "bus_super \<Rightarrow> bus_super \<Rightarrow> bool" for s where
  bv_refl: "bus_reaches s s"
| bv_next: "bus_reaches s t \<Longrightarrow> bus_step t u \<Longrightarrow> bus_reaches s u"

subsection \<open>Its invariant\<close>

abbreviation worker_names :: "bus_super \<Rightarrow> string set" where
  "worker_names s \<equiv> set (dict_keys (bv_workers s))"

text \<open>\<open>owed\<close>: a change is flagged or will be.\<close>

abbreviation owed :: "bus_super \<Rightarrow> bool" where
  "owed s \<equiv> bv_changed s \<or> bv_notify_due s"

fun bus_pc_ok :: "bus_pc \<Rightarrow> bool \<Rightarrow> string set \<Rightarrow> string set \<Rightarrow> bool" where
  "bus_pc_ok (BusAnswered wanted) due L T \<longleftrightarrow> due \<or> set wanted = L"
| "bus_pc_ok (BusStopping wanted ns) due L T \<longleftrightarrow> (due \<or> set wanted = L) \<and> T = set wanted \<union> set ns \<and> set ns \<inter> set wanted = {} \<and> distinct ns"
| "bus_pc_ok (BusAwaiting wanted w ns) due L T \<longleftrightarrow> (due \<or> set wanted = L) \<and> T = set wanted \<union> set ns \<and> set ns \<inter> set wanted = {} \<and> distinct ns"
| "bus_pc_ok BusWaiting due L T \<longleftrightarrow> due \<or> T = L"
| "bus_pc_ok pc due L T \<longleftrightarrow> True"

fun bus_draining :: "bus_pc \<Rightarrow> bool" where
  "bus_draining (BusDraining x ns) \<longleftrightarrow> True"
| "bus_draining (BusFinished x) \<longleftrightarrow> True"
| "bus_draining pc \<longleftrightarrow> False"

fun left_clean :: "bus_pc \<Rightarrow> bool \<Rightarrow> string set \<Rightarrow> bool" where
  "left_clean (BusDraining x ns) stopped T \<longleftrightarrow> (x = None \<longrightarrow> stopped)"
| "left_clean (BusFinished x) stopped T \<longleftrightarrow> (x = None \<longrightarrow> stopped \<and> T = {})"
| "left_clean pc stopped T \<longleftrightarrow> True"

definition bus_inv :: "bus_super \<Rightarrow> bool" where
  "bus_inv s \<longleftrightarrow> dict_ok (bv_workers s) \<and> bus_pc_ok (bv_pc s) (owed s) (set (bv_live s)) (worker_names s)
     \<and> (\<not> bus_draining (bv_pc s) \<longrightarrow> (\<forall>w\<in>snd ` set (bv_workers s). \<not> bw_stop w))
     \<and> left_clean (bv_pc s) (bv_stop s) (worker_names s)"

lemma bus_pc_ok_due: "bus_pc_ok pc due L T \<Longrightarrow> bus_pc_ok pc True L' T"
  by (cases pc) simp_all

lemma left_clean_stop: "left_clean pc stopped T \<Longrightarrow> left_clean pc True T"
  by (cases pc) simp_all

lemma add_workers_keys: "set (dict_keys (add_workers ns ws)) = set ns \<union> set (dict_keys ws)"
  by (induction ns ws rule: add_workers.induct) auto

lemma add_workers_ok: "dict_ok ws \<Longrightarrow> dict_ok (add_workers ns ws)"
  by (induction ns ws rule: add_workers.induct) (auto simp: dict_ok_def)

lemma add_workers_values: "x \<in> snd ` set (add_workers ns ws) \<Longrightarrow> x = new_worker \<or> x \<in> snd ` set ws"
proof (induction ns ws rule: add_workers.induct)
  case (2 n ns ws)
  let ?ws = "if n \<in> set (dict_keys ws) then ws else ws @ [(n, new_worker)]"
  have "x = new_worker \<or> x \<in> snd ` set ?ws" using 2 by (simp only: add_workers.simps)
  then show ?case by (cases "n \<in> set (dict_keys ws)") auto
qed simp

lemma add_workers_fresh: "\<forall>w\<in>snd ` set ws. \<not> bw_stop w \<Longrightarrow> \<forall>w\<in>snd ` set (add_workers ns ws). \<not> bw_stop w"
proof
  fix w assume ok: "\<forall>w\<in>snd ` set ws. \<not> bw_stop w" and "w \<in> snd ` set (add_workers ns ws)"
  then have "w = new_worker \<or> w \<in> snd ` set ws" by (intro add_workers_values)
  with ok show "\<not> bw_stop w" by (auto simp: new_worker_def)
qed

lemma update_worker_keys: "map_of ws n = Some w \<Longrightarrow> dict_keys (AList.update n v ws) = dict_keys ws"
proof -
  assume "map_of ws n = Some w"
  then have "n \<in> fst ` set ws" by (intro rev_image_eqI [of "(n, w)"] map_of_SomeD) simp_all
  then show ?thesis by (simp add: update_keys)
qed

lemma update_worker_values: "x \<in> snd ` set (AList.update n v ws) \<Longrightarrow> x = v \<or> x \<in> snd ` set ws"
  by (induction ws) (auto split: if_splits)

text \<open>The parts of the invariant one by one.\<close>

lemma bus_invI:
  assumes "distinct (dict_keys (bv_workers s))" "bus_pc_ok (bv_pc s) (owed s) (set (bv_live s)) (worker_names s)"
    and "bus_draining (bv_pc s) \<or> (\<forall>w\<in>snd ` set (bv_workers s). \<not> bw_stop w)" "left_clean (bv_pc s) (bv_stop s) (worker_names s)"
  shows "bus_inv s"
  using assms by (auto simp: bus_inv_def dict_ok_def)

lemma bus_invD:
  assumes "bus_inv s"
  shows "distinct (dict_keys (bv_workers s))" "bus_pc_ok (bv_pc s) (owed s) (set (bv_live s)) (worker_names s)"
    and "bus_draining (bv_pc s) \<or> (\<forall>w\<in>snd ` set (bv_workers s). \<not> bw_stop w)" "left_clean (bv_pc s) (bv_stop s) (worker_names s)"
  using assms by (auto simp: bus_inv_def dict_ok_def)

lemma bus_inv_flags:
  assumes "bus_inv s" "bv_pc t = bv_pc s" "bv_workers t = bv_workers s" "bv_stop t = bv_stop s" "owed t"
  shows "bus_inv t"
  using bus_invD [OF assms(1)] assms(2-5) by (intro bus_invI) (auto intro: bus_pc_ok_due)

lemma bus_inv_drain: "bus_inv s \<Longrightarrow> x = None \<longrightarrow> bv_stop t \<Longrightarrow> bv_workers t = bv_workers s \<Longrightarrow> bus_inv (drain_workers x t)"
  by (intro bus_invI) (simp_all add: drain_workers_def bus_invD(1) del: set_map)

lemma bus_inv_move:
  assumes "bus_inv s" "bus_pc_ok pc (owed s) (set (bv_live s)) (worker_names s)" "\<not> bus_draining (bv_pc s)" "left_clean pc (bv_stop s) (worker_names s)"
  shows "bus_inv (s\<lparr>bv_pc := pc\<rparr>)"
  using bus_invD [OF assms(1)] assms(2-4) by (intro bus_invI) simp_all

lemma bus_inv_step: "bus_step s t \<Longrightarrow> bus_inv s \<Longrightarrow> bus_inv t"
proof (induction rule: bus_step.induct)
  case (bv_appended s)
  note d = bus_invD [OF bv_appended]
  show ?case using d by (intro bus_invI) (auto simp: bus_notify_def simp del: set_map)
next
  case (bv_request_stop s)
  note d = bus_invD [OF bv_request_stop]
  show ?case using d left_clean_stop [OF d(4)] by (intro bus_invI) simp_all
next
  case (bv_worker_ends s n w e)
  note d = bus_invD [OF bv_worker_ends(4)]
  have w: "w \<in> snd ` set (bv_workers s)" using map_of_SomeD [OF bv_worker_ends(1)] by force
  have "\<forall>x\<in>snd ` set (AList.update n (w\<lparr>bw_end := Some e\<rparr>) (bv_workers s)). \<not> bw_stop x"
    if "\<forall>x\<in>snd ` set (bv_workers s). \<not> bw_stop x"
  proof
    fix x assume "x \<in> snd ` set (AList.update n (w\<lparr>bw_end := Some e\<rparr>) (bv_workers s))"
    then have "x = w\<lparr>bw_end := Some e\<rparr> \<or> x \<in> snd ` set (bv_workers s)" by (rule update_worker_values)
    with that w show "\<not> bw_stop x" by auto
  qed
  then show ?case using d
    by (intro bus_invI) (auto simp: update_worker_keys [OF bv_worker_ends(1)] simp del: set_map)
next
  case (bv_awaited_ends s wanted w ns e)
  then show ?case using bus_invD(2) [OF bv_awaited_ends(3)] by (intro bus_inv_move) simp_all
next
  case (bv_start s wanted)
  note d = bus_invD [OF bv_start(2)]
  have "distinct (dict_keys (add_workers wanted (bv_workers s)))"
    using add_workers_ok [of "bv_workers s" wanted] d(1) by (simp add: dict_ok_def)
  moreover have "\<forall>w\<in>snd ` set (add_workers wanted (bv_workers s)). \<not> bw_stop w"
    using add_workers_fresh [of "bv_workers s" wanted] d(3) bv_start(1) by simp
  moreover have "owed s \<or> set wanted = set (bv_live s)" using d(2) bv_start(1) by simp
  ultimately show ?case using add_workers_keys [of wanted "bv_workers s"]
    by (intro bus_invI) (auto simp: start_wanted_def Let_def simp del: set_map)
next
  case (bv_stop_worker s wanted n ns w)
  note d = bus_invD [OF bv_stop_worker(3)]
  have "set (dict_keys (AList.delete n (bv_workers s))) = worker_names s - {n}" by auto
  moreover have "\<forall>w\<in>snd ` set (AList.delete n (bv_workers s)). \<not> bw_stop w"
    using d(3) bv_stop_worker(1) by (auto simp: AList.delete_eq)
  moreover have "distinct (dict_keys (AList.delete n (bv_workers s)))" using d(1) by (simp add: distinct_delete)
  ultimately show ?case using d(2) bv_stop_worker(1) by (intro bus_invI) (auto simp del: set_map)
next
  case (bv_await_raises s wanted w ns x)
  then show ?case by (auto intro: bus_inv_drain)
next
  case (bv_answer_raises s x)
  then show ?case by (auto intro: bus_inv_drain)
next
  case (bv_reconciled_exit s wanted)
  then show ?case by (auto intro: bus_inv_drain)
next
  case (bv_clear s)
  note d = bus_invD [OF bv_clear(3)]
  show ?case using d bv_clear(1) by (intro bus_invI) simp_all
next
  case (bv_clear_exit s)
  then show ?case by (intro bus_inv_drain [of s]) simp_all
next
  case (bv_drain_one s x n ns w)
  note d = bus_invD [OF bv_drain_one(4)]
  show ?case using d bv_drain_one(1) by (intro bus_invI) simp_all
next
  case (bv_drain_raises s x n ns w y)
  note d = bus_invD [OF bv_drain_raises(4)]
  show ?case using d bv_drain_raises(1) by (intro bus_invI) simp_all
next
  case (bv_drained s x)
  note d = bus_invD [OF bv_drained(2)]
  show ?case using d bv_drained(1) by (intro bus_invI) simp_all
next
  case (bv_register s n)
  then show ?case by (auto intro: bus_inv_flags [of s])
next
  case (bv_unregister n s)
  show ?case by (rule bus_inv_flags [OF bv_unregister(2)]) simp_all
next
  case (bv_provider s live)
  show ?case by (rule bus_inv_flags [OF bv_provider]) simp_all
next
  case (bv_membership s)
  show ?case by (rule bus_inv_flags [OF bv_membership]) (simp_all add: notify_membership_def)
next
  case (bv_answer s)
  show ?case by (rule bus_inv_move [OF bv_answer(2)]) (simp_all add: bv_answer(1))
next
  case (bv_awaited s wanted w ns)
  show ?case using bus_invD(2) [OF bv_awaited(3)] by (intro bus_inv_move [OF bv_awaited(3)]) (simp_all add: bv_awaited(1))
next
  case (bv_reconciled s wanted)
  show ?case using bus_invD(2) [OF bv_reconciled(3)] by (intro bus_inv_move [OF bv_reconciled(3)]) (auto simp: bv_reconciled(1))
next
  case (bv_wake s)
  show ?case by (rule bus_inv_move [OF bv_wake(3)]) (simp_all add: bv_wake(1))
qed

lemma bus_reaches_inv: "bus_reaches (bus_start live) s \<Longrightarrow> bus_inv s"
proof (induction rule: bus_reaches.induct)
  case bv_refl
  show ?case by (simp add: bus_inv_def bus_start_def dict_ok_def)
next
  case (bv_next t u)
  then show ?case by (blast intro: bus_inv_step)
qed

subsection \<open>The bound on concurrent pumps\<close>

text \<open>
  \<open>_pump_guarded\<close>: a worker asks, gets a slot of the semaphore when one is free, pumps, and gives the slot back however
  the pump ends. Without a semaphore it pumps at once.
\<close>

datatype pump_slot = Resting | Queued | Pumping_now

record pump_gate =
  pg_slots :: "pump_slot list"
  pg_free :: "nat option"

definition new_gate :: "nat option \<Rightarrow> nat \<Rightarrow> pump_gate" where
  "new_gate bound n = \<lparr>pg_slots = replicate n Resting, pg_free = (if bound = Some 0 then None else bound)\<rparr>"

inductive gate_step :: "pump_gate \<Rightarrow> pump_gate \<Rightarrow> bool" where
  gt_unbounded: "pg_free g = None \<Longrightarrow> i < length (pg_slots g) \<Longrightarrow> pg_slots g ! i = Resting \<Longrightarrow>
     gate_step g (g\<lparr>pg_slots := (pg_slots g)[i := Pumping_now]\<rparr>)"
| gt_ask: "pg_free g = Some k \<Longrightarrow> i < length (pg_slots g) \<Longrightarrow> pg_slots g ! i = Resting \<Longrightarrow>
     gate_step g (g\<lparr>pg_slots := (pg_slots g)[i := Queued]\<rparr>)"
| gt_acquire: "pg_free g = Some (Suc k) \<Longrightarrow> i < length (pg_slots g) \<Longrightarrow> pg_slots g ! i = Queued \<Longrightarrow>
     gate_step g (g\<lparr>pg_slots := (pg_slots g)[i := Pumping_now], pg_free := Some k\<rparr>)"
| gt_release: "i < length (pg_slots g) \<Longrightarrow> pg_slots g ! i = Pumping_now \<Longrightarrow>
     gate_step g (g\<lparr>pg_slots := (pg_slots g)[i := Resting], pg_free := map_option Suc (pg_free g)\<rparr>)"
| gt_joins: "gate_step g (g\<lparr>pg_slots := pg_slots g @ [Resting]\<rparr>)"

inductive gate_reaches :: "pump_gate \<Rightarrow> pump_gate \<Rightarrow> bool" for g where
  gr_refl: "gate_reaches g g"
| gr_step: "gate_reaches g h \<Longrightarrow> gate_step h j \<Longrightarrow> gate_reaches g j"

abbreviation pumping :: "pump_gate \<Rightarrow> nat" where
  "pumping g \<equiv> count_list (pg_slots g) Pumping_now"

lemma count_list_update:
  "i < length xs \<Longrightarrow> count_list (xs[i := y]) x + (if xs ! i = x then 1 else 0) = count_list xs x + (if y = x then 1 else 0)"
proof (induction xs arbitrary: i)
  case (Cons z xs)
  then show ?case by (cases i) (auto dest!: Cons.IH split: if_splits)
qed simp

lemma gate_slots: "gate_step g h \<Longrightarrow> pg_free g = Some k \<Longrightarrow> \<exists>k'. pg_free h = Some k' \<and> k' + pumping h = k + pumping g"
proof (induction rule: gate_step.induct)
  case (gt_ask g k' i)
  then show ?case using count_list_update [of i "pg_slots g" Queued Pumping_now] by auto
next
  case (gt_acquire g k' i)
  then show ?case using count_list_update [of i "pg_slots g" Pumping_now Pumping_now] by auto
next
  case (gt_release i g)
  then show ?case using count_list_update [of i "pg_slots g" Resting Pumping_now] by auto
qed simp_all

lemma gate_bound: "gate_reaches (new_gate (Some (Suc b)) n) g \<Longrightarrow> \<exists>k. pg_free g = Some k \<and> k + pumping g = Suc b"
proof (induction rule: gate_reaches.induct)
  case gr_refl
  show ?case by (simp add: new_gate_def)
next
  case (gr_step h j)
  then show ?case using gate_slots by metis
qed

text \<open>At most the configured number of workers pump at once, and while fewer do every queued one may go.\<close>

theorem pumps_bounded:
  assumes "gate_reaches (new_gate (Some (Suc b)) n) g"
  shows "pumping g \<le> Suc b"
    and "pumping g < Suc b \<Longrightarrow> i < length (pg_slots g) \<Longrightarrow> pg_slots g ! i = Queued \<Longrightarrow> \<exists>h. gate_step g h \<and> pg_slots h ! i = Pumping_now"
proof -
  obtain k where k: "pg_free g = Some k" "k + pumping g = Suc b" using gate_bound [OF assms] by blast
  then show "pumping g \<le> Suc b" by simp
  assume less: "pumping g < Suc b" and i: "i < length (pg_slots g)" "pg_slots g ! i = Queued"
  then obtain j where "k = Suc j" using k(2) by (cases k) auto
  with gt_acquire [of g j i] k(1) i show "\<exists>h. gate_step g h \<and> pg_slots h ! i = Pumping_now" by force
qed

subsection \<open>Properties\<close>


text \<open>A worker that died is never replaced, and draining stops at it: the exception of the first dead worker ends the drain with the
  workers behind it not awaited.\<close>

lemma dead_worker_ends_drain:
  assumes "bv_pc s = BusDraining x (n # ns)" "map_of (bv_workers s) n = Some w" "bw_end w = Some (Some y)"
  shows "bus_step s (s\<lparr>bv_pc := BusFinished (Some y)\<rparr>)"
  using assms by (rule bv_drain_raises)

definition example_bus :: bus_super where
  "example_bus = \<lparr>bv_live = [''a''], bv_workers = [(''a'', new_worker)], bv_changed = False, bv_notify_due = False, bv_stop = False,
     bv_pc = BusWaiting\<rparr>"

lemma example_bus_reached: "bus_reaches (bus_start [''a'']) example_bus"
proof -
  let ?s = "\<lambda>ws ch pc. \<lparr>bv_live = [''a''], bv_workers = ws, bv_changed = ch, bv_notify_due = False, bv_stop = False, bv_pc = pc\<rparr>"
  let ?w = "[(''a'', new_worker)]"
  have start: "bus_start [''a''] = ?s [] True BusReading" by (simp add: bus_start_def)
  have "bus_reaches (bus_start [''a'']) (?s [] True (BusAnswered [''a'']))"
    unfolding start using bv_next [OF bv_refl bv_answer, of "?s [] True BusReading"] by simp
  from bv_next [OF this bv_start] have "bus_reaches (bus_start [''a'']) (?s ?w True (BusStopping [''a''] []))"
    by (simp add: start_wanted_def)
  from bv_next [OF this bv_reconciled] have "bus_reaches (bus_start [''a'']) (?s ?w True BusWaiting)" by simp
  from bv_next [OF this bv_wake] have "bus_reaches (bus_start [''a'']) (?s ?w True BusWoken)" by simp
  from bv_next [OF this bv_clear] have "bus_reaches (bus_start [''a'']) (?s ?w False BusReading)" by simp
  from bv_next [OF this bv_answer] have "bus_reaches (bus_start [''a'']) (?s ?w False (BusAnswered [''a'']))" by simp
  from bv_next [OF this bv_start] have "bus_reaches (bus_start [''a'']) (?s ?w False (BusStopping [''a''] []))"
    by (simp add: start_wanted_def)
  from bv_next [OF this bv_reconciled] show ?thesis by (simp add: example_bus_def)
qed


end
