(* ===== verification/Local_Autobuy.thy ===== *)
theory Local_Autobuy
  imports Engine Decimal_Text
begin

text \<open>
  The embedded server of the devkit (\<open>devkit/local.py\<close>) and the autobuy example on top of it (\<open>examples/autobuy\<close>). The market
  client, the management SDK and the HTTP server are arguments. A loop that need not end is a partial function.
\<close>

subsection \<open>One purchase\<close>

text \<open>The answer of \<open>purchasing_fast_buy\<close>: a normal return, an error of the client library, an answer its model refuses, another exception.\<close>

datatype buy_reply = BuyReturned | BuyLztError string | BuyInvalid string | BuyRaised exn

record 'w market =
  mk_balance :: "'w \<Rightarrow> string result \<times> 'w"
  mk_fast_buy :: "int \<Rightarrow> decimal \<Rightarrow> 'w \<Rightarrow> buy_reply \<times> 'w"

record purchase =
  pu_item_id :: int
  pu_price :: decimal
  pu_ok :: bool
  pu_error :: "string option"

text \<open>\<open>Decimal(str(v))\<close> of a finite price; the texts of infinities and NaN are outside the model.\<close>

definition parse_decimal :: "string \<Rightarrow> decimal result" where
  "parse_decimal s = (case read_decimal s of None \<Rightarrow> Inl (StoreError ''InvalidOperation'') | Some d \<Rightarrow> Inr d)"

definition balance :: "'w market \<Rightarrow> 'w \<Rightarrow> decimal result \<times> 'w" where
  "balance mk w = (case mk_balance mk w of (r, w1) \<Rightarrow> (bind_result r parse_decimal, w1))"

definition buy :: "'w market \<Rightarrow> int \<Rightarrow> decimal \<Rightarrow> 'w \<Rightarrow> purchase result \<times> 'w" where
  "buy mk i price w =
     (case balance mk w of
        (Inl x, w1) \<Rightarrow> (Inl x, w1)
      | (Inr before, w1) \<Rightarrow>
          (case mk_fast_buy mk i price w1 of
             (BuyReturned, w2) \<Rightarrow> (Inr \<lparr>pu_item_id = i, pu_price = price, pu_ok = True, pu_error = None\<rparr>, w2)
           | (BuyLztError msg, w2) \<Rightarrow> (Inr \<lparr>pu_item_id = i, pu_price = price, pu_ok = False, pu_error = Some msg\<rparr>, w2)
           | (BuyRaised x, w2) \<Rightarrow> (Inl x, w2)
           | (BuyInvalid msg, w2) \<Rightarrow>
               (case balance mk w2 of
                  (Inl x, w3) \<Rightarrow> (Inl x, w3)
                | (Inr after, w3) \<Rightarrow>
                    (let ok = dec_less after before in
                     (Inr \<lparr>pu_item_id = i, pu_price = price, pu_ok = ok,
                        pu_error = (if ok then None else Some (''ambiguous response parse error: '' @ msg))\<rparr>, w3)))))"

subsection \<open>The buying loop\<close>

text \<open>An event of a batch is the lot's number and the text of its price.\<close>

record 'w management =
  mg_subscribe :: "'w \<Rightarrow> string result \<times> 'w"
  mg_poll :: "string \<Rightarrow> int \<Rightarrow> 'w \<Rightarrow> ((int \<times> string) list \<times> int) result \<times> 'w"
  mg_confirm :: "string \<Rightarrow> int \<Rightarrow> 'w \<Rightarrow> unit result \<times> 'w"
  mg_sleep :: "rat \<Rightarrow> 'w \<Rightarrow> 'w"

fun buy_batch :: "'w market \<Rightarrow> decimal \<Rightarrow> (int \<times> string) list \<Rightarrow> purchase list \<Rightarrow> 'w \<Rightarrow> purchase list result \<times> 'w" where
  "buy_batch mk budget [] results w = (Inr results, w)"
| "buy_batch mk budget ((i, text) # lots) results w =
     (case parse_decimal text of
        Inl x \<Rightarrow> (Inl x, w)
      | Inr price \<Rightarrow>
          if dec_less budget price then buy_batch mk budget lots results w
          else (case buy mk i price w of
                  (Inl x, w1) \<Rightarrow> (Inl x, w1)
                | (Inr r, w1) \<Rightarrow> buy_batch mk budget lots (results @ [r]) w1))"

partial_function (option) autobuy_loop ::
  "'w market \<Rightarrow> 'w management \<Rightarrow> decimal \<Rightarrow> int \<Rightarrow> rat \<Rightarrow> string \<Rightarrow> purchase list \<Rightarrow> 'w \<Rightarrow> (purchase list result \<times> 'w) option" where
  "autobuy_loop mk mg budget limit cadence sub results w =
     (if limit \<le> int (length results) then Some (Inr results, w)
      else case mg_poll mg sub 100 w of
        (Inl x, w1) \<Rightarrow> Some (Inl x, w1)
      | (Inr (lots, next_seq), w1) \<Rightarrow>
          (case buy_batch mk budget lots results w1 of
             (Inl x, w2) \<Rightarrow> Some (Inl x, w2)
           | (Inr results2, w2) \<Rightarrow>
               if lots = [] then autobuy_loop mk mg budget limit cadence sub results2 (mg_sleep mg cadence w2)
               else (case mg_confirm mg sub next_seq w2 of
                       (Inl x, w3) \<Rightarrow> Some (Inl x, w3)
                     | (Inr _, w3) \<Rightarrow> autobuy_loop mk mg budget limit cadence sub results2 w3)))"

definition autobuy_from_new_lots ::
  "'w market \<Rightarrow> 'w management \<Rightarrow> decimal \<Rightarrow> int \<Rightarrow> rat \<Rightarrow> 'w \<Rightarrow> (purchase list result \<times> 'w) option" where
  "autobuy_from_new_lots mk mg budget limit cadence w =
     (case mg_subscribe mg w of
        (Inl x, w1) \<Rightarrow> Some (Inl x, w1)
      | (Inr sub, w1) \<Rightarrow> autobuy_loop mk mg budget limit cadence sub [] w1)"

text \<open>The token is taken from the environment only; without one the process exits (\<open>None\<close>).\<close>

definition token_from_env :: "(string \<Rightarrow> string option) \<Rightarrow> string option" where
  "token_from_env env = (case env ''LZT_TOKEN'' of None \<Rightarrow> None | Some t \<Rightarrow> if t = [] then None else Some t)"

definition report :: "purchase list \<Rightarrow> string list" where
  "report ps =
     (let ok = filter pu_ok ps; failed = filter (\<lambda>p. \<not> pu_ok p) ps in
      [[CHR 0x0A] @ str_int (int (length ok)) @ '' purchased, '' @ str_int (int (length failed)) @ '' failed'']
      @ map (\<lambda>p. ''  OK   item_id='' @ str_int (pu_item_id p) @ '' price='' @ dec_str (pu_price p)) ok
      @ map (\<lambda>p. ''  FAIL item_id='' @ str_int (pu_item_id p) @ '' price='' @ dec_str (pu_price p) @ '' error=''
          @ (case pu_error p of None \<Rightarrow> ''None'' | Some e \<Rightarrow> e)) failed)"

subsection \<open>The embedded server\<close>

definition dev_enc_key :: string where
  "dev_enc_key = ''devkit-in-memory-key-not-for-production-use''"

definition default_admin_key :: string where
  "default_admin_key = ''devkit-local-key''"

text \<open>The client to use and whether the server owns it; an empty list of tokens is none.\<close>

definition local_client :: "(string list \<Rightarrow> 'c result) \<Rightarrow> 'c option \<Rightarrow> string list option \<Rightarrow> ('c \<times> bool) result" where
  "local_client make_client client tokens =
     (case client of
        Some c \<Rightarrow> Inr (c, False)
      | None \<Rightarrow>
          (case tokens of
             None \<Rightarrow> Inl ValueError
           | Some ts \<Rightarrow> if ts = [] then Inl ValueError else bind_result (make_client ts) (\<lambda>c. Inr (c, True))))"

definition or_text :: "string option \<Rightarrow> string \<Rightarrow> string" where
  "or_text v d = (case v of None \<Rightarrow> d | Some s \<Rightarrow> if s = [] then d else s)"

definition local_key :: "string option \<Rightarrow> engine_config \<Rightarrow> string" where
  "local_key admin_api_key cfg = or_text admin_api_key (or_text (Some (ec_admin_api_key cfg)) default_admin_key)"

definition local_config :: "string option \<Rightarrow> engine_config \<Rightarrow> engine_config" where
  "local_config admin_api_key cfg = cfg\<lparr>ec_admin_api_key := local_key admin_api_key cfg\<rparr>"

definition local_box :: "engine_config \<Rightarrow> box_error + secret_box" where
  "local_box cfg = new_box (or_text (Some (ec_token_enc_key cfg)) dev_enc_key) []"

text \<open>The engine over memory stores, the configuration the API serves, and the box of its accounts.\<close>

definition local_wiring ::
  "string option \<Rightarrow> engine_config \<Rightarrow> string list \<Rightarrow> wired_source list \<Rightarrow> box_error + (engine_config \<times> secret_box \<times> engine_wiring) result" where
  "local_wiring admin_api_key config consumers extra_sources =
     (let cfg = local_config admin_api_key config in
      case local_box cfg of
        Inl e \<Rightarrow> Inl e
      | Inr box \<Rightarrow> Inr (bind_result (build_memory cfg consumers 0 extra_sources) (\<lambda>w. Inr (cfg, box, w))))"

text \<open>\<open>_await_started\<close>: the server's flag and the loop's clock are read from the world, sleeping moves it on.\<close>

partial_function (option) wait_started ::
  "('w \<Rightarrow> bool) \<Rightarrow> ('w \<Rightarrow> rat) \<Rightarrow> (rat \<Rightarrow> 'w \<Rightarrow> 'w) \<Rightarrow> rat \<Rightarrow> 'w \<Rightarrow> (unit result \<times> 'w) option" where
  "wait_started started clock sleep deadline w =
     (if started w then Some (Inr (), w)
      else if deadline \<le> clock w then Some (Inl (RuntimeError ''uvicorn did not start within 10s''), w)
      else wait_started started clock sleep deadline (sleep (1 / 50) w))"

definition await_started :: "('w \<Rightarrow> bool) \<Rightarrow> ('w \<Rightarrow> rat) \<Rightarrow> (rat \<Rightarrow> 'w \<Rightarrow> 'w) \<Rightarrow> 'w \<Rightarrow> (unit result \<times> 'w) option" where
  "await_started started clock sleep w = wait_started started clock sleep (clock w + 10) w"

definition resolve_base_url :: "int option \<Rightarrow> string \<Rightarrow> int \<Rightarrow> string" where
  "resolve_base_url bound host requested_port =
     (let port = (case bound of Some p \<Rightarrow> if requested_port = 0 then p else requested_port | None \<Rightarrow> requested_port);
          display_host = (if host = ''0.0.0.0'' \<or> host = '''' then ''127.0.0.1'' else host)
      in ''http://'' @ display_host @ '':'' @ str_int port)"

text \<open>What the block is given: the URL, the key and the engine.\<close>

record 'e local_eventus =
  le_base_url :: string
  le_api_key :: string
  le_engine :: 'e

text \<open>The third task of the session: it waits for the server, hands the running server to the block, and asks the engine and the server
  to stop however either ended.\<close>

definition local_block ::
  "('w \<Rightarrow> bool) \<Rightarrow> ('w \<Rightarrow> rat) \<Rightarrow> (rat \<Rightarrow> 'w \<Rightarrow> 'w) \<Rightarrow> ('w \<Rightarrow> int option) \<Rightarrow> ('w \<Rightarrow> 'w) \<Rightarrow> ('e local_eventus \<Rightarrow> 'w \<Rightarrow> unit result \<times> 'w)
     \<Rightarrow> string \<Rightarrow> int \<Rightarrow> string \<Rightarrow> 'e \<Rightarrow> 'w \<Rightarrow> (unit result \<times> 'w) option" where
  "local_block started clock sleep bound request_stop block host port key engine w =
     (case await_started started clock sleep w of
        None \<Rightarrow> None
      | Some (Inl x, w1) \<Rightarrow> Some (Inl x, request_stop w1)
      | Some (Inr _, w1) \<Rightarrow>
          (case block \<lparr>le_base_url = resolve_base_url (bound w1) host port, le_api_key = key, le_engine = engine\<rparr> w1 of
             (r, w2) \<Rightarrow> Some (r, request_stop w2)))"

text \<open>The block's outer frame: the tasks, then the close of a client the server made itself, whatever the tasks did.\<close>

definition local_session :: "('w \<Rightarrow> unit result \<times> 'w) \<Rightarrow> ('w \<Rightarrow> unit result \<times> 'w) \<Rightarrow> bool \<Rightarrow> 'w \<Rightarrow> unit result \<times> 'w" where
  "local_session tasks close owns w =
     (case tasks w of (r, w1) \<Rightarrow>
        if owns then (case close w1 of (Inl x, w2) \<Rightarrow> (Inl x, w2) | (Inr _, w2) \<Rightarrow> (r, w2)) else (r, w1))"

subsection \<open>Facts\<close>

lemma buy_price: "buy mk i price w = (Inr r, w') \<Longrightarrow> pu_item_id r = i \<and> pu_price r = price"
  by (auto simp: buy_def Let_def split: prod.splits sum.splits buy_reply.splits)

lemma buy_batch_results:
  "buy_batch mk budget lots results w = (Inr results', w') \<Longrightarrow>
     \<exists>rs. results' = results @ rs \<and> length rs \<le> length lots \<and> (\<forall>r\<in>set rs. \<not> dec_less budget (pu_price r))
       \<and> map pu_item_id rs = map fst (filter (\<lambda>(i, text). \<exists>d. read_decimal text = Some d \<and> \<not> dec_less budget d) lots)"
proof (induction mk budget lots results w rule: buy_batch.induct)
  case (2 mk budget i t lots results w)
  obtain price where p: "read_decimal t = Some price" using 2(3) by (auto simp: parse_decimal_def split: option.splits)
  show ?case
  proof (cases "dec_less budget price")
    case True
    with 2(1) [of price] 2(3) p show ?thesis by (fastforce simp: parse_decimal_def)
  next
    case False
    obtain r w1 where b: "buy mk i price w = (Inr r, w1)" "buy_batch mk budget lots (results @ [r]) w1 = (Inr results', w')"
      using 2(3) False p by (auto simp: parse_decimal_def split: prod.splits sum.splits)
    from 2(2) [OF _ False b(1) [symmetric] refl b(2)] p obtain rs where rs: "results' = results @ r # rs"
      "length rs \<le> length lots" "\<forall>r\<in>set rs. \<not> dec_less budget (pu_price r)"
      "map pu_item_id rs = map fst (filter (\<lambda>(i, text). \<exists>d. read_decimal text = Some d \<and> \<not> dec_less budget d) lots)"
      by (auto simp: parse_decimal_def)
    then show ?thesis using False buy_price [OF b(1)] p by (intro exI [of _ "r # rs"]) auto
  qed
qed simp

lemma autobuy_loop_bounded:
  assumes pages: "\<forall>sub w lots q w'. mg_poll mg sub 100 w = (Inr (lots, q), w') \<longrightarrow> length lots \<le> 100"
    and "autobuy_loop mk mg budget limit cadence sub results w = Some (Inr rs, w')"
    and "\<forall>r\<in>set results. \<not> dec_less budget (pu_price r)" "results = [] \<or> int (length results) \<le> limit + 99"
  shows "(\<forall>r\<in>set rs. \<not> dec_less budget (pu_price r)) \<and> limit \<le> int (length rs) \<and> (rs = [] \<or> int (length rs) \<le> limit + 99)"
proof -
  let ?P = "\<lambda>results :: purchase list. (\<forall>r\<in>set results. \<not> dec_less budget (pu_price r)) \<and> (results = [] \<or> int (length results) \<le> limit + 99)"
  define Q where "Q = (\<lambda>(results :: purchase list) (out :: purchase list result \<times> 'a). ?P results \<longrightarrow>
      (case fst out of Inl _ \<Rightarrow> True | Inr rs \<Rightarrow> ?P rs \<and> limit \<le> int (length rs)))"
  have "Q results (Inr rs, w')"
  proof (rule autobuy_loop.raw_induct [OF _ assms(2), of "\<lambda>mk mg' b l c sub results w out. mk = mk \<longrightarrow> mg' = mg \<longrightarrow> b = budget \<longrightarrow> l = limit \<longrightarrow> Q results out", simplified])
    fix loop mk and mg' :: "'a management" and b l c sub results w out
    assume IH: "\<And>mk mg' b l c sub results w out. loop mk mg' b l c sub results w = Some out \<Longrightarrow>
        mg' = mg \<longrightarrow> b = budget \<longrightarrow> l = limit \<longrightarrow> Q results out"
      and step: "(if l \<le> int (length results) then Some (Inr results, w)
         else case mg_poll mg' sub 100 w of
            (Inl x, w1) \<Rightarrow> Some (Inl x, w1)
          | (Inr (lots, next_seq), w1) \<Rightarrow>
              (case buy_batch mk b lots results w1 of
                 (Inl x, w2) \<Rightarrow> Some (Inl x, w2)
               | (Inr results2, w2) \<Rightarrow>
                   if lots = [] then loop mk mg' b l c sub results2 (mg_sleep mg' c w2)
                   else (case mg_confirm mg' sub next_seq w2 of
                           (Inl x, w3) \<Rightarrow> Some (Inl x, w3)
                         | (Inr _, w3) \<Rightarrow> loop mk mg' b l c sub results2 w3))) = Some out"
    show "mg' = mg \<longrightarrow> b = budget \<longrightarrow> l = limit \<longrightarrow> Q results out"
    proof (intro impI)
      assume same: "mg' = mg" "b = budget" "l = limit"
      show "Q results out"
      proof (cases "limit \<le> int (length results)")
        case True
        with step same show ?thesis by (auto simp: Q_def)
      next
        case False
        have batch: "?P results2" if "mg_poll mg sub 100 w = (Inr (lots, q), w1)" "buy_batch mk budget lots results w1 = (Inr results2, w2)"
          "?P results" for lots q w1 results2 w2
        proof -
          from buy_batch_results [OF that(2)] obtain rs where "results2 = results @ rs" "length rs \<le> length lots"
            "\<forall>r\<in>set rs. \<not> dec_less budget (pu_price r)" by blast
          moreover have "length lots \<le> 100" using pages that(1) by blast
          ultimately show ?thesis using that(3) False by auto
        qed
        show ?thesis
        proof (cases "mg_poll mg sub 100 w")
          case (Pair r w1)
          show ?thesis
          proof (cases r)
            case (Inl x)
            with step same False Pair show ?thesis by (auto simp: Q_def)
          next
            case (Inr page)
            obtain lots q where page: "page = (lots, q)" by fastforce
            obtain r2 w2 where b: "buy_batch mk budget lots results w1 = (r2, w2)" by fastforce
            show ?thesis
            proof (cases r2)
              case Inl
              with step same False Pair Inr page b show ?thesis by (auto simp: Q_def)
            next
              case (Inr results2)
              note pages2 = batch [OF Pair [unfolded \<open>r = Inr page\<close> page] b [unfolded Inr]]
              have "Q results2 out \<or> (\<exists>x. fst out = Inl x)"
                using step same False Pair \<open>r = Inr page\<close> page b Inr IH
                by (auto split: if_splits prod.splits sum.splits)
              with pages2 show ?thesis by (auto simp: Q_def)
            qed
          qed
        qed
      qed
    qed
  qed
  with assms(3,4) show ?thesis by (auto simp: Q_def)
qed

subsection \<open>Properties\<close>


text \<open>Waiting for the server ends after at most 500 sleeps when each sleep moves the clock by what was asked for: it returns at the first
  look that finds the server started, and raises only when none did before the deadline.\<close>

lemma wait_started_ends:
  assumes "\<forall>w. clock w + 1 / 50 \<le> clock (sleep (1 / 50) w)" "deadline - clock w \<le> of_nat n / (50 :: rat)"
  shows "\<exists>k r. k \<le> n \<and> wait_started started clock sleep deadline w = Some (r, (sleep (1 / 50) ^^ k) w)
    \<and> (\<forall>j<k. \<not> started ((sleep (1 / 50) ^^ j) w)) \<and> (r = Inr () \<longleftrightarrow> started ((sleep (1 / 50) ^^ k) w))"
  using assms(2)
proof (induction n arbitrary: w)
  case 0
  then show ?case by (intro exI [of _ 0]) (subst wait_started.simps, simp)
next
  case (Suc n)
  show ?case
  proof (cases "started w \<or> deadline \<le> clock w")
    case True
    then show ?thesis by (intro exI [of _ 0]) (subst wait_started.simps, auto)
  next
    case False
    have "deadline - clock (sleep (1 / 50) w) \<le> of_nat n / 50"
      using Suc.prems assms(1) [rule_format, of w] by (simp add: field_simps)
    from Suc.IH [OF this] obtain k r where k: "k \<le> n"
      "wait_started started clock sleep deadline (sleep (1 / 50) w) = Some (r, (sleep (1 / 50) ^^ k) (sleep (1 / 50) w))"
      "\<forall>j<k. \<not> started ((sleep (1 / 50) ^^ j) (sleep (1 / 50) w))"
      "r = Inr () \<longleftrightarrow> started ((sleep (1 / 50) ^^ k) (sleep (1 / 50) w))" by blast
    have "wait_started started clock sleep deadline w = Some (r, (sleep (1 / 50) ^^ Suc k) w)"
      using False k(2) by (subst wait_started.simps) (simp add: funpow_swap1)
    moreover have "\<forall>j<Suc k. \<not> started ((sleep (1 / 50) ^^ j) w)"
      using k(3) False by (auto simp: less_Suc_eq_0_disj funpow_swap1)
    ultimately show ?thesis using k(1,4) by (intro exI [of _ "Suc k"] exI [of _ r]) (simp add: funpow_swap1)
  qed
qed

theorem start_wait_ends:
  assumes "\<forall>w. clock w + 1 / 50 \<le> clock (sleep (1 / 50) w)"
  shows "\<exists>k r. k \<le> 500 \<and> await_started started clock sleep w = Some (r, (sleep (1 / 50) ^^ k) w)
    \<and> (\<forall>j<k. \<not> started ((sleep (1 / 50) ^^ j) w)) \<and> (r = Inr () \<longleftrightarrow> started ((sleep (1 / 50) ^^ k) w))"
  using wait_started_ends [of clock sleep "clock w + 10" w 500 started, OF assms] by (simp add: await_started_def)

text \<open>A market with a fixed balance where every buy returns, and an API that always answers the same two lots.\<close>

definition example_market :: "unit market" where
  "example_market = \<lparr>mk_balance = (\<lambda>w. (Inr ''100'', w)), mk_fast_buy = (\<lambda>i p w. (BuyReturned, w))\<rparr>"

definition example_management :: "unit management" where
  "example_management = \<lparr>mg_subscribe = (\<lambda>w. (Inr ''s'', w)),
     mg_poll = (\<lambda>sub n w. (Inr (if 2 \<le> n then [(1, ''5''), (2, ''7'')] else [], 2), w)),
     mg_confirm = (\<lambda>sub n w. (Inr (), w)), mg_sleep = (\<lambda>x w. w)\<rparr>"

lemma example_prices: "read_decimal ''5'' = Some (Decimal 5 0)" "read_decimal ''7'' = Some (Decimal 7 0)"
  "read_decimal ''100'' = Some (Decimal 100 0)"
  by code_simp+


theorem start_wait_ends_witness:
  "\<exists>k r. k \<le> 500 \<and> await_started (\<lambda>w :: rat. 3 \<le> w) (\<lambda>w. w) (+) 1 = Some (r, ((+) (1 / 50) ^^ k) (1 :: rat))
     \<and> (r = Inr () \<longleftrightarrow> 3 \<le> ((+) (1 / 50) ^^ k) (1 :: rat))"
proof -
  have "\<forall>w :: rat. w + 1 / 50 \<le> 1 / 50 + w" by simp
  from start_wait_ends [of "\<lambda>w. w" "(+)" "\<lambda>w :: rat. 3 \<le> w" 1, OF this] show ?thesis by blast
qed

end
