(* ===== verification/Web_App.thy ===== *)
theory Web_App
  imports Token_Admin Streams Inbound Engine_Config
begin

text \<open>
  The served application: the app factory (\<open>web/main.py\<close>), the dependencies (\<open>web/shared/deps.py\<close>), the engine's surface
  (\<open>web/shared/handle.py\<close>), the discovery and health routes (\<open>web/routes/meta.py\<close>), the API page (\<open>web/routes/scalar.py\<close>), and
  the way of a request through the two middlewares, the router, the admin gate and a handler of the other theories. The bodies and
  the scalar parameters are parsed by the validation library, which is an argument; the routes the web library adds itself
  (the OpenAPI text, \<open>/docs\<close>) are left out.
\<close>

subsection \<open>Requests and routes\<close>

record http_request =
  hr_method :: string
  hr_path :: string
  hr_headers :: "string \<Rightarrow> string option"
  hr_query :: "(string \<times> string) list"
  hr_body :: "byte list"

text \<open>A parameter given twice: the last value counts, unless all are asked for.\<close>

definition query_get :: "http_request \<Rightarrow> string \<Rightarrow> string option" where
  "query_get rq k = map_of (rev (hr_query rq)) k"

definition query_all :: "http_request \<Rightarrow> string \<Rightarrow> string list" where
  "query_all rq k = map snd (filter (\<lambda>(x, v). x = k) (hr_query rq))"

datatype route =
    SubCreate | SubList | SubGet | SubUpdate | SubDeactivate | SubTestRoute
  | TokRegister | TokByAlias | TokMetadata | TokAliasAdd | TokAliases | TokList | TokDeactivate
  | StreamSse | EventsPending | EventsRead | InboundInvoice
  | EventTypes | Healthz | Readyz | MetricsRoute | ScalarDocs

text \<open>The routers in the order they are included; the API page only when the documentation is on.\<close>

definition app_routes :: "engine_config \<Rightarrow> ((string \<times> string) \<times> route) list" where
  "app_routes cfg =
     [((''POST'', ''/subscriptions/create''), SubCreate), ((''GET'', ''/subscriptions/list''), SubList),
      ((''GET'', ''/subscriptions/get''), SubGet), ((''POST'', ''/subscriptions/update''), SubUpdate),
      ((''POST'', ''/subscriptions/deactivate''), SubDeactivate), ((''POST'', ''/subscriptions/test''), SubTestRoute),
      ((''POST'', ''/tokens/register''), TokRegister), ((''GET'', ''/tokens/by-alias''), TokByAlias),
      ((''POST'', ''/tokens/metadata''), TokMetadata), ((''POST'', ''/tokens/aliases/add''), TokAliasAdd),
      ((''GET'', ''/tokens/aliases''), TokAliases), ((''GET'', ''/tokens/list''), TokList),
      ((''POST'', ''/tokens/deactivate''), TokDeactivate), ((''GET'', ''/streams/sse''), StreamSse),
      ((''GET'', ''/events/pending''), EventsPending), ((''POST'', ''/events/read_events''), EventsRead),
      ((''POST'', ''/inbound/invoice''), InboundInvoice), ((''GET'', ''/event-types''), EventTypes),
      ((''GET'', ''/healthz''), Healthz), ((''GET'', ''/readyz''), Readyz), ((''GET'', ''/metrics''), MetricsRoute)]
     @ (if ec_web_docs_enabled cfg then [((''GET'', ''/scalar''), ScalarDocs)] else [])"

definition docs_url :: "engine_config \<Rightarrow> string option" where
  "docs_url cfg = (if ec_web_docs_enabled cfg then Some ''/docs'' else None)"

text \<open>The first route with the path and the method; a known path with another method is not allowed.\<close>

datatype routing = Found route | WrongMethod | Unknown

definition find_route :: "engine_config \<Rightarrow> http_request \<Rightarrow> routing" where
  "find_route cfg rq =
     (case map_of (app_routes cfg) (hr_method rq, hr_path rq) of
        Some r \<Rightarrow> Found r
      | None \<Rightarrow> if list_ex (\<lambda>((m, p), r). p = hr_path rq) (app_routes cfg) then WrongMethod else Unknown)"

text \<open>The routes with the admin dependency.\<close>

definition admin_route :: "route \<Rightarrow> bool" where
  "admin_route r \<longleftrightarrow> \<not> (r = StreamSse \<or> r = InboundInvoice \<or> r = Healthz \<or> r = Readyz \<or> r = MetricsRoute \<or> r = ScalarDocs)"

subsection \<open>Parameters\<close>

datatype 'a parsed = NotJson | Invalid | Parsed 'a

definition parsed_map :: "('a \<Rightarrow> 'b) \<Rightarrow> 'a parsed \<Rightarrow> 'b parsed" where
  "parsed_map f p = (case p of NotJson \<Rightarrow> NotJson | Invalid \<Rightarrow> Invalid | Parsed x \<Rightarrow> Parsed (f x))"

definition parsed_opt :: "'a option \<Rightarrow> 'a parsed" where
  "parsed_opt p = (case p of None \<Rightarrow> Invalid | Some x \<Rightarrow> Parsed x)"

text \<open>What the validation library makes of a body or of a scalar parameter.\<close>

record parsers =
  ps_create :: "byte list \<Rightarrow> sub_create parsed"
  ps_update :: "byte list \<Rightarrow> sub_update parsed"
  ps_ref :: "byte list \<Rightarrow> string parsed"
  ps_account :: "byte list \<Rightarrow> account_create parsed"
  ps_account_change :: "byte list \<Rightarrow> account_update parsed"
  ps_alias :: "byte list \<Rightarrow> (string \<times> string) parsed"
  ps_account_ref :: "byte list \<Rightarrow> string parsed"
  ps_read :: "byte list \<Rightarrow> (string \<times> int) parsed"
  ps_int :: "string \<Rightarrow> int option"
  ps_bool :: "string \<Rightarrow> bool option"

definition with_default :: "(string \<Rightarrow> 'a option) \<Rightarrow> 'a \<Rightarrow> string option \<Rightarrow> 'a option" where
  "with_default parse d raw = (case raw of None \<Rightarrow> Some d | Some s \<Rightarrow> parse s)"

definition at_least :: "int \<Rightarrow> int option \<Rightarrow> nat option" where
  "at_least low n = (case n of None \<Rightarrow> None | Some i \<Rightarrow> if low \<le> i then Some (nat i) else None)"

definition pagination :: "(string \<Rightarrow> int option) \<Rightarrow> string option \<Rightarrow> string option \<Rightarrow> (nat \<times> nat) option" where
  "pagination parse limit offset =
     (case at_least 1 (with_default parse 50 limit) of
        None \<Rightarrow> None
      | Some l \<Rightarrow> (case at_least 0 (with_default parse 0 offset) of None \<Rightarrow> None | Some n \<Rightarrow> Some (l, n)))"

definition default_pending_limit :: int where
  "default_pending_limit = 100"

datatype api_call =
    CallSub sub_request
  | CallAccount account_request
  | CallPending poll_request
  | CallRead string int
  | CallStream string
  | CallInvoice
  | CallEventTypes
  | CallHealthz
  | CallReadyz
  | CallMetrics
  | CallScalar

definition page_call :: "parsers \<Rightarrow> http_request \<Rightarrow> (nat \<Rightarrow> nat \<Rightarrow> bool \<Rightarrow> api_call) \<Rightarrow> api_call parsed" where
  "page_call ps rq f =
     (case pagination (ps_int ps) (query_get rq ''limit'') (query_get rq ''offset'') of
        None \<Rightarrow> Invalid
      | Some (limit, offset) \<Rightarrow>
          parsed_map (f limit offset) (parsed_opt (with_default (ps_bool ps) False (query_get rq ''active_only''))))"

definition pending_call :: "parsers \<Rightarrow> http_request \<Rightarrow> api_call parsed" where
  "pending_call ps rq =
     (case query_get rq ''subscription_id'' of
        None \<Rightarrow> Invalid
      | Some i \<Rightarrow>
          (case at_least 1 (with_default (ps_int ps) default_pending_limit (query_get rq ''limit'')) of
             None \<Rightarrow> Invalid
           | Some limit \<Rightarrow>
               parsed_map (\<lambda>read_all. CallPending \<lparr>pq_subscription_id = i,
                   pq_event_type = (if query_all rq ''event_type'' = [] then None else Some (query_all rq ''event_type'')),
                   pq_limit = limit, pq_read_all = read_all\<rparr>)
                 (parsed_opt (with_default (ps_bool ps) False (query_get rq ''read_all'')))))"

fun call_of :: "parsers \<Rightarrow> route \<Rightarrow> http_request \<Rightarrow> api_call parsed" where
  "call_of ps SubCreate rq = parsed_map (\<lambda>x. CallSub (CreateSub x)) (ps_create ps (hr_body rq))"
| "call_of ps SubList rq = page_call ps rq (\<lambda>l n a. CallSub (ListSubs l n a))"
| "call_of ps SubGet rq = parsed_map (\<lambda>i. CallSub (GetSub i)) (parsed_opt (query_get rq ''subscription_id''))"
| "call_of ps SubUpdate rq = parsed_map (\<lambda>x. CallSub (UpdateSub x)) (ps_update ps (hr_body rq))"
| "call_of ps SubDeactivate rq = parsed_map (\<lambda>i. CallSub (DeactivateSub i)) (ps_ref ps (hr_body rq))"
| "call_of ps SubTestRoute rq = parsed_map (\<lambda>i. CallSub (TestSub i)) (ps_ref ps (hr_body rq))"
| "call_of ps TokRegister rq = parsed_map (\<lambda>x. CallAccount (RegisterAccount x)) (ps_account ps (hr_body rq))"
| "call_of ps TokByAlias rq = parsed_map (\<lambda>a. CallAccount (TokenByAlias a)) (parsed_opt (query_get rq ''alias''))"
| "call_of ps TokMetadata rq = parsed_map (\<lambda>x. CallAccount (UpdateAccount x)) (ps_account_change ps (hr_body rq))"
| "call_of ps TokAliasAdd rq = parsed_map (\<lambda>(i, a). CallAccount (AddAlias i a)) (ps_alias ps (hr_body rq))"
| "call_of ps TokAliases rq = parsed_map (\<lambda>i. CallAccount (ListAliases i)) (parsed_opt (query_get rq ''account_id''))"
| "call_of ps TokList rq = page_call ps rq (\<lambda>l n a. CallAccount (ListAccounts l n a))"
| "call_of ps TokDeactivate rq = parsed_map (\<lambda>i. CallAccount (DeactivateAccount i)) (ps_account_ref ps (hr_body rq))"
| "call_of ps StreamSse rq = parsed_map CallStream (parsed_opt (query_get rq ''subscription_id''))"
| "call_of ps EventsPending rq = pending_call ps rq"
| "call_of ps EventsRead rq = parsed_map (\<lambda>(i, n). CallRead i n) (ps_read ps (hr_body rq))"
| "call_of ps InboundInvoice rq = Parsed CallInvoice"
| "call_of ps EventTypes rq = Parsed CallEventTypes"
| "call_of ps Healthz rq = Parsed CallHealthz"
| "call_of ps Readyz rq = Parsed CallReadyz"
| "call_of ps MetricsRoute rq = Parsed CallMetrics"
| "call_of ps ScalarDocs rq = Parsed CallScalar"

subsection \<open>The engine's surface\<close>

text \<open>The stores the handlers work on, and what they take from outside of them. The subscription operations carry the cursors of
  the same state; the polling operations read the log the inbound handler appends to.\<close>

record ('r, 'c, 'a, 'e, 'l) app_state =
  ap_admin :: "('r, 'c) admin_state"
  ap_accounts :: "('a, 'e) account_state"
  ap_inbound :: "'l inbound_state"

record ('r, 'c, 'a, 'e, 'l) engine_handle =
  eh_config :: engine_config
  eh_parsers :: parsers
  eh_subscriptions :: "('r, 'c) admin_ops"
  eh_get :: "'r \<Rightarrow> string \<Rightarrow> sink_sub option result"
  eh_sub_env :: web_env
  eh_accounts :: "('a, 'e) account_ops"
  eh_account_env :: account_env
  eh_polling :: "('l, 'c) poll_ops"
  eh_others :: "nat \<Rightarrow> cursor_writes \<times> cursor_writes"
  eh_append :: "domain_event list \<Rightarrow> last_seen_batch \<Rightarrow> 'l \<Rightarrow> int result \<times> 'l"
  eh_other :: category
  eh_parse_invoice :: "byte list \<Rightarrow> inbound_invoice option"
  eh_now :: datetime
  eh_ready :: "bool result"
  eh_metrics :: "byte list option"

text \<open>What a route answers with.\<close>

datatype 'l app_body =
    SubBody sub_response
  | AccountBody account_response
  | PendingBody pending_out
  | ReadBody string int
  | TypesBody "string list"
  | OkBody
  | MetricsBody "byte list"
  | StreamBody sink_sub "'l feed"
  | HtmlBody string
  | InvalidBody
  | MethodBody
  | UnknownBody
  | ErrorBody json

definition event_types :: "string list" where
  "event_types = sort (map snd event_type_values)"

definition openapi_url :: string where
  "openapi_url = ''/openapi.json''"

definition nl :: string where
  "nl = [CHR 0x0A]"

definition scalar_page :: "string \<Rightarrow> string" where
  \<open>scalar_page url = ''<!doctype html>'' @ nl @ ''<html>'' @ nl @ ''  <head>'' @ nl
     @ ''    <title>lzt-core management API</title>'' @ nl @ ''    <meta charset="utf-8" />'' @ nl
     @ ''    <meta name="viewport" content="width=device-width, initial-scale=1" />'' @ nl @ ''  </head>'' @ nl @ ''  <body>'' @ nl
     @ ''    <script id="api-reference" data-url="'' @ url @ ''"></script>'' @ nl
     @ ''    <script src="https://cdn.jsdelivr.net/npm/@scalar/api-reference"></script>'' @ nl @ ''  </body>'' @ nl @ ''</html>'' @ nl\<close>

definition readyz :: "bool result \<Rightarrow> unit web_result" where
  "readyz ready =
     bind_web (lift_result ready) (\<lambda>ok. if ok then Inr () else Inl (Web (ServiceUnavailable ''dependencies not ready'')))"

definition metrics_body :: "byte list option \<Rightarrow> byte list" where
  "metrics_body render = (case render of None \<Rightarrow> [] | Some b \<Rightarrow> b)"

text \<open>The readiness probe of the daemon: any exception of the query is an answer of no.\<close>

definition daemon_ready :: "unit result \<Rightarrow> bool result" where
  "daemon_ready query = (case query of Inl x \<Rightarrow> Inr False | Inr _ \<Rightarrow> Inr True)"

subsection \<open>From a call to an answer\<close>

fun run_call ::
  "('r, 'c, 'a, 'e, 'l) engine_handle \<Rightarrow> http_request \<Rightarrow> api_call \<Rightarrow> ('r, 'c, 'a, 'e, 'l) app_state
     \<Rightarrow> 'l app_body web_result \<times> ('r, 'c, 'a, 'e, 'l) app_state" where
  "run_call h rq (CallSub r) st =
     (case map_web SubBody (handle_sub (eh_subscriptions h) (eh_sub_env h) r (ap_admin st)) of
        (res, a) \<Rightarrow> (res, st\<lparr>ap_admin := a\<rparr>))"
| "run_call h rq (CallAccount r) st =
     (case map_web AccountBody (handle_account (eh_accounts h) (eh_account_env h) r (ap_accounts st)) of
        (res, a) \<Rightarrow> (res, st\<lparr>ap_accounts := a\<rparr>))"
| "run_call h rq (CallPending r) st =
     (case map_web PendingBody (pending (eh_subscriptions h) (eh_polling h) (eh_others h) (ib_log (ap_inbound st)) r (ap_admin st)) of
        (res, a) \<Rightarrow> (res, st\<lparr>ap_admin := a\<rparr>))"
| "run_call h rq (CallRead i n) st =
     (case map_web (\<lambda>(j, m). ReadBody j m) (read_events (eh_subscriptions h) (eh_polling h) (eh_others h) i n (ap_admin st)) of
        (res, a) \<Rightarrow> (res, st\<lparr>ap_admin := a\<rparr>))"
| "run_call h rq (CallStream i) st =
     (bind_web (sse_open (eh_get h) i (hr_headers rq ''Authorization'') (hr_headers rq ''X-Stream-Token'')
          (hr_headers rq ''Last-Event-ID'') (as_repo (ap_admin st)) (ib_log (ap_inbound st))) (\<lambda>(sub, f). Inr (StreamBody sub f)), st)"
| "run_call h rq CallInvoice st =
     (case map_web (\<lambda>u. OkBody) (receive_invoice (eh_append h) (eh_other h) (eh_parse_invoice h)
          (ec_lolz_webhook_secret (eh_config h)) (eh_now h) (hr_body rq) (hr_headers rq ''X-Signature'') (ap_inbound st)) of
        (res, s) \<Rightarrow> (res, st\<lparr>ap_inbound := s\<rparr>))"
| "run_call h rq CallEventTypes st = (Inr (TypesBody event_types), st)"
| "run_call h rq CallHealthz st = (Inr OkBody, st)"
| "run_call h rq CallReadyz st = (bind_web (readyz (eh_ready h)) (\<lambda>u. Inr OkBody), st)"
| "run_call h rq CallMetrics st = (Inr (MetricsBody (metrics_body (eh_metrics h))), st)"
| "run_call h rq CallScalar st = (Inr (HtmlBody (scalar_page openapi_url)), st)"

text \<open>A body that is not JSON is refused first, then the key is looked at, then the parameters.\<close>

definition app_gate :: "engine_config \<Rightarrow> route \<Rightarrow> http_request \<Rightarrow> unit web_result" where
  "app_gate cfg r rq =
     (if admin_route r then require_admin (ec_admin_api_key cfg) (hr_headers rq ''Authorization'') (hr_headers rq ''X-API-Key'')
      else Inr ())"

definition run_route ::
  "('r, 'c, 'a, 'e, 'l) engine_handle \<Rightarrow> route \<Rightarrow> http_request \<Rightarrow> ('r, 'c, 'a, 'e, 'l) app_state
     \<Rightarrow> 'l app_body web_result \<times> ('r, 'c, 'a, 'e, 'l) app_state" where
  "run_route h r rq st =
     (case call_of (eh_parsers h) r rq of
        NotJson \<Rightarrow> (Inr InvalidBody, st)
      | p \<Rightarrow>
          (case app_gate (eh_config h) r rq of
             Inl e \<Rightarrow> (Inl e, st)
           | Inr _ \<Rightarrow> (case p of Parsed c \<Rightarrow> run_call h rq c st | _ \<Rightarrow> (Inr InvalidBody, st))))"

definition route_request ::
  "('r, 'c, 'a, 'e, 'l) engine_handle \<Rightarrow> http_request \<Rightarrow> ('r, 'c, 'a, 'e, 'l) app_state
     \<Rightarrow> 'l app_body web_result \<times> ('r, 'c, 'a, 'e, 'l) app_state" where
  "route_request h rq st =
     (case find_route (eh_config h) rq of
        Unknown \<Rightarrow> (Inr UnknownBody, st)
      | WrongMethod \<Rightarrow> (Inr MethodBody, st)
      | Found r \<Rightarrow> run_route h r rq st)"

text \<open>The limit check in front of the router.\<close>

definition limited_request ::
  "('r, 'c, 'a, 'e, 'l) engine_handle \<Rightarrow> http_request \<Rightarrow> ('r, 'c, 'a, 'e, 'l) app_state
     \<Rightarrow> 'l app_body web_result \<times> ('r, 'c, 'a, 'e, 'l) app_state" where
  "limited_request h rq st =
     (case limit_dispatch (ec_max_query_limit (eh_config h)) (query_get rq ''limit'') (\<lambda>u. Inr ()) of
        Inl e \<Rightarrow> (Inl e, st)
      | Inr _ \<Rightarrow> route_request h rq st)"

record 'l app_response =
  rs_status :: int
  rs_body :: "'l app_body"
  rs_request_id :: "string option"

fun body_status :: "'l app_body \<Rightarrow> int" where
  "body_status InvalidBody = 422"
| "body_status MethodBody = 405"
| "body_status UnknownBody = 404"
| "body_status b = 200"

text \<open>The header is set after the inner application returns: an unhandled exception passes it by and is answered outside.\<close>

definition respond :: "string \<Rightarrow> 'l app_body web_result \<Rightarrow> 'l app_response" where
  "respond rid res =
     (case res of
        Inr b \<Rightarrow> \<lparr>rs_status = body_status b, rs_body = b, rs_request_id = Some rid\<rparr>
      | Inl e \<Rightarrow> \<lparr>rs_status = fst (error_response (Some rid) e), rs_body = ErrorBody (snd (error_response (Some rid) e)),
          rs_request_id = (case e of Web w \<Rightarrow> Some rid | Unhandled x \<Rightarrow> None)\<rparr>)"

definition serve ::
  "('r, 'c, 'a, 'e, 'l) engine_handle \<Rightarrow> string \<Rightarrow> http_request \<Rightarrow> ('r, 'c, 'a, 'e, 'l) app_state
     \<Rightarrow> 'l app_response \<times> ('r, 'c, 'a, 'e, 'l) app_state" where
  "serve h fresh rq st =
     (case limited_request h rq st of (res, st') \<Rightarrow> (respond (request_id (hr_headers rq ''X-Request-ID'') fresh) res, st'))"

text \<open>The opening of a WebSocket: the first message is the subscription, its token and where to resume, or is refused.\<close>

datatype 'l ws_opening = WsRefused int | WsOpened sink_sub "'l ws_conn" | WsRaised web_exn

definition ws_open ::
  "('r \<Rightarrow> string \<Rightarrow> sink_sub option result) \<Rightarrow> (string \<times> string \<times> int) option \<Rightarrow> 'r \<Rightarrow> 'l \<Rightarrow> 'l ws_opening" where
  "ws_open get auth r lg =
     (case auth of
        None \<Rightarrow> WsRefused 1008
      | Some (i, token, after) \<Rightarrow>
          (case resolve_stream_sub get i (Some token) r of
             Inr sub \<Rightarrow> WsOpened sub (ws_start lg after)
           | Inl (Web (Unauthorized reason)) \<Rightarrow> WsRefused 1008
           | Inl x \<Rightarrow> WsRaised x))"

subsection \<open>Facts\<close>

lemma map_web_Inr: "map_web f r = (Inr y, s) \<longleftrightarrow> (\<exists>x. fst r = Inr x \<and> y = f x) \<and> snd r = s"
  by (cases r) (auto simp: map_web_def bind_web_Inr_iff)

text \<open>What may be shown to a client that has no admin key: a stream only to who holds its token.\<close>

fun public_body :: "http_request \<Rightarrow> 'l app_body \<Rightarrow> bool" where
  "public_body rq (StreamBody sub f) \<longleftrightarrow>
     (\<exists>token. extract_bearer (hr_headers rq ''Authorization'') (hr_headers rq ''X-Stream-Token'') = Some token
        \<and> su_token_hash sub = Some (hash_stream_token token))"
| "public_body rq (SubBody r) \<longleftrightarrow> False"
| "public_body rq (AccountBody r) \<longleftrightarrow> False"
| "public_body rq (PendingBody r) \<longleftrightarrow> False"
| "public_body rq (ReadBody i n) \<longleftrightarrow> False"
| "public_body rq (TypesBody ts) \<longleftrightarrow> False"
| "public_body rq b \<longleftrightarrow> True"

definition signed_invoice :: "engine_config \<Rightarrow> http_request \<Rightarrow> bool" where
  "signed_invoice cfg rq \<longleftrightarrow> hr_path rq = ''/inbound/invoice'' \<and> ec_lolz_webhook_secret cfg \<noteq> []
     \<and> hr_headers rq ''X-Signature'' = Some (signature_header (ec_lolz_webhook_secret cfg) (hr_body rq))"

definition public_outcome ::
  "engine_config \<Rightarrow> http_request \<Rightarrow> ('r, 'c, 'a, 'e, 'l) app_state \<Rightarrow> 'l app_body web_result \<times> ('r, 'c, 'a, 'e, 'l) app_state \<Rightarrow> bool" where
  "public_outcome cfg rq st out \<longleftrightarrow>
     (case fst out of Inl e \<Rightarrow> True | Inr b \<Rightarrow> public_body rq b)
     \<and> ap_admin (snd out) = ap_admin st \<and> ap_accounts (snd out) = ap_accounts st \<and> (snd out = st \<or> signed_invoice cfg rq)"

lemma resolved_stream:
  assumes "resolve_stream_sub get i token r = Inr sub"
  shows "\<exists>t. token = Some t \<and> su_token_hash sub = Some (hash_stream_token t)"
proof -
  obtain found where "(case found of None \<Rightarrow> Inl (Web (Unauthorized ''invalid stream token''))
       | Some s \<Rightarrow> (case su_token_hash s of None \<Rightarrow> Inl (Web (Unauthorized ''invalid stream token''))
                    | Some h \<Rightarrow> bind_web (verify_stream_token token h) (\<lambda>_. Inr s))) = Inr sub"
    using assms by (auto simp: resolve_stream_sub_def bind_web_Inr_iff)
  then show ?thesis
    by (auto simp: bind_web_Inr_iff verify_stream_token_def ct_equal_iff split: option.splits if_splits)
qed

lemma stream_token_matches:
  "sse_open get i auth tok le r lg = Inr (sub, f) \<Longrightarrow>
     \<exists>t. extract_bearer auth tok = Some t \<and> su_token_hash sub = Some (hash_stream_token t)"
  by (auto simp: sse_open_def bind_web_Inr_iff dest: resolved_stream)

lemma found_invoice: "find_route cfg rq = Found InboundInvoice \<Longrightarrow> hr_path rq = ''/inbound/invoice''"
  by (auto simp: find_route_def app_routes_def split: option.splits if_splits)

text \<open>The calls that belong to a route without the admin dependency.\<close>

lemma public_call:
  assumes "call_of ps r rq = Parsed c" "\<not> admin_route r"
  shows "c \<in> {CallInvoice, CallHealthz, CallReadyz, CallMetrics, CallScalar} \<union> range CallStream \<and> (c = CallInvoice \<longrightarrow> r = InboundInvoice)"
  using assms by (cases r) (auto simp: admin_route_def parsed_map_def split: parsed.splits)

lemma public_run_call:
  assumes "c \<in> {CallInvoice, CallHealthz, CallReadyz, CallMetrics, CallScalar} \<union> range CallStream"
    "c = CallInvoice \<Longrightarrow> hr_path rq = ''/inbound/invoice''"
  shows "public_outcome (eh_config h) rq st (run_call h rq c st)"
proof -
  consider (stream) i where "c = CallStream i" | (invoice) "c = CallInvoice" | (other) "c \<in> {CallHealthz, CallReadyz, CallMetrics, CallScalar}"
    using assms(1) by blast
  then show ?thesis
  proof cases
    case stream
    then show ?thesis
      by (auto simp: public_outcome_def bind_web_def dest: stream_token_matches split: sum.splits)
  next
    case invoice
    have "snd (run_call h rq c st) = st \<or> signed_invoice (eh_config h) rq"
    proof (cases "verify_signature (hr_body rq) (hr_headers rq ''X-Signature'') (ec_lolz_webhook_secret (eh_config h))")
      case (Inl x)
      then show ?thesis by (simp add: invoice receive_invoice_def map_web_def)
    next
      case (Inr u)
      then show ?thesis using assms(2) invoice by (simp add: signed_invoice_def verify_signature_iff)
    qed
    then show ?thesis by (auto simp: invoice public_outcome_def map_web_def bind_web_def split: sum.splits prod.splits)
  next
    case other
    then show ?thesis by (auto simp: public_outcome_def bind_web_def split: sum.splits)
  qed
qed

lemma public_request:
  assumes "require_admin (ec_admin_api_key (eh_config h)) (hr_headers rq ''Authorization'') (hr_headers rq ''X-API-Key'') \<noteq> Inr ()"
  shows "public_outcome (eh_config h) rq st (limited_request h rq st)"
proof -
  have same: "public_outcome (eh_config h) rq st (Inl e, st)" for e by (simp add: public_outcome_def)
  have plain: "public_body rq b \<Longrightarrow> public_outcome (eh_config h) rq st (Inr b, st)" for b by (simp add: public_outcome_def)
  have gate: "app_gate (eh_config h) r rq = Inr u \<Longrightarrow> \<not> admin_route r" for r u
    using assms by (auto simp: app_gate_def split: if_splits)
  have "public_outcome (eh_config h) rq st (run_route h r rq st)" if "find_route (eh_config h) rq = Found r" for r
  proof (cases "call_of (eh_parsers h) r rq")
    case (Parsed c)
    then show ?thesis
      using public_run_call [of c rq h st] public_call [OF Parsed] gate [of r] same found_invoice [of "eh_config h" rq] that
      by (auto simp: run_route_def split: sum.splits)
  qed (auto simp: run_route_def same plain split: sum.splits)
  then have "public_outcome (eh_config h) rq st (route_request h rq st)"
    by (auto simp: route_request_def plain split: routing.splits)
  then show ?thesis by (auto simp: limited_request_def same split: sum.splits)
qed

text \<open>With the key, every call that parses is run, and what it answers is the answer.\<close>

lemma request_with_key:
  assumes "require_admin (ec_admin_api_key (eh_config h)) (hr_headers rq ''Authorization'') (hr_headers rq ''X-API-Key'') = Inr ()"
    and "find_route (eh_config h) rq = Found r" "call_of (eh_parsers h) r rq = Parsed c"
    and "limit_dispatch (ec_max_query_limit (eh_config h)) (query_get rq ''limit'') (\<lambda>u. Inr ()) = Inr ()"
  shows "limited_request h rq st = run_call h rq c st"
  using assms by (simp add: limited_request_def route_request_def run_route_def app_gate_def)

lemma serve_out:
  "serve h fresh rq st = (resp, st') \<longleftrightarrow>
     resp = respond (request_id (hr_headers rq ''X-Request-ID'') fresh) (fst (limited_request h rq st)) \<and> st' = snd (limited_request h rq st)"
  by (auto simp: serve_def split: prod.splits)

text \<open>Every answer has the request's id in its header but the 500s, and a limit the middleware refuses reaches no handler.\<close>

lemma body_status_500: "body_status b \<noteq> 500"
  by (cases b) simp_all

lemma request_id_header:
  "serve h fresh rq st = (resp, st') \<Longrightarrow>
     rs_request_id resp = (if rs_status resp = 500 then None else Some (request_id (hr_headers rq ''X-Request-ID'') fresh))"
proof -
  assume "serve h fresh rq st = (resp, st')"
  then have resp: "resp = respond (request_id (hr_headers rq ''X-Request-ID'') fresh) (fst (limited_request h rq st))"
    by (simp add: serve_out)
  have "status_code e \<noteq> 500" for e using status_codes [of e] by auto
  then show ?thesis using body_status_500 by (auto simp: resp respond_def split: sum.splits web_exn.splits)
qed

lemma bad_limit_refused:
  assumes "query_get rq ''limit'' = Some raw" "\<nexists>n. py_int raw = Some n \<and> 1 \<le> n \<and> n \<le> ec_max_query_limit (eh_config h)"
  shows "rs_status (fst (serve h fresh rq st)) = 400 \<and> snd (serve h fresh rq st) = st"
proof -
  obtain e where "check_limit (ec_max_query_limit (eh_config h)) raw = Inl e"
    using assms(2) check_limit_ok [of "ec_max_query_limit (eh_config h)" raw]
    by (cases "check_limit (ec_max_query_limit (eh_config h)) raw") auto
  then show ?thesis
    using assms(1)
    by (auto simp: serve_def limited_request_def limit_dispatch_def bind_web_def respond_def check_limit_def split: option.splits if_splits)
qed

text \<open>The size of the page a call asks for.\<close>

fun page_size :: "api_call \<Rightarrow> nat option" where
  "page_size (CallSub (ListSubs l n a)) = Some l"
| "page_size (CallAccount (ListAccounts l n a)) = Some l"
| "page_size (CallPending r) = Some (pq_limit r)"
| "page_size c = None"

lemma at_least_default:
  assumes "at_least 1 (with_default parse d (query_get rq ''limit'')) = Some n" "1 \<le> d"
    "\<forall>s n m. parse s = Some n \<longrightarrow> py_int s = Some m \<longrightarrow> n = m"
    "limit_dispatch mx (query_get rq ''limit'') (\<lambda>u. Inr ()) = Inr ()"
  shows "1 \<le> n \<and> (if query_get rq ''limit'' = None then int n = d else int n \<le> mx)"
proof (cases "query_get rq ''limit''")
  case None
  then show ?thesis using assms(1,2) by (auto simp: at_least_def with_default_def split: if_splits)
next
  case (Some raw)
  obtain m where m: "py_int raw = Some m" "1 \<le> m" "m \<le> mx"
    using assms(4) Some by (auto simp: limit_dispatch_def bind_web_Inr_iff check_limit_ok)
  obtain k where k: "parse raw = Some k" "1 \<le> k" "n = nat k"
    using assms(1) Some by (auto simp: at_least_def with_default_def split: option.splits if_splits)
  have "k = m" using assms(3) k(1) m(1) by blast
  then show ?thesis using k m Some by auto
qed

lemma pending_call_limit:
  assumes "pending_call ps rq = Parsed c" "page_size c = Some n"
  shows "at_least 1 (with_default (ps_int ps) default_pending_limit (query_get rq ''limit'')) = Some n"
  using assms
  by (auto simp: pending_call_def parsed_map_def split: option.splits parsed.splits)

lemma page_call_limit:
  assumes "page_call ps rq f = Parsed c" "page_size c = Some n" "\<And>l k a. page_size (f l k a) = Some l"
  shows "at_least 1 (with_default (ps_int ps) 50 (query_get rq ''limit'')) = Some n"
  using assms
  by (auto simp: page_call_def pagination_def parsed_map_def split: option.splits parsed.splits)

lemma call_page_limit:
  assumes "call_of ps r rq = Parsed c" "page_size c = Some n"
  shows "at_least 1 (with_default (ps_int ps) (if r = EventsPending then default_pending_limit else 50) (query_get rq ''limit'')) = Some n"
  using assms pending_call_limit [of ps rq c n] page_call_limit [of ps rq _ c n]
  by (cases r) (auto simp: parsed_map_def split: parsed.splits)

subsection \<open>Properties\<close>

text \<open>C40: What a request without the admin key can do, whatever its method, path, parameters and body: it never changes the
  subscriptions, their cursors or the accounts; it changes the log only as an invoice signed with the webhook secret; and it is
  shown nothing of them, except a stream whose token it presents.\<close>

theorem request_without_key:
  assumes "require_admin (ec_admin_api_key (eh_config h)) (hr_headers rq ''Authorization'') (hr_headers rq ''X-API-Key'') \<noteq> Inr ()"
    and "serve h fresh rq st = (resp, st')"
  shows "ap_admin st' = ap_admin st \<and> ap_accounts st' = ap_accounts st \<and> (st' = st \<or> signed_invoice (eh_config h) rq)
    \<and> public_body rq (rs_body resp)"
proof -
  have "public_outcome (eh_config h) rq st (limited_request h rq st)" by (rule public_request [OF assms(1)])
  then show ?thesis using assms(2) by (auto simp: public_outcome_def serve_out respond_def split: sum.splits)
qed

text \<open>The page of every list request that passes the middleware is at least one row and at most the configured maximum, when the
  two readers of the number agree; a request without a limit gets the route's default, 50 or 100, which no one compares with the
  maximum.\<close>

theorem page_limit_bounded:
  assumes "\<forall>s n m. ps_int ps s = Some n \<longrightarrow> py_int s = Some m \<longrightarrow> n = m"
    and "limit_dispatch mx (query_get rq ''limit'') (\<lambda>u. Inr ()) = Inr ()"
    and "call_of ps r rq = Parsed c" "page_size c = Some n"
  shows "1 \<le> n \<and> (if query_get rq ''limit'' = None then int n = (if r = EventsPending then 100 else 50) else int n \<le> mx)"
  using at_least_default [OF call_page_limit [OF assms(3,4)] _ assms(1,2)] by (simp add: default_pending_limit_def split: if_splits)

subsection \<open>Concrete requests\<close>

definition example_parsers :: parsers where
  "example_parsers = \<lparr>ps_create = (\<lambda>b. Invalid), ps_update = (\<lambda>b. Invalid), ps_ref = (\<lambda>b. Parsed ''p1''), ps_account = (\<lambda>b. Invalid),
     ps_account_change = (\<lambda>b. Invalid), ps_alias = (\<lambda>b. NotJson), ps_account_ref = (\<lambda>b. Invalid), ps_read = (\<lambda>b. Parsed (''p1'', 1)),
     ps_int = py_int, ps_bool = (\<lambda>s. Some (s = ''true''))\<rparr>"

definition example_handle :: "(memory_subs, cursor_table, sql_accounts, unit, event_db) engine_handle" where
  "example_handle = \<lparr>eh_config = default_config\<lparr>ec_admin_api_key := ''admin''\<rparr>, eh_parsers = example_parsers,
     eh_subscriptions = example_poll_admin, eh_get = mr_get,
     eh_sub_env = \<lparr>env_admin_key = ''admin'', env_ip_text = (\<lambda>i. []), env_resolve = (\<lambda>s. Resolved []), env_alias_exists = None,
        env_now = the (from_timestamp_utc 0), env_fresh_id = ''s1'', env_fresh = ''f1'', env_head = 0\<rparr>,
     eh_accounts = example_account_ops, eh_account_env = example_account_env ''a1'', eh_polling = sql_poll_ops, eh_others = alone,
     eh_append = el_append, eh_other = ''other'', eh_parse_invoice = (\<lambda>b. None), eh_now = the (from_timestamp_utc 0),
     eh_ready = Inr True, eh_metrics = None\<rparr>"

definition example_app :: "(memory_subs, cursor_table, sql_accounts, unit, event_db) app_state" where
  "example_app = \<lparr>ap_admin = example_poll_state, ap_accounts = \<lparr>ts_repo = no_accounts, ts_engine = ()\<rparr>,
     ap_inbound = \<lparr>ib_log = example_poll_log, ib_seen = []\<rparr>\<rparr>"

text \<open>A deactivation with a wrong key.\<close>

definition example_request :: http_request where
  "example_request = \<lparr>hr_method = ''POST'', hr_path = ''/subscriptions/deactivate'',
     hr_headers = (\<lambda>n. if n = ''X-API-Key'' then Some ''guess'' else None), hr_query = [], hr_body = []\<rparr>"

theorem request_without_key_witness:
  "\<exists>resp st'. serve example_handle ''r1'' example_request example_app = (resp, st') \<and> rs_status resp = 401
     \<and> ap_admin st' = ap_admin example_app \<and> ap_accounts st' = ap_accounts example_app \<and> public_body example_request (rs_body resp)"
proof -
  have key: "require_admin (ec_admin_api_key (eh_config example_handle)) (hr_headers example_request ''Authorization'')
      (hr_headers example_request ''X-API-Key'') = Inl (Web (Unauthorized ''invalid admin key''))"
    by (simp add: example_handle_def example_request_def require_admin_def extract_bearer_def verify_admin_key_def ct_equal_iff)
  have route: "find_route (eh_config example_handle) example_request = Found SubDeactivate"
    by (simp add: find_route_def app_routes_def example_request_def)
  have gate: "app_gate (eh_config example_handle) SubDeactivate example_request = Inl (Web (Unauthorized ''invalid admin key''))"
    by (simp add: app_gate_def admin_route_def key)
  have call: "call_of (eh_parsers example_handle) SubDeactivate example_request = Parsed (CallSub (DeactivateSub ''p1''))"
    by (simp add: example_handle_def example_parsers_def parsed_map_def)
  have "query_get example_request ''limit'' = None" by (simp add: query_get_def example_request_def)
  then have res: "limited_request example_handle example_request example_app = (Inl (Web (Unauthorized ''invalid admin key'')), example_app)"
    by (simp add: limited_request_def limit_dispatch_def route_request_def route run_route_def gate call del: call_of.simps)
  obtain resp st' where out: "serve example_handle ''r1'' example_request example_app = (resp, st')" by fastforce
  then have "rs_status resp = 401" by (simp add: serve_out res respond_def)
  moreover have "require_admin (ec_admin_api_key (eh_config example_handle)) (hr_headers example_request ''Authorization'')
      (hr_headers example_request ''X-API-Key'') \<noteq> Inr ()" by (simp add: key)
  ultimately show ?thesis using request_without_key [OF _ out] out by blast
qed

theorem page_limit_bounded_witness:
  "call_of example_parsers SubList \<lparr>hr_method = ''GET'', hr_path = ''/subscriptions/list'', hr_headers = (\<lambda>n. None),
       hr_query = [(''limit'', ''9''), (''limit'', ''7'')], hr_body = []\<rparr> = Parsed (CallSub (ListSubs 7 0 False)) \<and> (1 :: nat) \<le> 7 \<and> int 7 \<le> 500"
proof -
  let ?rq = "\<lparr>hr_method = ''GET'', hr_path = ''/subscriptions/list'', hr_headers = (\<lambda>n. None),
    hr_query = [(''limit'', ''9''), (''limit'', ''7'')], hr_body = []\<rparr>"
  have seven: "py_int ''7'' = Some 7" by code_simp
  have q: "query_get ?rq ''limit'' = Some ''7''" "query_get ?rq ''offset'' = None" "query_get ?rq ''active_only'' = None"
    by (simp_all add: query_get_def)
  have call: "call_of example_parsers SubList ?rq = Parsed (CallSub (ListSubs 7 0 False))"
    by (simp add: page_call_def pagination_def q with_default_def at_least_def example_parsers_def seven parsed_opt_def parsed_map_def)
  have same: "\<forall>s n m. ps_int example_parsers s = Some n \<longrightarrow> py_int s = Some m \<longrightarrow> n = m" by (simp add: example_parsers_def)
  have pass: "limit_dispatch 500 (query_get ?rq ''limit'') (\<lambda>u. Inr ()) = Inr ()"
    by (simp add: q limit_dispatch_def check_limit_def seven min_limit_def)
  have "1 \<le> (7 :: nat) \<and> int 7 \<le> 500"
    using page_limit_bounded [OF same pass call, of 7] q by simp
  with call show ?thesis by blast
qed

end
