(* ===== verification/Entry_Points.thy ===== *)
theory Entry_Points
  imports Daemon_Ops Delivery Engine
begin

text \<open>
  How the process starts and ends: the commands of the daemon (\<open>main\<close> of \<open>__main__.py\<close>), its shutdown handler, the engine's stop
  request and the run of the webhook delivery (\<open>delivery/delivery.py\<close>). The reading of the arguments is the library's: it gives a
  command or the status the process exits with. The assembled server is an argument.
\<close>

datatype command = RunDaemon | Replay string int | Redrive string | Prune

text \<open>The SQL stores the commands work on.\<close>

record daemon_stores =
  ds_cursors :: cursor_table
  ds_letters :: dlq_db
  ds_log :: event_db

text \<open>What a command takes from outside: the server's run, the writes of others before a commit, the database's limit, the clock.\<close>

record daemon_world =
  dw_serve :: "engine_config \<Rightarrow> daemon_stores \<Rightarrow> (unit result \<times> daemon_stores) option"
  dw_between :: "cursor_table \<Rightarrow> cursor_table"
  dw_limit :: "nat \<Rightarrow> int list \<Rightarrow> int list"
  dw_now :: datetime

fun run_command ::
  "daemon_world \<Rightarrow> engine_config \<Rightarrow> command \<Rightarrow> daemon_stores \<Rightarrow> (unit result \<times> daemon_stores) option" where
  "run_command dw cfg RunDaemon s = dw_serve dw cfg s"
| "run_command dw cfg (Replay consumer from_seq) s =
     (case replay_cursor sql_ops (dw_between dw) consumer from_seq (ds_cursors s) of
        (r, c) \<Rightarrow> Some (r, s\<lparr>ds_cursors := c\<rparr>))"
| "run_command dw cfg (Redrive consumer) s =
     (case redrive sql_ops dq_drain (dw_between dw) consumer (ds_cursors s) (ds_letters s) of
        (r, c, d) \<Rightarrow> Some (r, s\<lparr>ds_cursors := c, ds_letters := d\<rparr>))"
| "run_command dw cfg Prune s =
     map_option (\<lambda>(r, l). (bind_result r (\<lambda>n. Inr ()), s\<lparr>ds_log := l\<rparr>))
       (prune_command (dw_limit dw) (dw_now dw) (ec_retention_months cfg) (ds_cursors s) (ds_log s))"

text \<open>The status of the process, or the exception it dies of; a command that never ends is None.\<close>

definition main ::
  "(string list \<Rightarrow> int + command) \<Rightarrow> engine_config result \<Rightarrow> daemon_world \<Rightarrow> string list \<Rightarrow> daemon_stores
     \<Rightarrow> (int result \<times> daemon_stores) option" where
  "main parse config dw argv s =
     (case parse argv of
        Inl status \<Rightarrow> Some (Inr status, s)
      | Inr cmd \<Rightarrow>
          (case config of
             Inl x \<Rightarrow> Some (Inl x, s)
           | Inr cfg \<Rightarrow> map_option (\<lambda>(r, s'). (bind_result r (\<lambda>u. Inr 0), s')) (run_command dw cfg cmd s)))"

text \<open>The flags a shutdown sets: the engine's, its source manager's, and the server's.\<close>

record stop_flags =
  sg_engine :: bool
  sg_sources :: bool
  sg_server :: bool

definition request_stop :: "stop_flags \<Rightarrow> stop_flags" where
  "request_stop f = f\<lparr>sg_engine := True, sg_sources := True\<rparr>"

definition shutdown :: "stop_flags \<Rightarrow> stop_flags" where
  "shutdown f = (request_stop f)\<lparr>sg_server := True\<rparr>"

text \<open>The delivery's run: the transport is closed however the bus ended; a failing close is what is raised.\<close>

definition delivery_run :: "('w \<Rightarrow> unit result \<times> 'w) \<Rightarrow> ('w \<Rightarrow> unit result \<times> 'w) \<Rightarrow> 'w \<Rightarrow> unit result \<times> 'w" where
  "delivery_run bus_run close w =
     (case bus_run w of (r, w1) \<Rightarrow> (case close w1 of (Inl x, w2) \<Rightarrow> (Inl x, w2) | (Inr u, w2) \<Rightarrow> (r, w2)))"

subsection \<open>Facts\<close>

text \<open>Each command writes only its own stores, and none but the daemon and the pruner can run for ever.\<close>

lemma command_stores:
  assumes "run_command dw cfg cmd s = Some (r, s')" "cmd \<noteq> RunDaemon"
  shows "(ds_log s' = ds_log s \<or> cmd = Prune) \<and> (ds_cursors s' = ds_cursors s \<or> cmd \<noteq> Prune)
    \<and> (ds_letters s' = ds_letters s \<or> (\<exists>c. cmd = Redrive c))"
  using assms by (cases cmd) (auto split: prod.splits)

lemma command_ends: "run_command dw cfg cmd s = None \<Longrightarrow> cmd = RunDaemon \<or> cmd = Prune"
  by (cases cmd) (auto split: prod.splits)

text \<open>A process that is told to exit by its arguments, or whose configuration is refused, touches nothing.\<close>

lemma main_refused:
  "parse argv = Inl status \<or> config = Inl x \<Longrightarrow> \<exists>r. main parse config dw argv s = Some (r, s)"
  by (auto simp: main_def split: sum.splits)

lemma main_status:
  assumes "main parse config dw argv s = Some (Inr status, s')"
  shows "parse argv = Inl status \<or> status = 0"
proof -
  have "bind_result r (\<lambda>u. Inr 0) = Inr n \<Longrightarrow> n = 0" for r :: "unit result" and n :: int by (cases r) auto
  then show ?thesis using assms by (auto simp: main_def split: sum.splits)
qed

end
