(* ===== verification/Spec2Isabelle.thy ===== *)
theory Spec2Isabelle
  imports Bus_Workers Source_Cadence Category_Source Payments_Source Notifications_Source Conversations_Source
    Rating_Source Guarantee_Source Source_Manager Engine_Config Webhook_Engine Subscription_Admin Delivery Secret_Box Account_Reconciler Polling Streams Inbound Daemon_Ops Auto_Update Engine Migrations Redis_Baseline Bus_Supervisor Local_Autobuy Web_App Entry_Points
begin

text \<open>
  \<^bold>\<open>lzt-eventus: a verification library\<close>

  lzt-eventus polls a marketplace, turns what changed into domain events, keeps them in an append-only log, and delivers the
  log to consumers in the process, to webhooks, to polling clients and to streams, each at its own cursor. This library models
  the Python program under \<open>src/\<close> (the engine in \<open>src/src/lzt_eventus\<close>, the two libraries in \<open>src/libs\<close>, the migrations in
  \<open>src/alembic\<close>, the updater and the probe in \<open>src/scripts\<close>, the example in \<open>src/examples\<close>) and proves what makes its parts
  correct. The paths below are relative to \<open>src/src/lzt_eventus\<close> unless they begin with one of the others.

  \<^bold>\<open>How the parts interact.\<close> The source manager runs one task per source. A source polls the upstream client, compares the
  answer with its durable baseline (or its seen cache) and appends the events together with the new baseline in one transaction
  of the log. An append notifies the bus, whose workers, one per consumer, read pages after the consumer's cursor, call the
  handler with retries, park what failed in the dead-letter store and commit the cursor after every event. Webhook delivery is a
  second bus whose consumers are the active webhook subscriptions. The web application works on the same stores: it registers
  subscriptions and accounts, serves pages and streams of the log and ingests the market's own webhooks. An account change runs
  the reconciler, which adds and removes sources of the manager. The lease keeps the whole to one process per database.

  \<^bold>\<open>Conventions.\<close> A string is a list of characters below 256, a Python integer an \<open>int\<close>, a float a rational number, a
  \<open>Decimal\<close> a coefficient with an exponent, bytes are \<open>8 word\<close>. A class is a record, an enum or a class tree a datatype, a
  dictionary that is iterated an association list in insertion order, a table the list of its rows by primary key. What Python
  raises is the left side of a sum, of the type \<open>exn\<close> (\<open>Errors\<close>) or \<open>web_exn\<close> (\<open>Web_Errors\<close>). Stateful code passes its state;
  where tasks interleave, an \<open>inductive\<close> relation has one step per piece of code between two awaits. The upstream client, the
  network, Redis, Git, the validation and web libraries, fresh identifiers and the clock are arguments; what a theorem needs of
  them is a named law. Logging and metrics are left out.

  \<^bold>\<open>Foundations.\<close> \<open>Eventus_Prelude\<close> has the rule collections and the facts on dictionaries, sorted logs and paging. \<open>Py_Text\<close>,
  \<open>Py_Datetime\<close>, \<open>Json_Text\<close>, \<open>Decimal_Text\<close> and \<open>Hashing\<close> model what the sources use of Python's standard library: text and
  number conversions, dates, \<open>json\<close>, \<open>decimal\<close>, and SHA-256, HMAC and UUID5 on bytes; the printers and readers come with their
  round trips. \<open>Errors\<close> is \<open>errors.py\<close>.

  \<^bold>\<open>Events and stores.\<close> \<open>Events\<close> (\<open>events/\<close>) and \<open>Event_Codec\<close> (\<open>codecs/json.py\<close>): the catalog, identifiers, the column and wire
  forms; a stored event keeps its wire shape and its signed bytes. \<open>Snapshot_Diff\<close> (\<open>diff/\<close>), \<open>Last_Seen\<close> (\<open>baseline/store.py\<close>,
  \<open>baseline/memory.py\<close>), \<open>Redis_Baseline\<close> (\<open>baseline/cache.py\<close>), \<open>Event_Log\<close> (\<open>log/\<close>), \<open>Cursors\<close> (\<open>cursor/\<close>), \<open>Dead_Letters\<close>
  (\<open>bus/dlq.py\<close>). Every store with an abstract class is a locale (\<open>last_seen_store\<close>, \<open>event_log\<close>, \<open>cursor_store\<close>,
  \<open>dead_letter_store\<close>, \<open>seen_cache\<close>, \<open>subscription_repo\<close>, \<open>account_repo\<close>) that states what a caller may rely on; it is interpreted
  for the in-memory and for the SQL implementation (qualifiers beginning with \<open>m\<close>, and with \<open>s\<close>, \<open>d\<close>, \<open>e\<close> or \<open>q\<close>), and the
  refinement theorems say that the two agree on any history of calls.

  \<^bold>\<open>Bus and delivery.\<close> \<open>Consumers\<close> (\<open>consumers/\<close>), \<open>Catch_Up_Bus\<close> (one pump of \<open>bus/catchup.py\<close>; locale \<open>bus_stores\<close>), \<open>Bus_Workers\<close>
  (a worker under appends, wakes, stops and crashes), \<open>Bus_Supervisor\<close> (\<open>CatchUpBus.run\<close>, membership changes, drain, the bound on
  concurrent pumps). \<open>Url_Safety\<close> and \<open>Webhook_Engine\<close> (\<open>libs/webhook_engine\<close>), \<open>Delivery\<close> (\<open>delivery/\<close>). The theorems: enough
  pumps reach the head with every wanted event handled or parked, in order; nothing is lost in any reachable state; whenever the
  supervisor rests, its workers are those of the live consumers; a webhook is sent once per event or parked.

  \<^bold>\<open>Sources.\<close> \<open>Source_Base\<close> (\<open>sources/base.py\<close>, \<open>dedup/seen.py\<close>, \<open>transport.py\<close>; locale \<open>source_stores\<close>), \<open>Source_Cadence\<close>
  (\<open>sources/rotation.py\<close> and the run loop), then one theory per source (\<open>Category_Source\<close>, \<open>Payments_Source\<close>,
  \<open>Notifications_Source\<close>, \<open>Conversations_Source\<close>, \<open>Rating_Source\<close>, \<open>Guarantee_Source\<close>) with the effect of a whole poll on log,
  baseline and seen cache, and \<open>Source_Manager\<close> (\<open>sources/manager.py\<close>) as a step relation.

  \<^bold>\<open>Subscriptions, accounts and the web.\<close> \<open>Web_Errors\<close>, \<open>Web_Security\<close> (\<open>web/base\<close>, \<open>web/middlewares\<close>, \<open>web/shared\<close>),
  \<open>Subscriptions\<close>, \<open>Subscription_Admin\<close>, \<open>Secret_Box\<close> (\<open>libs/secret_box\<close>), \<open>Token_Accounts\<close>, \<open>Token_Admin\<close>, \<open>Account_Reconciler\<close>,
  \<open>Polling\<close>, \<open>Streams\<close>, \<open>Inbound\<close> (the services, repositories and routes of those names), and \<open>Web_App\<close> (\<open>web/main.py\<close>), which
  takes a request through middlewares, router, gate and handler: without the admin key nothing is changed or shown but what is
  public, what a webhook secret signs, and a stream whose token is presented.

  \<^bold>\<open>The process.\<close> \<open>Engine_Config\<close> (\<open>config.py\<close>), \<open>Daemon_Lease\<close>, \<open>Daemon_Ops\<close> (\<open>daemon/\<close>, the commands), \<open>Engine\<close> (\<open>engine.py\<close>),
  \<open>Entry_Points\<close> (\<open>__main__.py\<close>), \<open>Migrations\<close> (\<open>alembic/versions\<close>), \<open>Auto_Update\<close> (\<open>scripts/autoupdate.py\<close>,
  \<open>scripts/health.py\<close>), \<open>Local_Autobuy\<close> (\<open>devkit/local.py\<close>, \<open>examples/autobuy\<close>).

  \<^bold>\<open>Loops, fuel and bounds.\<close> A loop over a page is structural recursion. A loop that may run for ever is a partial function whose
  None is not returning (\<open>prune_loop\<close>, \<open>active_webhooks\<close>, \<open>batches\<close>, \<open>autobuy_loop\<close>, \<open>wait_started\<close>); that it returns is a theorem of its own, with the condition when there is one (\<open>prune_ends_iff\<close>). A pump is
  bounded by its page, so catching up is stated for \<open>k\<close> pumps with \<open>k\<close> pages covering what is left. The confirm loop of polling
  recurses on the attempts left, as the code does. Sequence numbers are unbounded integers as in Python; the width of the SQL
  columns is not modelled. The runs that a worker, a supervisor or a stream may make are reachability in a step relation, without
  a bound.

  \<^bold>\<open>Not modelled, and why.\<close> The framing and parsing that belong to libraries (HTTP, the bodies, the arguments, the environment), the
  logging set-up, the Prometheus adapter (the engine never receives it), the SQLAlchemy and Alembic plumbing (\<open>orm/base.py\<close>,
  \<open>alembic/env.py\<close>), package re-exports, the abstract base classes other than as locales, and the shell scripts, which only call
  other programs. The rounding of \<open>NUMERIC\<close> columns, columns nobody reads back, characters above 255, infinities and NaN are
  outside the model. Cancellation of a task in the middle of a handler is a crash of its worker.
\<close>

end
